(* ===== verification/Rust_Str.thy ===== *)
theory Rust_Str
  imports Main "HOL-Library.Word" "HOL-Library.Sublist" "HOL-Library.List_Lexorder"
    "HOL-Library.Char_ord"
begin

text \<open>
  The prelude of the development: the part of Rust's \<open>core\<close> and \<open>std\<close> that the
  modelled code uses, and the generic lemmas and automation every component shares.

  A Rust \<open>str\<close> is its sequence of UTF-8 bytes, so it is modelled as a HOL \<open>string\<close>
  whose \<open>char\<close>s are bytes; a Rust \<open>char\<close> is modelled as its UTF-8 encoding, a
  \<open>string\<close> of one to four bytes. \<open>utf8_chars\<close> is \<open>str::chars\<close>, and \<open>valid_utf8\<close> is
  the invariant the Rust type carries. Positions are \<open>nat\<close>: a \<open>usize\<close> index into a
  \<open>str\<close> never exceeds \<open>isize::MAX\<close>, so the additions the code performs on positions do
  not wrap; numbers read from the text are kept at their width.
\<close>

section \<open>Automation collections\<close>

named_theorems scan_simps \<open>how a scanner moves over one lexeme of the text\<close>
named_theorems utf8_intros \<open>preservation of the UTF-8 boundary invariant\<close>

section \<open>Results\<close>

text \<open>A \<open>Result<T, E>\<close> is \<open>'e + 'a\<close>; \<open>rbind\<close> is the \<open>?\<close> operator.\<close>

definition rbind :: "'e + 'a \<Rightarrow> ('a \<Rightarrow> 'e + 'b) \<Rightarrow> 'e + 'b" where
  "rbind r f = (case r of Inl e \<Rightarrow> Inl e | Inr x \<Rightarrow> f x)"

lemma rbind_simps [simp]:
  "rbind (Inl e) f = Inl e"
  "rbind (Inr x) f = f x"
  by (simp_all add: rbind_def)

lemma rbind_eq_Inr: "rbind r f = Inr y \<longleftrightarrow> (\<exists>x. r = Inr x \<and> f x = Inr y)"
  by (cases r) simp_all

lemma rbind_InrE [elim]:
  assumes "rbind r f = Inr y"
  obtains x where "r = Inr x" "f x = Inr y"
  using assms by (auto simp: rbind_eq_Inr)

lemma rbind_assoc [simp]: "rbind (rbind r f) g = rbind r (\<lambda>x. rbind (f x) g)"
  by (cases r) simp_all

lemma rbind_cong [fundef_cong]:
  "r = r' \<Longrightarrow> (\<And>x. r' = Inr x \<Longrightarrow> f x = f' x) \<Longrightarrow> rbind r f = rbind r' f'"
  by (cases r') simp_all

text \<open>\<open>guard_err c e\<close> is \<open>if c { return Err(e); }\<close>.\<close>

definition guard_err :: "bool \<Rightarrow> 'e \<Rightarrow> 'e + unit" where
  "guard_err c e = (if c then Inl e else Inr ())"

lemma guard_err_simps [simp]:
  "guard_err True e = Inl e"
  "guard_err False e = Inr ()"
  "guard_err c e = Inr u \<longleftrightarrow> \<not> c"
  by (simp_all add: guard_err_def)

text \<open>\<open>for x in xs { f(x)?; }\<close> with a state threaded through.\<close>

fun rfold :: "('a \<Rightarrow> 's \<Rightarrow> 'e + 's) \<Rightarrow> 'a list \<Rightarrow> 's \<Rightarrow> 'e + 's" where
  "rfold f [] s = Inr s"
| "rfold f (x # xs) s = rbind (f x s) (rfold f xs)"

section \<open>Bytes\<close>

abbreviation LF :: char where "LF \<equiv> CHR 0x0A"
abbreviation CR :: char where "CR \<equiv> CHR 0x0D"
abbreviation TAB :: char where "TAB \<equiv> CHR 0x09"
abbreviation SP :: char where "SP \<equiv> CHR 0x20"
abbreviation DQ :: char where "DQ \<equiv> CHR 0x22"
abbreviation BSL :: char where "BSL \<equiv> CHR 0x5C"

abbreviation byte :: "char \<Rightarrow> nat" where "byte \<equiv> of_char"

definition is_ascii :: "char \<Rightarrow> bool" where
  "is_ascii b \<longleftrightarrow> byte b < 128"

definition is_cont :: "char \<Rightarrow> bool" where
  "is_cont b \<longleftrightarrow> 128 \<le> byte b \<and> byte b < 192"

definition is_digit :: "char \<Rightarrow> bool" where
  "is_digit b \<longleftrightarrow> 48 \<le> byte b \<and> byte b \<le> 57"

definition is_upper :: "char \<Rightarrow> bool" where
  "is_upper b \<longleftrightarrow> 65 \<le> byte b \<and> byte b \<le> 90"

definition is_lower :: "char \<Rightarrow> bool" where
  "is_lower b \<longleftrightarrow> 97 \<le> byte b \<and> byte b \<le> 122"

abbreviation is_alpha :: "char \<Rightarrow> bool" where
  "is_alpha b \<equiv> is_upper b \<or> is_lower b"

abbreviation is_alnum :: "char \<Rightarrow> bool" where
  "is_alnum b \<equiv> is_alpha b \<or> is_digit b"

lemma ascii_not_cont: "is_ascii b \<Longrightarrow> \<not> is_cont b"
  by (simp add: is_ascii_def is_cont_def)

lemma digit_ascii: "is_digit b \<Longrightarrow> is_ascii b"
  by (simp add: is_ascii_def is_digit_def)

text \<open>\<open>u8 as char\<close> pushed to a \<open>String\<close>: the UTF-8 encoding of the Latin-1 code point.\<close>

definition latin1_utf8 :: "char \<Rightarrow> string" where
  "latin1_utf8 b = (if byte b < 128 then [b]
     else [char_of (192 + byte b div 64), char_of (128 + byte b mod 64)])"

lemma latin1_ascii [simp]: "is_ascii b \<Longrightarrow> latin1_utf8 b = [b]"
  by (simp add: latin1_utf8_def is_ascii_def)

definition latin1_str :: "string \<Rightarrow> string" where
  "latin1_str s = concat (map latin1_utf8 s)"

lemma latin1_str_simps [simp]:
  "latin1_str [] = []"
  "latin1_str (b # s) = latin1_utf8 b @ latin1_str s"
  by (simp_all add: latin1_str_def)

lemma latin1_str_ascii [simp]: "list_all is_ascii s \<Longrightarrow> latin1_str s = s"
  by (induction s) simp_all

section \<open>UTF-8\<close>

text \<open>The width the leading byte of a character announces.\<close>

definition char_width :: "char \<Rightarrow> nat" where
  "char_width b = (if byte b < 128 then 1 else if byte b < 224 then 2
     else if byte b < 240 then 3 else 4)"

lemma char_width_pos [simp]: "0 < char_width b" "char_width b \<noteq> 0"
  by (simp_all add: char_width_def)

lemma char_width_ascii [simp]: "is_ascii b \<Longrightarrow> char_width b = 1"
  by (simp add: char_width_def is_ascii_def)

text \<open>\<open>str::chars\<close>, each character as its encoding.\<close>

fun utf8_chars :: "string \<Rightarrow> string list" where
  "utf8_chars [] = []"
| "utf8_chars (b # s) =
     (b # take (char_width b - 1) s) # utf8_chars (drop (char_width b - 1) s)"

text \<open>One well-formed character (Unicode table 3-7: no overlong form, no surrogate).\<close>

definition second_ok :: "char \<Rightarrow> char \<Rightarrow> bool" where
  "second_ok a b = (if byte a = 224 then 160 \<le> byte b \<and> byte b < 192
     else if byte a = 237 then 128 \<le> byte b \<and> byte b < 160
     else if byte a = 240 then 144 \<le> byte b \<and> byte b < 192
     else if byte a = 244 then 128 \<le> byte b \<and> byte b < 144
     else is_cont b)"

definition lead_ok :: "char \<Rightarrow> bool" where
  "lead_ok a \<longleftrightarrow> byte a < 128 \<or> (194 \<le> byte a \<and> byte a < 245)"

fun char_ok :: "string \<Rightarrow> bool" where
  "char_ok [] = False"
| "char_ok (a # r) = (lead_ok a \<and> length r = char_width a - 1 \<and>
     (case r of [] \<Rightarrow> True | b # t \<Rightarrow> second_ok a b \<and> list_all is_cont t))"

definition valid_utf8 :: "string \<Rightarrow> bool" where
  "valid_utf8 s = list_all char_ok (utf8_chars s)"

lemma concat_utf8_chars [simp]: "concat (utf8_chars s) = s"
  by (induction s rule: utf8_chars.induct) simp_all

lemma second_ok_cont: "second_ok a b \<Longrightarrow> is_cont b"
  by (auto simp: second_ok_def is_cont_def split: if_splits)

lemma lead_not_cont: "lead_ok a \<Longrightarrow> \<not> is_cont a"
  by (auto simp: lead_ok_def is_cont_def)

lemma utf8_chars_ascii: "list_all is_ascii s \<Longrightarrow> utf8_chars s = map (\<lambda>b. [b]) s"
  by (induction s) simp_all

lemma valid_utf8_ascii: "list_all is_ascii s \<Longrightarrow> valid_utf8 s"
  by (induction s) (simp_all add: valid_utf8_def lead_ok_def is_ascii_def utf8_chars_ascii)

text \<open>
  \<open>str::is_char_boundary\<close> at the start of a suffix: the suffix is empty or does not start
  with a continuation byte. What the byte scanners need of a valid \<open>str\<close> is local: no
  continuation byte follows an ASCII byte, and the text starts at a boundary.
\<close>

definition boundary :: "string \<Rightarrow> bool" where
  "boundary s = (case s of [] \<Rightarrow> True | b # _ \<Rightarrow> \<not> is_cont b)"

definition ascii_sep :: "string \<Rightarrow> bool" where
  "ascii_sep s = successively (\<lambda>a b. \<not> (is_ascii a \<and> is_cont b)) s"

lemma boundary_simps [simp]: "boundary []" "boundary (b # s) \<longleftrightarrow> \<not> is_cont b"
  by (simp_all add: boundary_def)

lemma ascii_sep_simps [simp]:
  "ascii_sep []"
  "ascii_sep (a # s) \<longleftrightarrow> (is_ascii a \<longrightarrow> boundary s) \<and> ascii_sep s"
  by (cases s; auto simp: ascii_sep_def)+

lemma char_ok_ascii_sep:
  assumes "char_ok c" "ascii_sep s" "boundary s"
  shows "ascii_sep (c @ s) \<and> boundary (c @ s)"
proof (cases c)
  case Nil
  with assms show ?thesis by simp
next
  case (Cons a r)
  have cont: "list_all is_cont r"
    using assms(1) Cons by (cases r) (auto dest: second_ok_cont)
  have tail: "ascii_sep (r @ s)" if "list_all is_cont r" for r
    using that assms(2) by (induction r) (auto simp: is_cont_def is_ascii_def)
  have "r = []" if "is_ascii a"
    using assms(1) Cons that by simp
  with assms Cons tail [OF cont] lead_not_cont show ?thesis by auto
qed

lemma valid_utf8_ascii_sep: "valid_utf8 s \<Longrightarrow> ascii_sep s \<and> boundary s"
proof -
  have "ascii_sep (concat cs) \<and> boundary (concat cs)" if "list_all char_ok cs" for cs
    using that by (induction cs) (auto dest: char_ok_ascii_sep)
  from this [of "utf8_chars s"] show "valid_utf8 s \<Longrightarrow> ascii_sep s \<and> boundary s"
    by (simp add: valid_utf8_def)
qed

lemma ascii_sep_append [simp]:
  "ascii_sep (s @ t) \<longleftrightarrow> ascii_sep s \<and> ascii_sep t \<and>
     (s \<noteq> [] \<and> is_ascii (last s) \<longrightarrow> boundary t)"
  by (cases t) (auto simp: ascii_sep_def successively_append_iff)

lemma ascii_sep_suffix: "ascii_sep s \<Longrightarrow> suffix t s \<Longrightarrow> ascii_sep t"
  by (auto simp: suffix_def)

lemma ascii_sep_drop [utf8_intros]: "ascii_sep s \<Longrightarrow> ascii_sep (drop n s)"
  by (rule ascii_sep_suffix) (auto simp: suffix_drop)

lemma ascii_sep_dropWhile [utf8_intros]: "ascii_sep s \<Longrightarrow> ascii_sep (dropWhile P s)"
  by (rule ascii_sep_suffix) (auto simp: suffix_dropWhile)

lemma boundary_ascii: "is_ascii b \<Longrightarrow> boundary (b # s)"
  by (simp add: ascii_not_cont)

text \<open>Stopping at an ASCII byte, or at the end, is stopping at a boundary.\<close>

lemma boundary_dropWhile [utf8_intros]:
  "(\<And>b. b \<in> set s \<Longrightarrow> \<not> P b \<Longrightarrow> is_ascii b) \<Longrightarrow> boundary (dropWhile P s)"
  by (induction s) (auto simp: ascii_not_cont)

text \<open>
  \<open>String::from_utf8_lossy\<close>: every maximal ill-formed part becomes U+FFFD. \<open>bad_len\<close> is
  the length of the ill-formed part at the head of \<open>s\<close>: the longest proper prefix of a
  character, or one byte.
\<close>

definition replacement_char :: string where
  "replacement_char = [CHR 0xEF, CHR 0xBF, CHR 0xBD]"

fun bad_len :: "string \<Rightarrow> nat" where
  "bad_len [] = 1"
| "bad_len (a # r) = (if \<not> lead_ok a then 1
     else case r of [] \<Rightarrow> 1
     | b # r' \<Rightarrow> if \<not> second_ok a b then 1
       else case r' of [] \<Rightarrow> 2
       | c # _ \<Rightarrow> if \<not> is_cont c then 2 else 3)"

lemma bad_len_pos [simp]: "0 < bad_len s"
  by (cases s rule: bad_len.cases) (simp_all split: list.splits)

function from_utf8_lossy :: "string \<Rightarrow> string" where
  "from_utf8_lossy [] = []"
| "from_utf8_lossy (a # s) =
     (let c = take (char_width a) (a # s) in
      if char_ok c then c @ from_utf8_lossy (drop (char_width a) (a # s))
      else replacement_char @ from_utf8_lossy (drop (bad_len (a # s)) (a # s)))"
  by pat_completeness auto
termination
proof (relation "measure length")
  have "length (drop n (a # s)) < length (a # s)" if "0 < n" for n a and s :: string
    using that by simp
  then show "\<And>a s x. x = take (char_width a) (a # s) \<Longrightarrow> char_ok x \<Longrightarrow>
      (drop (char_width a) (a # s), a # s) \<in> measure length"
    "\<And>a s x. x = take (char_width a) (a # s) \<Longrightarrow> \<not> char_ok x \<Longrightarrow>
      (drop (bad_len (a # s)) (a # s), a # s) \<in> measure length"
    by (simp_all only: in_measure char_width_pos bad_len_pos)
qed simp

lemma from_utf8_lossy_valid: "valid_utf8 s \<Longrightarrow> from_utf8_lossy s = s"
proof (induction s rule: utf8_chars.induct)
  case 1
  then show ?case by simp
next
  case (2 b s)
  have "take (char_width b) (b # s) = b # take (char_width b - 1) s"
    "drop (char_width b) (b # s) = drop (char_width b - 1) s"
    by (cases "char_width b"; simp)+
  with 2 show ?case
    by (simp add: valid_utf8_def Let_def del: char_ok.simps)
qed

section \<open>ASCII case and comparison\<close>

definition ascii_lower :: "char \<Rightarrow> char" where
  "ascii_lower b = (if is_upper b then char_of (byte b + 32) else b)"

definition ascii_upper :: "char \<Rightarrow> char" where
  "ascii_upper b = (if is_lower b then char_of (byte b - 32) else b)"

abbreviation to_lower :: "string \<Rightarrow> string" where
  "to_lower s \<equiv> map ascii_lower s"

definition eq_nocase :: "string \<Rightarrow> string \<Rightarrow> bool" where
  "eq_nocase s t \<longleftrightarrow> to_lower s = to_lower t"

lemma ascii_lower_idem [simp]: "ascii_lower (ascii_lower b) = ascii_lower b"
  by (auto simp: ascii_lower_def is_upper_def of_char_of)

lemma eq_nocase_refl [simp]: "eq_nocase s s"
  by (simp add: eq_nocase_def)

lemma eq_nocase_sym: "eq_nocase s t \<longleftrightarrow> eq_nocase t s"
  by (auto simp: eq_nocase_def)

lemma eq_nocase_trans: "eq_nocase s t \<Longrightarrow> eq_nocase t u \<Longrightarrow> eq_nocase s u"
  by (simp add: eq_nocase_def)

section \<open>Unicode predicates the code uses\<close>

text \<open>\<open>char::is_whitespace\<close>: the Unicode \<open>White_Space\<close> property, as encodings.\<close>

definition ws_chars :: "string list" where
  "ws_chars = [[TAB], [LF], [CHR 0x0B], [CHR 0x0C], [CR], [SP],
     [CHR 0xC2, CHR 0x85], [CHR 0xC2, CHR 0xA0], [CHR 0xE1, CHR 0x9A, CHR 0x80]]
   @ map (\<lambda>n. [CHR 0xE2, CHR 0x80, char_of n]) [128..<139]
   @ [[CHR 0xE2, CHR 0x80, CHR 0xA8], [CHR 0xE2, CHR 0x80, CHR 0xA9],
     [CHR 0xE2, CHR 0x80, CHR 0xAF], [CHR 0xE2, CHR 0x81, CHR 0x9F],
     [CHR 0xE3, CHR 0x80, CHR 0x80]]"

definition is_ws :: "string \<Rightarrow> bool" where
  "is_ws c \<longleftrightarrow> c \<in> set ws_chars"

text \<open>\<open>char::is_control\<close>: the category \<open>Cc\<close>.\<close>

definition is_control :: "string \<Rightarrow> bool" where
  "is_control c = (case c of [b] \<Rightarrow> byte b < 32 \<or> byte b = 127
     | [a, b] \<Rightarrow> a = CHR 0xC2 \<and> 128 \<le> byte b \<and> byte b < 160 | _ \<Rightarrow> False)"

section \<open>String operations of the standard library\<close>

definition drop_ws :: "string list \<Rightarrow> string list" where
  "drop_ws = dropWhile is_ws"

definition trim_start :: "string \<Rightarrow> string" where
  "trim_start s = concat (drop_ws (utf8_chars s))"

definition trim_end :: "string \<Rightarrow> string" where
  "trim_end s = concat (rev (drop_ws (rev (utf8_chars s))))"

definition trim :: "string \<Rightarrow> string" where
  "trim s = concat (rev (drop_ws (rev (drop_ws (utf8_chars s)))))"

text \<open>\<open>trim_start_matches\<close> and \<open>trim_end_matches\<close> for a set of ASCII bytes.\<close>

abbreviation trim_start_bytes :: "char set \<Rightarrow> string \<Rightarrow> string" where
  "trim_start_bytes C s \<equiv> dropWhile (\<lambda>b. b \<in> C) s"

definition trim_end_bytes :: "char set \<Rightarrow> string \<Rightarrow> string" where
  "trim_end_bytes C s = rev (dropWhile (\<lambda>b. b \<in> C) (rev s))"

text \<open>\<open>split_whitespace\<close>: the maximal runs of non-whitespace characters.\<close>

fun ws_words :: "string \<Rightarrow> string list \<Rightarrow> string list" where
  "ws_words acc [] = (if acc = [] then [] else [acc])"
| "ws_words acc (c # cs) =
     (if is_ws c then (if acc = [] then ws_words [] cs else acc # ws_words [] cs)
      else ws_words (acc @ c) cs)"

definition split_whitespace :: "string \<Rightarrow> string list" where
  "split_whitespace s = ws_words [] (utf8_chars s)"

text \<open>\<open>str::split\<close> on one ASCII byte.\<close>

fun split_on :: "char \<Rightarrow> string \<Rightarrow> string list" where
  "split_on c [] = [[]]"
| "split_on c (b # s) = (if b = c then [] # split_on c s
     else case split_on c s of [] \<Rightarrow> [[b]] | w # ws \<Rightarrow> (b # w) # ws)"

definition split_once :: "char \<Rightarrow> string \<Rightarrow> (string \<times> string) option" where
  "split_once c s = (if c \<in> set s
     then Some (takeWhile (\<lambda>b. b \<noteq> c) s, tl (dropWhile (\<lambda>b. b \<noteq> c) s)) else None)"

definition rsplit_once :: "char \<Rightarrow> string \<Rightarrow> (string \<times> string) option" where
  "rsplit_once c s = (case split_once c (rev s) of None \<Rightarrow> None
     | Some (r, l) \<Rightarrow> Some (rev l, rev r))"

definition strip_prefix :: "string \<Rightarrow> string \<Rightarrow> string option" where
  "strip_prefix p s = (if prefix p s then Some (drop (length p) s) else None)"

definition strip_suffix :: "string \<Rightarrow> string \<Rightarrow> string option" where
  "strip_suffix p s = (if suffix p s then Some (take (length s - length p) s) else None)"

text \<open>\<open>str::split_inclusive('\n')\<close>, and \<open>str::lines\<close>, which drops each line's ending.\<close>

fun split_lines :: "string \<Rightarrow> string list" where
  "split_lines [] = []"
| "split_lines (b # s) = (if b = LF then [LF] # split_lines s
     else case split_lines s of [] \<Rightarrow> [[b]] | w # ws \<Rightarrow> (b # w) # ws)"

definition line_body :: "string \<Rightarrow> string" where
  "line_body l = (case strip_suffix [LF] l of None \<Rightarrow> l
     | Some l' \<Rightarrow> (case strip_suffix [CR] l' of None \<Rightarrow> l' | Some l'' \<Rightarrow> l''))"

definition str_lines :: "string \<Rightarrow> string list" where
  "str_lines s = map line_body (split_lines s)"

lemma concat_split_lines [simp]: "concat (split_lines s) = s"
  by (induction s rule: split_lines.induct) (auto split: list.splits)

lemma split_lines_nonempty: "l \<in> set (split_lines s) \<Longrightarrow> l \<noteq> []"
  by (induction s arbitrary: l rule: split_lines.induct) (auto split: list.splits if_splits)

lemma split_lines_line [simp]: "LF \<notin> set l \<Longrightarrow> split_lines (l @ LF # s) = (l @ [LF]) # split_lines s"
  by (induction l) auto

lemma split_once_append [simp]:
  "c \<notin> set l \<Longrightarrow> split_once c (l @ c # r) = Some (l, r)"
  by (induction l) (auto simp: split_once_def)

lemma split_once_SomeD:
  assumes "split_once c s = Some (l, r)"
  shows "s = l @ c # r \<and> c \<notin> set l"
proof -
  have c: "c \<in> set s" and l: "l = takeWhile (\<lambda>b. b \<noteq> c) s"
    and r: "r = tl (dropWhile (\<lambda>b. b \<noteq> c) s)"
    using assms by (auto simp: split_once_def split: if_splits)
  have "dropWhile (\<lambda>b. b \<noteq> c) s = c # r"
    using c r by (induction s) auto
  with l have "s = l @ c # r"
    by (metis takeWhile_dropWhile_id)
  moreover have "c \<notin> set l"
    using l by (auto dest: set_takeWhileD)
  ultimately show ?thesis ..
qed

lemma rsplit_once_SomeD:
  assumes "rsplit_once c s = Some (l, r)"
  shows "s = l @ c # r \<and> c \<notin> set r"
proof -
  from assms have "split_once c (rev s) = Some (rev r, rev l)"
    by (auto simp: rsplit_once_def split: option.splits)
  then have "rev s = rev r @ c # rev l \<and> c \<notin> set r"
    by (auto dest: split_once_SomeD)
  then show ?thesis by (metis append.assoc append_Cons append_Nil rev_append rev_rev_ident rev.simps(2))
qed

lemma rsplit_once_append [simp]:
  "c \<notin> set r \<Longrightarrow> rsplit_once c (l @ c # r) = Some (l, r)"
  using split_once_append [of c "rev r" "rev l"] by (simp add: rsplit_once_def)

lemma strip_prefix_append [simp]: "strip_prefix p (p @ s) = Some s"
  by (simp add: strip_prefix_def)

lemma strip_prefix_eq_Some: "strip_prefix p s = Some r \<longleftrightarrow> s = p @ r"
  by (auto simp: strip_prefix_def prefix_def)

lemma trim_end_bytes_id [simp]: "set s \<inter> C = {} \<Longrightarrow> trim_end_bytes C s = s"
  by (cases "rev s") (auto simp: trim_end_bytes_def)

text \<open>\<open>[T]::join\<close>.\<close>

fun join :: "'a list \<Rightarrow> 'a list list \<Rightarrow> 'a list" where
  "join sep [] = []"
| "join sep [t] = t"
| "join sep (t # ts) = t @ sep @ join sep ts"

section \<open>Numbers\<close>

text \<open>Decimal printing of an unsigned number, and \<open>str::parse\<close> at a bound.\<close>

definition digit_char :: "nat \<Rightarrow> char" where
  "digit_char d = char_of (48 + d)"

fun dec_str :: "nat \<Rightarrow> string" where
  "dec_str n = (if n < 10 then [digit_char n] else dec_str (n div 10) @ [digit_char (n mod 10)])"

declare dec_str.simps [simp del]

definition dec_value :: "string \<Rightarrow> nat" where
  "dec_value s = foldl (\<lambda>v b. 10 * v + (byte b - 48)) 0 s"

definition parse_digits :: "nat \<Rightarrow> string \<Rightarrow> nat option" where
  "parse_digits m s = (if s \<noteq> [] \<and> list_all is_digit s \<and> dec_value s \<le> m
     then Some (dec_value s) else None)"

text \<open>\<open>u64::from_str\<close> and its kin accept one leading \<open>+\<close>.\<close>

definition parse_uint :: "nat \<Rightarrow> string \<Rightarrow> nat option" where
  "parse_uint m s = (case s of b # r \<Rightarrow> if b = CHR ''+'' then parse_digits m r else parse_digits m s
     | [] \<Rightarrow> None)"

lemma digit_char_byte [simp]: "d < 10 \<Longrightarrow> byte (digit_char d) = 48 + d"
  by (simp add: digit_char_def of_char_of)

lemma digit_char_digit [simp]: "d < 10 \<Longrightarrow> is_digit (digit_char d)"
  by (simp add: is_digit_def)

lemma dec_str_digits: "list_all is_digit (dec_str n)"
  by (induction n rule: dec_str.induct) (subst dec_str.simps, simp)

lemma dec_str_nonempty [simp]: "dec_str n \<noteq> []"
  by (subst dec_str.simps) simp

lemma dec_value_str [simp]: "dec_value (dec_str n) = n"
proof (induction n rule: dec_str.induct)
  case (1 n)
  have snoc: "dec_value (s @ [b]) = 10 * dec_value s + (byte b - 48)" for s b
    by (simp add: dec_value_def)
  show ?case
  proof (cases "n < 10")
    case True
    then show ?thesis by (subst dec_str.simps) (simp add: dec_value_def)
  next
    case False
    with 1 have "dec_value (dec_str (n div 10)) = n div 10" by simp
    with False show ?thesis
      by (subst dec_str.simps) (simp add: snoc)
  qed
qed

lemma dec_value_fold: "foldl (\<lambda>v b. 10 * v + (byte b - 48)) n s = n * 10 ^ length s + dec_value s"
proof (induction s arbitrary: n)
  case (Cons b s)
  show ?case
    using Cons.IH [of "10 * n + (byte b - 48)"] Cons.IH [of "byte b - 48"]
    by (simp add: dec_value_def algebra_simps)
qed (simp add: dec_value_def)

lemma dec_value_simps:
  "dec_value [] = 0" "dec_value (b # s) = (byte b - 48) * 10 ^ length s + dec_value s"
  using dec_value_fold [of "byte b - 48" s] by (simp_all add: dec_value_def)

lemma dec_value_less: "list_all is_digit s \<Longrightarrow> dec_value s < 10 ^ length s"
proof (induction s)
  case (Cons b s)
  then have "byte b - 48 \<le> 9" by (auto simp: is_digit_def)
  then have "(byte b - 48) * 10 ^ length s \<le> 9 * 10 ^ length s" by (rule mult_right_mono) simp
  moreover have "dec_value s < 10 ^ length s" using Cons by simp
  moreover have "10 ^ length (b # s) = 10 * (10 ^ length s :: nat)" by simp
  ultimately show ?case unfolding dec_value_simps by linarith
qed (simp add: dec_value_simps)

lemma parse_digits_dec_str [simp]: "n \<le> m \<Longrightarrow> parse_digits m (dec_str n) = Some n"
  by (simp add: parse_digits_def dec_str_digits)

lemma parse_uint_dec_str [simp]:
  assumes "n \<le> m"
  shows "parse_uint m (dec_str n) = Some n"
proof (cases "dec_str n")
  case Nil
  then show ?thesis by simp
next
  case (Cons b r)
  have "is_digit b" using dec_str_digits [of n] Cons by simp
  then have plus: "b \<noteq> CHR ''+''" by (auto simp: is_digit_def)
  have "parse_uint m (b # r) = parse_digits m (b # r)"
    using plus by (simp add: parse_uint_def)
  then show ?thesis using Cons parse_digits_dec_str [OF assms] by simp
qed

section \<open>Concatenating valid texts\<close>

lemma char_ok_length: "char_ok ch \<Longrightarrow> length ch = char_width (hd ch) \<and> ch \<noteq> []"
proof (cases ch)
  case (Cons a r)
  assume "char_ok ch"
  with Cons have "length r = char_width a - 1" by simp
  with Cons char_width_pos [of a] show ?thesis by simp
qed simp

lemma utf8_chars_Cons_ok: "char_ok ch \<Longrightarrow> utf8_chars (ch @ s) = ch # utf8_chars s"
proof -
  assume ok: "char_ok ch"
  then obtain a r where "ch = a # r" by (cases ch) auto
  with ok show ?thesis by simp
qed

lemma utf8_chars_concat: "list_all char_ok cs \<Longrightarrow> utf8_chars (concat cs) = cs"
  by (induction cs) (simp_all add: utf8_chars_Cons_ok)

lemma valid_utf8_concat: "list_all char_ok cs \<Longrightarrow> valid_utf8 (concat cs)"
  by (simp add: valid_utf8_def utf8_chars_concat)

lemma utf8_chars_append: "valid_utf8 s \<Longrightarrow> utf8_chars (s @ t) = utf8_chars s @ utf8_chars t"
proof -
  have "utf8_chars (concat cs @ t) = cs @ utf8_chars t" if "list_all char_ok cs" for cs
    using that by (induction cs) (simp_all add: utf8_chars_Cons_ok)
  from this [of "utf8_chars s"] show "valid_utf8 s \<Longrightarrow> ?thesis" by (simp add: valid_utf8_def)
qed

lemma valid_utf8_append [utf8_intros]: "valid_utf8 s \<Longrightarrow> valid_utf8 t \<Longrightarrow> valid_utf8 (s @ t)"
  by (simp add: valid_utf8_def utf8_chars_append [unfolded valid_utf8_def])

text \<open>Splitting a valid text at a boundary gives valid texts.\<close>

lemma char_ok_tail: "char_ok (a # r) \<Longrightarrow> list_all is_cont r"
  by (cases r) (auto dest: second_ok_cont)

lemma concat_chars_split:
  "list_all char_ok cs \<Longrightarrow> concat cs = s @ t \<Longrightarrow> boundary t \<Longrightarrow>
   \<exists>ds es. cs = ds @ es \<and> s = concat ds \<and> t = concat es"
proof (induction cs arbitrary: s)
  case (Cons c cs)
  show ?case
  proof (cases "s = []")
    case True
    with Cons.prems show ?thesis by (intro exI [of _ "[]"] exI [of _ "c # cs"]) simp
  next
    case False
    have "length c \<le> length s"
    proof (rule ccontr)
      assume "\<not> length c \<le> length s"
      then obtain u where u: "c = s @ u" "u \<noteq> []" "t = u @ concat cs"
        using Cons.prems(2) by (auto simp: append_eq_append_conv2 not_le)
      then obtain b v where b: "u = b # v" by (cases u) auto
      with False u(1) obtain a r where c: "c = a # r" "b \<in> set r" by (cases s) auto
      have "char_ok c" using Cons.prems(1) by simp
      then have "list_all is_cont r" unfolding c(1) by (rule char_ok_tail)
      then have "is_cont b" using c(2) by (simp add: list_all_iff)
      with Cons.prems(3) u(3) b show False by simp
    qed
    then obtain s' where s': "s = c @ s'" "concat cs = s' @ t"
      using Cons.prems(2) by (auto simp: append_eq_append_conv2)
    with Cons.IH [of s'] Cons.prems obtain ds es where
      "cs = ds @ es" "s' = concat ds" "t = concat es" by auto
    with s' show ?thesis by (intro exI [of _ "c # ds"] exI [of _ es]) simp
  qed
qed simp

lemma valid_utf8_split:
  assumes "valid_utf8 (s @ t)" "boundary t"
  shows "valid_utf8 s \<and> valid_utf8 t"
proof -
  have "list_all char_ok (utf8_chars (s @ t))" using assms(1) by (simp add: valid_utf8_def)
  from concat_chars_split [OF this concat_utf8_chars assms(2)]
  obtain ds es where ds: "utf8_chars (s @ t) = ds @ es" "s = concat ds" "t = concat es" by blast
  with assms(1) have "list_all char_ok ds" "list_all char_ok es"
    by (auto simp: valid_utf8_def)
  with ds show ?thesis by (simp add: valid_utf8_concat)
qed

lemma valid_utf8_boundary: "valid_utf8 s \<Longrightarrow> boundary s"
  using valid_utf8_ascii_sep by blast

lemma valid_utf8_Cons: "is_ascii b \<Longrightarrow> valid_utf8 (b # s) \<longleftrightarrow> valid_utf8 s"
  by (simp add: valid_utf8_def lead_ok_def is_ascii_def [symmetric])

lemma valid_utf8_snoc: "is_ascii b \<Longrightarrow> valid_utf8 (s @ [b]) \<Longrightarrow> valid_utf8 s"
  using valid_utf8_split [of s "[b]"] by (simp add: ascii_not_cont)

lemma valid_utf8_Nil [simp]: "valid_utf8 []"
  by (simp add: valid_utf8_def)

lemma valid_utf8_dropWhile [utf8_intros]:
  "valid_utf8 s \<Longrightarrow> (\<And>b. b \<in> set s \<Longrightarrow> \<not> p b \<Longrightarrow> is_ascii b) \<Longrightarrow>
   valid_utf8 (takeWhile p s) \<and> valid_utf8 (dropWhile p s)"
  by (rule valid_utf8_split) (simp_all add: boundary_dropWhile)

end
