(* ===== verification/Sieve_Model.thy ===== *)
theory Sieve_Model
  imports Rust_Str
begin

text \<open>
  The data model of the crate \<open>mw-sieve\<close>: the rules of the graphical builder, the envelope
  the engine matches them against, the coarse tokens of the linter and the errors of the
  crate (\<open>lib.rs\<close>, \<open>lint.rs\<close>). An error message is a datatype with one constructor per
  format string, its arguments the values the message prints.
\<close>

section \<open>Rules\<close>

datatype match_op = Contains | Is | Matches

record string_test =
  st_op :: match_op
  st_value :: string

datatype condition =
    From string_test
  | To string_test
  | Subject string_test
  | Body string_test
  | HasAttachment
  | Size bool "64 word"
  | Keyword string_test
  | ListId string_test

datatype action =
    Move string
  | Copy string
  | Tag string
  | Mark string
  | Forward string
  | ForwardCopy string
  | ReplyTemplate string
  | Notify string
  | Stop

record rule =
  rule_id :: string
  rule_name :: string
  match_all :: bool
  conditions :: "condition list"
  actions :: "action list"
  enabled :: bool

record parsed_envelope =
  env_from :: string
  env_to :: string
  env_subject :: string
  env_body :: string
  has_attachment :: bool
  env_size :: "64 word"
  env_keywords :: "string list"
  env_list_id :: string

section \<open>Tokens of the linter\<close>

datatype token =
    Str string
  | Literal string
  | Word string
  | Punct char
  | Comment string

section \<open>Errors\<close>

datatype sieve_error =
    ParseAt string nat "token option"  \<comment> \<open>\<open>{what} at token {pos}: {peek}\<close>\<close>
  | BadSize string
  | MarkerAt nat marker_msg
  | ChangedOutside string "sieve_error option"
  | BadRuleId string
  | RuleIdTwice string
and marker_msg =
    RuleAppearsTwice string
  | SecondRequire
  | EndWithoutBegin
  | DoesNotClose nat
  | NeverClosed

end
