(* ===== verification/Sieve_Codegen.thy ===== *)
theory Sieve_Codegen
  imports Sieve_Model
begin

text \<open>
  From the builder's rules to Sieve source (\<open>codegen.rs\<close>). The extension set the Rust code
  mutates is threaded through the rendering functions; a \<open>BTreeSet\<close> of strings iterates in
  byte order, which is the order \<open>sorted_list_of_set\<close> gives on \<open>string\<close>.
\<close>

section \<open>Strings and comments\<close>

definition quote_char :: "char \<Rightarrow> string" where
  "quote_char c = (if c = BSL then [BSL, BSL] else if c = DQ then [BSL, DQ]
     else if c = CR \<or> c = LF then [SP] else [c])"

definition quote :: "string \<Rightarrow> string" where
  "quote s = [DQ] @ concat (map quote_char s) @ [DQ]"

definition sanitize_comment :: "string \<Rightarrow> string" where
  "sanitize_comment s = map (\<lambda>c. if c = CR \<or> c = LF then SP else c) s"

section \<open>Tests and actions\<close>

fun match_type :: "match_op \<Rightarrow> string" where
  "match_type Contains = '':contains''"
| "match_type Is = '':is''"
| "match_type Matches = '':matches''"

fun render_condition :: "condition \<Rightarrow> string set \<Rightarrow> string \<times> string set" where
  "render_condition (From t) ext =
     (''address '' @ match_type (st_op t) @ [SP, DQ] @ ''from'' @ [DQ, SP] @ quote (st_value t), ext)"
| "render_condition (To t) ext =
     (''address '' @ match_type (st_op t) @ [SP, DQ] @ ''to'' @ [DQ, SP] @ quote (st_value t), ext)"
| "render_condition (Subject t) ext =
     (''header '' @ match_type (st_op t) @ [SP, DQ] @ ''subject'' @ [DQ, SP] @ quote (st_value t), ext)"
| "render_condition (Body t) ext =
     (''body :text '' @ match_type (st_op t) @ [SP] @ quote (st_value t), insert ''body'' ext)"
| "render_condition HasAttachment ext =
     (''header :contains '' @ [DQ] @ ''content-type'' @ [DQ, SP, DQ] @ ''multipart/mixed'' @ [DQ], ext)"
| "render_condition (Size over bytes) ext =
     (''size '' @ (if over then '':over'' else '':under'') @ [SP] @ dec_str (unat bytes), ext)"
| "render_condition (ListId t) ext =
     (''header '' @ match_type (st_op t) @ [SP, DQ] @ ''list-id'' @ [DQ, SP] @ quote (st_value t), ext)"
| "render_condition (Keyword t) ext =
     (''hasflag '' @ match_type (st_op t) @ [SP] @ quote (st_value t), insert ''imap4flags'' ext)"

fun render_action :: "action \<Rightarrow> string \<times> string list" where
  "render_action (Move mailbox) = (''fileinto '' @ quote mailbox @ '';'', [''fileinto''])"
| "render_action (Copy mailbox) =
     (''fileinto :copy '' @ quote mailbox @ '';'', [''fileinto'', ''copy''])"
| "render_action (Tag keyword) = (''addflag '' @ quote keyword @ '';'', [''imap4flags''])"
| "render_action (Mark keyword) = (''addflag '' @ quote keyword @ '';'', [''imap4flags''])"
| "render_action (Forward address) = (''redirect '' @ quote address @ '';'', [])"
| "render_action (ForwardCopy address) = (''redirect :copy '' @ quote address @ '';'', [''copy''])"
| "render_action (ReplyTemplate template) = (''vacation '' @ quote template @ '';'', [''vacation''])"
| "render_action (Notify message) = (''# notify: '' @ sanitize_comment message, [])"
| "render_action Stop = (''stop;'', [])"

section \<open>Rules\<close>

fun render_tests :: "condition list \<Rightarrow> string set \<Rightarrow> string list \<times> string set" where
  "render_tests [] ext = ([], ext)"
| "render_tests (c # cs) ext =
     (let (t, ext1) = render_condition c ext; (ts, ext2) = render_tests cs ext1 in (t # ts, ext2))"

fun render_actions :: "action list \<Rightarrow> string \<Rightarrow> string set \<Rightarrow> string \<times> string set" where
  "render_actions [] out ext = (out, ext)"
| "render_actions (a # as) out ext =
     (let (line, requires) = render_action a
      in render_actions as (out @ ''    '' @ line @ [LF]) (ext \<union> set requires))"

definition render_rule :: "rule \<Rightarrow> string \<Rightarrow> string set \<Rightarrow> string \<times> string set" where
  "render_rule r out ext =
     (let out1 = out @ ''# rule: '' @ sanitize_comment (rule_name r) @ [LF];
          (tests, ext1) = render_tests (conditions r) ext;
          (acts, ext2) = render_actions (actions r) [] ext1
      in (out1 @ (case tests of
            [] \<Rightarrow> concat (map (\<lambda>a. fst (render_action a) @ [LF]) (actions r))
          | [t] \<Rightarrow> ''if '' @ t @ '' {'' @ [LF] @ acts @ ''}'' @ [LF]
          | _ \<Rightarrow> ''if '' @ (if match_all r then ''allof'' else ''anyof'') @ '' ('' @
                join '', '' tests @ '') {'' @ [LF] @ acts @ ''}'' @ [LF]), ext2))"

definition require_line :: "string set \<Rightarrow> string" where
  "require_line ext =
     ''require ['' @ join '', '' (map quote (sorted_list_of_set ext)) @ ''];'' @ [LF]"

definition generate_rule :: "rule \<Rightarrow> string \<times> string set" where
  "generate_rule r = render_rule r [] {}"

fun render_rules :: "nat \<Rightarrow> rule list \<Rightarrow> string \<Rightarrow> string set \<Rightarrow> string \<times> string set" where
  "render_rules i [] body ext = (body, ext)"
| "render_rules i (r # rs) body ext =
     (let body1 = (if i > 0 then body @ [LF] else body);
          (body2, ext2) = render_rule r body1 ext
      in render_rules (i + 1) rs body2 ext2)"

definition generate :: "rule list \<Rightarrow> sieve_error + string" where
  "generate rules =
     (let (body, extensions) = render_rules 0 (filter enabled rules) [] {}
      in Inr ((if extensions \<noteq> {} then require_line extensions @ (if body \<noteq> [] then [LF] else [])
               else []) @ body))"

end
