(* ===== verification/Sieve_Lint.thy ===== *)
theory Sieve_Lint
  imports Sieve_Model
begin

text \<open>
  The tokenizer and the linter (\<open>lint.rs\<close>). A scanner works on the bytes that are left; its
  index is the length of what it consumed. \<open>input[start..i]\<close> on a \<open>str\<close> panics when an end
  is not a character boundary, so the tokenizer returns \<open>None\<close> there.
\<close>

section \<open>Scanners\<close>

definition is_delim :: "char \<Rightarrow> bool" where
  "is_delim b \<longleftrightarrow> b \<in> set ([SP, TAB, CR, LF, DQ] @ ''{}()[];,#'')"

text \<open>The text after \<open>*/\<close>, if there is one.\<close>

fun block_find :: "string \<Rightarrow> string option" where
  "block_find (a # b # s) =
     (if a = CHR ''*'' \<and> b = CHR ''/'' then Some s else block_find (b # s))"
| "block_find _ = None"

text \<open>
  The rest of a quoted string, started just past its opening quote: the decoded contents
  (each byte pushed as a \<open>char\<close>) and the text past the closing quote.
\<close>

fun scan_string :: "string \<Rightarrow> string \<times> string" where
  "scan_string [] = ([], [])"
| "scan_string (b # s) =
     (if b = BSL \<and> s \<noteq> []
      then (let (out, r) = scan_string (tl s) in (latin1_utf8 (hd s) @ out, r))
      else if b = DQ then ([], s)
      else (let (out, r) = scan_string s in (latin1_utf8 b @ out, r)))"

fun round_down :: "string \<Rightarrow> nat \<Rightarrow> nat" where
  "round_down s 0 = 0"
| "round_down s (Suc k) = (if boundary (drop (Suc k) s) then Suc k else round_down s k)"

definition skip_byte :: "char \<Rightarrow> string \<Rightarrow> string" where
  "skip_byte b s = (case s of [] \<Rightarrow> [] | c # t \<Rightarrow> if c = b then t else s)"

text \<open>A literal \<open>{n}\<close> or \<open>{n+}\<close>, started just past the brace.\<close>

definition scan_literal :: "string \<Rightarrow> (string \<times> string) option" where
  "scan_literal s =
     (let digits = takeWhile is_digit s in
      if digits = [] then None
      else case parse_digits (2 ^ 64 - 1) digits of None \<Rightarrow> None
        | Some len \<Rightarrow>
          (case skip_byte (CHR ''+'') (dropWhile is_digit s) of
             [] \<Rightarrow> None
           | c # r \<Rightarrow> if c \<noteq> CHR ''}'' then None
             else let body = skip_byte LF (skip_byte CR r);
                      k = round_down body (min len (length body))
                  in Some (from_utf8_lossy (take k body), drop k body)))"

lemma scan_string_length [simp]: "length (snd (scan_string s)) \<le> length s"
proof (induction s rule: scan_string.induct)
  case (2 b s)
  show ?case
  proof (cases "b = BSL \<and> s \<noteq> []")
    case True
    then have "length (snd (scan_string (tl s))) \<le> length (tl s)" by (rule "2.IH"(1))
    with True show ?thesis by (simp add: split_def Let_def)
  next
    case False
    with "2.IH"(2) [OF False] show ?thesis by (simp add: split_def Let_def le_SucI)
  qed
qed simp

lemma block_find_length: "block_find s = Some r \<Longrightarrow> length r < length s"
  by (induction s rule: block_find.induct) (auto split: if_splits)

definition block_rest :: "string \<Rightarrow> string" where
  "block_rest s = (case block_find s of Some t \<Rightarrow> t | None \<Rightarrow> [])"

lemma block_rest_length: "length (block_rest s) \<le> length s"
  by (auto simp: block_rest_def dest: block_find_length split: option.split)

lemma skip_byte_length: "length (skip_byte b s) \<le> length s"
  by (simp add: skip_byte_def split: list.split)

lemma scan_literal_length:
  assumes "scan_literal s = Some (lit, r)"
  shows "length r \<le> length s"
proof -
  from assms obtain c t where t: "skip_byte (CHR ''+'') (dropWhile is_digit s) = c # t"
    and r: "length r \<le> length (skip_byte LF (skip_byte CR t))"
    by (auto simp: scan_literal_def Let_def split: if_splits option.splits list.splits)
  have "length (skip_byte LF (skip_byte CR t)) \<le> length t"
    by (meson skip_byte_length le_trans)
  moreover have "Suc (length t) \<le> length (dropWhile is_digit s)"
    using skip_byte_length [of "CHR ''+''" "dropWhile is_digit s"] t by simp
  ultimately show ?thesis using r length_dropWhile_le [of is_digit s] by linarith
qed

section \<open>Tokens\<close>

function tokenize_impl :: "bool \<Rightarrow> string \<Rightarrow> token list option" where
  "tokenize_impl keep [] = Some []"
| "tokenize_impl keep (b # s) =
     (if b \<in> {SP, TAB, CR, LF} then tokenize_impl keep s
      else if b = CHR ''#'' then
        (let rest = dropWhile (\<lambda>c. c \<noteq> LF) s in
         if keep then
           (if boundary s \<and> boundary rest
            then map_option ((#) (Comment (trim_end_bytes {CR} (takeWhile (\<lambda>c. c \<noteq> LF) s))))
                   (tokenize_impl keep rest)
            else None)
         else tokenize_impl keep rest)
      else if b = CHR ''/'' \<and> s \<noteq> [] \<and> hd s = CHR ''*'' then
        tokenize_impl keep (block_rest (tl s))
      else if b = DQ then
        map_option ((#) (Str (fst (scan_string s)))) (tokenize_impl keep (snd (scan_string s)))
      else if b = CHR ''{'' then
        (case scan_literal s of
           Some (lit, r) \<Rightarrow> map_option ((#) (Literal lit)) (tokenize_impl keep r)
         | None \<Rightarrow> map_option ((#) (Punct b)) (tokenize_impl keep s))
      else if b \<in> set ''}()[];,'' then map_option ((#) (Punct b)) (tokenize_impl keep s)
      else if is_delim b then tokenize_impl keep s
      else
        (let rest = dropWhile (\<lambda>c. \<not> is_delim c) s in
         if boundary (b # s) \<and> boundary rest
         then map_option ((#) (Word (b # takeWhile (\<lambda>c. \<not> is_delim c) s)))
                (tokenize_impl keep rest)
         else None))"
  by pat_completeness auto
termination
proof (relation "measure (\<lambda>(keep, s). length s)", goal_cases)
  case (5 keep b s)
  have "length (block_rest (tl s)) \<le> length (tl s)" by (rule block_rest_length)
  then show ?case by simp
qed (auto simp: le_imp_less_Suc length_dropWhile_le dest!: scan_literal_length)

definition tokenize :: "string \<Rightarrow> token list option" where
  "tokenize input = tokenize_impl False input"

definition tokenize_with_comments :: "string \<Rightarrow> token list option" where
  "tokenize_with_comments input = tokenize_impl True input"

declare tokenize_impl.simps(2) [simp del]

section \<open>The linter\<close>

datatype diag =
    UnterminatedBlockComment
  | Unbalanced char char
  | Unclosed char char
  | UnterminatedString
  | MissingRequire string string

definition requiring_commands :: "(string \<times> string) list" where
  "requiring_commands =
     [(''fileinto'', ''fileinto''), (''reject'', ''reject''), (''ereject'', ''ereject''),
      (''vacation'', ''vacation''), (''setflag'', ''imap4flags''), (''addflag'', ''imap4flags''),
      (''removeflag'', ''imap4flags''), (''hasflag'', ''imap4flags''), (''notify'', ''enotify''),
      (''include'', ''include''), (''set'', ''variables'')]"

function has_unterminated_block_comment :: "string \<Rightarrow> bool" where
  "has_unterminated_block_comment [] = False"
| "has_unterminated_block_comment (b # s) =
     (if b = CHR ''#'' then has_unterminated_block_comment (dropWhile (\<lambda>c. c \<noteq> LF) s)
      else if b = DQ then has_unterminated_block_comment (snd (scan_string s))
      else if b = CHR ''/'' \<and> s \<noteq> [] \<and> hd s = CHR ''*'' then
        (case block_find (tl s) of None \<Rightarrow> True | Some t \<Rightarrow> has_unterminated_block_comment t)
      else has_unterminated_block_comment s)"
  by pat_completeness auto
termination
proof (relation "measure length", goal_cases)
  case (4 b s t)
  then show ?case by (auto dest!: block_find_length simp: less_SucI)
qed (auto simp: le_imp_less_Suc length_dropWhile_le)

declare has_unterminated_block_comment.simps(2) [simp del]

text \<open>The text past the closing quote, when there is one.\<close>

fun string_close :: "string \<Rightarrow> string option" where
  "string_close [] = None"
| "string_close (b # s) =
     (if b = BSL \<and> s \<noteq> [] then string_close (tl s)
      else if b = DQ then Some s else string_close s)"

lemma string_close_length: "string_close s = Some r \<Longrightarrow> length r < length s"
proof (induction s rule: string_close.induct)
  case (2 b s)
  then show ?case by (cases s) (auto simp: less_SucI split: if_splits)
qed simp

function has_unterminated_string :: "string \<Rightarrow> bool" where
  "has_unterminated_string [] = False"
| "has_unterminated_string (b # s) =
     (if b = CHR ''#'' then has_unterminated_string (dropWhile (\<lambda>c. c \<noteq> LF) s)
      else if b = CHR ''/'' \<and> s \<noteq> [] \<and> hd s = CHR ''*''
      then has_unterminated_string (block_rest (tl s))
      else if b = DQ then
        (case string_close s of None \<Rightarrow> True | Some t \<Rightarrow> has_unterminated_string t)
      else has_unterminated_string s)"
  by pat_completeness auto
termination
proof (relation "measure length", goal_cases)
  case (3 b s)
  have "length (block_rest (tl s)) \<le> length (tl s)" by (rule block_rest_length)
  then show ?case by simp
qed (auto simp: le_imp_less_Suc length_dropWhile_le dest!: string_close_length)

declare has_unterminated_string.simps(2) [simp del]

text \<open>One token of the bracket walk: the new stack (top first) and a diagnostic.\<close>

definition opener :: "char \<Rightarrow> char" where
  "opener c = (if c = CHR ''}'' then CHR ''{'' else if c = CHR '')'' then CHR ''('' else CHR ''['')"

definition closer :: "char \<Rightarrow> char" where
  "closer c = (if c = CHR ''{'' then CHR ''}'' else if c = CHR ''('' then CHR '')'' else CHR '']'')"

fun bracket_walk :: "token list \<Rightarrow> char list \<Rightarrow> diag list \<Rightarrow> char list \<times> diag list" where
  "bracket_walk [] stack diags = (stack, diags)"
| "bracket_walk (Punct c # ts) stack diags =
     (if c \<in> set ''{(['' then bracket_walk ts (c # stack) diags
      else if c \<in> set ''})]'' then
        (case stack of
           open # st \<Rightarrow> bracket_walk ts st
             (if open = opener c then diags else diags @ [Unbalanced c (opener c)])
         | [] \<Rightarrow> bracket_walk ts [] (diags @ [Unbalanced c (opener c)]))
      else bracket_walk ts stack diags)"
| "bracket_walk (_ # ts) stack diags = bracket_walk ts stack diags"

definition str_of :: "token \<Rightarrow> string list" where
  "str_of t = (case t of Str s \<Rightarrow> [s] | _ \<Rightarrow> [])"

abbreviation "semicolon \<equiv> Punct (CHR '';'')"

function collect_required :: "token list \<Rightarrow> string set" where
  "collect_required [] = {}"
| "collect_required (t # ts) =
     (if t = Word ''require''
      then set (concat (map str_of (takeWhile (\<lambda>u. u \<noteq> semicolon) ts))) \<union>
           collect_required (drop 1 (dropWhile (\<lambda>u. u \<noteq> semicolon) ts))
      else collect_required ts)"
  by pat_completeness auto
termination
proof (relation "measure length", goal_cases)
  case (2 t ts)
  have "length (dropWhile (\<lambda>u. u \<noteq> semicolon) ts) \<le> length ts" by (rule length_dropWhile_le)
  then show ?case by simp
qed auto

declare collect_required.simps(2) [simp del]

definition require_diags :: "string set \<Rightarrow> token \<Rightarrow> diag list" where
  "require_diags required t = (case t of
       Word w \<Rightarrow>
         (let name = dropWhile (\<lambda>c. c = CHR '':'') w in
          case map_of requiring_commands name of
            Some cap \<Rightarrow> if \<not> prefix '':'' w \<and> cap \<notin> required then [MissingRequire name cap] else []
          | None \<Rightarrow> [])
     | _ \<Rightarrow> [])"

definition lint :: "string \<Rightarrow> diag list option" where
  "lint input = map_option (\<lambda>tokens.
     let diags0 = (if has_unterminated_block_comment input then [UnterminatedBlockComment] else []);
         (stack, diags1) = bracket_walk tokens [] diags0;
         diags2 = diags1 @ map (\<lambda>open. Unclosed open (closer open)) (rev stack);
         diags3 = diags2 @ (if has_unterminated_string input then [UnterminatedString] else []);
         required = collect_required tokens
     in remdups_adj (diags3 @ concat (map (require_diags required) tokens))) (tokenize input)"

section \<open>No panic on a valid string\<close>

text \<open>The scanners end at a character boundary of the remaining text.\<close>

lemma block_find_suffix: "block_find s = Some r \<Longrightarrow> suffix r s"
  by (induction s rule: block_find.induct) (auto split: if_splits intro: suffix_ConsI)

lemma scan_string_suffix: "suffix (snd (scan_string s)) s"
proof (induction s rule: scan_string.induct)
  case (2 b s)
  then show ?case by (cases s) (auto simp: split_def Let_def intro: suffix_ConsI)
qed simp

lemma scan_string_boundary: "ascii_sep s \<Longrightarrow> boundary (snd (scan_string s))"
proof (induction s rule: scan_string.induct)
  case (2 b s)
  have "is_ascii DQ" by (simp add: is_ascii_def)
  with 2 show ?case by (cases s) (auto simp: split_def Let_def)
qed simp

lemma block_find_boundary: "ascii_sep s \<Longrightarrow> block_find s = Some r \<Longrightarrow> boundary r"
proof (induction s rule: block_find.induct)
  case (1 a b s)
  have "is_ascii (CHR ''/'')" by (simp add: is_ascii_def)
  with 1 show ?case by (auto split: if_splits)
qed auto

lemma round_down_boundary: "boundary s \<Longrightarrow> boundary (drop (round_down s k) s)"
  by (induction k) auto

lemma skip_byte_suffix: "suffix (skip_byte b s) s"
  by (auto simp: skip_byte_def intro: suffix_ConsI split: list.split)

lemma skip_byte_boundary:
  "ascii_sep s \<Longrightarrow> boundary s \<Longrightarrow> is_ascii b \<Longrightarrow> boundary (skip_byte b s)"
  by (auto simp: skip_byte_def split: list.split)

lemma is_delim_ascii: "is_delim b \<Longrightarrow> is_ascii b"
  by (auto simp: is_delim_def is_ascii_def)

lemma scan_literal_boundary:
  assumes lit: "scan_literal s = Some (l, r)" and s: "ascii_sep s"
  shows "suffix r s \<and> boundary r"
proof -
  from lit obtain c t k where
    t: "skip_byte (CHR ''+'') (dropWhile is_digit s) = c # t" and c: "c = CHR ''}''"
    and r: "r = drop (round_down (skip_byte LF (skip_byte CR t)) k) (skip_byte LF (skip_byte CR t))"
    by (auto simp: scan_literal_def Let_def split: if_splits option.splits list.splits)
  let ?b = "skip_byte LF (skip_byte CR t)"
  have suf: "suffix (c # t) s"
    using skip_byte_suffix [of "CHR ''+''" "dropWhile is_digit s"] suffix_dropWhile [of is_digit s]
    by (simp add: t)
  have "ascii_sep (c # t)" using s suf by (rule ascii_sep_suffix)
  moreover have "is_ascii c" using c by (simp add: is_ascii_def)
  ultimately have t_ok: "ascii_sep t" "boundary t" by simp_all
  have ends: "is_ascii CR" "is_ascii LF" by (simp_all add: is_ascii_def)
  have cr: "ascii_sep (skip_byte CR t)" "boundary (skip_byte CR t)"
    using t_ok ends skip_byte_boundary ascii_sep_suffix [OF _ skip_byte_suffix] by blast+
  then have "boundary ?b"
    using ends skip_byte_boundary by blast
  then have "boundary r" unfolding r by (rule round_down_boundary)
  moreover have "suffix r s"
  proof -
    have "suffix r ?b" unfolding r by (rule suffix_drop)
    also have "suffix ?b t"
      by (rule suffix_order.order_trans [OF skip_byte_suffix skip_byte_suffix])
    also have "suffix t s" using suf by (rule suffix_ConsD)
    finally show ?thesis .
  qed
  ultimately show ?thesis by simp
qed

lemma block_rest_ok: "ascii_sep s \<Longrightarrow> ascii_sep (block_rest s) \<and> boundary (block_rest s)"
  by (auto simp: block_rest_def dest: block_find_boundary block_find_suffix ascii_sep_suffix
      split: option.split)

lemma scan_string_ok: "ascii_sep s \<Longrightarrow> ascii_sep (snd (scan_string s)) \<and> boundary (snd (scan_string s))"
  using scan_string_boundary ascii_sep_suffix [OF _ scan_string_suffix] by blast

text \<open>Every scanner hands the tokenizer a text it may start from.\<close>

definition text_ok :: "string \<Rightarrow> bool" where
  "text_ok s \<longleftrightarrow> ascii_sep s \<and> boundary s"

lemma text_ok_tail: "text_ok (b # s) \<Longrightarrow> is_ascii b \<Longrightarrow> text_ok s"
  by (simp add: text_ok_def)

lemma text_ok_dropWhile:
  "ascii_sep s \<Longrightarrow> (\<And>b. b \<in> set s \<Longrightarrow> \<not> P b \<Longrightarrow> is_ascii b) \<Longrightarrow> text_ok (dropWhile P s)"
  by (simp add: text_ok_def ascii_sep_dropWhile boundary_dropWhile)

lemma tokenize_impl_total: "text_ok s \<Longrightarrow> tokenize_impl keep s \<noteq> None"
proof (induction keep s rule: tokenize_impl.induct)
  case (1 keep)
  then show ?case by simp
next
  case (2 keep b s)
  note IH = "2.IH"
  have seps: "is_ascii c" if "c \<in> {SP, TAB, CR, LF, DQ, CHR ''#'', CHR ''/'', CHR ''*'', CHR ''{''}
      \<or> c \<in> set ''}()[];,'' \<or> is_delim c" for c
    using that is_delim_ascii by (auto simp: is_ascii_def)
  have sep: "ascii_sep s" and bd: "boundary (b # s)"
    using "2.prems" by (simp_all add: text_ok_def)
  have tail: "text_ok s" if "is_ascii b" using "2.prems" that by (rule text_ok_tail)
  have line: "text_ok (dropWhile (\<lambda>c. c \<noteq> LF) s)"
    by (rule text_ok_dropWhile [OF sep]) (use seps in auto)
  have word: "text_ok (dropWhile (\<lambda>c. \<not> is_delim c) s)"
    by (rule text_ok_dropWhile [OF sep]) (use seps in auto)
  have block: "text_ok (block_rest (tl s))"
    using block_rest_ok [of "tl s"] sep by (cases s) (auto simp: text_ok_def)
  have str: "text_ok (snd (scan_string s))"
    using scan_string_ok [OF sep] by (simp add: text_ok_def)
  have lit: "text_ok r" if "scan_literal s = Some (l, r)" for l r
    using scan_literal_boundary [OF that sep] ascii_sep_suffix [OF sep] by (simp add: text_ok_def)
  show ?case
    using IH tail line word block str lit bd seps
    by (auto simp: tokenize_impl.simps(2) [of keep b s] Let_def text_ok_def
        simp del: ascii_sep_simps split: option.split)
qed

end
