(* ===== verification/Sieve_Lexemes.thy ===== *)
theory Sieve_Lexemes
  imports Sieve_Codegen Sieve_Lint
begin

text \<open>
  The interface between the generator and the scanners. Generated source is the text of a
  list of lexemes (\<open>lex_text\<close>), each fitting what follows it (\<open>all_fit\<close>). A scanner that
  promises how it moves over one fitting lexeme (the locale \<open>lexeme_scanner\<close>) is known on
  every generated text. The tokenizer, with and without comments, and the linter's two
  raw scans are interpretations of it.
\<close>

section \<open>Lexemes\<close>

datatype lexeme =
    LxSpace
  | LxNewline
  | LxComment string
  | LxQuoted string
  | LxWord string
  | LxPunct char

fun lexeme_text :: "lexeme \<Rightarrow> string" where
  "lexeme_text LxSpace = [SP]"
| "lexeme_text LxNewline = [LF]"
| "lexeme_text (LxComment c) = CHR ''#'' # c"
| "lexeme_text (LxQuoted p) = quote p"
| "lexeme_text (LxWord w) = w"
| "lexeme_text (LxPunct c) = [c]"

abbreviation lex_text :: "lexeme list \<Rightarrow> string" where
  "lex_text ls \<equiv> concat (map lexeme_text ls)"

definition word_byte :: "char \<Rightarrow> bool" where
  "word_byte b \<longleftrightarrow> is_ascii b \<and> \<not> is_delim b \<and> b \<noteq> CHR ''/''"

definition word_ok :: "string \<Rightarrow> bool" where
  "word_ok w \<longleftrightarrow> w \<noteq> [] \<and> list_all word_byte w"

definition starts_delim :: "string \<Rightarrow> bool" where
  "starts_delim r = (case r of [] \<Rightarrow> True | b # _ \<Rightarrow> is_delim b)"

definition starts_lf :: "string \<Rightarrow> bool" where
  "starts_lf r = (case r of [] \<Rightarrow> True | b # _ \<Rightarrow> b = LF)"

fun fits :: "lexeme \<Rightarrow> string \<Rightarrow> bool" where
  "fits (LxComment c) r \<longleftrightarrow> (\<exists>c'. c = SP # c') \<and> LF \<notin> set c \<and> CR \<notin> set c \<and> starts_lf r"
| "fits (LxWord w) r \<longleftrightarrow> word_ok w \<and> starts_delim r"
| "fits (LxPunct c) r \<longleftrightarrow> c \<in> set ''{}()[];,'' \<and> (c = CHR ''{'' \<longrightarrow> starts_lf r)"
| "fits _ r \<longleftrightarrow> True"

fun all_fit :: "lexeme list \<Rightarrow> string \<Rightarrow> bool" where
  "all_fit [] r \<longleftrightarrow> True"
| "all_fit (l # ls) r \<longleftrightarrow> fits l (lex_text ls @ r) \<and> all_fit ls r"

lemma all_fit_append [simp]:
  "all_fit (ls @ ms) r \<longleftrightarrow> all_fit ls (lex_text ms @ r) \<and> all_fit ms r"
  by (induction ls) auto

lemma starts_simps [simp]:
  "starts_delim []" "starts_delim (b # r) \<longleftrightarrow> is_delim b"
  "starts_lf []" "starts_lf (b # r) \<longleftrightarrow> b = LF"
  by (simp_all add: starts_delim_def starts_lf_def)

lemma is_delim_ws [simp]: "is_delim SP" "is_delim LF" "is_delim DQ"
  by (simp_all add: is_delim_def)

section \<open>The scanner interface\<close>

locale lexeme_scanner =
  fixes scan :: "string \<Rightarrow> 'r" and out :: "lexeme \<Rightarrow> 'r \<Rightarrow> 'r"
  assumes scan_lexeme: "fits l r \<Longrightarrow> scan (lexeme_text l @ r) = out l (scan r)"
begin

lemma scan_lexemes: "all_fit ls r \<Longrightarrow> scan (lex_text ls @ r) = foldr out ls (scan r)"
  by (induction ls) (simp_all add: scan_lexeme)

lemma scan_text: "all_fit ls [] \<Longrightarrow> scan (lex_text ls) = foldr out ls (scan [])"
  using scan_lexemes [of ls "[]"] by simp

end

text \<open>A scanner whose result no lexeme changes: it reports a defect of the raw text.\<close>

locale silent_scanner =
  fixes scan :: "string \<Rightarrow> 'r"
  assumes scan_silent: "fits l r \<Longrightarrow> scan (lexeme_text l @ r) = scan r"

sublocale silent_scanner \<subseteq> lexeme_scanner scan "\<lambda>_ r. r"
  by unfold_locales (rule scan_silent)

context silent_scanner begin

lemma scan_clean: "all_fit ls [] \<Longrightarrow> scan (lex_text ls) = scan []"
proof -
  have "foldr (\<lambda>_ r. r) ls x = x" for x :: 'r by (induction ls) simp_all
  then show "all_fit ls [] \<Longrightarrow> ?thesis" by (simp add: scan_text)
qed

end

section \<open>Quoted strings\<close>

lemma scan_string_quoted [scan_simps]:
  "scan_string (concat (map quote_char p) @ DQ # r) = (latin1_str (sanitize_comment p), r)"
  by (induction p) (auto simp: quote_char_def sanitize_comment_def Let_def)

lemma string_close_quoted [scan_simps]:
  "string_close (concat (map quote_char p) @ DQ # r) = Some r"
  by (induction p) (auto simp: quote_char_def)

lemma quote_append [simp]: "quote p @ r = DQ # concat (map quote_char p) @ DQ # r"
  by (simp add: quote_def)

section \<open>The tokenizer\<close>

definition lexeme_tokens :: "bool \<Rightarrow> lexeme \<Rightarrow> token list" where
  "lexeme_tokens keep l = (case l of
       LxComment c \<Rightarrow> if keep then [Comment c] else []
     | LxQuoted p \<Rightarrow> [Str (latin1_str (sanitize_comment p))]
     | LxWord w \<Rightarrow> [Word w]
     | LxPunct c \<Rightarrow> [Punct c]
     | _ \<Rightarrow> [])"

definition tok_out :: "bool \<Rightarrow> lexeme \<Rightarrow> token list option \<Rightarrow> token list option" where
  "tok_out keep l = map_option ((@) (lexeme_tokens keep l))"

lemma map_option_append [simp]:
  "map_option ((@) []) x = x" "map_option ((@) [t]) x = map_option ((#) t) x"
  by (cases x; simp)+

lemma foldr_tok_out:
  "foldr (tok_out keep) ls (Some ts) = Some (concat (map (lexeme_tokens keep) ls) @ ts)"
  by (induction ls) (simp_all add: tok_out_def)

lemma takeWhile_line: "LF \<notin> set c \<Longrightarrow> starts_lf r \<Longrightarrow> takeWhile (\<lambda>c. c \<noteq> LF) (c @ r) = c"
  by (cases r) (auto simp: takeWhile_append)

lemma dropWhile_line: "LF \<notin> set c \<Longrightarrow> starts_lf r \<Longrightarrow> dropWhile (\<lambda>c. c \<noteq> LF) (c @ r) = r"
  by (cases r) (auto simp: dropWhile_append)

lemma word_split:
  "list_all word_byte w \<Longrightarrow> starts_delim r \<Longrightarrow>
   takeWhile (\<lambda>c. \<not> is_delim c) (w @ r) = w \<and> dropWhile (\<lambda>c. \<not> is_delim c) (w @ r) = r"
  by (cases r) (auto simp: takeWhile_append dropWhile_append list_all_iff word_byte_def)

lemma starts_delim_boundary: "starts_delim r \<Longrightarrow> boundary r"
  by (cases r) (auto simp: ascii_not_cont is_delim_ascii)

lemma starts_lf_boundary: "starts_lf r \<Longrightarrow> boundary r"
  by (cases r) (auto simp: is_cont_def)

lemma word_byte_neq:
  "word_byte b \<Longrightarrow> b \<notin> {SP, TAB, CR, LF, DQ, CHR ''#'', CHR ''/'', CHR ''{''} \<and> b \<notin> set ''}()[];,''"
  by (auto simp: word_byte_def is_delim_def)

lemma scan_literal_lf: "starts_lf r \<Longrightarrow> scan_literal r = None"
  by (cases r) (auto simp: scan_literal_def is_digit_def)

lemma tokenize_lexeme:
  assumes "fits l r"
  shows "tokenize_impl keep (lexeme_text l @ r) = tok_out keep l (tokenize_impl keep r)"
proof (cases l)
  case (LxComment c)
  with assms have c: "\<exists>c'. c = SP # c'" "LF \<notin> set c" "CR \<notin> set c" "starts_lf r" by simp_all
  then have "boundary (c @ r)" by (auto simp: is_cont_def)
  with LxComment c show ?thesis
    by (simp add: tokenize_impl.simps(2) takeWhile_line dropWhile_line starts_lf_boundary Let_def
        tok_out_def lexeme_tokens_def)
next
  case (LxWord w)
  with assms obtain b u where w: "w = b # u" "word_byte b" "list_all word_byte u" "starts_delim r"
    by (cases w) (auto simp: word_ok_def)
  have "\<not> is_delim b" "\<not> is_cont b"
    using w(2) by (auto simp: word_byte_def ascii_not_cont)
  with LxWord w word_byte_neq [OF w(2)] show ?thesis
    by (simp add: tokenize_impl.simps(2) word_split starts_delim_boundary tok_out_def
        lexeme_tokens_def)
next
  case (LxPunct c)
  with assms show ?thesis
    by (auto simp: tokenize_impl.simps(2) scan_literal_lf tok_out_def lexeme_tokens_def)
qed (simp_all add: tokenize_impl.simps(2) scan_simps tok_out_def lexeme_tokens_def)

interpretation tok: lexeme_scanner "tokenize_impl keep" "tok_out keep" for keep
  by unfold_locales (rule tokenize_lexeme)

section \<open>The raw scans of the linter\<close>

lemma word_silent:
  assumes "\<And>b s. word_byte b \<Longrightarrow> f (b # s) = f s" "list_all word_byte w"
  shows "f (w @ r) = f r"
  using assms(2) by (induction w) (simp_all add: assms(1))

interpretation block_comment: silent_scanner has_unterminated_block_comment
proof
  fix l r
  assume fit: "fits l r"
  have "has_unterminated_block_comment (b # s) = has_unterminated_block_comment s"
    if "word_byte b" for b s
    using word_byte_neq [OF that] by (simp add: has_unterminated_block_comment.simps(2))
  from word_silent [of has_unterminated_block_comment, OF this] fit
  show "has_unterminated_block_comment (lexeme_text l @ r) = has_unterminated_block_comment r"
    by (cases l) (auto simp: has_unterminated_block_comment.simps(2) scan_simps dropWhile_line
        word_ok_def)
qed

interpretation open_string: silent_scanner has_unterminated_string
proof
  fix l r
  assume fit: "fits l r"
  have "has_unterminated_string (b # s) = has_unterminated_string s"
    if "word_byte b" for b s
    using word_byte_neq [OF that] by (simp add: has_unterminated_string.simps(2))
  from word_silent [of has_unterminated_string, OF this] fit
  show "has_unterminated_string (lexeme_text l @ r) = has_unterminated_string r"
    by (cases l) (auto simp: has_unterminated_string.simps(2) scan_simps dropWhile_line
        word_ok_def)
qed

end
