(* ===== verification/Sieve_Generated.thy ===== *)
theory Sieve_Generated
  imports Sieve_Lexemes
begin

text \<open>
  What the generator emits, as lexemes: \<open>gen_lexemes\<close> is the abstract view of
  \<open>codegen::generate\<close>, and the lemmas show that the generated text is exactly the text of
  those lexemes, that they fit, and which extensions the text requires.
\<close>

section \<open>The lexemes of a rule\<close>

abbreviation "lx_comma \<equiv> [LxPunct (CHR '',''), LxSpace]"

definition test_lexemes :: "string list \<Rightarrow> string_test \<Rightarrow> lexeme list" where
  "test_lexemes ws t =
     concat (map (\<lambda>w. [LxWord w, LxSpace]) ws) @ [LxWord (match_type (st_op t)), LxSpace]"

fun condition_lexemes :: "condition \<Rightarrow> lexeme list" where
  "condition_lexemes (From t) =
     test_lexemes [''address''] t @ [LxQuoted ''from'', LxSpace, LxQuoted (st_value t)]"
| "condition_lexemes (To t) =
     test_lexemes [''address''] t @ [LxQuoted ''to'', LxSpace, LxQuoted (st_value t)]"
| "condition_lexemes (Subject t) =
     test_lexemes [''header''] t @ [LxQuoted ''subject'', LxSpace, LxQuoted (st_value t)]"
| "condition_lexemes (Body t) =
     test_lexemes [''body'', '':text''] t @ [LxQuoted (st_value t)]"
| "condition_lexemes HasAttachment =
     [LxWord ''header'', LxSpace, LxWord '':contains'', LxSpace, LxQuoted ''content-type'',
      LxSpace, LxQuoted ''multipart/mixed'']"
| "condition_lexemes (Size over bytes) =
     [LxWord ''size'', LxSpace, LxWord (if over then '':over'' else '':under''), LxSpace,
      LxWord (dec_str (unat bytes))]"
| "condition_lexemes (Keyword t) = test_lexemes [''hasflag''] t @ [LxQuoted (st_value t)]"
| "condition_lexemes (ListId t) =
     test_lexemes [''header''] t @ [LxQuoted ''list-id'', LxSpace, LxQuoted (st_value t)]"

definition command_lexemes :: "string list \<Rightarrow> string \<Rightarrow> lexeme list" where
  "command_lexemes ws s =
     concat (map (\<lambda>w. [LxWord w, LxSpace]) ws) @ [LxQuoted s, LxPunct (CHR '';'')]"

fun action_lexemes :: "action \<Rightarrow> lexeme list" where
  "action_lexemes (Move m) = command_lexemes [''fileinto''] m"
| "action_lexemes (Copy m) = command_lexemes [''fileinto'', '':copy''] m"
| "action_lexemes (Tag k) = command_lexemes [''addflag''] k"
| "action_lexemes (Mark k) = command_lexemes [''addflag''] k"
| "action_lexemes (Forward a) = command_lexemes [''redirect''] a"
| "action_lexemes (ForwardCopy a) = command_lexemes [''redirect'', '':copy''] a"
| "action_lexemes (ReplyTemplate t) = command_lexemes [''vacation''] t"
| "action_lexemes (Notify m) = [LxComment ('' notify: '' @ sanitize_comment m)]"
| "action_lexemes Stop = [LxWord ''stop'', LxPunct (CHR '';'')]"

definition guard_lexemes :: "bool \<Rightarrow> condition list \<Rightarrow> lexeme list" where
  "guard_lexemes all cs = (case cs of
       [c] \<Rightarrow> condition_lexemes c
     | _ \<Rightarrow> [LxWord (if all then ''allof'' else ''anyof''), LxSpace, LxPunct (CHR ''('')] @
         join lx_comma (map condition_lexemes cs) @ [LxPunct (CHR '')'')])"

definition block_lexemes :: "action list \<Rightarrow> lexeme list" where
  "block_lexemes as = concat (map (\<lambda>a.
     [LxSpace, LxSpace, LxSpace, LxSpace] @ action_lexemes a @ [LxNewline]) as)"

definition bare_lexemes :: "action list \<Rightarrow> lexeme list" where
  "bare_lexemes as = concat (map (\<lambda>a. action_lexemes a @ [LxNewline]) as)"

definition rule_lexemes :: "rule \<Rightarrow> lexeme list" where
  "rule_lexemes r = [LxComment ('' rule: '' @ sanitize_comment (rule_name r)), LxNewline] @
     (if conditions r = [] then bare_lexemes (actions r)
      else [LxWord ''if'', LxSpace] @ guard_lexemes (match_all r) (conditions r) @
        [LxSpace, LxPunct (CHR ''{''), LxNewline] @ block_lexemes (actions r) @
        [LxPunct (CHR ''}''), LxNewline])"

fun condition_extensions :: "condition \<Rightarrow> string set" where
  "condition_extensions (Body t) = {''body''}"
| "condition_extensions (Keyword t) = {''imap4flags''}"
| "condition_extensions _ = {}"

definition rule_extensions :: "rule \<Rightarrow> string set" where
  "rule_extensions r = \<Union> (condition_extensions ` set (conditions r)) \<union>
     \<Union> ((\<lambda>a. set (snd (render_action a))) ` set (actions r))"

definition require_lexemes :: "string set \<Rightarrow> lexeme list" where
  "require_lexemes ext = (if ext = {} then [] else
     [LxWord ''require'', LxSpace, LxPunct (CHR ''['')] @
     join lx_comma (map (\<lambda>e. [LxQuoted e]) (sorted_list_of_set ext)) @
     [LxPunct (CHR '']''), LxPunct (CHR '';''), LxNewline])"

definition gen_lexemes :: "rule list \<Rightarrow> lexeme list" where
  "gen_lexemes rules = (let rs = filter enabled rules; ext = \<Union> (rule_extensions ` set rs)
     in require_lexemes ext @ (if ext = {} then [] else [LxNewline]) @
        join [LxNewline] (map rule_lexemes rs))"

section \<open>The generated text\<close>

lemma quote_plain [simp]:
  "list_all (\<lambda>c. c \<notin> {BSL, DQ, CR, LF}) s \<Longrightarrow> quote s = DQ # s @ [DQ]"
proof -
  have "concat (map quote_char s) = s" if "list_all (\<lambda>c. c \<notin> {BSL, DQ, CR, LF}) s"
    using that by (induction s) (auto simp: quote_char_def)
  then show "list_all (\<lambda>c. c \<notin> {BSL, DQ, CR, LF}) s \<Longrightarrow> ?thesis" by (simp add: quote_def)
qed

lemma lex_text_join:
  "lex_text (join sep lss) = join (lex_text sep) (map (\<lambda>ls. lex_text ls) lss)"
  by (induction sep lss rule: join.induct) simp_all

lemma render_condition_eq:
  "render_condition c ext = (lex_text (condition_lexemes c), ext \<union> condition_extensions c)"
  by (cases c) (auto simp: test_lexemes_def quote_def[of "st_value _"] split: match_op.split)

lemma render_action_text: "fst (render_action a) = lex_text (action_lexemes a)"
  by (cases a) (simp_all add: command_lexemes_def)

lemma render_tests_eq:
  "render_tests cs ext =
     (map (\<lambda>c. lex_text (condition_lexemes c)) cs, ext \<union> \<Union> (condition_extensions ` set cs))"
  by (induction cs arbitrary: ext) (auto simp: render_condition_eq)

lemma render_actions_eq:
  "render_actions as out ext = (out @ lex_text (block_lexemes as),
     ext \<union> \<Union> ((\<lambda>a. set (snd (render_action a))) ` set as))"
proof (induction as arbitrary: out ext)
  case (Cons a as)
  show ?case
    by (simp add: Cons.IH split_def render_action_text block_lexemes_def Un_assoc)
qed (simp add: block_lexemes_def)

lemma bare_text: "concat (map (\<lambda>a. fst (render_action a) @ [LF]) as) = lex_text (bare_lexemes as)"
  by (induction as) (simp_all add: bare_lexemes_def render_action_text)

lemma guard_text:
  "length cs \<noteq> Suc 0 \<Longrightarrow> lex_text (guard_lexemes all cs) =
     (if all then ''allof'' else ''anyof'') @ '' ('' @
     join '', '' (map (\<lambda>c. lex_text (condition_lexemes c)) cs) @ '')''"
  by (cases cs rule: remdups_adj.cases) (simp_all add: guard_lexemes_def lex_text_join o_def)

lemma render_rule_eq:
  "render_rule r out ext = (out @ lex_text (rule_lexemes r), ext \<union> rule_extensions r)"
proof -
  have one: "guard_lexemes (match_all r) [c] = condition_lexemes c" for c
    by (simp add: guard_lexemes_def)
  show ?thesis
    using guard_text [of "conditions r" "match_all r"]
    by (cases "conditions r" rule: remdups_adj.cases)
       (simp_all add: render_rule_def render_tests_eq render_actions_eq rule_lexemes_def one
          bare_text Let_def rule_extensions_def Un_assoc o_def)
qed

lemma render_rules_eq:
  "render_rules i rs body ext =
     (body @ (if i > 0 \<and> rs \<noteq> [] then [LF] else []) @
        lex_text (join [LxNewline] (map rule_lexemes rs)),
      ext \<union> \<Union> (rule_extensions ` set rs))"
proof (induction i rs body ext rule: render_rules.induct)
  case (2 i r rs body ext)
  then show ?case
    by (cases rs) (simp_all add: render_rule_eq Un_assoc)
qed simp

lemma rule_extensions_finite: "finite (rule_extensions r)"
proof -
  have "finite (condition_extensions c)" for c by (cases c) simp_all
  then show ?thesis by (auto simp: rule_extensions_def)
qed

lemma require_text:
  "finite ext \<Longrightarrow> ext \<noteq> {} \<Longrightarrow> lex_text (require_lexemes ext) = require_line ext"
  by (simp add: require_lexemes_def require_line_def lex_text_join o_def)

lemma rule_text_nonempty: "lex_text (join [LxNewline] (map rule_lexemes rs)) = [] \<longleftrightarrow> rs = []"
proof (cases rs rule: remdups_adj.cases)
  case (2 r)
  then show ?thesis by (simp add: rule_lexemes_def)
next
  case (3 r r' rs')
  then show ?thesis by (simp add: rule_lexemes_def)
qed simp

lemma generate_eq: "generate rules = Inr (lex_text (gen_lexemes rules))"
proof -
  define rs where "rs = filter enabled rules"
  define ext where "ext = \<Union> (rule_extensions ` set rs)"
  have fin: "finite ext" by (simp add: ext_def rule_extensions_finite)
  have body: "render_rules 0 rs [] {} = (lex_text (join [LxNewline] (map rule_lexemes rs)), ext)"
    by (simp add: render_rules_eq ext_def)
  have ne: "lex_text (join [LxNewline] (map rule_lexemes rs)) \<noteq> []" if "ext \<noteq> {}"
    using that rule_text_nonempty [of rs] by (cases "rs = []") (simp_all add: ext_def)
  have gen: "gen_lexemes rules = require_lexemes ext @ (if ext = {} then [] else [LxNewline]) @
      join [LxNewline] (map rule_lexemes rs)"
    by (simp only: gen_lexemes_def rs_def ext_def Let_def)
  show ?thesis
  proof (cases "ext = {}")
    case True
    with body show ?thesis
      by (simp add: generate_def rs_def [symmetric] gen require_lexemes_def)
  next
    case False
    with body ne fin show ?thesis
      by (simp only: generate_def rs_def [symmetric] gen require_text [symmetric] Let_def
          prod.case map_append concat_append if_True if_False not_False_eq_True) simp
  qed
qed

section \<open>The lexemes fit\<close>

lemma word_ok_dec_str: "word_ok (dec_str n)"
proof -
  have "word_byte b" if "is_digit b" for b
    using that by (auto simp: word_byte_def is_digit_def is_delim_def is_ascii_def)
  then show ?thesis using dec_str_digits [of n] by (auto simp: word_ok_def list_all_iff)
qed

lemmas word_check = word_ok_def word_byte_def is_delim_def is_ascii_def

lemma word_ok_match_type: "word_ok (match_type op)"
  by (cases op) (simp_all add: word_check)

lemma word_ok_keywords:
  "word_ok ''address''" "word_ok ''header''" "word_ok ''body''" "word_ok '':text''"
  "word_ok ''hasflag''" "word_ok ''size''" "word_ok '':contains''" "word_ok '':over''"
  "word_ok '':under''" "word_ok ''fileinto''" "word_ok '':copy''" "word_ok ''addflag''"
  "word_ok ''redirect''" "word_ok ''vacation''" "word_ok ''stop''" "word_ok ''if''"
  "word_ok ''allof''" "word_ok ''anyof''" "word_ok ''require''"
  by (simp_all add: word_check)

lemma is_delim_punct: "c \<in> set ''{}()[];,'' \<Longrightarrow> is_delim c"
  by (auto simp: is_delim_def)

lemmas fit_simps = word_ok_keywords word_ok_match_type word_ok_dec_str is_delim_punct

lemma condition_fit: "starts_delim r \<Longrightarrow> all_fit (condition_lexemes c) r"
  by (cases c) (simp_all add: test_lexemes_def fit_simps)

lemma sanitize_no_newline: "LF \<notin> set (sanitize_comment s)" "CR \<notin> set (sanitize_comment s)"
  by (auto simp: sanitize_comment_def)

lemma action_fit: "starts_lf r \<Longrightarrow> all_fit (action_lexemes a) r"
  by (cases a) (simp_all add: command_lexemes_def fit_simps sanitize_no_newline)

lemma block_fit: "all_fit (block_lexemes as) r"
  by (induction as) (simp_all add: block_lexemes_def action_fit)

lemma bare_fit: "all_fit (bare_lexemes as) r"
  by (induction as) (simp_all add: bare_lexemes_def action_fit)

lemma condition_lexemes_start: "\<exists>w ls. condition_lexemes c = LxWord w # ls"
  by (cases c) (simp_all add: test_lexemes_def)

lemma comma_fit:
  "(\<And>ls r. ls \<in> set lss \<Longrightarrow> starts_delim r \<Longrightarrow> all_fit ls r) \<Longrightarrow> starts_delim r \<Longrightarrow>
   all_fit (join lx_comma lss) r"
  by (induction "lx_comma" lss rule: join.induct) (auto simp: fit_simps)

lemma guard_fit: "starts_delim r \<Longrightarrow> all_fit (guard_lexemes m cs) r"
proof -
  assume r: "starts_delim r"
  have "all_fit (join lx_comma (map condition_lexemes cs)) (CHR '')'' # r)"
    by (rule comma_fit) (auto simp: condition_fit fit_simps)
  with r show ?thesis
    by (auto simp: guard_lexemes_def condition_fit fit_simps split: list.split)
qed

lemma rule_fit: "all_fit (rule_lexemes r) rest"
  by (simp add: rule_lexemes_def sanitize_no_newline bare_fit guard_fit block_fit fit_simps)

lemma require_fit: "all_fit (require_lexemes ext) r"
proof -
  have "all_fit (join lx_comma (map (\<lambda>e. [LxQuoted e]) es)) (CHR '']'' # s)" for es s
    by (rule comma_fit) (auto simp: fit_simps)
  then show ?thesis by (simp add: require_lexemes_def fit_simps)
qed

lemma rules_fit: "all_fit (join [LxNewline] (map rule_lexemes rs)) r"
proof (induction rs arbitrary: r)
  case (Cons x rs)
  then show ?case by (cases rs) (simp_all add: rule_fit)
qed simp

lemma gen_fit: "all_fit (gen_lexemes rules) r"
  by (simp add: gen_lexemes_def Let_def require_fit rules_fit)

end
