(* ===== verification/Sieve_Parse.thy ===== *)
theory Sieve_Parse
  imports Sieve_Generated
begin

text \<open>
  Sieve source back to the builder's rules (\<open>parse.rs\<close>): a recursive-descent parser over
  the comment-keeping token stream. The parser's state is the number of tokens consumed and
  the tokens left, so \<open>peek\<close> and \<open>bump\<close> are those of the Rust struct.
\<close>

section \<open>The parser state\<close>

type_synonym pstate = "nat \<times> token list"
type_synonym 'a parser = "pstate \<Rightarrow> sieve_error + 'a \<times> pstate"

definition peek :: "pstate \<Rightarrow> token option" where
  "peek p = (case snd p of [] \<Rightarrow> None | t # _ \<Rightarrow> Some t)"

definition bump :: "pstate \<Rightarrow> token option \<times> pstate" where
  "bump p = (case snd p of [] \<Rightarrow> (None, p) | t # ts \<Rightarrow> (Some t, (Suc (fst p), ts)))"

definition advance :: "pstate \<Rightarrow> pstate" where
  "advance p = (Suc (fst p), drop 1 (snd p))"

definition perr :: "string \<Rightarrow> pstate \<Rightarrow> sieve_error + 'a" where
  "perr what p = Inl (ParseAt what (fst p) (peek p))"

definition rule_name_of :: "string \<Rightarrow> string option" where
  "rule_name_of comment = strip_prefix '' rule: '' comment"

definition notify_message :: "string \<Rightarrow> string option" where
  "notify_message comment = strip_prefix '' notify: '' comment"

section \<open>Expectations\<close>

definition expect_word :: "string parser" where
  "expect_word p = (case bump p of
       (Some (Word w), q) \<Rightarrow> Inr (w, q)
     | (_, q) \<Rightarrow> perr ''expected a word'' q)"

definition expect_exact_word :: "string \<Rightarrow> unit parser" where
  "expect_exact_word want p = (case bump p of
       (Some (Word w), q) \<Rightarrow>
         if w = want then Inr ((), q) else perr (''expected `'' @ want @ ''`'') q
     | (_, q) \<Rightarrow> perr (''expected `'' @ want @ ''`'') q)"

definition expect_str :: "string parser" where
  "expect_str p = (case bump p of
       (Some (Str s), q) \<Rightarrow> Inr (s, q)
     | (_, q) \<Rightarrow> perr ''expected a string literal'' q)"

definition expect_punct :: "char \<Rightarrow> unit parser" where
  "expect_punct want p = (case bump p of
       (Some (Punct c), q) \<Rightarrow>
         if c = want then Inr ((), q) else perr (''expected `'' @ [want] @ ''`'') q
     | (_, q) \<Rightarrow> perr (''expected `'' @ [want] @ ''`'') q)"

definition expect_matchop :: "match_op parser" where
  "expect_matchop p = rbind (expect_word p) (\<lambda>(w, q).
     if w = '':contains'' then Inr (Contains, q)
     else if w = '':is'' then Inr (Is, q)
     else if w = '':matches'' then Inr (Matches, q)
     else perr ''expected a match tag (`:contains`/`:is`/`:matches`)'' q)"

section \<open>Tests\<close>

definition parse_condition :: "condition parser" where
  "parse_condition p = rbind (expect_word p) (\<lambda>(cmd, p1).
     if cmd = ''address'' then
       rbind (expect_matchop p1) (\<lambda>(op, p2). rbind (expect_str p2) (\<lambda>(field, p3).
       rbind (expect_str p3) (\<lambda>(value, p4).
         let test = \<lparr>st_op = op, st_value = value\<rparr> in
         if field = ''from'' then Inr (From test, p4)
         else if field = ''to'' then Inr (To test, p4)
         else perr ''unknown address field'' p4)))
     else if cmd = ''header'' then
       rbind (expect_matchop p1) (\<lambda>(op, p2). rbind (expect_str p2) (\<lambda>(field, p3).
       rbind (expect_str p3) (\<lambda>(value, p4).
         if field = ''content-type'' \<and> op = Contains \<and> value = ''multipart/mixed''
         then Inr (HasAttachment, p4)
         else if field = ''subject'' then Inr (Subject \<lparr>st_op = op, st_value = value\<rparr>, p4)
         else if field = ''list-id'' then Inr (ListId \<lparr>st_op = op, st_value = value\<rparr>, p4)
         else perr ''unknown header field'' p4)))
     else if cmd = ''body'' then
       rbind (expect_exact_word '':text'' p1) (\<lambda>(_, p2). rbind (expect_matchop p2) (\<lambda>(op, p3).
       rbind (expect_str p3) (\<lambda>(value, p4).
         Inr (Body \<lparr>st_op = op, st_value = value\<rparr>, p4))))
     else if cmd = ''size'' then
       rbind (expect_word p1) (\<lambda>(tag, p2).
       rbind (if tag = '':over'' then Inr True else if tag = '':under'' then Inr False
              else perr ''expected `:over`/`:under`'' p2) (\<lambda>over.
       rbind (expect_word p2) (\<lambda>(num, p3).
         case parse_uint (2 ^ 64 - 1) num of
           None \<Rightarrow> Inl (BadSize num)
         | Some n \<Rightarrow> Inr (Size over (of_nat n), p3))))
     else if cmd = ''hasflag'' then
       rbind (expect_matchop p1) (\<lambda>(op, p2). rbind (expect_str p2) (\<lambda>(value, p3).
         Inr (Keyword \<lparr>st_op = op, st_value = value\<rparr>, p3)))
     else perr ''unknown test command'' p1)"

section \<open>Actions\<close>

definition peek_copy :: "pstate \<Rightarrow> bool" where
  "peek_copy p \<longleftrightarrow> peek p = Some (Word '':copy'')"

definition parse_action :: "action option parser" where
  "parse_action p = (case bump p of
       (Some (Comment text), p1) \<Rightarrow> Inr (map_option Notify (notify_message text), p1)
     | (Some (Word w), p1) \<Rightarrow>
         rbind
           (if w = ''fileinto'' then
              (if peek_copy p1 then rbind (expect_str (advance p1)) (\<lambda>(m, q). Inr (Copy m, q))
               else rbind (expect_str p1) (\<lambda>(m, q). Inr (Move m, q)))
            else if w = ''addflag'' then rbind (expect_str p1) (\<lambda>(k, q). Inr (Tag k, q))
            else if w = ''redirect'' then
              (let copy = peek_copy p1; p2 = (if copy then advance p1 else p1)
               in rbind (expect_str p2) (\<lambda>(a, q).
                    Inr (if copy then ForwardCopy a else Forward a, q)))
            else if w = ''vacation'' then rbind (expect_str p1) (\<lambda>(t, q). Inr (ReplyTemplate t, q))
            else if w = ''stop'' then Inr (Stop, p1)
            else perr ''unknown action command'' p1)
           (\<lambda>(act, q). rbind (expect_punct (CHR '';'') q) (\<lambda>(_, q'). Inr (Some act, q')))
     | (_, p1) \<Rightarrow> perr ''expected an action'' p1)"

section \<open>Every step consumes tokens\<close>

abbreviation left :: "pstate \<Rightarrow> nat" where "left p \<equiv> length (snd p)"

lemma perr_neq [simp]: "perr w p \<noteq> Inr x" "\<not> perr w p = Inr x"
  by (simp_all add: perr_def)

lemma bump_left: "bump p = (Some t, q) \<Longrightarrow> Suc (left q) = left p"
  by (auto simp: bump_def split: list.splits)

lemma advance_left [simp]: "left (advance p) \<le> left p"
  by (simp add: advance_def)

lemma expect_left:
  "expect_word p = Inr (w, q) \<Longrightarrow> left q < left p"
  "expect_exact_word x p = Inr (u, q) \<Longrightarrow> left q < left p"
  "expect_str p = Inr (w, q) \<Longrightarrow> left q < left p"
  "expect_punct c p = Inr (u, q) \<Longrightarrow> left q < left p"
  by (auto simp: expect_word_def expect_exact_word_def expect_str_def expect_punct_def
      dest!: bump_left split: prod.splits option.splits token.splits if_splits)

lemma expect_matchop_left: "expect_matchop p = Inr (op, q) \<Longrightarrow> left q < left p"
  by (auto simp: expect_matchop_def rbind_eq_Inr split: if_splits dest: expect_left)

lemmas expects_left = expect_left expect_matchop_left

lemma parse_condition_left: "parse_condition p = Inr (c, q) \<Longrightarrow> left q < left p"
  by (auto simp: parse_condition_def Let_def rbind_eq_Inr dest!: expects_left
      split: if_splits option.splits)

lemma advance_trans:
  "left q < left (advance p) \<Longrightarrow> left q < left p" "left q \<le> left (advance p) \<Longrightarrow> left q \<le> left p"
  using advance_left [of p] by linarith+

lemma parse_action_left: "parse_action p = Inr (a, q) \<Longrightarrow> left q < left p"
  by (auto simp: parse_action_def Let_def rbind_eq_Inr dest!: expects_left bump_left advance_trans
      split: if_splits option.splits token.splits prod.splits)

section \<open>Rules\<close>

definition push_opt :: "action list \<Rightarrow> action option \<Rightarrow> action list" where
  "push_opt as a = (case a of None \<Rightarrow> as | Some x \<Rightarrow> as @ [x])"

function parse_block_actions :: "action list \<Rightarrow> action list parser" where
  "parse_block_actions acc p = (case peek p of
       None \<Rightarrow> perr ''unterminated action block (missing `}`)'' p
     | Some t \<Rightarrow>
         if t = Punct (CHR ''}'') then Inr (acc, advance p)
         else rbind (parse_action p) (\<lambda>(a, q). parse_block_actions (push_opt acc a) q))"
  by pat_completeness auto
termination
  by (relation "measure (\<lambda>(acc, p). left p)") (auto dest: parse_action_left)

definition is_rule_marker :: "token \<Rightarrow> bool" where
  "is_rule_marker t = (case t of Comment text \<Rightarrow> rule_name_of text \<noteq> None | _ \<Rightarrow> False)"

function parse_unguarded_actions :: "action list \<Rightarrow> action list parser" where
  "parse_unguarded_actions acc p = (case peek p of
       None \<Rightarrow> Inr (acc, p)
     | Some t \<Rightarrow>
         if is_rule_marker t then Inr (acc, p)
         else rbind (parse_action p) (\<lambda>(a, q). parse_unguarded_actions (push_opt acc a) q))"
  by pat_completeness auto
termination
  by (relation "measure (\<lambda>(acc, p). left p)") (auto dest: parse_action_left)

function parse_tests :: "condition list \<Rightarrow> condition list parser" where
  "parse_tests acc p = rbind (parse_condition p) (\<lambda>(c, q).
     case bump q of
       (Some t, q') \<Rightarrow>
         if t = Punct (CHR '','') then parse_tests (acc @ [c]) q'
         else if t = Punct (CHR '')'') then Inr (acc @ [c], q')
         else perr ''expected `,` or `)` in test list'' q'
     | (None, q') \<Rightarrow> perr ''expected `,` or `)` in test list'' q')"
  by pat_completeness auto
termination
  by (relation "measure (\<lambda>(acc, p). left p)")
    (auto dest!: parse_condition_left bump_left [OF sym])

declare parse_block_actions.simps [simp del]
  parse_unguarded_actions.simps [simp del] parse_tests.simps [simp del]

definition parse_guard :: "(bool \<times> condition list) parser" where
  "parse_guard p =
     (if peek p = Some (Word ''allof'') \<or> peek p = Some (Word ''anyof'') then
        rbind (expect_punct (CHR ''('') (advance p)) (\<lambda>(_, q).
        rbind (parse_tests [] q) (\<lambda>(cs, q').
          Inr ((peek p = Some (Word ''allof''), cs), q')))
      else rbind (parse_condition p) (\<lambda>(c, q). Inr ((True, [c]), q)))"

definition parse_rule_body :: "string \<Rightarrow> string \<Rightarrow> rule parser" where
  "parse_rule_body rid name p =
     (if peek p = Some (Word ''if'') then
        rbind (parse_guard (advance p)) (\<lambda>((all, conds), q).
        rbind (expect_punct (CHR ''{'') q) (\<lambda>(_, q1).
        rbind (parse_block_actions [] q1) (\<lambda>(acts, q2).
          Inr (\<lparr>rule_id = rid, rule_name = name, match_all = all, conditions = conds,
                actions = acts, enabled = True\<rparr>, q2))))
      else rbind (parse_unguarded_actions [] p) (\<lambda>(acts, q).
          Inr (\<lparr>rule_id = rid, rule_name = name, match_all = True, conditions = [],
                actions = acts, enabled = True\<rparr>, q)))"

lemma parse_block_actions_left: "parse_block_actions acc p = Inr (as, q) \<Longrightarrow> left q \<le> left p"
proof (induction acc p rule: parse_block_actions.induct)
  case (1 acc p)
  then show ?case
    by (subst (asm) parse_block_actions.simps)
      (fastforce simp: rbind_eq_Inr dest: parse_action_left split: option.splits if_splits)
qed

lemma parse_unguarded_actions_left:
  "parse_unguarded_actions acc p = Inr (as, q) \<Longrightarrow> left q \<le> left p"
proof (induction acc p rule: parse_unguarded_actions.induct)
  case (1 acc p)
  then show ?case
    by (subst (asm) parse_unguarded_actions.simps)
      (fastforce simp: rbind_eq_Inr dest: parse_action_left split: option.splits if_splits)
qed

lemma parse_testsE:
  assumes "parse_tests acc p = Inr (cs, q)"
  obtains (more) c q1 q2 where "parse_condition p = Inr (c, q1)"
      "bump q1 = (Some (Punct (CHR '','')), q2)" "parse_tests (acc @ [c]) q2 = Inr (cs, q)"
    | (last) c q1 where "parse_condition p = Inr (c, q1)"
      "bump q1 = (Some (Punct (CHR '')'')), q)" "cs = acc @ [c]"
proof -
  from assms obtain c q1 where c: "parse_condition p = Inr (c, q1)"
    and run: "(case bump q1 of
       (Some t, q') \<Rightarrow>
         if t = Punct (CHR '','') then parse_tests (acc @ [c]) q'
         else if t = Punct (CHR '')'') then Inr (acc @ [c], q')
         else perr ''expected `,` or `)` in test list'' q'
     | (None, q') \<Rightarrow> perr ''expected `,` or `)` in test list'' q') = Inr (cs, q)"
    by (auto simp: parse_tests.simps [of acc p] rbind_eq_Inr)
  obtain t q2 where t: "bump q1 = (t, q2)" by (cases "bump q1") blast
  show thesis
    using run more [OF c, of q2] last [OF c] t
    by (cases t) (auto split: if_splits)
qed

lemma parse_tests_left: "parse_tests acc p = Inr (cs, q) \<Longrightarrow> left q \<le> left p"
proof (induction acc p rule: parse_tests.induct)
  case (1 acc p)
  from "1.prems" show ?case
  proof (cases rule: parse_testsE)
    case (more c q1 q2)
    with "1.IH" [OF more(1) refl more(2) [symmetric] refl refl] show ?thesis
      by (auto dest!: parse_condition_left bump_left)
  next
    case (last c q1)
    then show ?thesis by (auto dest!: parse_condition_left bump_left)
  qed
qed

lemma parse_guard_left: "parse_guard p = Inr (g, q) \<Longrightarrow> left q \<le> left p"
  by (auto simp: parse_guard_def rbind_eq_Inr
      dest!: expects_left parse_tests_left parse_condition_left dest: advance_trans split: if_splits)

lemma parse_rule_body_left: "parse_rule_body i n p = Inr (r, q) \<Longrightarrow> left q \<le> left p"
  by (auto simp: parse_rule_body_def rbind_eq_Inr
      dest!: expects_left parse_guard_left parse_block_actions_left parse_unguarded_actions_left
      dest: advance_trans split: if_splits)

function parse_rules :: "rule list \<Rightarrow> pstate \<Rightarrow> sieve_error + rule list" where
  "parse_rules acc p = (case peek p of
       None \<Rightarrow> Inr acc
     | Some t \<Rightarrow>
         (case (case t of Comment text \<Rightarrow> rule_name_of text | _ \<Rightarrow> None) of
            Some name \<Rightarrow>
              rbind (parse_rule_body (dec_str (length acc + 1)) name (advance p))
                (\<lambda>(r, q). parse_rules (acc @ [r]) q)
          | None \<Rightarrow> parse_rules acc (advance p)))"
  by pat_completeness auto
termination
proof -
  have advance: "left (advance p) < left p" if "peek p = Some t" for p t
    using that by (auto simp: advance_def peek_def split: list.splits)
  show ?thesis
    by (relation "measure (\<lambda>(acc, p). left p)")
      (auto dest!: parse_rule_body_left dest: advance order.strict_trans1 [OF _ advance])
qed

declare parse_rules.simps [simp del]

definition parse :: "string \<Rightarrow> (sieve_error + rule list) option" where
  "parse input = map_option (\<lambda>tokens. parse_rules [] (0, tokens)) (tokenize_with_comments input)"

end
