(* ===== verification/Sieve_Roundtrip.thy ===== *)
theory Sieve_Roundtrip
  imports Sieve_Parse
begin

text \<open>
  Reading back what the generator wrote. \<open>norm_rules\<close> is what the Sieve text keeps of a
  rule list: enabled rules only, numbered from 1, newlines folded, \<open>Mark\<close> read as \<open>Tag\<close>,
  and each quoted string as \<open>scan_string\<close> decodes it, byte by byte. The parser returns
  exactly that on every generated script.
\<close>

section \<open>What survives a round trip\<close>

definition reread :: "string \<Rightarrow> string" where
  "reread s = latin1_str (sanitize_comment s)"

definition norm_test :: "string_test \<Rightarrow> string_test" where
  "norm_test t = t\<lparr>st_value := reread (st_value t)\<rparr>"

fun norm_condition :: "condition \<Rightarrow> condition" where
  "norm_condition (From t) = From (norm_test t)"
| "norm_condition (To t) = To (norm_test t)"
| "norm_condition (Subject t) = Subject (norm_test t)"
| "norm_condition (Body t) = Body (norm_test t)"
| "norm_condition HasAttachment = HasAttachment"
| "norm_condition (Size over bytes) = Size over bytes"
| "norm_condition (Keyword t) = Keyword (norm_test t)"
| "norm_condition (ListId t) = ListId (norm_test t)"

fun norm_action :: "action \<Rightarrow> action" where
  "norm_action (Move m) = Move (reread m)"
| "norm_action (Copy m) = Copy (reread m)"
| "norm_action (Tag k) = Tag (reread k)"
| "norm_action (Mark k) = Tag (reread k)"
| "norm_action (Forward a) = Forward (reread a)"
| "norm_action (ForwardCopy a) = ForwardCopy (reread a)"
| "norm_action (ReplyTemplate t) = ReplyTemplate (reread t)"
| "norm_action (Notify m) = Notify (sanitize_comment m)"
| "norm_action Stop = Stop"

definition norm_rule :: "string \<Rightarrow> rule \<Rightarrow> rule" where
  "norm_rule rid r = \<lparr>rule_id = rid, rule_name = sanitize_comment (rule_name r),
     match_all = (length (conditions r) \<le> 1 \<or> match_all r),
     conditions = map norm_condition (conditions r), actions = map norm_action (actions r),
     enabled = True\<rparr>"

fun norm_rules :: "nat \<Rightarrow> rule list \<Rightarrow> rule list" where
  "norm_rules i [] = []"
| "norm_rules i (r # rs) = norm_rule (dec_str (Suc i)) r # norm_rules (Suc i) rs"

section \<open>The tokens of a generated text\<close>

abbreviation toks :: "lexeme list \<Rightarrow> token list" where
  "toks ls \<equiv> concat (map (lexeme_tokens True) ls)"

lemma lexeme_tokens_simps [simp]:
  "lexeme_tokens k LxSpace = []" "lexeme_tokens k LxNewline = []"
  "lexeme_tokens k (LxComment c) = (if k then [Comment c] else [])"
  "lexeme_tokens k (LxQuoted p) = [Str (reread p)]"
  "lexeme_tokens k (LxWord w) = [Word w]" "lexeme_tokens k (LxPunct b) = [Punct b]"
  by (simp_all add: lexeme_tokens_def reread_def)

lemma reread_literals [simp]:
  "reread ''from'' = ''from''" "reread ''to'' = ''to''" "reread ''subject'' = ''subject''"
  "reread ''list-id'' = ''list-id''" "reread ''content-type'' = ''content-type''"
  "reread ''multipart/mixed'' = ''multipart/mixed''"
  by (simp_all add: reread_def sanitize_comment_def latin1_utf8_def)

lemma tokenize_generated:
  "all_fit ls [] \<Longrightarrow> tokenize_with_comments (lex_text ls) = Some (toks ls)"
  using tok.scan_text [of ls True] foldr_tok_out [of True ls "[]"]
  by (simp add: tokenize_with_comments_def)

lemma bump_simps [simp]:
  "bump (n, t # ts) = (Some t, (Suc n, ts))" "peek (n, t # ts) = Some t" "peek (n, []) = None"
  "advance (n, t # ts) = (Suc n, ts)"
  by (simp_all add: bump_def peek_def advance_def)

lemma expect_simps [simp]:
  "expect_word (n, Word w # ts) = Inr (w, (Suc n, ts))"
  "expect_str (n, Str s # ts) = Inr (s, (Suc n, ts))"
  "expect_punct c (n, Punct c # ts) = Inr ((), (Suc n, ts))"
  "expect_exact_word w (n, Word w # ts) = Inr ((), (Suc n, ts))"
  "expect_matchop (n, Word (match_type op) # ts) = Inr (op, (Suc n, ts))"
  by (cases op; simp add: expect_word_def expect_str_def expect_punct_def expect_exact_word_def
      expect_matchop_def)+

lemma expect_contains [simp]:
  "expect_matchop (n, Word '':contains'' # ts) = Inr (Contains, (Suc n, ts))"
  using expect_simps(5) [of n Contains ts] by simp

section \<open>Conditions and actions\<close>

lemma parse_condition_toks:
  "parse_condition (n, toks (condition_lexemes c) @ ts) =
     Inr (norm_condition c, (n + length (toks (condition_lexemes c)), ts))"
proof (cases c)
  case (Size over bytes)
  have "unat bytes \<le> 2 ^ 64 - 1" using unsigned_less [of bytes, where ?'a = nat] by simp
  with Size show ?thesis by (simp add: parse_condition_def)
qed (simp_all add: parse_condition_def test_lexemes_def norm_test_def)

lemma parse_action_toks:
  "parse_action (n, toks (action_lexemes a) @ ts) =
     Inr (Some (norm_action a), (n + length (toks (action_lexemes a)), ts))"
  by (cases a) (simp_all add: parse_action_def command_lexemes_def peek_copy_def notify_message_def
      strip_prefix_def)

lemma action_toks_head:
  "\<exists>t ts. toks (action_lexemes a) = t # ts \<and> t \<noteq> Punct (CHR ''}'') \<and> \<not> is_rule_marker t"
  by (cases a) (simp_all add: command_lexemes_def is_rule_marker_def rule_name_of_def strip_prefix_def)

section \<open>Action lists\<close>

abbreviation action_toks :: "action list \<Rightarrow> token list" where
  "action_toks as \<equiv> concat (map (\<lambda>a. toks (action_lexemes a)) as)"

lemma block_toks: "toks (block_lexemes as) = action_toks as"
  by (induction as) (simp_all add: block_lexemes_def)

lemma bare_toks: "toks (bare_lexemes as) = action_toks as"
  by (induction as) (simp_all add: bare_lexemes_def)

lemma parse_block_toks:
  "parse_block_actions acc (n, action_toks as @ Punct (CHR ''}'') # ts) =
     Inr (acc @ map norm_action as, (Suc (n + length (action_toks as)), ts))"
proof (induction as arbitrary: acc n)
  case Nil
  then show ?case by (simp add: parse_block_actions.simps)
next
  case (Cons a as)
  obtain t u where t: "toks (action_lexemes a) = t # u" "t \<noteq> Punct (CHR ''}'')"
    using action_toks_head by blast
  then show ?case
    using parse_action_toks [of n a "action_toks as @ Punct (CHR ''}'') # ts"]
    by (subst parse_block_actions.simps) (simp add: push_opt_def Cons.IH add.assoc)
qed

definition rule_stop :: "token list \<Rightarrow> bool" where
  "rule_stop ts = (case ts of [] \<Rightarrow> True | t # _ \<Rightarrow> is_rule_marker t)"

lemma parse_unguarded_toks:
  "rule_stop ts \<Longrightarrow> parse_unguarded_actions acc (n, action_toks as @ ts) =
     Inr (acc @ map norm_action as, (n + length (action_toks as), ts))"
proof (induction as arbitrary: acc n)
  case Nil
  then show ?case by (cases ts) (simp_all add: parse_unguarded_actions.simps rule_stop_def)
next
  case (Cons a as)
  obtain t u where t: "toks (action_lexemes a) = t # u" "\<not> is_rule_marker t"
    using action_toks_head by blast
  then show ?case
    using parse_action_toks [of n a "action_toks as @ ts"]
    by (subst parse_unguarded_actions.simps) (simp add: push_opt_def Cons add.assoc)
qed

section \<open>Guards\<close>

abbreviation "comma \<equiv> Punct (CHR '','')"

lemma toks_join: "toks (join sep lss) = join (toks sep) (map (\<lambda>ls. toks ls) lss)"
  by (induction sep lss rule: join.induct) simp_all

lemma parse_tests_toks:
  "cs \<noteq> [] \<Longrightarrow>
   parse_tests acc (n, join [comma] (map (\<lambda>c. toks (condition_lexemes c)) cs) @ Punct (CHR '')'') # ts) =
     Inr (acc @ map norm_condition cs,
       (Suc (n + length (join [comma] (map (\<lambda>c. toks (condition_lexemes c)) cs))), ts))"
proof (induction cs arbitrary: acc n rule: induct_list012)
  case (2 c)
  then show ?case
    by (subst parse_tests.simps) (simp add: parse_condition_toks)
next
  case (3 c c' cs)
  then show ?case
    by (subst parse_tests.simps) (simp add: parse_condition_toks add.assoc)
qed simp

lemma condition_toks_head:
  "\<exists>w ts. toks (condition_lexemes c) = Word w # ts \<and> w \<noteq> ''allof'' \<and> w \<noteq> ''anyof''"
  by (cases c) (simp_all add: test_lexemes_def)

lemma parse_guard_toks:
  assumes "cs \<noteq> []"
  shows "parse_guard (n, toks (guard_lexemes m cs) @ ts) =
     Inr ((length cs \<le> 1 \<or> m, map norm_condition cs), (n + length (toks (guard_lexemes m cs)), ts))"
proof (cases cs rule: remdups_adj.cases)
  case (2 c)
  obtain w u where "toks (condition_lexemes c) = Word w # u" "w \<noteq> ''allof''" "w \<noteq> ''anyof''"
    using condition_toks_head by blast
  with 2 show ?thesis
    using parse_condition_toks [of n c ts] by (simp add: parse_guard_def guard_lexemes_def)
next
  case (3 c c' cs')
  have "toks lx_comma = [comma]" by simp
  with 3 parse_tests_toks [of cs "[]" "Suc (Suc n)" ts] show ?thesis
    by (simp add: parse_guard_def guard_lexemes_def toks_join o_def)
qed (use assms in simp)

section \<open>Rules\<close>

definition rule_body_toks :: "rule \<Rightarrow> token list" where
  "rule_body_toks r = (if conditions r = [] then action_toks (actions r)
     else Word ''if'' # toks (guard_lexemes (match_all r) (conditions r)) @
       Punct (CHR ''{'') # action_toks (actions r) @ [Punct (CHR ''}'')])"

lemma rule_toks:
  "toks (rule_lexemes r) =
     Comment ('' rule: '' @ sanitize_comment (rule_name r)) # rule_body_toks r"
  by (simp add: rule_lexemes_def rule_body_toks_def block_toks bare_toks)

lemma rule_stop_if: "rule_stop ts \<Longrightarrow> peek (n, ts) \<noteq> Some (Word ''if'')"
  by (auto simp: rule_stop_def peek_def is_rule_marker_def split: list.splits)

lemma action_toks_not_if: "rule_stop ts \<Longrightarrow> peek (n, action_toks as @ ts) \<noteq> Some (Word ''if'')"
proof (cases as)
  case (Cons a as')
  then show ?thesis by (cases a) (simp_all add: command_lexemes_def)
qed (simp add: rule_stop_if)

lemma parse_rule_body_toks:
  assumes "rule_stop ts"
  shows "parse_rule_body rid (sanitize_comment (rule_name r)) (n, rule_body_toks r @ ts) =
     Inr (norm_rule rid r, (n + length (rule_body_toks r), ts))"
proof (cases "conditions r = []")
  case True
  with assms show ?thesis
    by (simp add: parse_rule_body_def rule_body_toks_def action_toks_not_if parse_unguarded_toks
        norm_rule_def)
next
  case False
  then show ?thesis
    by (simp add: parse_rule_body_def rule_body_toks_def parse_guard_toks parse_block_toks
        norm_rule_def add.assoc)
qed

fun rules_toks :: "rule list \<Rightarrow> token list" where
  "rules_toks [] = []"
| "rules_toks (r # rs) = Comment ('' rule: '' @ sanitize_comment (rule_name r)) #
     rule_body_toks r @ rules_toks rs"

lemma rules_stop: "rule_stop (rules_toks rs)"
  by (cases rs) (simp_all add: rule_stop_def is_rule_marker_def rule_name_of_def
      strip_prefix_def)

lemma parse_rules_toks:
  "parse_rules acc (n, rules_toks rs) = Inr (acc @ norm_rules (length acc) rs)"
proof (induction rs arbitrary: acc n)
  case Nil
  then show ?case by (simp add: parse_rules.simps)
next
  case (Cons r rs)
  have "rule_name_of ('' rule: '' @ sanitize_comment (rule_name r)) = Some (sanitize_comment (rule_name r))"
    by (simp only: rule_name_of_def strip_prefix_append)
  then show ?case
    using parse_rule_body_toks [OF rules_stop, of _ r _ rs]
    by (subst parse_rules.simps) (simp add: Cons.IH)
qed

lemma parse_rules_skip:
  "list_all (\<lambda>t. \<not> is_rule_marker t) us \<Longrightarrow>
   parse_rules acc (n, us @ ts) = parse_rules acc (n + length us, ts)"
proof (induction us arbitrary: n)
  case (Cons u us)
  then show ?case
    by (subst parse_rules.simps) (auto simp: is_rule_marker_def split: token.splits)
qed simp

lemma rules_join_toks: "toks (join [LxNewline] (map rule_lexemes rs)) = rules_toks rs"
  by (induction rs rule: induct_list012) (simp_all add: rule_toks)

lemma require_toks_skip: "list_all (\<lambda>t. \<not> is_rule_marker t) (toks (require_lexemes ext))"
proof -
  have "list_all (\<lambda>t. \<not> is_rule_marker t) (toks (join lx_comma (map (\<lambda>e. [LxQuoted e]) es)))" for es
    by (induction es rule: induct_list012) (simp_all add: is_rule_marker_def)
  then show ?thesis by (simp add: require_lexemes_def is_rule_marker_def)
qed

lemma parse_generated:
  "parse (lex_text (gen_lexemes rules)) = Some (Inr (norm_rules 0 (filter enabled rules)))"
proof -
  let ?rs = "filter enabled rules"
  let ?us = "toks (require_lexemes (\<Union> (rule_extensions ` set ?rs)))"
  have "toks (gen_lexemes rules) = ?us @ rules_toks ?rs"
    by (simp add: gen_lexemes_def Let_def rules_join_toks del: set_filter)
  then show ?thesis
    using parse_rules_toks [of "[]" "length ?us" ?rs]
    by (simp add: parse_def tokenize_generated gen_fit parse_rules_skip require_toks_skip
        del: set_filter)
qed

end
