(* ===== verification/Sieve_Eval.thy ===== *)
theory Sieve_Eval
  imports Sieve_Model
begin

text \<open>
  The engine-side evaluator of the builder's rules (\<open>eval.rs\<close>): which actions a rule list
  fires for one envelope, and the iterative glob matcher behind \<open>:matches\<close>. The matcher's
  loop is kept with its four variables; its termination measure needs no invariant, since a
  state whose mark lies beyond the cursor is left for good after one step.
\<close>

section \<open>The glob matcher\<close>

definition stars_only :: "string list \<Rightarrow> nat \<Rightarrow> bool" where
  "stars_only p pi = (pi + length (takeWhile (\<lambda>c. c = ''*'') (drop pi p)) = length p)"

function glob_loop :: "string list \<Rightarrow> string list \<Rightarrow> nat \<Rightarrow> nat \<Rightarrow> nat option \<Rightarrow> nat \<Rightarrow> bool" where
  "glob_loop p t pi ti star mark =
     (if ti < length t then
        if pi < length p \<and> (p ! pi = ''?'' \<or> p ! pi = t ! ti)
        then glob_loop p t (pi + 1) (ti + 1) star mark
        else if pi < length p \<and> p ! pi = ''*''
        then glob_loop p t (pi + 1) ti (Some pi) ti
        else case star of
            Some s \<Rightarrow> glob_loop p t (s + 1) (mark + 1) (Some s) (mark + 1)
          | None \<Rightarrow> False
      else stars_only p pi)"
  by pat_completeness auto
termination
  by (relation "measures
      [\<lambda>(p, t, pi, ti, star, mark). if star \<noteq> None \<and> ti < mark then 1 else 0,
       \<lambda>(p, t, pi, ti, star, mark).
         case star of None \<Rightarrow> length t - ti + 1 | Some _ \<Rightarrow> length t - mark,
       \<lambda>(p, t, pi, ti, star, mark). length t - ti,
       \<lambda>(p, t, pi, ti, star, mark). length p - pi]")
     (auto split: option.splits)

declare glob_loop.simps [simp del]

definition glob_matches_exact :: "string \<Rightarrow> string \<Rightarrow> bool" where
  "glob_matches_exact pattern text =
     glob_loop (utf8_chars pattern) (utf8_chars text) 0 0 None 0"

definition glob_matches :: "string \<Rightarrow> string \<Rightarrow> bool" where
  "glob_matches pattern text = glob_matches_exact (to_lower pattern) (to_lower text)"

section \<open>Rule evaluation\<close>

definition string_matches :: "string_test \<Rightarrow> string \<Rightarrow> bool" where
  "string_matches test haystack = (case st_op test of
       Contains \<Rightarrow> sublist (to_lower (st_value test)) (to_lower haystack)
     | Is \<Rightarrow> eq_nocase haystack (st_value test)
     | Matches \<Rightarrow> glob_matches (st_value test) haystack)"

fun condition_matches :: "condition \<Rightarrow> parsed_envelope \<Rightarrow> bool" where
  "condition_matches (From t) env = string_matches t (env_from env)"
| "condition_matches (To t) env = string_matches t (env_to env)"
| "condition_matches (Subject t) env = string_matches t (env_subject env)"
| "condition_matches (Body t) env = string_matches t (env_body env)"
| "condition_matches HasAttachment env = has_attachment env"
| "condition_matches (Size over bytes) env =
     (if over then bytes < env_size env else env_size env < bytes)"
| "condition_matches (Keyword t) env = list_ex (string_matches t) (env_keywords env)"
| "condition_matches (ListId t) env = string_matches t (env_list_id env)"

definition rule_matches :: "rule \<Rightarrow> parsed_envelope \<Rightarrow> bool" where
  "rule_matches r env =
     (if conditions r = [] then True
      else if match_all r then list_all (\<lambda>c. condition_matches c env) (conditions r)
      else list_ex (\<lambda>c. condition_matches c env) (conditions r))"

definition evaluate :: "rule \<Rightarrow> parsed_envelope \<Rightarrow> action list" where
  "evaluate r env = (if \<not> enabled r \<or> \<not> rule_matches r env then [] else actions r)"

text \<open>The inner loop pushes a rule's actions and reports whether a \<open>Stop\<close> returned.\<close>

fun push_actions :: "action list \<Rightarrow> action list \<Rightarrow> action list \<times> bool" where
  "push_actions [] out = (out, False)"
| "push_actions (a # as) out =
     (if a = Stop then (out @ [a], True) else push_actions as (out @ [a]))"

fun evaluate_loop :: "rule list \<Rightarrow> parsed_envelope \<Rightarrow> action list \<Rightarrow> action list" where
  "evaluate_loop [] env out = out"
| "evaluate_loop (r # rs) env out =
     (if \<not> enabled r \<or> \<not> rule_matches r env then evaluate_loop rs env out
      else let (out', stopped) = push_actions (actions r) out
        in if stopped then out' else evaluate_loop rs env out')"

definition evaluate_all :: "rule list \<Rightarrow> parsed_envelope \<Rightarrow> action list" where
  "evaluate_all rules env = evaluate_loop rules env []"

section \<open>The reference semantics of a glob\<close>

fun glob_spec :: "string list \<Rightarrow> string list \<Rightarrow> bool" where
  "glob_spec [] t \<longleftrightarrow> t = []"
| "glob_spec (c # p) t \<longleftrightarrow>
     (if c = ''*'' then \<exists>k\<le>length t. glob_spec p (drop k t)
      else case t of [] \<Rightarrow> False | d # t' \<Rightarrow> (c = ''?'' \<or> c = d) \<and> glob_spec p t')"

lemma glob_spec_star: "glob_spec (''*'' # p) t \<longleftrightarrow> (\<exists>k. glob_spec p (drop k t))"
proof -
  have "drop k t = drop (min k (length t)) t" for k
    by (cases "k \<le> length t") simp_all
  then show ?thesis by simp (metis min.cobounded2)
qed

lemma glob_spec_nil: "glob_spec p [] \<longleftrightarrow> (\<forall>c \<in> set p. c = ''*'')"
  by (induction p) auto

lemma glob_spec_match:
  "pi < length p \<Longrightarrow> p ! pi \<noteq> ''*'' \<Longrightarrow> ti < length t \<Longrightarrow>
   glob_spec (drop pi p) (drop ti t) \<longleftrightarrow>
     (p ! pi = ''?'' \<or> p ! pi = t ! ti) \<and> glob_spec (drop (Suc pi) p) (drop (Suc ti) t)"
  by (simp add: Cons_nth_drop_Suc [symmetric])

lemma glob_spec_at_star:
  "pi < length p \<Longrightarrow> p ! pi = ''*'' \<Longrightarrow>
   glob_spec (drop pi p) (drop ti t) \<longleftrightarrow> (\<exists>k\<ge>ti. glob_spec (drop (Suc pi) p) (drop k t))"
proof -
  assume p: "pi < length p" "p ! pi = ''*''"
  then have "drop pi p = ''*'' # drop (Suc pi) p"
    by (metis Cons_nth_drop_Suc)
  then have "glob_spec (drop pi p) (drop ti t) \<longleftrightarrow>
      (\<exists>k. glob_spec (drop (Suc pi) p) (drop (k + ti) t))"
    by (simp only: glob_spec_star drop_drop)
  then show ?thesis
    by (metis le_add2 le_add_diff_inverse2)
qed

lemma glob_spec_star_earlier:
  "pi < length p \<Longrightarrow> p ! pi = ''*'' \<Longrightarrow> ti \<le> k \<Longrightarrow> glob_spec (drop pi p) (drop k t) \<Longrightarrow>
   glob_spec (drop pi p) (drop ti t)"
  unfolding glob_spec_at_star by (meson le_trans)

lemma stars_only_iff:
  assumes "pi \<le> length p"
  shows "stars_only p pi \<longleftrightarrow> (\<forall>c \<in> set (drop pi p). c = ''*'')"
proof -
  have all: "length (takeWhile P xs) = length xs \<longleftrightarrow> (\<forall>x \<in> set xs. P x)"
    for P and xs :: "string list"
    by (induction xs) (auto dest: sym)
  have "stars_only p pi \<longleftrightarrow>
      length (takeWhile (\<lambda>c. c = ''*'') (drop pi p)) = length (drop pi p)"
    using assms by (auto simp: stars_only_def)
  then show ?thesis by (simp only: all)
qed

text \<open>A pattern without \<open>*\<close> consumes as many characters as it has.\<close>

lemma glob_spec_literal_prefix:
  assumes "''*'' \<notin> set q" "glob_spec (q @ p) t"
  shows "length q \<le> length t \<and> glob_spec p (drop (length q) t)"
  using assms by (induction q arbitrary: t) (auto split: list.splits)

subsection \<open>Soundness for every text\<close>

definition star_alt :: "string list \<Rightarrow> string list \<Rightarrow> nat option \<Rightarrow> nat \<Rightarrow> bool" where
  "star_alt p t star mark = (case star of None \<Rightarrow> False
     | Some s \<Rightarrow> \<exists>k>mark. glob_spec (drop (Suc s) p) (drop k t))"

lemma glob_loop_sound:
  "glob_loop p t pi ti star mark \<Longrightarrow> pi \<le> length p \<Longrightarrow>
   (case star of None \<Rightarrow> True | Some s \<Rightarrow> s < length p) \<Longrightarrow>
   glob_spec (drop pi p) (drop ti t) \<or> star_alt p t star mark"
proof (induction p t pi ti star mark rule: glob_loop.induct)
  case (1 p t pi ti star mark)
  note IH = "1.IH" and run = "1.prems"(1) and pi = "1.prems"(2) and s = "1.prems"(3)
  consider (fin) "\<not> ti < length t"
    | (match) "ti < length t" "pi < length p \<and> (p ! pi = ''?'' \<or> p ! pi = t ! ti)"
    | (star) "ti < length t" "pi < length p" "\<not> (p ! pi = ''?'' \<or> p ! pi = t ! ti)" "p ! pi = ''*''"
    | (retry) "ti < length t" "\<not> (pi < length p \<and> (p ! pi = ''?'' \<or> p ! pi = t ! ti))"
        "\<not> (pi < length p \<and> p ! pi = ''*'')"
    by blast
  then show ?case
  proof cases
    case fin
    then have "stars_only p pi" using run by (simp add: glob_loop.simps [of p t pi])
    with pi fin show ?thesis by (simp add: stars_only_iff glob_spec_nil)
  next
    case match
    with IH(1) run pi s have "glob_spec (drop (Suc pi) p) (drop (Suc ti) t) \<or> star_alt p t star mark"
      by (simp add: glob_loop.simps [of p t pi])
    with match show ?thesis
      by (cases "p ! pi = ''*''") (auto simp: glob_spec_match glob_spec_at_star intro: Suc_leD)
  next
    case star
    with IH(2) run pi have "glob_spec (drop (Suc pi) p) (drop ti t) \<or> star_alt p t (Some pi) ti"
      by (simp add: glob_loop.simps [of p t pi])
    with star show ?thesis
      by (auto simp: glob_spec_at_star star_alt_def intro: less_imp_le)
  next
    case retry
    show ?thesis
    proof (cases star)
      case None
      with run retry show ?thesis by (auto simp: glob_loop.simps [of p t pi] split: if_splits)
    next
      case (Some s')
      from run retry Some have "glob_loop p t (s' + 1) (mark + 1) (Some s') (mark + 1)"
        by (auto simp: glob_loop.simps [of p t pi] split: if_splits)
      with IH(3) [OF retry] Some s
      have "glob_spec (drop (Suc s') p) (drop (Suc mark) t) \<or> star_alt p t (Some s') (Suc mark)"
        by simp
      with Some show ?thesis by (auto simp: star_alt_def dest: Suc_lessD)
    qed
  qed
qed

subsection \<open>Completeness for a text without a literal \<open>*\<close>\<close>

definition star_inv :: "string list \<Rightarrow> nat \<Rightarrow> nat \<Rightarrow> nat option \<Rightarrow> nat \<Rightarrow> bool" where
  "star_inv p pi ti star mark = (case star of None \<Rightarrow> True
     | Some s \<Rightarrow> s < pi \<and> s < length p \<and> ti + s + 1 = mark + pi \<and>
         ''*'' \<notin> set (take (pi - Suc s) (drop (Suc s) p)))"

lemma star_inv_step:
  assumes "star_inv p pi ti star mark" "pi < length p" "p ! pi \<noteq> ''*''"
  shows "star_inv p (pi + 1) (ti + 1) star mark"
proof (cases star)
  case None
  then show ?thesis by (simp add: star_inv_def)
next
  case (Some s)
  with assms(1) have s: "s < pi" by (simp add: star_inv_def)
  have n: "pi - s = Suc (pi - Suc s)" using s by linarith
  have "take (pi - s) (drop (Suc s) p) = take (pi - Suc s) (drop (Suc s) p) @ [p ! pi]"
    unfolding n using s assms(2) by (subst take_Suc_conv_app_nth) auto
  with assms Some s show ?thesis by (auto simp: star_inv_def)
qed

lemma star_alt_mid:
  assumes inv: "star_inv p pi ti star mark" and pi: "pi \<le> length p"
    and alt: "star_alt p t star mark"
  shows "\<exists>k>ti. glob_spec (drop pi p) (drop k t)"
proof -
  from alt obtain s k where s: "star = Some s" and k: "mark < k" "glob_spec (drop (Suc s) p) (drop k t)"
    by (auto simp: star_alt_def split: option.splits)
  let ?q = "take (pi - Suc s) (drop (Suc s) p)"
  from inv s have lt: "s < pi" and ti: "ti + s + 1 = mark + pi" and q: "''*'' \<notin> set ?q"
    by (auto simp: star_inv_def)
  have split: "drop (Suc s) p = ?q @ drop pi p"
    using lt pi by (metis Suc_leI append_take_drop_id drop_drop le_add_diff_inverse2)
  have len: "length ?q = pi - Suc s" using pi lt by simp
  from k(2) q have "glob_spec (drop pi p) (drop (length ?q) (drop k t))"
    using split glob_spec_literal_prefix by metis
  then have "glob_spec (drop pi p) (drop (k + (pi - Suc s)) t)"
    by (simp only: len drop_drop add.commute)
  moreover have "ti < k + (pi - Suc s)" using k(1) ti lt by linarith
  ultimately show ?thesis by blast
qed

lemma glob_loop_complete:
  "glob_spec (drop pi p) (drop ti t) \<or> star_alt p t star mark \<Longrightarrow>
   ''*'' \<notin> set t \<Longrightarrow> pi \<le> length p \<Longrightarrow> ti \<le> length t \<Longrightarrow> star_inv p pi ti star mark \<Longrightarrow>
   glob_loop p t pi ti star mark"
proof (induction p t pi ti star mark rule: glob_loop.induct)
  case (1 p t pi ti star mark)
  note IH = "1.IH" and ex = "1.prems"(1) and nostar = "1.prems"(2) and pi = "1.prems"(3)
    and ti = "1.prems"(4) and inv = "1.prems"(5)
  consider (fin) "\<not> ti < length t"
    | (match) "ti < length t" "pi < length p \<and> (p ! pi = ''?'' \<or> p ! pi = t ! ti)"
    | (star) "ti < length t" "pi < length p" "\<not> (p ! pi = ''?'' \<or> p ! pi = t ! ti)" "p ! pi = ''*''"
    | (retry) "ti < length t" "\<not> (pi < length p \<and> (p ! pi = ''?'' \<or> p ! pi = t ! ti))"
        "\<not> (pi < length p \<and> p ! pi = ''*'')"
    by blast
  then show ?case
  proof cases
    case fin
    have "glob_spec (drop pi p) (drop ti t)"
      using ex fin ti star_alt_mid [OF inv pi] by fastforce
    with fin pi show ?thesis
      by (simp add: glob_loop.simps [of p t pi] stars_only_iff glob_spec_nil)
  next
    case match
    have "t ! ti \<noteq> ''*''" using match(1) nostar by (metis nth_mem)
    with match(2) have ne: "p ! pi \<noteq> ''*''" by auto
    have "glob_loop p t (pi + 1) (ti + 1) star mark"
    proof (rule IH(1) [OF match])
      show "glob_spec (drop (pi + 1) p) (drop (ti + 1) t) \<or> star_alt p t star mark"
        using ex match ne by (auto simp: glob_spec_match)
      show "star_inv p (pi + 1) (ti + 1) star mark"
        using inv match(2) ne by (blast intro: star_inv_step)
    qed (use match nostar in auto)
    with match show ?thesis by (simp add: glob_loop.simps [of p t pi])
  next
    case star
    have spec: "glob_spec (drop pi p) (drop ti t)"
      using ex star_alt_mid [OF inv pi, of t] glob_spec_star_earlier [OF star(2,4)]
      by (meson less_imp_le)
    have "glob_loop p t (pi + 1) ti (Some pi) ti"
    proof (rule IH(2) [OF star(1)])
      show "glob_spec (drop (pi + 1) p) (drop ti t) \<or> star_alt p t (Some pi) ti"
        using spec star by (auto simp: glob_spec_at_star star_alt_def le_less)
      show "star_inv p (pi + 1) ti (Some pi) ti"
        using star by (simp add: star_inv_def)
    qed (use star nostar in auto)
    with star show ?thesis by (simp add: glob_loop.simps [of p t pi])
  next
    case retry
    have no: "\<not> glob_spec (drop pi p) (drop ti t)"
      using retry by (cases "pi < length p") (auto simp: glob_spec_match)
    with ex obtain s where s: "star = Some s" by (auto simp: star_alt_def split: option.splits)
    have "glob_loop p t (s + 1) (mark + 1) (Some s) (mark + 1)"
    proof (rule IH(3) [OF retry s])
      from ex no s obtain k where "mark < k" "glob_spec (drop (Suc s) p) (drop k t)"
        by (auto simp: star_alt_def)
      then show "glob_spec (drop (s + 1) p) (drop (mark + 1) t) \<or> star_alt p t (Some s) (mark + 1)"
        by (auto simp: star_alt_def) (metis Suc_lessI)
      show "star_inv p (s + 1) (mark + 1) (Some s) (mark + 1)" "s + 1 \<le> length p"
        using inv s by (simp_all add: star_inv_def)
      show "mark + 1 \<le> length t" using inv s retry(1) by (simp add: star_inv_def)
    qed (use nostar in auto)
    with retry s show ?thesis by (auto simp: glob_loop.simps [of p t pi])
  qed
qed

lemma glob_matches_exact_sound:
  "glob_matches_exact pattern text \<Longrightarrow> glob_spec (utf8_chars pattern) (utf8_chars text)"
  using glob_loop_sound [of "utf8_chars pattern" "utf8_chars text" 0 0 None 0]
  by (simp add: glob_matches_exact_def star_alt_def)

lemma glob_matches_exact_complete:
  "''*'' \<notin> set (utf8_chars text) \<Longrightarrow> glob_spec (utf8_chars pattern) (utf8_chars text) \<Longrightarrow>
   glob_matches_exact pattern text"
  by (simp add: glob_matches_exact_def glob_loop_complete star_inv_def)

section \<open>What the evaluator computes\<close>

text \<open>The reference: the actions of the firing rules in order, cut after the first \<open>Stop\<close>.\<close>

fun upto_stop :: "action list \<Rightarrow> action list" where
  "upto_stop [] = []"
| "upto_stop (a # as) = (if a = Stop then [a] else a # upto_stop as)"

lemma push_actions_eq:
  "push_actions as out = (out @ upto_stop as, Stop \<in> set as)"
  by (induction as arbitrary: out) auto

lemma upto_stop_append:
  "upto_stop (as @ bs) = (if Stop \<in> set as then upto_stop as else upto_stop as @ upto_stop bs)"
  by (induction as) auto

lemma evaluate_loop_eq:
  "evaluate_loop rs env out = out @ upto_stop (concat (map (\<lambda>r. evaluate r env) rs))"
  by (induction rs arbitrary: out)
     (auto simp: push_actions_eq upto_stop_append evaluate_def split: prod.splits)

end
