(* ===== verification/Sieve_Lint_Clean.thy ===== *)
theory Sieve_Lint_Clean
  imports Sieve_Roundtrip
begin

text \<open>
  The linter on generated source: its raw scans find nothing (interpretations of
  \<open>silent_scanner\<close>), the brackets balance, and every command the text uses is covered by
  the generated \<open>require\<close>.
\<close>

section \<open>Tokens without comments\<close>

abbreviation bare_toks_of :: "lexeme list \<Rightarrow> token list" where
  "bare_toks_of ls \<equiv> concat (map (lexeme_tokens False) ls)"

lemma tokenize_bare:
  "all_fit ls [] \<Longrightarrow> tokenize (lex_text ls) = Some (bare_toks_of ls)"
  using tok.scan_text [of ls False] foldr_tok_out [of False ls "[]"]
  by (simp add: tokenize_def)

lemma bare_toks_join:
  "bare_toks_of (join sep lss) = join (bare_toks_of sep) (map (\<lambda>ls. bare_toks_of ls) lss)"
  by (induction sep lss rule: join.induct) simp_all

text \<open>A token list the bracket walk crosses without touching the stack.\<close>

definition neutral :: "token list \<Rightarrow> bool" where
  "neutral us \<longleftrightarrow> (\<forall>ts stack ds. bracket_walk (us @ ts) stack ds = bracket_walk ts stack ds)"

lemma neutral_walk: "neutral us \<Longrightarrow> bracket_walk (us @ ts) stack ds = bracket_walk ts stack ds"
  by (simp add: neutral_def)

lemma neutral_Nil [simp]: "neutral []"
  by (simp add: neutral_def)

lemma neutral_append: "neutral us \<Longrightarrow> neutral vs \<Longrightarrow> neutral (us @ vs)"
  by (simp add: neutral_def)

lemma neutral_concat: "(\<And>us. us \<in> set uss \<Longrightarrow> neutral us) \<Longrightarrow> neutral (concat uss)"
  by (induction uss) (simp_all add: neutral_append)

lemma neutral_join:
  "neutral sep \<Longrightarrow> (\<And>us. us \<in> set uss \<Longrightarrow> neutral us) \<Longrightarrow> neutral (join sep uss)"
  by (induction sep uss rule: join.induct) (simp_all add: neutral_append)

lemma neutral_plain [simp]:
  "neutral (Word w # us) \<longleftrightarrow> neutral us" "neutral (Str s # us) \<longleftrightarrow> neutral us"
  "neutral (comma # us) \<longleftrightarrow> neutral us" "neutral (semicolon # us) \<longleftrightarrow> neutral us"
  by (simp_all add: neutral_def)

lemma neutral_pair:
  "neutral us \<Longrightarrow> neutral vs \<Longrightarrow> opn \<in> set ''{(['' \<Longrightarrow> cl \<in> set ''})]'' \<Longrightarrow> opener cl = opn \<Longrightarrow>
   neutral (Punct opn # us @ Punct cl # vs)"
  by (auto simp: neutral_def)

lemma condition_neutral: "neutral (bare_toks_of (condition_lexemes c))"
  by (cases c) (simp_all add: test_lexemes_def)

lemma action_neutral: "neutral (bare_toks_of (action_lexemes a))"
  by (cases a) (simp_all add: command_lexemes_def)

lemma block_neutral: "neutral (bare_toks_of (block_lexemes as))"
  by (induction as) (simp_all add: block_lexemes_def neutral_append action_neutral)

lemma bare_neutral: "neutral (bare_toks_of (bare_lexemes as))"
  by (induction as) (simp_all add: bare_lexemes_def neutral_append action_neutral)

lemma guard_neutral: "neutral (bare_toks_of (guard_lexemes m cs))"
proof -
  have "neutral (join [comma] (map (\<lambda>c. bare_toks_of (condition_lexemes c)) cs))"
    by (rule neutral_join) (auto simp: condition_neutral)
  then show ?thesis
    using neutral_pair [of "join [comma] (map (\<lambda>c. bare_toks_of (condition_lexemes c)) cs)" "[]"
        "CHR ''(''" "CHR '')''"]
    by (auto simp: guard_lexemes_def bare_toks_join o_def opener_def condition_neutral
        split: list.split)
qed

lemma rule_neutral: "neutral (bare_toks_of (rule_lexemes r))"
  using neutral_pair [OF block_neutral neutral_Nil, of "CHR ''{''" "CHR ''}''" "actions r"]
  by (auto simp: rule_lexemes_def bare_neutral opener_def intro!: neutral_append guard_neutral)

lemma require_neutral: "neutral (bare_toks_of (require_lexemes ext))"
proof -
  have "neutral (join [comma] (map (\<lambda>e. [Str (reread e)]) es))" for es
    by (rule neutral_join) auto
  from neutral_pair [OF this, of "[semicolon]" "CHR ''[''" "CHR '']''"] show ?thesis
    by (simp add: require_lexemes_def bare_toks_join o_def opener_def)
qed

lemma gen_neutral: "neutral (bare_toks_of (gen_lexemes rules))"
  by (auto simp: gen_lexemes_def Let_def bare_toks_join
      intro!: neutral_append require_neutral neutral_join rule_neutral)

section \<open>Required extensions\<close>

definition known_ext :: "string set" where
  "known_ext = {''body'', ''imap4flags'', ''fileinto'', ''copy'', ''vacation''}"

lemma rule_extensions_known: "rule_extensions r \<subseteq> known_ext"
proof -
  have "condition_extensions c \<subseteq> known_ext" for c
    by (cases c) (auto simp: known_ext_def)
  moreover have "set (snd (render_action a)) \<subseteq> known_ext" for a
    by (cases a) (auto simp: known_ext_def)
  ultimately show ?thesis by (auto simp: rule_extensions_def)
qed

lemma known_ext_reread: "e \<in> known_ext \<Longrightarrow> reread e = e"
  by (auto simp: known_ext_def reread_def sanitize_comment_def latin1_utf8_def)

text \<open>The words of generated rules: none is \<open>require\<close>, and a command needs its extension.\<close>

definition covered :: "string set \<Rightarrow> token \<Rightarrow> bool" where
  "covered ext t \<longleftrightarrow> t \<noteq> Word ''require'' \<and> require_diags ext t = []"

lemma covered_plain [simp]: "covered ext (Str s)" "covered ext (Punct c)"
  by (simp_all add: covered_def require_diags_def)

lemma covered_mono: "covered ext t \<Longrightarrow> ext \<subseteq> ext' \<Longrightarrow> covered ext' t"
  by (auto simp: covered_def require_diags_def Let_def split: token.splits option.splits if_splits)

lemma covered_digits: "list_all is_digit w \<Longrightarrow> w \<noteq> [] \<Longrightarrow> covered ext (Word w)"
proof -
  assume w: "list_all is_digit w" "w \<noteq> []"
  then obtain b u where b: "w = b # u" "is_digit b" by (cases w) auto
  have letters: "list_all (\<lambda>(k, _). k \<noteq> [] \<and> \<not> is_digit (hd k)) requiring_commands"
    by (simp add: requiring_commands_def is_digit_def)
  have "map_of requiring_commands w = None"
  proof (rule ccontr)
    assume "map_of requiring_commands w \<noteq> None"
    then obtain cap where "(w, cap) \<in> set requiring_commands" by (auto dest: map_of_SomeD)
    with letters b show False by (auto simp: list_all_iff)
  qed
  moreover have "b \<noteq> CHR '':''" "b \<noteq> CHR ''r''" using b(2) by (auto simp: is_digit_def)
  ultimately show ?thesis using b by (simp add: covered_def require_diags_def)
qed

lemmas covered_check = covered_def require_diags_def requiring_commands_def

lemma condition_covered:
  "list_all (covered (condition_extensions c)) (bare_toks_of (condition_lexemes c))"
proof (cases c)
  case (Size over bytes)
  then show ?thesis
    using covered_digits [OF dec_str_digits] by (simp add: covered_check)
next
  case (Keyword t)
  then show ?thesis by (cases "st_op t") (simp_all add: test_lexemes_def covered_check)
next
  case (From t)
  then show ?thesis by (cases "st_op t") (simp_all add: test_lexemes_def covered_check)
next
  case (To t)
  then show ?thesis by (cases "st_op t") (simp_all add: test_lexemes_def covered_check)
next
  case (Subject t)
  then show ?thesis by (cases "st_op t") (simp_all add: test_lexemes_def covered_check)
next
  case (Body t)
  then show ?thesis by (cases "st_op t") (simp_all add: test_lexemes_def covered_check)
next
  case (ListId t)
  then show ?thesis by (cases "st_op t") (simp_all add: test_lexemes_def covered_check)
qed (simp_all add: covered_check)

lemma action_covered:
  "list_all (covered (set (snd (render_action a)))) (bare_toks_of (action_lexemes a))"
  by (cases a) (simp_all add: command_lexemes_def covered_check)

abbreviation all_covered :: "string set \<Rightarrow> lexeme list \<Rightarrow> bool" where
  "all_covered ext ls \<equiv> list_all (covered ext) (bare_toks_of ls)"

lemma all_covered_mono: "list_all (covered ext) ts \<Longrightarrow> ext \<subseteq> ext' \<Longrightarrow> list_all (covered ext') ts"
  by (auto simp: list_all_iff intro: covered_mono)

lemma all_covered_join:
  "list_all P sep \<Longrightarrow> (\<And>ls. ls \<in> set lss \<Longrightarrow> list_all P ls) \<Longrightarrow> list_all P (join sep lss)"
  by (induction sep lss rule: join.induct) simp_all

lemma actions_covered:
  "\<forall>a \<in> set as. set (snd (render_action a)) \<subseteq> ext \<Longrightarrow>
   all_covered ext (block_lexemes as) \<and> all_covered ext (bare_lexemes as)"
  by (induction as)
    (auto simp: block_lexemes_def bare_lexemes_def intro: all_covered_mono [OF action_covered])

lemma guard_covered:
  assumes "\<And>c. c \<in> set cs \<Longrightarrow> condition_extensions c \<subseteq> ext"
  shows "all_covered ext (guard_lexemes m cs)"
proof -
  have c: "all_covered ext (condition_lexemes c)" if "c \<in> set cs" for c
    using all_covered_mono [OF condition_covered] assms that by blast
  then have "list_all (covered ext) (join [comma] (map (\<lambda>c. bare_toks_of (condition_lexemes c)) cs))"
    by (intro all_covered_join) auto
  with c show ?thesis
    by (auto simp: guard_lexemes_def bare_toks_join o_def covered_check split: list.split)
qed

lemma rule_covered: "all_covered (rule_extensions r) (rule_lexemes r)"
proof -
  have "all_covered (rule_extensions r) (block_lexemes (actions r)) \<and>
      all_covered (rule_extensions r) (bare_lexemes (actions r))"
    by (rule actions_covered) (auto simp: rule_extensions_def)
  moreover have "all_covered (rule_extensions r) (guard_lexemes (match_all r) (conditions r))"
    by (rule guard_covered) (auto simp: rule_extensions_def)
  ultimately show ?thesis by (simp add: rule_lexemes_def covered_check)
qed

lemma rules_covered:
  "all_covered (\<Union> (rule_extensions ` set rs)) (join [LxNewline] (map rule_lexemes rs))"
  unfolding bare_toks_join
  by (rule all_covered_join) (auto intro: all_covered_mono [OF rule_covered])

lemma collect_covered: "list_all (covered ext) ts \<Longrightarrow> collect_required ts = {}"
  by (induction ts) (auto simp: collect_required.simps(2) covered_def)

lemma collect_require:
  assumes "\<And>t. t \<in> set us \<Longrightarrow> t \<noteq> semicolon"
  shows "collect_required (Word ''require'' # us @ semicolon # ts) =
     set (concat (map str_of us)) \<union> collect_required ts"
proof -
  have "takeWhile (\<lambda>u. u \<noteq> semicolon) (us @ semicolon # ts) = us"
    "dropWhile (\<lambda>u. u \<noteq> semicolon) (us @ semicolon # ts) = semicolon # ts"
    using assms by (auto simp: takeWhile_append dropWhile_append takeWhile_eq_all_conv)
  then show ?thesis by (simp add: collect_required.simps(2))
qed

lemma join_strings:
  "set (concat (map str_of (join [comma] (map (\<lambda>e. [Str e]) es)))) = set es"
  "semicolon \<notin> set (join [comma] (map (\<lambda>e. [Str e]) es))"
  by (induction es rule: induct_list012) (simp_all add: str_of_def)

lemma collect_generated:
  assumes ext: "ext \<subseteq> known_ext" and ts: "list_all (covered ext) ts"
  shows "collect_required (bare_toks_of (require_lexemes ext) @ ts) = ext"
proof (cases "ext = {}")
  case True
  with ts show ?thesis by (simp add: require_lexemes_def collect_covered)
next
  case False
  have fin: "finite ext" using ext by (rule finite_subset) (simp add: known_ext_def)
  let ?es = "sorted_list_of_set ext"
  have es: "map (\<lambda>e. [Str (reread e)]) ?es = map (\<lambda>e. [Str e]) ?es"
    using ext fin by (auto simp: known_ext_reread)
  define us where
    "us = Punct (CHR ''['') # join [comma] (map (\<lambda>e. [Str e]) ?es) @ [Punct (CHR '']'')]"
  have split: "bare_toks_of (require_lexemes ext) @ ts = Word ''require'' # us @ semicolon # ts"
    using False by (simp add: require_lexemes_def bare_toks_join o_def es us_def)
  have "t \<noteq> semicolon" if "t \<in> set us" for t
    using that join_strings(2) by (auto simp: us_def)
  then have "collect_required (Word ''require'' # us @ semicolon # ts) =
      set (concat (map str_of us)) \<union> collect_required ts"
    by (rule collect_require)
  moreover have "set (concat (map str_of us)) = ext"
    using fin join_strings(1) [of ?es] by (simp add: str_of_def us_def)
  ultimately show ?thesis using ts by (simp only: split collect_covered Un_empty_right)
qed

lemma require_diags_none:
  "list_all (\<lambda>t. require_diags ext t = []) (bare_toks_of (require_lexemes ext'))"
proof -
  have plain: "require_diags ext (Str s) = []" "require_diags ext (Punct c) = []" for s c
    by (simp_all add: require_diags_def)
  then have "list_all (\<lambda>t. require_diags ext t = []) (join [comma] (map (\<lambda>e. [Str (reread e)]) es))" for es
    by (intro all_covered_join) auto
  with plain show ?thesis
    by (simp add: require_lexemes_def bare_toks_join o_def covered_check)
qed

lemma lint_generated: "lint (lex_text (gen_lexemes rules)) = Some []"
proof -
  let ?rs = "filter enabled rules"
  let ?ext = "\<Union> (rule_extensions ` set ?rs)"
  let ?body = "bare_toks_of (join [LxNewline] (map rule_lexemes ?rs))"
  let ?ts = "bare_toks_of (gen_lexemes rules)"
  have ts: "?ts = bare_toks_of (require_lexemes ?ext) @ ?body"
    by (simp add: gen_lexemes_def Let_def del: set_filter)
  have known: "?ext \<subseteq> known_ext" using rule_extensions_known by blast
  have cov: "list_all (covered ?ext) ?body" by (rule rules_covered)
  have req: "collect_required ?ts = ?ext"
    unfolding ts by (rule collect_generated [OF known cov])
  have "require_diags ?ext t = []" if "t \<in> set ?ts" for t
    using that require_diags_none [of ?ext ?ext] cov unfolding ts list_all_iff covered_def set_append
    by blast
  then have none: "concat (map (require_diags ?ext) ?ts) = []" by simp
  have walk: "bracket_walk ?ts [] [] = ([], [])"
    using neutral_walk [OF gen_neutral, of rules "[]" "[]" "[]"] by simp
  have clean: "has_unterminated_block_comment (lex_text (gen_lexemes rules)) = False"
    "has_unterminated_string (lex_text (gen_lexemes rules)) = False"
    by (simp_all add: block_comment.scan_clean open_string.scan_clean gen_fit)
  show ?thesis
    by (simp only: lint_def tokenize_bare [OF gen_fit] option.map Let_def clean if_False walk req
        none prod.case) simp
qed

end
