(* ===== verification/Builder_Rules.thy ===== *)
theory Builder_Rules
  imports Sieve_Roundtrip Sieve_Eval Sieve_Lint_Clean
begin

text \<open>
  What holds of the builder's rules across the generator, the reader, the linter and the
  evaluator: round trips, lint-clean output, absence of panics, and what the evaluator and
  the glob matcher compute.
\<close>

section \<open>Reading back a generated script\<close>

text \<open>C1: For every rule list, \<open>generate\<close> succeeds and \<open>parse\<close> reads its output back as the enabled
  rules in order, renumbered, with exactly the losses \<open>norm_rules\<close> writes out; no panic and no
  parse error is possible on generated text.\<close>

theorem generate_then_parse:
  "\<exists>src. generate rules = Inr src \<and>
     parse src = Some (Inr (norm_rules 0 (filter enabled rules)))"
  by (simp add: generate_eq parse_generated)

definition plain :: "string \<Rightarrow> bool" where
  "plain s \<longleftrightarrow> list_all (\<lambda>c. is_ascii c \<and> c \<noteq> CR \<and> c \<noteq> LF) s"

fun condition_test :: "condition \<Rightarrow> string_test option" where
  "condition_test (From t) = Some t"
| "condition_test (To t) = Some t"
| "condition_test (Subject t) = Some t"
| "condition_test (Body t) = Some t"
| "condition_test (Keyword t) = Some t"
| "condition_test (ListId t) = Some t"
| "condition_test HasAttachment = None"
| "condition_test (Size over bytes) = None"

fun action_text :: "action \<Rightarrow> string" where
  "action_text (Move m) = m"
| "action_text (Copy m) = m"
| "action_text (Tag k) = k"
| "action_text (Mark k) = k"
| "action_text (Forward a) = a"
| "action_text (ForwardCopy a) = a"
| "action_text (ReplyTemplate t) = t"
| "action_text (Notify m) = m"
| "action_text Stop = []"

definition plain_rule :: "rule \<Rightarrow> bool" where
  "plain_rule r \<longleftrightarrow> plain (rule_name r) \<and>
     list_all (\<lambda>c. case condition_test c of None \<Rightarrow> True | Some t \<Rightarrow> plain (st_value t)) (conditions r) \<and>
     list_all (\<lambda>a. plain (action_text a)) (actions r)"

fun is_Mark :: "action \<Rightarrow> bool" where
  "is_Mark (Mark k) = True"
| "is_Mark _ = False"

text \<open>The rules the parser itself produces: enabled, numbered from \<open>i + 1\<close>, without \<open>Mark\<close>.\<close>

fun canonical_from :: "nat \<Rightarrow> rule list \<Rightarrow> bool" where
  "canonical_from i [] = True"
| "canonical_from i (r # rs) = (enabled r \<and> rule_id r = dec_str (Suc i) \<and>
     (length (conditions r) \<le> 1 \<longrightarrow> match_all r) \<and>
     list_all (\<lambda>a. \<not> is_Mark a) (actions r) \<and> canonical_from (Suc i) rs)"

lemma plain_reread [simp]: "plain s \<Longrightarrow> reread s = s" "plain s \<Longrightarrow> sanitize_comment s = s"
proof -
  assume s: "plain s"
  have san: "sanitize_comment s = s"
    using s by (induction s) (auto simp: plain_def sanitize_comment_def)
  moreover have "list_all is_ascii s" using s by (simp add: plain_def list_all_iff)
  ultimately show "reread s = s" "sanitize_comment s = s" by (simp_all add: reread_def)
qed

lemma norm_condition_plain:
  "(case condition_test c of None \<Rightarrow> True | Some t \<Rightarrow> plain (st_value t)) \<Longrightarrow> norm_condition c = c"
  by (cases c) (simp_all add: norm_test_def)

fun mark_as_tag :: "action \<Rightarrow> action" where
  "mark_as_tag (Mark k) = Tag k"
| "mark_as_tag a = a"

lemma norm_action_plain: "plain (action_text a) \<Longrightarrow> norm_action a = mark_as_tag a"
  by (cases a) simp_all

lemma mark_as_tag_id: "\<not> is_Mark a \<Longrightarrow> mark_as_tag a = a"
  by (cases a) simp_all

lemma norm_rule_plain:
  assumes "plain_rule r"
  shows "norm_rule i r = r\<lparr>rule_id := i, match_all := (length (conditions r) \<le> 1 \<or> match_all r),
     actions := map mark_as_tag (actions r), enabled := True\<rparr>"
  using assms
  by (cases r) (auto simp: plain_rule_def norm_rule_def list_all_iff norm_action_plain
      intro!: map_idI norm_condition_plain)

lemma norm_rules_canonical:
  "list_all plain_rule rs \<Longrightarrow> canonical_from i rs \<Longrightarrow> norm_rules i rs = rs"
proof (induction rs arbitrary: i)
  case (Cons r rs)
  have "map mark_as_tag (actions r) = actions r"
    using Cons.prems(2) by (auto simp: list_all_iff intro!: map_idI mark_as_tag_id)
  then have "norm_rule (dec_str (Suc i)) r = r"
    using Cons.prems by (cases r) (auto simp: norm_rule_plain)
  with Cons show ?case by simp
qed simp

lemma canonical_enabled: "canonical_from i rs \<Longrightarrow> filter enabled rs = rs"
  by (induction rs arbitrary: i) auto

text \<open>On the rules the parser can produce from ASCII text without line breaks, \<open>parse\<close> is a left
  inverse of \<open>generate\<close>: the crate's documented round trip \<open>parse(generate(rules)) == rules\<close>.\<close>

theorem canonical_roundtrip:
  assumes "list_all plain_rule rules" "canonical_from 0 rules"
  shows "\<exists>src. generate rules = Inr src \<and> parse src = Some (Inr rules)"
  using assms
  by (simp add: generate_eq parse_generated canonical_enabled norm_rules_canonical)

text \<open>Two conditions with quotes and a backslash in them, and a guarded stop.\<close>

definition sample_rules :: "rule list" where
  "sample_rules =
     [\<lparr>rule_id = ''1'', rule_name = ''lists'', match_all = False,
       conditions = [Subject \<lparr>st_op = Matches, st_value = ''[*] '' @ [DQ, BSL]\<rparr>, Size True 4096],
       actions = [Copy ''Lists'', Notify ''list mail'', Stop], enabled = True\<rparr>,
      \<lparr>rule_id = ''2'', rule_name = ''all'', match_all = True, conditions = [],
       actions = [Tag ''seen''], enabled = True\<rparr>]"

lemma sample_rules_canonical: "list_all plain_rule sample_rules" "canonical_from 0 sample_rules"
  by code_simp+

theorem canonical_roundtrip_witness:
  "\<exists>src. generate sample_rules = Inr src \<and> parse src = Some (Inr sample_rules)"
  by (rule canonical_roundtrip [OF sample_rules_canonical])

lemma evaluate_norm:
  assumes "plain_rule r"
  shows "evaluate (norm_rule i r) env =
     map mark_as_tag (if rule_matches r env then actions r else [])"
proof -
  have "rule_matches (norm_rule i r) env = rule_matches r env"
    by (cases "conditions r" rule: remdups_adj.cases)
      (simp_all add: norm_rule_plain [OF assms] rule_matches_def)
  then show ?thesis
    by (simp add: evaluate_def) (simp add: norm_rule_plain [OF assms])
qed

lemma stop_mark_as_tag [simp]: "Stop \<in> mark_as_tag ` A \<longleftrightarrow> Stop \<in> A"
proof -
  have "mark_as_tag a = Stop \<longleftrightarrow> a = Stop" for a by (cases a) simp_all
  then show ?thesis by (metis (no_types, lifting) image_iff)
qed

lemma upto_stop_map: "upto_stop (map mark_as_tag as) = map mark_as_tag (upto_stop as)"
proof -
  have "mark_as_tag a = Stop \<longleftrightarrow> a = Stop" for a by (cases a) simp_all
  then show ?thesis by (induction as) auto
qed

lemma evaluate_concat_norm:
  "list_all plain_rule rs \<Longrightarrow>
   concat (map (\<lambda>r. evaluate r env) (norm_rules i (filter enabled rs))) =
     map mark_as_tag (concat (map (\<lambda>r. evaluate r env) rs))"
proof (induction rs arbitrary: i)
  case (Cons r rs)
  have off: "evaluate r env = []" if "\<not> enabled r"
    using that by (simp add: evaluate_def)
  have on: "evaluate r env = (if rule_matches r env then actions r else [])" if "enabled r"
    using that by (simp add: evaluate_def)
  from Cons show ?case by (cases "enabled r") (simp_all add: evaluate_norm on off)
qed simp


definition sample_env :: parsed_envelope where
  "sample_env = \<lparr>env_from = ''a@b.example'', env_to = ''c@d.example'', env_subject = ''[x] '' @ [DQ, BSL],
     env_body = [], has_attachment = False, env_size = 10, env_keywords = [], env_list_id = []\<rparr>"


section \<open>The linter\<close>

text \<open>C14: Every script \<open>generate\<close> writes passes \<open>lint\<close> without a single diagnostic, whatever the
  rules' strings contain: quotes and comments are closed, brackets nest, and every command that
  needs a capability finds it in the \<open>require\<close> line.\<close>

theorem generated_script_is_lint_clean:
  "\<exists>src. generate rules = Inr src \<and> lint src = Some []"
  by (simp add: generate_eq lint_generated)

text \<open>C15: On every valid UTF-8 text the tokenizer never slices a string off a character boundary, so
  \<open>tokenize\<close>, \<open>lint\<close> and \<open>parse\<close> return a value instead of panicking.\<close>

theorem tokenizer_never_panics:
  assumes "valid_utf8 s"
  shows "tokenize_impl keep s \<noteq> None \<and> lint s \<noteq> None \<and> parse s \<noteq> None"
proof -
  have "tokenize_impl k s \<noteq> None" for k
    using valid_utf8_ascii_sep [OF assms] by (intro tokenize_impl_total) (simp add: text_ok_def)
  then show ?thesis
    by (simp add: lint_def parse_def tokenize_def tokenize_with_comments_def)
qed

theorem tokenizer_never_panics_witness:
  "let s = ''keep; # '' @ [CHR 0xC3, CHR 0xA9, LF] @ ''{9}'' @ [CHR 0xC3, CHR 0xA9]
   in tokenize_impl True s \<noteq> None \<and> lint s \<noteq> None \<and> parse s \<noteq> None"
  unfolding Let_def by (rule tokenizer_never_panics) code_simp

text \<open>\<open>lint\<close> misses no capability: whenever a command of the table occurs as a word and its
  capability is in no \<open>require\<close>, the diagnostics name that command and that capability.\<close>

theorem lint_reports_missing_require:
  assumes "tokenize input = Some tokens" "Word w \<in> set tokens" "\<not> prefix '':'' w"
    "map_of requiring_commands w = Some cap" "cap \<notin> collect_required tokens"
  shows "\<exists>ds. lint input = Some ds \<and> MissingRequire w cap \<in> set ds"
proof -
  have w: "dropWhile (\<lambda>c. c = CHR '':'') w = w" using assms(3) by (cases w) auto
  have "MissingRequire w cap \<in> set (require_diags (collect_required tokens) (Word w))"
    using assms(3-5) by (simp add: require_diags_def w)
  with assms(2) have "MissingRequire w cap \<in>
      set (concat (map (require_diags (collect_required tokens)) tokens))"
    by auto
  then show ?thesis
    by (cases "bracket_walk tokens [] (if has_unterminated_block_comment input
        then [UnterminatedBlockComment] else [])") (simp add: lint_def assms(1) Let_def)
qed

theorem lint_reports_missing_require_witness:
  "\<exists>ds. lint (''fileinto '' @ [DQ, CHR ''A'', DQ] @ '';'') = Some ds \<and>
     MissingRequire ''fileinto'' ''fileinto'' \<in> set ds"
  by (rule lint_reports_missing_require
      [where tokens = "[Word ''fileinto'', Str ''A'', semicolon]"]) code_simp+

text \<open>The brackets of a token list, and the balanced words over them.\<close>

fun brackets :: "token list \<Rightarrow> char list" where
  "brackets [] = []"
| "brackets (Punct c # ts) = (if c \<in> set ''{}()[]'' then c # brackets ts else brackets ts)"
| "brackets (_ # ts) = brackets ts"

definition is_opener :: "char \<Rightarrow> bool" where
  "is_opener c \<longleftrightarrow> c \<in> set ''{([''"

definition is_closer :: "char \<Rightarrow> bool" where
  "is_closer c \<longleftrightarrow> c \<in> set ''})]''"

inductive balanced :: "char list \<Rightarrow> bool" where
  balanced_nil: "balanced []"
| balanced_wrap: "is_opener c \<Longrightarrow> balanced u \<Longrightarrow> balanced v \<Longrightarrow> balanced (c # u @ closer c # v)"

lemma opener_closer:
  "is_opener c \<Longrightarrow> opener (closer c) = c"
  "is_closer d \<Longrightarrow> closer (opener d) = d"
  "is_opener c \<Longrightarrow> \<not> is_opener (closer c)"
  by (auto simp: opener_def closer_def is_opener_def is_closer_def)

text \<open>The walk over the bracket word alone: what is left open, or \<open>None\<close> after a mismatch.\<close>

fun nest :: "char list \<Rightarrow> char list \<Rightarrow> char list option" where
  "nest [] st = Some st"
| "nest (c # w) st = (if is_opener c then nest w (c # st)
     else case st of [] \<Rightarrow> None | d # st' \<Rightarrow> if d = opener c then nest w st' else None)"

lemma nest_append: "nest (u @ v) st = (case nest u st of None \<Rightarrow> None | Some st' \<Rightarrow> nest v st')"
  by (induction u st rule: nest.induct) (auto split: list.split)

lemma nest_balanced: "balanced w \<Longrightarrow> nest w st = Some st"
proof (induction w arbitrary: st rule: balanced.induct)
  case (balanced_wrap c u v)
  have "nest (closer c # v) (c # st) = nest v st"
    using opener_closer(1,3) [OF balanced_wrap.hyps(1)] by simp
  with balanced_wrap show ?case by (simp add: nest_append)
qed simp

definition splits_at :: "char list \<Rightarrow> char list \<Rightarrow> bool" where
  "splits_at w st = (case st of [] \<Rightarrow> balanced w
    | d # st' \<Rightarrow> \<exists>u v. w = u @ closer d # v \<and> balanced u \<and> nest v st' = Some [])"

lemma nest_split:
  "nest w st = Some [] \<Longrightarrow> \<forall>c \<in> set w. is_opener c \<or> is_closer c \<Longrightarrow> splits_at w st"
proof (induction w arbitrary: st rule: length_induct)
  case (1 w)
  have IH: "splits_at v st" if "nest v st = Some []" "length v < length w" "set v \<subseteq> set w" for v st
    using "1.IH" "1.prems"(2) that by blast
  show ?case
  proof (cases w)
    case Nil
    with 1 show ?thesis by (simp add: balanced_nil splits_at_def)
  next
    case w: (Cons c w')
    show ?thesis
    proof (cases "is_opener c")
      case True
      have "nest w' (c # st) = Some []" using "1.prems"(1) True w by simp
      then have "splits_at w' (c # st)" using w by (intro IH) auto
      then obtain u v where u: "w' = u @ closer c # v" "balanced u" and v: "nest v st = Some []"
        by (auto simp: splits_at_def)
      have wrap: "balanced (c # u @ closer c # x)" if "balanced x" for x
        using True u(2) that by (rule balanced_wrap)
      have "splits_at v st" using v u w by (intro IH) auto
      show ?thesis
      proof (cases st)
        case Nil
        with \<open>splits_at v st\<close> wrap u w show ?thesis by (simp add: splits_at_def)
      next
        case (Cons d st')
        with \<open>splits_at v st\<close> obtain x y
          where x: "v = x @ closer d # y" "balanced x" "nest y st' = Some []"
          by (auto simp: splits_at_def)
        have "w = (c # u @ closer c # x) @ closer d # y" using w u x by simp
        moreover have "balanced (c # u @ closer c # x)" using x(2) by (rule wrap)
        ultimately show ?thesis unfolding Cons splits_at_def list.case using x(3) by blast
      qed
    next
      case False
      with "1.prems"(1) w obtain d st' where st: "st = d # st'" "d = opener c" "nest w' st' = Some []"
        by (auto split: list.splits if_splits)
      have "is_closer c" using "1.prems"(2) False w by auto
      then have "w = [] @ closer d # w'" using st opener_closer(2) w by simp
      then show ?thesis unfolding st(1) splits_at_def list.case using st(3) balanced_nil by blast
    qed
  qed
qed

lemma nest_iff_balanced:
  "\<forall>c \<in> set w. is_opener c \<or> is_closer c \<Longrightarrow> nest w [] = Some [] \<longleftrightarrow> balanced w"
  using nest_split [of w "[]"] nest_balanced by (auto simp: splits_at_def)

lemma brackets_only: "\<forall>c \<in> set (brackets ts). is_opener c \<or> is_closer c"
  by (induction ts rule: brackets.induct) (auto simp: is_opener_def is_closer_def)

fun is_bracket_diag :: "diag \<Rightarrow> bool" where
  "is_bracket_diag (Unbalanced c d) = True"
| "is_bracket_diag (Unclosed c d) = True"
| "is_bracket_diag _ = False"

lemma bracket_walk_mono: "set ds \<subseteq> set (snd (bracket_walk ts st ds))"
  by (induction ts st ds rule: bracket_walk.induct) (auto split: list.split)

lemma bracket_steps:
  "bracket_walk (Punct c # ts) stack diags =
     (if is_opener c then bracket_walk ts (c # stack) diags
      else if is_closer c then
        (case stack of
           open # st \<Rightarrow> bracket_walk ts st
             (if open = opener c then diags else diags @ [Unbalanced c (opener c)])
         | [] \<Rightarrow> bracket_walk ts [] (diags @ [Unbalanced c (opener c)]))
      else bracket_walk ts stack diags)"
  "brackets (Punct c # ts) = (if is_opener c \<or> is_closer c then c # brackets ts else brackets ts)"
  by (simp_all only: bracket_walk.simps brackets.simps is_opener_def is_closer_def) simp

lemma bracket_walk_nest:
  "nest (brackets ts) st = Some st' \<Longrightarrow> bracket_walk ts st ds = (st', ds)"
proof (induction ts arbitrary: st ds)
  case (Cons t ts)
  then show ?case
    by (cases t) (auto simp: bracket_steps simp del: bracket_walk.simps(2) brackets.simps(2)
        split: list.splits if_splits)
qed simp

lemma bracket_walk_mismatch:
  "nest (brackets ts) st = None \<Longrightarrow> \<exists>d \<in> set (snd (bracket_walk ts st ds)). is_bracket_diag d"
proof (induction ts arbitrary: st ds)
  case (Cons t ts)
  have new: "\<exists>d \<in> set (snd (bracket_walk ts st' (ds @ [Unbalanced c e]))). is_bracket_diag d"
    for st' c e
    using bracket_walk_mono [of "ds @ [Unbalanced c e]" ts st']
    by (intro bexI [of _ "Unbalanced c e"]) auto
  from Cons new show ?case
    by (cases t) (auto simp: bracket_steps simp del: bracket_walk.simps(2) brackets.simps(2)
        split: list.splits if_splits)
qed simp

text \<open>The bracket check of \<open>lint\<close> is exact: on every text it tokenizes, no bracket diagnostic
  comes out if and only if the brackets of the token stream form a balanced word.\<close>

theorem lint_bracket_check_exact:
  assumes "tokenize input = Some tokens" "lint input = Some ds"
  shows "(\<forall>d \<in> set ds. \<not> is_bracket_diag d) \<longleftrightarrow> balanced (brackets tokens)"
proof -
  let ?d0 = "if has_unterminated_block_comment input then [UnterminatedBlockComment] else []"
  obtain st d1 where walk: "bracket_walk tokens [] ?d0 = (st, d1)" by fastforce
  have req: "\<not> is_bracket_diag d" if "d \<in> set (require_diags R t)" for d R t
    using that by (auto simp: require_diags_def Let_def split: token.splits option.splits if_splits)
  have ds: "set ds = set d1 \<union> (\<lambda>c. Unclosed c (closer c)) ` set st \<union>
      (if has_unterminated_string input then {UnterminatedString} else {}) \<union>
      (\<Union>t \<in> set tokens. set (require_diags (collect_required tokens) t))"
    using assms by (auto simp: lint_def Let_def walk)
  have "(\<forall>d \<in> set ds. \<not> is_bracket_diag d) \<longleftrightarrow> st = [] \<and> (\<forall>d \<in> set d1. \<not> is_bracket_diag d)"
    unfolding ds using req by (cases st) (auto split: if_splits)
  also have "\<dots> \<longleftrightarrow> nest (brackets tokens) [] = Some []"
    using bracket_walk_nest [of tokens "[]" _ ?d0] bracket_walk_mismatch [of tokens "[]" ?d0] walk
    by (cases "nest (brackets tokens) []") (auto split: if_splits)
  finally show ?thesis by (simp add: nest_iff_balanced [OF brackets_only])
qed

theorem lint_bracket_check_exact_witness:
  "(\<forall>d \<in> set [Unbalanced (CHR '']'') (CHR ''['') ]. \<not> is_bracket_diag d) \<longleftrightarrow>
     balanced (brackets [Punct (CHR ''(''), Punct (CHR '']'')])"
  by (rule lint_bracket_check_exact [where input = "''(]''"]) code_simp+

section \<open>The evaluator\<close>

text \<open>\<open>evaluate_all\<close> returns the actions of the enabled, matching rules in rule order, cut after
  the first \<open>Stop\<close>: the nested loops with their early return are the flat concatenation.\<close>

theorem evaluate_all_spec:
  "evaluate_all rules env = upto_stop (concat (map (\<lambda>r. evaluate r env) rules))"
  by (simp add: evaluate_all_def evaluate_loop_eq)

text \<open>The iterative matcher never accepts too much: when \<open>glob_matches_exact\<close> succeeds, the text
  matches the pattern in the denotational sense, for every pattern and every text.\<close>

theorem glob_matcher_sound:
  assumes "glob_matches_exact pattern text"
  shows "glob_spec (utf8_chars pattern) (utf8_chars text)"
  using assms by (rule glob_matches_exact_sound)

theorem glob_matcher_sound_witness:
  "glob_spec (utf8_chars ''a*c?'') (utf8_chars ''abbccd'')"
  by (rule glob_matcher_sound) code_simp

text \<open>C18: On a text without a literal asterisk the matcher is exact: the backtracking to the last
  \<open>*\<close> decides precisely whether the text matches the pattern.\<close>

theorem glob_matcher_exact:
  assumes "CHR ''*'' \<notin> set text"
  shows "glob_matches_exact pattern text \<longleftrightarrow> glob_spec (utf8_chars pattern) (utf8_chars text)"
proof -
  have "''*'' \<notin> set (utf8_chars text)"
    using assms by (metis UN_I concat_utf8_chars list.set_intros(1) set_concat)
  then show ?thesis using glob_matches_exact_sound glob_matches_exact_complete by blast
qed

theorem glob_matcher_exact_witness:
  "glob_matches_exact ''*b'' ''abcb'' \<longleftrightarrow> glob_spec (utf8_chars ''*b'') (utf8_chars ''abcb'')"
  by (rule glob_matcher_exact) code_simp


end
