(* ===== verification/Sieve_Script.thy ===== *)
theory Sieve_Script
  imports Rust_Str "HOL-Library.Code_Target_Nat"
begin

text \<open>
  The syntax tree of a Sieve script and its errors (\<open>grammar.rs\<close>): spans, commands, tests,
  arguments, and the error of the grammar, the validator and the local runner with one
  constructor per message. \<open>LoopBound\<close> is the model's own: it marks a loop of the parser cut
  by its bound, and no entry point ever returns it.
\<close>

section \<open>Positions and errors\<close>

record span =
  sp_start :: nat
  sp_end :: nat
  sp_line :: nat
  sp_column :: nat

definition default_span :: span where
  "default_span = \<lparr>sp_start = 0, sp_end = 0, sp_line = 0, sp_column = 0\<rparr>"

text \<open>The messages of the grammar, of the validator (\<open>extensions.rs\<close>) and of the local runner.\<close>

datatype grammar_msg =
    UnterminatedComment
  | UnterminatedQuoted
  | TagNameMissing
  | NumberTooLarge
  | MalformedNumber
  | UnexpectedCharacter string
  | TextNeedsLineBreak
  | UnterminatedMultiline
  | UnexpectedEnd string
  | ExpectedFound string string
  | NestingTooDeep
  | LoopBound

datatype check_msg =
    RequireNotFirst
  | RequireTakesList
  | NeedsRequire string string
  | RequireOnlyTop
  | UnknownName string string
  | WithoutIf string
  | TakesOneTest string
  | TakesNoArguments string
  | NeedsBlock string
  | ElseTakesNothing
  | TakesNoBlock string
  | TakesNoTest string
  | TakesNoNestedTest string
  | TakesTestList string
  | ComparatorNeedsName

datatype local_msg =
    InvalidVacation
  | ScriptTooLarge
  | ExtensionUnavailable string
  | MultipleVacations
  | TagUnavailable string
  | MissingFlagList
  | InvalidFlag
  | InvalidKeepFlags
  | UnexpectedActionArguments
  | ActionNeedsString
  | FlagActionNeedsList
  | CommandUnavailable string
  | UnsupportedComparator
  | InvalidRelational
  | ConflictingMatch
  | UnsupportedTest string
  | UnsupportedAction
  | ActionLimit

datatype script_msg = Gram grammar_msg | Chk check_msg | Loc local_msg

record script_error =
  err_line :: nat
  err_column :: nat
  err_message :: script_msg

definition error_at :: "span \<Rightarrow> script_msg \<Rightarrow> script_error" where
  "error_at s m = \<lparr>err_line = sp_line s, err_column = sp_column s, err_message = m\<rparr>"

section \<open>The syntax tree\<close>

record sieve_string =
  str_value :: string
  str_span :: span
  multiline :: bool

datatype argument_kind =
    Strings "sieve_string list" bool
  | Number "64 word"
  | TagArg string

record argument =
  arg_kind :: argument_kind
  arg_span :: span

datatype test =
  Test (test_name: string) (test_span: span) (test_args: "argument list")
    (test_tests: "test list") (test_list: bool)

datatype command =
  Command (cmd_name: string) (cmd_span: span) (cmd_args: "argument list")
    (cmd_tests: "test list") (cmd_test_list: bool) (cmd_block: "block option")
and block = Block (block_commands: "command list") (block_span: span)

type_synonym script = "command list"

definition arg_tag :: "argument \<Rightarrow> string option" where
  "arg_tag a = (case arg_kind a of TagArg t \<Rightarrow> Some t | _ \<Rightarrow> None)"

definition arg_strings :: "argument \<Rightarrow> sieve_string list option" where
  "arg_strings a = (case arg_kind a of Strings values _ \<Rightarrow> Some values | _ \<Rightarrow> None)"

definition cmd_is :: "command \<Rightarrow> string \<Rightarrow> bool" where
  "cmd_is c name \<longleftrightarrow> eq_nocase (cmd_name c) name"

definition test_is :: "test \<Rightarrow> string \<Rightarrow> bool" where
  "test_is t name \<longleftrightarrow> eq_nocase (test_name t) name"

end
