(* ===== verification/Sieve_Lexer.thy ===== *)
theory Sieve_Lexer
  imports Sieve_Script
begin

text \<open>
  The lexer of the full RFC 5228 grammar (\<open>grammar.rs\<close>, \<open>lex\<close> and \<open>multiline\<close>). The cursor
  is the Rust struct with the source replaced by the bytes not yet consumed. Every move of the
  cursor is a sequence of \<open>bump\<close>s, which is what the position and boundary lemmas rest on: on
  a valid \<open>str\<close> the cursor always stands at a character boundary, so no source_slice of the code can
  panic.
\<close>

section \<open>The cursor\<close>

record cursor =
  c_pos :: nat
  c_line :: nat
  c_column :: nat
  c_rest :: string

definition sat_succ :: "nat \<Rightarrow> nat" where
  "sat_succ n = min (n + 1) (2 ^ 32 - 1)"

definition cpeek :: "cursor \<Rightarrow> char option" where
  "cpeek c = (case c_rest c of [] \<Rightarrow> None | b # _ \<Rightarrow> Some b)"

definition cpeek_at :: "cursor \<Rightarrow> nat \<Rightarrow> char option" where
  "cpeek_at c off = (if off < length (c_rest c) then Some (c_rest c ! off) else None)"

definition here :: "cursor \<Rightarrow> span" where
  "here c = \<lparr>sp_start = c_pos c, sp_end = c_pos c, sp_line = c_line c, sp_column = c_column c\<rparr>"

definition cbump :: "cursor \<Rightarrow> cursor" where
  "cbump c = (case c_rest c of
       [] \<Rightarrow> c
     | b # s \<Rightarrow>
         if b = LF then \<lparr>c_pos = c_pos c + 1, c_line = sat_succ (c_line c), c_column = 1, c_rest = s\<rparr>
         else c\<lparr>c_pos := c_pos c + char_width b, c_column := sat_succ (c_column c),
                c_rest := drop (char_width b) (b # s)\<rparr>)"

definition eat :: "char \<Rightarrow> cursor \<Rightarrow> bool \<times> cursor" where
  "eat b c = (if cpeek c = Some b then (True, cbump c) else (False, c))"

definition eat_newline :: "cursor \<Rightarrow> bool \<times> cursor" where
  "eat_newline c = (if cpeek c = Some CR \<and> cpeek_at c 1 = Some LF then (True, cbump (cbump c))
     else eat LF c)"

text \<open>\<open>self.src[self.pos..].chars().next()\<close>.\<close>

definition next_char :: "cursor \<Rightarrow> string option" where
  "next_char c = (case c_rest c of [] \<Rightarrow> None | b # s \<Rightarrow> Some (take (char_width b) (b # s)))"

text \<open>\<open>source[start..c.pos]\<close>, \<open>start\<close> being the position of an earlier cursor.\<close>

definition source_slice :: "cursor \<Rightarrow> cursor \<Rightarrow> string" where
  "source_slice c c' = take (c_pos c' - c_pos c) (c_rest c)"

definition start_cursor :: "string \<Rightarrow> cursor" where
  "start_cursor source = \<lparr>c_pos = 0, c_line = 1, c_column = 1, c_rest = source\<rparr>"

abbreviation todo :: "cursor \<Rightarrow> nat" where "todo c \<equiv> length (c_rest c)"

lemma cbump_todo: "c_rest c \<noteq> [] \<Longrightarrow> todo (cbump c) < todo c"
  by (cases "c_rest c") (simp_all add: cbump_def)

lemma cbump_le: "todo (cbump c) \<le> todo c"
  by (cases "c_rest c") (simp_all add: cbump_def)

lemma cpeek_Some: "cpeek c = Some b \<longleftrightarrow> (\<exists>s. c_rest c = b # s)"
  by (simp add: cpeek_def split: list.split)

lemma cpeek_todo: "cpeek c = Some b \<Longrightarrow> todo (cbump c) < todo c"
  by (rule cbump_todo) (auto simp: cpeek_Some)

text \<open>\<open>while c.peek().is_some_and(p) { c.bump(); }\<close>\<close>

function skip_while :: "(char \<Rightarrow> bool) \<Rightarrow> cursor \<Rightarrow> cursor" where
  "skip_while p c = (case cpeek c of
       Some b \<Rightarrow> if p b then skip_while p (cbump c) else c
     | None \<Rightarrow> c)"
  by pat_completeness auto
termination by (relation "measure (\<lambda>(p, c). todo c)") (auto dest: cpeek_todo)

declare skip_while.simps [simp del]

lemma skip_while_le: "todo (skip_while p c) \<le> todo c"
proof (induction p c rule: skip_while.induct)
  case (1 p c)
  then show ?case
    using le_trans [OF _ cbump_le [of c]]
    by (subst skip_while.simps) (simp split: option.split)
qed

lemma eat_newline_le: "todo (snd (eat_newline c)) \<le> todo c"
  using le_trans [OF cbump_le [of "cbump c"] cbump_le [of c]] cbump_le [of c]
  by (simp add: eat_newline_def eat_def)

section \<open>Tokens\<close>

datatype tok =
    TIdent string
  | TTag string
  | TNumber "64 word"
  | TStr string bool
  | TPunct char

record gtoken =
  gt_tok :: tok
  gt_span :: span

definition mk_token :: "tok \<Rightarrow> span \<Rightarrow> nat \<Rightarrow> gtoken" where
  "mk_token t start e = \<lparr>gt_tok = t, gt_span = start\<lparr>sp_end := e\<rparr>\<rparr>"

definition is_ident_start :: "char \<Rightarrow> bool" where
  "is_ident_start b \<longleftrightarrow> is_alpha b \<or> b = CHR ''_''"

definition is_ident_char :: "char \<Rightarrow> bool" where
  "is_ident_char b \<longleftrightarrow> is_alnum b \<or> b = CHR ''_''"

definition eof_step :: "nat \<times> nat \<Rightarrow> string \<Rightarrow> nat \<times> nat" where
  "eof_step lc ch = (if ch = [LF] then (sat_succ (fst lc), 1) else (fst lc, sat_succ (snd lc)))"

definition eof_span :: "string \<Rightarrow> span" where
  "eof_span source = (let (l, c) = foldl eof_step (1, 1) (utf8_chars source)
     in \<lparr>sp_start = length source, sp_end = length source, sp_line = l, sp_column = c\<rparr>)"

function comment_loop :: "span \<Rightarrow> cursor \<Rightarrow> script_error + cursor" where
  "comment_loop start c = (case cpeek c of
       None \<Rightarrow> Inl (error_at start (Gram UnterminatedComment))
     | Some b \<Rightarrow>
         if b = CHR ''*'' \<and> cpeek_at c 1 = Some (CHR ''/'') then Inr (cbump (cbump c))
         else comment_loop start (cbump c))"
  by pat_completeness auto
termination by (relation "measure (\<lambda>(s, c). todo c)") (auto dest: cpeek_todo)

function quoted_loop :: "span \<Rightarrow> string \<Rightarrow> cursor \<Rightarrow> script_error + string \<times> cursor" where
  "quoted_loop start val c = (case cpeek c of
       None \<Rightarrow> Inl (error_at start (Gram UnterminatedQuoted))
     | Some b \<Rightarrow>
         if b = DQ then Inr (val, cbump c)
         else if b = BSL then
           (case next_char (cbump c) of
              Some ch \<Rightarrow> quoted_loop start (val @ ch) (cbump (cbump c))
            | None \<Rightarrow> Inl (error_at start (Gram UnterminatedQuoted)))
         else quoted_loop start
                (case next_char c of Some ch \<Rightarrow> val @ ch | None \<Rightarrow> val) (cbump c))"
  by pat_completeness auto
termination
proof (relation "measure (\<lambda>(s, v, c). todo c)", goal_cases)
  case (2 start val c b ch)
  then have "todo (cbump c) < todo c" by (auto dest: cpeek_todo)
  then show ?case using le_less_trans [OF cbump_le [of "cbump c"]] by simp
qed (auto dest: cpeek_todo)

definition ml_unstuff :: "string \<Rightarrow> string" where
  "ml_unstuff line = (if prefix ''.'' line \<and> prefix ''..'' line then drop 1 line else line)"

function multiline_loop :: "span \<Rightarrow> string \<Rightarrow> cursor \<Rightarrow> script_error + string \<times> cursor" where
  "multiline_loop start val c =
     (if cpeek c = None then Inl (error_at start (Gram UnterminatedMultiline))
      else
        (let c1 = skip_while (\<lambda>x. x \<noteq> LF) c;
             raw = source_slice c c1;
             line = (case strip_suffix [CR] raw of Some l \<Rightarrow> l | None \<Rightarrow> raw);
             (had_newline, c2) = eat_newline c1
         in if line = ''.'' then Inr (val, c2)
            else multiline_loop start
                   (val @ ml_unstuff line @ (if had_newline then [CR, LF] else [])) c2))"
  by pat_completeness auto
termination
proof (relation "measure (\<lambda>(s, v, c). todo c)", goal_cases)
  case (2 start val c c1 raw line p had c2)
  then obtain b s where b: "c_rest c = b # s" by (auto simp: cpeek_def split: list.splits)
  have c2: "todo c2 \<le> todo c1" using eat_newline_le [of c1] 2 by (metis snd_conv)
  show ?case
  proof (cases "b = LF")
    case True
    then have "c1 = c" using 2 b by (simp add: skip_while.simps [of _ c] cpeek_def)
    then have "c2 = cbump c" using 2 b True by (auto simp: eat_newline_def eat_def cpeek_def)
    with b show ?thesis using cbump_todo [of c] by simp
  next
    case False
    then have "c1 = skip_while (\<lambda>x. x \<noteq> LF) (cbump c)"
      using 2 b by (simp add: skip_while.simps [of _ c] cpeek_def)
    then have "todo c1 < todo c"
      using skip_while_le [of _ "cbump c"] cbump_todo [of c] b by (metis le_trans not_le list.distinct(1))
    with c2 show ?thesis by simp
  qed
qed auto

declare comment_loop.simps [simp del] quoted_loop.simps [simp del] multiline_loop.simps [simp del]

definition lex_multiline :: "cursor \<Rightarrow> span \<Rightarrow> script_error + string \<times> cursor" where
  "lex_multiline c start =
     (let c1 = skip_while (\<lambda>x. x = SP \<or> x = TAB) c;
          c2 = (if cpeek c1 = Some (CHR ''#'') then skip_while (\<lambda>x. x \<noteq> LF) c1 else c1);
          (nl, c3) = eat_newline c2
      in if \<not> nl then Inl (error_at (here c3) (Gram TextNeedsLineBreak))
         else multiline_loop start [] c3)"

definition number_shift :: "char option \<Rightarrow> nat" where
  "number_shift p = (case p of
       Some b \<Rightarrow> if b \<in> set ''Kk'' then 10 else if b \<in> set ''Mm'' then 20
         else if b \<in> set ''Gg'' then 30 else 0
     | None \<Rightarrow> 0)"

definition lex_number :: "cursor \<Rightarrow> span \<Rightarrow> script_error + gtoken option \<times> cursor" where
  "lex_number c start =
     (let c1 = skip_while is_digit c in
      case parse_digits (2 ^ 64 - 1) (source_slice c c1) of
        None \<Rightarrow> Inl (error_at start (Gram NumberTooLarge))
      | Some val \<Rightarrow>
          (let shift = number_shift (cpeek c1);
               c2 = (if shift > 0 then cbump c1 else c1)
           in if shift > 0 \<and> val * 2 ^ shift \<ge> 2 ^ 64 then Inl (error_at start (Gram NumberTooLarge))
              else if (case cpeek c2 of Some b \<Rightarrow> is_ident_char b | None \<Rightarrow> False)
              then Inl (error_at start (Gram MalformedNumber))
              else Inr (Some (mk_token (TNumber (of_nat (val * 2 ^ shift))) start (c_pos c2)), c2)))"

definition is_layout :: "char \<Rightarrow> bool" where
  "is_layout b \<longleftrightarrow> b \<in> {SP, TAB, CR, LF}"

definition is_mark :: "char \<Rightarrow> bool" where
  "is_mark b \<longleftrightarrow> b \<in> set ''[](){};,''"

text \<open>One turn of the loop of \<open>lex\<close>, at the byte \<open>b\<close>.\<close>

definition lex_step :: "char \<Rightarrow> cursor \<Rightarrow> script_error + gtoken option \<times> cursor" where
  "lex_step b c =
     (let start = here c in
      if is_layout b then Inr (None, cbump c)
      else if b = CHR ''#'' then Inr (None, skip_while (\<lambda>x. x \<noteq> LF) c)
      else if b = CHR ''/'' \<and> cpeek_at c 1 = Some (CHR ''*'') then
        rbind (comment_loop start (cbump (cbump c))) (\<lambda>c'. Inr (None, c'))
      else if b = DQ then
        rbind (quoted_loop start [] (cbump c)) (\<lambda>(val, c').
          Inr (Some (mk_token (TStr val False) start (c_pos c')), c'))
      else if is_mark b then
        Inr (Some (mk_token (TPunct b) start (c_pos (cbump c))), cbump c)
      else if b = CHR '':'' then
        (let c1 = cbump c in
         if \<not> (case cpeek c1 of Some x \<Rightarrow> is_ident_start x | None \<Rightarrow> False)
         then Inl (error_at start (Gram TagNameMissing))
         else let c2 = skip_while is_ident_char c1
           in Inr (Some (mk_token (TTag (source_slice c1 c2)) start (c_pos c2)), c2))
      else if is_digit b then lex_number c start
      else if is_ident_start b then
        (let c1 = skip_while is_ident_char c; ident = source_slice c c1 in
         if eq_nocase ident ''text'' \<and> cpeek c1 = Some (CHR '':'') then
           rbind (lex_multiline (cbump c1) start) (\<lambda>(val, c').
             Inr (Some (mk_token (TStr val True) start (c_pos c')), c'))
         else Inr (Some (mk_token (TIdent ident) start (c_pos c1)), c1))
      else Inl (error_at start
             (Gram (UnexpectedCharacter (case next_char c of Some ch \<Rightarrow> ch | None \<Rightarrow> ''?'')))))"

section \<open>Every turn consumes\<close>

lemma skip_while_less:
  assumes "cpeek c = Some b" "p b"
  shows "todo (skip_while p c) < todo c"
  using assms le_less_trans [OF skip_while_le cpeek_todo [OF assms(1)]]
  by (subst skip_while.simps) simp

lemma comment_loop_le: "comment_loop start c = Inr c' \<Longrightarrow> todo c' \<le> todo c"
proof (induction start c rule: comment_loop.induct)
  case (1 start c)
  then show ?case
    using le_trans [OF cbump_le [of "cbump c"] cbump_le [of c]] le_trans [OF _ cbump_le [of c]]
    by (auto simp: comment_loop.simps [of start c] split: option.splits if_splits)
qed

lemma quoted_loop_le: "quoted_loop start val c = Inr (out, c') \<Longrightarrow> todo c' \<le> todo c"
proof (induction start val c rule: quoted_loop.induct)
  case (1 start val c)
  have two: "n \<le> todo (cbump (cbump c)) \<Longrightarrow> n \<le> todo c" for n
    using cbump_le [of "cbump c"] cbump_le [of c] by linarith
  have one: "n \<le> todo (cbump c) \<Longrightarrow> n \<le> todo c" for n
    using cbump_le [of c] by linarith
  from "1.prems" show ?case
    using "1.IH"
    by (auto simp: quoted_loop.simps [of start val c] split: option.splits if_splits intro: one two)
qed

lemma multiline_loop_le: "multiline_loop start val c = Inr (out, c') \<Longrightarrow> todo c' \<le> todo c"
proof (induction start val c rule: multiline_loop.induct)
  case (1 start val c)
  define c1 where "c1 = skip_while (\<lambda>x. x \<noteq> LF) c"
  obtain had c2 where c2: "eat_newline c1 = (had, c2)" by fastforce
  have le: "todo c2 \<le> todo c"
    using eat_newline_le [of c1] skip_while_le [of "\<lambda>x. x \<noteq> LF" c] c2 by (simp add: c1_def)
  from "1.prems" show ?case
    using "1.IH" [OF _ c1_def refl refl c2 [symmetric] refl] le
    by (auto simp: multiline_loop.simps [of start val c] Let_def c1_def [symmetric] c2
        split: if_splits)
qed

lemma lex_multiline_le:
  assumes "lex_multiline c start = Inr (val, c')"
  shows "todo c' \<le> todo c"
proof -
  define c1 where "c1 = skip_while (\<lambda>x. x = SP \<or> x = TAB) c"
  define c2 where "c2 = (if cpeek c1 = Some (CHR ''#'') then skip_while (\<lambda>x. x \<noteq> LF) c1 else c1)"
  obtain nl c3 where c3: "eat_newline c2 = (nl, c3)" by fastforce
  have "multiline_loop start [] c3 = Inr (val, c')"
    using assms unfolding lex_multiline_def c1_def [symmetric]
    by (simp only: Let_def c2_def [symmetric] c3 prod.case split: if_splits) simp_all
  then have "todo c' \<le> todo c3" by (rule multiline_loop_le)
  also have "\<dots> \<le> todo c2" using eat_newline_le [of c2] c3 by simp
  also have "\<dots> \<le> todo c1" using skip_while_le by (simp add: c2_def)
  also have "\<dots> \<le> todo c" using skip_while_le by (simp add: c1_def)
  finally show ?thesis .
qed

lemma lex_number_less:
  assumes "lex_number c start = Inr (t, c')" "cpeek c = Some b" "is_digit b"
  shows "todo c' < todo c"
proof -
  have less: "todo (skip_while is_digit c) < todo c" using assms(2,3) by (rule skip_while_less)
  have "todo c' \<le> todo (skip_while is_digit c)"
    using assms(1) cbump_le [of "skip_while is_digit c"]
    by (auto simp: lex_number_def Let_def split: option.splits if_splits)
  with less show ?thesis by simp
qed

lemma lex_step_less:
  assumes "lex_step b c = Inr (t, c')" "cpeek c = Some b"
  shows "todo c' < todo c"
proof -
  have one: "todo (cbump c) < todo c" using assms(2) by (rule cpeek_todo)
  have two: "todo (cbump (cbump c)) < todo c" using one cbump_le [of "cbump c"] by simp
  have skip: "todo (skip_while p c) < todo c" if "p b" for p
    using assms(2) that by (rule skip_while_less)
  have tag: "todo (skip_while p (cbump c)) < todo c" for p
    using one skip_while_le [of p "cbump c"] by simp
  have ident: "todo (cbump (skip_while is_ident_char c)) < todo c" if "is_ident_start b"
  proof -
    have "is_ident_char b" using that by (auto simp: is_ident_start_def is_ident_char_def)
    then show ?thesis
      using skip [of is_ident_char] cbump_le [of "skip_while is_ident_char c"] by simp
  qed
  have start_char: "is_ident_start b \<Longrightarrow> is_ident_char b"
    by (auto simp: is_ident_start_def is_ident_char_def)
  have number: "todo c' < todo c" if "is_digit b" "lex_number c (here c) = Inr (t, c')"
    using that assms(2) by (blast intro: lex_number_less)
  show ?thesis
    using assms(1) one two tag skip [of is_ident_char] skip [of "\<lambda>x. x \<noteq> LF"] start_char ident number
    unfolding lex_step_def Let_def
    by (simp split: if_splits;
        force simp: rbind_eq_Inr dest!: comment_loop_le quoted_loop_le lex_multiline_le
          split: prod.splits)
qed

section \<open>The lexer\<close>

function lex_loop :: "cursor \<Rightarrow> script_error + gtoken list" where
  "lex_loop c = (case cpeek c of
       None \<Rightarrow> Inr []
     | Some b \<Rightarrow> rbind (lex_step b c) (\<lambda>(t, c'). rbind (lex_loop c') (\<lambda>ts.
         Inr (case t of Some x \<Rightarrow> x # ts | None \<Rightarrow> ts))))"
  by pat_completeness auto
termination by (relation "measure todo") (auto dest: lex_step_less)

declare lex_loop.simps [simp del]

definition lex :: "string \<Rightarrow> script_error + gtoken list" where
  "lex source = lex_loop (start_cursor source)"

section \<open>Where the cursor can be\<close>

text \<open>
  Every cursor the lexer visits is reached from the start by \<open>bump\<close>s. On a valid \<open>str\<close> the
  cursor after \<open>k\<close> bumps stands before the \<open>k\<close>-th character, at the byte offset, line and
  column of that character.
\<close>

definition moves :: "cursor \<Rightarrow> cursor \<Rightarrow> bool" where
  "moves c c' \<longleftrightarrow> (\<exists>n. c' = (cbump ^^ n) c)"

lemma moves_refl [simp, intro]: "moves c c"
  unfolding moves_def by (rule exI [of _ 0]) simp

lemma moves_bump [simp, intro]: "moves c (cbump c)"
  unfolding moves_def by (rule exI [of _ 1]) simp

lemma moves_trans: "moves a b \<Longrightarrow> moves b c \<Longrightarrow> moves a c"
  unfolding moves_def by (metis comp_apply funpow_add)

lemma moves_step [intro]: "moves a b \<Longrightarrow> moves a (cbump b)"
  by (rule moves_trans) auto

definition at_char :: "string \<Rightarrow> nat \<Rightarrow> cursor" where
  "at_char src k = (let passed = take k (utf8_chars src); lc = foldl eof_step (1, 1) passed
     in \<lparr>c_pos = length (concat passed), c_line = fst lc, c_column = snd lc,
         c_rest = concat (drop k (utf8_chars src))\<rparr>)"

lemma at_char_start: "at_char src 0 = start_cursor src"
  by (simp add: at_char_def start_cursor_def)

lemma char_ok_LF: "char_ok ch \<Longrightarrow> ch = [LF] \<longleftrightarrow> hd ch = LF"
proof (cases ch)
  case (Cons a r)
  assume "char_ok ch"
  then have "length ch = char_width (hd ch)" by (simp add: char_ok_length)
  moreover have "char_width LF = 1" by (simp add: char_width_def)
  ultimately show ?thesis using Cons by (cases r) auto
qed simp

lemma cbump_at_char:
  assumes "valid_utf8 src"
  shows "cbump (at_char src k) = at_char src (min (Suc k) (length (utf8_chars src)))"
proof (cases "k < length (utf8_chars src)")
  case False
  then show ?thesis by (simp add: at_char_def cbump_def Let_def)
next
  case True
  define ch where "ch = utf8_chars src ! k"
  have ok: "char_ok ch"
    using assms True unfolding ch_def valid_utf8_def by (simp add: list_all_length)
  have len: "length ch = char_width (hd ch)" "ch \<noteq> []" using char_ok_length [OF ok] by simp_all
  have drop: "drop k (utf8_chars src) = ch # drop (Suc k) (utf8_chars src)"
    unfolding ch_def using True by (simp add: Cons_nth_drop_Suc)
  have take: "take (Suc k) (utf8_chars src) = take k (utf8_chars src) @ [ch]"
    unfolding ch_def using True by (simp add: take_Suc_conv_app_nth)
  obtain a r where a: "ch = a # r" using len(2) by (cases ch) auto
  have LF: "ch = [LF] \<longleftrightarrow> a = LF" using char_ok_LF [OF ok] a by simp
  have rest: "drop (char_width a) (a # r @ concat (drop (Suc k) (utf8_chars src))) =
      concat (drop (Suc k) (utf8_chars src))"
    using len a by (metis append_Cons append_eq_conv_conj list.sel(1))
  show ?thesis
    using True LF len rest
    by (auto simp: at_char_def cbump_def drop take a Let_def split_def eof_step_def min_def)
qed

lemma moves_at_char:
  assumes "valid_utf8 src" "moves (start_cursor src) c"
  obtains k where "k \<le> length (utf8_chars src)" "c = at_char src k"
proof -
  from assms(2) obtain n where n: "c = (cbump ^^ n) (at_char src 0)"
    by (auto simp: moves_def at_char_start)
  have "\<exists>k \<le> length (utf8_chars src). (cbump ^^ n) (at_char src 0) = at_char src k"
  proof (induction n)
    case (Suc n)
    then obtain k where "(cbump ^^ n) (at_char src 0) = at_char src k" by blast
    then have "(cbump ^^ Suc n) (at_char src 0) = at_char src (min (Suc k) (length (utf8_chars src)))"
      by (simp add: cbump_at_char [OF assms(1)])
    then show ?case by (metis min.cobounded2)
  qed auto
  with n that show ?thesis by blast
qed

lemma moves_skip_while: "moves c (skip_while p c)"
proof (induction p c rule: skip_while.induct)
  case (1 p c)
  then show ?case
    by (subst skip_while.simps) (auto split: option.split intro: moves_trans [OF moves_bump])
qed

lemma moves_eat_newline: "moves c (snd (eat_newline c))"
  by (auto simp: eat_newline_def eat_def)

lemma moves_comment_loop: "comment_loop start c = Inr c' \<Longrightarrow> moves c c'"
proof (induction start c rule: comment_loop.induct)
  case (1 start c)
  then show ?case
    by (auto simp: comment_loop.simps [of start c] split: option.splits if_splits
        intro: moves_trans [OF moves_bump])
qed

lemma moves_quoted_loop: "quoted_loop start val c = Inr (out, c') \<Longrightarrow> moves c c'"
proof (induction start val c rule: quoted_loop.induct)
  case (1 start val c)
  have two: "moves (cbump (cbump c)) x \<Longrightarrow> moves c x" for x
    by (meson moves_bump moves_trans)
  from "1.prems" "1.IH" show ?case
    by (auto simp: quoted_loop.simps [of start val c] split: option.splits if_splits
        intro: moves_trans [OF moves_bump] two)
qed

lemma moves_multiline_loop: "multiline_loop start val c = Inr (out, c') \<Longrightarrow> moves c c'"
proof (induction start val c rule: multiline_loop.induct)
  case (1 start val c)
  define c1 where "c1 = skip_while (\<lambda>x. x \<noteq> LF) c"
  obtain had c2 where c2: "eat_newline c1 = (had, c2)" by fastforce
  have to_c2: "moves c c2"
    using moves_eat_newline [of c1] moves_skip_while c2 unfolding c1_def
    by (metis moves_trans snd_conv)
  from "1.prems" show ?case
    using "1.IH" [OF _ c1_def refl refl c2 [symmetric] refl] to_c2
    by (auto simp: multiline_loop.simps [of start val c] Let_def c1_def [symmetric] c2
        split: if_splits intro: moves_trans)
qed

lemma moves_lex_multiline:
  assumes "lex_multiline c start = Inr (val, c')"
  shows "moves c c'"
proof -
  define c1 where "c1 = skip_while (\<lambda>x. x = SP \<or> x = TAB) c"
  define c2 where "c2 = (if cpeek c1 = Some (CHR ''#'') then skip_while (\<lambda>x. x \<noteq> LF) c1 else c1)"
  obtain nl c3 where c3: "eat_newline c2 = (nl, c3)" by fastforce
  have "multiline_loop start [] c3 = Inr (val, c')"
    using assms unfolding lex_multiline_def c1_def [symmetric]
    by (simp only: Let_def c2_def [symmetric] c3 prod.case split: if_splits) simp_all
  then have "moves c3 c'" by (rule moves_multiline_loop)
  moreover have "moves c2 c3" using moves_eat_newline [of c2] c3 by simp
  moreover have "moves c1 c2" by (simp add: c2_def moves_skip_while)
  moreover have "moves c c1" by (simp add: c1_def moves_skip_while)
  ultimately show ?thesis by (meson moves_trans)
qed

text \<open>One turn moves the cursor, and a token it makes spans exactly what it passed over.\<close>

lemma lex_number_moves:
  assumes "lex_number c start = Inr (t, c')"
  shows "moves c c' \<and> (\<exists>n. t = Some (mk_token (TNumber n) start (c_pos c')))"
proof -
  have "moves c (cbump (skip_while is_digit c))"
    by (intro moves_step moves_skip_while)
  then show ?thesis
    using assms by (auto simp: lex_number_def Let_def moves_skip_while split: option.splits if_splits)
qed

lemma lex_step_moves:
  assumes "lex_step b c = Inr (t, c')"
  shows "moves c c' \<and> (case t of None \<Rightarrow> True | Some x \<Rightarrow> \<exists>k. x = mk_token k (here c) (c_pos c'))"
proof -
  have two: "moves (cbump (cbump c)) x \<Longrightarrow> moves c x" and one: "moves (cbump c) x \<Longrightarrow> moves c x"
    and id: "moves (cbump (skip_while is_ident_char c)) x \<Longrightarrow> moves c x" for x
    by (meson moves_bump moves_trans moves_skip_while)+
  have skip: "moves c (skip_while p (cbump c))" for p
    by (rule one) (rule moves_skip_while)
  show ?thesis
    using assms unfolding lex_step_def Let_def
    by (simp split: if_splits;
        force simp: rbind_eq_Inr skip moves_skip_while dest!: lex_number_moves moves_comment_loop
          moves_quoted_loop moves_lex_multiline intro: one two id split: prod.splits)
qed

section \<open>The spans of the tokens\<close>

lemma at_char_prefix:
  assumes "valid_utf8 src"
  shows "take (c_pos (at_char src k)) src = concat (take k (utf8_chars src))"
    "drop (c_pos (at_char src k)) src = c_rest (at_char src k)"
    "eof_span (take (c_pos (at_char src k)) src) = here (at_char src k)"
    "c_pos (at_char src k) + todo (at_char src k) = length src"
proof -
  have split: "src = concat (take k (utf8_chars src)) @ concat (drop k (utf8_chars src))"
    by (metis append_take_drop_id concat_append concat_utf8_chars)
  have pos: "c_pos (at_char src k) = length (concat (take k (utf8_chars src)))"
    and rest: "c_rest (at_char src k) = concat (drop k (utf8_chars src))"
    by (simp_all add: at_char_def Let_def)
  show take: "take (c_pos (at_char src k)) src = concat (take k (utf8_chars src))"
    unfolding pos by (metis append_eq_conv_conj split)
  show "drop (c_pos (at_char src k)) src = c_rest (at_char src k)"
    unfolding pos rest by (metis append_eq_conv_conj split)
  have "list_all char_ok (take k (utf8_chars src))"
    using assms by (auto simp: valid_utf8_def list_all_iff dest: in_set_takeD)
  then have "utf8_chars (concat (take k (utf8_chars src))) = take k (utf8_chars src)"
    by (rule utf8_chars_concat)
  then show "eof_span (take (c_pos (at_char src k)) src) = here (at_char src k)"
    unfolding take by (simp add: eof_span_def here_def at_char_def Let_def split_def)
  show "c_pos (at_char src k) + todo (at_char src k) = length src"
    unfolding pos rest by (metis split length_append)
qed

text \<open>
  A span fits its source: it is not empty, lies inside, both ends are character boundaries,
  and its line and column are what counting the characters before it gives.
\<close>

definition span_fits :: "string \<Rightarrow> span \<Rightarrow> bool" where
  "span_fits src s \<longleftrightarrow> sp_start s < sp_end s \<and> sp_end s \<le> length src \<and>
     valid_utf8 (take (sp_start s) src) \<and> valid_utf8 (take (sp_end s) src) \<and>
     sp_line s = sp_line (eof_span (take (sp_start s) src)) \<and>
     sp_column s = sp_column (eof_span (take (sp_start s) src))"

text \<open>The tokens follow each other from offset \<open>from\<close> on.\<close>

fun in_order :: "nat \<Rightarrow> gtoken list \<Rightarrow> bool" where
  "in_order from [] = True"
| "in_order from (t # ts) \<longleftrightarrow> from \<le> sp_start (gt_span t) \<and> in_order (sp_end (gt_span t)) ts"

lemma in_order_weaken: "in_order n ts \<Longrightarrow> m \<le> n \<Longrightarrow> in_order m ts"
  by (cases ts) auto

lemma valid_prefix: "valid_utf8 src \<Longrightarrow> valid_utf8 (concat (take k (utf8_chars src)))"
  by (rule valid_utf8_concat) (auto simp: valid_utf8_def list_all_iff dest: in_set_takeD)

lemma lex_loop_spans:
  assumes "valid_utf8 src"
  shows "moves (start_cursor src) c \<Longrightarrow> lex_loop c = Inr ts \<Longrightarrow>
     list_all (\<lambda>t. span_fits src (gt_span t)) ts \<and> in_order (c_pos c) ts"
proof (induction c arbitrary: ts rule: lex_loop.induct)
  case (1 c)
  show ?case
  proof (cases "cpeek c")
    case None
    with "1.prems" show ?thesis by (simp add: lex_loop.simps [of c])
  next
    case (Some b)
    with "1.prems"(2) obtain t c' us where step: "lex_step b c = Inr (t, c')"
      and us: "lex_loop c' = Inr us" and ts: "ts = (case t of Some x \<Rightarrow> x # us | None \<Rightarrow> us)"
      by (auto simp: lex_loop.simps [of c] rbind_eq_Inr)
    have mv: "moves c c'" and tok: "\<And>x. t = Some x \<Longrightarrow> \<exists>k. x = mk_token k (here c) (c_pos c')"
      using lex_step_moves [OF step] by auto
    have reach: "moves (start_cursor src) c'" using "1.prems"(1) mv by (rule moves_trans)
    from "1.IH" [OF Some step refl reach us]
    have tail: "list_all (\<lambda>t. span_fits src (gt_span t)) us" "in_order (c_pos c') us" by simp_all
    obtain k where k: "c = at_char src k" using moves_at_char [OF assms "1.prems"(1)] by blast
    obtain k' where k': "c' = at_char src k'" using moves_at_char [OF assms reach] by blast
    have lt: "c_pos c < c_pos c'"
      using lex_step_less [OF step Some] at_char_prefix(4) [OF assms, of k]
        at_char_prefix(4) [OF assms, of k'] k k' by simp
    have len: "c_pos c' \<le> length src" using at_char_prefix(4) [OF assms, of k'] k' by simp
    show ?thesis
    proof (cases t)
      case None
      with ts tail lt show ?thesis by (simp add: in_order_weaken)
    next
      case (Some x)
      then obtain y where y: "x = mk_token y (here c) (c_pos c')" using tok by blast
      have "span_fits src (gt_span x)"
        using lt len at_char_prefix [OF assms, of k] at_char_prefix [OF assms, of k']
          valid_prefix [OF assms]
        by (simp add: y span_fits_def mk_token_def here_def k k')
      with Some ts tail y show ?thesis by (simp add: mk_token_def here_def)
    qed
  qed
qed

text \<open>C20: On a valid source the lexer's token spans are non-empty, follow each other without overlap, lie
  inside the source with both ends on character boundaries, and their line and column are the
  ones \<open>eof_span\<close> counts for the text before the token.\<close>

theorem lexer_spans_exact:
  assumes "valid_utf8 source" "lex source = Inr toks"
  shows "list_all (\<lambda>t. span_fits source (gt_span t)) toks \<and> in_order 0 toks"
  using lex_loop_spans [OF assms(1) moves_refl] assms(2)
  by (simp add: lex_def) (simp add: start_cursor_def)

text \<open>A small script with a number, a list, a non-ASCII string and a block.\<close>

definition sample_script :: string where
  "sample_script = ''if anyof (size :over 10K, header :is [''@ [DQ] @ ''a'' @ [DQ] @ ''] '' @
     [DQ, CHR 0xC3, CHR 0xA9, DQ] @ '') {'' @ [LF] @ ''stop; }''"

lemma sample_script_valid: "valid_utf8 sample_script" by code_simp

lemma sample_script_lexes: "\<exists>toks. lex sample_script = Inr toks"
proof -
  have "\<not> isl (lex sample_script)" by code_simp
  then show ?thesis by (cases "lex sample_script") auto
qed

theorem lexer_spans_exact_witness:
  "\<exists>toks. lex sample_script = Inr toks \<and>
     list_all (\<lambda>t. span_fits sample_script (gt_span t)) toks \<and> in_order 0 toks"
  using lexer_spans_exact [OF sample_script_valid] sample_script_lexes by blast

end
