(* ===== verification/Sieve_Grammar.thy ===== *)
theory Sieve_Grammar
  imports Sieve_Lexer
begin

text \<open>
  The recursive-descent parser of \<open>grammar.rs\<close>. A parser state is the end offset of the token
  just consumed (\<open>toks[pos - 1].span.end\<close>) and the tokens left; the span of the end of the
  source is a parameter. Rust's \<open>depth\<close> counts up to \<open>MAX_DEPTH\<close>; here \<open>room\<close> counts down
  from \<open>MAX_DEPTH + 1\<close>, so \<open>depth > MAX_DEPTH\<close> is \<open>room = 0\<close> and the mutual recursion is
  structural. The two loops over nested items are bounded by the number of tokens left, which
  is always enough: every item consumes at least one token.
\<close>

definition MAX_DEPTH :: nat where "MAX_DEPTH = 64"

section \<open>The parser state\<close>

type_synonym gstate = "nat \<times> gtoken list"
type_synonym 'a gparser = "gstate \<Rightarrow> script_error + 'a \<times> gstate"

abbreviation gleft :: "gstate \<Rightarrow> nat" where "gleft p \<equiv> length (snd p)"

definition gpeek :: "gstate \<Rightarrow> gtoken option" where
  "gpeek p = (case snd p of [] \<Rightarrow> None | t # _ \<Rightarrow> Some t)"

definition peek_tok :: "gstate \<Rightarrow> tok option" where
  "peek_tok p = map_option gt_tok (gpeek p)"

definition gadvance :: "gstate \<Rightarrow> gstate" where
  "gadvance p = (case snd p of [] \<Rightarrow> p | t # ts \<Rightarrow> (sp_end (gt_span t), ts))"

definition span_here :: "span \<Rightarrow> gstate \<Rightarrow> span" where
  "span_here eof p = (case gpeek p of None \<Rightarrow> eof | Some t \<Rightarrow> gt_span t)"

definition is_punct :: "char \<Rightarrow> gstate \<Rightarrow> bool" where
  "is_punct c p \<longleftrightarrow> peek_tok p = Some (TPunct c)"

definition describe :: "tok \<Rightarrow> string" where
  "describe t = (case t of
       TIdent s \<Rightarrow> ''`'' @ s @ ''`''
     | TTag s \<Rightarrow> ''`:'' @ s @ ''`''
     | TNumber n \<Rightarrow> ''number '' @ dec_str (unat n)
     | TStr _ _ \<Rightarrow> ''a string''
     | TPunct c \<Rightarrow> ''`'' @ [c] @ ''`'')"

definition unexpected :: "span \<Rightarrow> string \<Rightarrow> gstate \<Rightarrow> script_error + 'a" where
  "unexpected eof expected p = Inl (case gpeek p of
       None \<Rightarrow> error_at eof (Gram (UnexpectedEnd expected))
     | Some t \<Rightarrow> error_at (gt_span t) (Gram (ExpectedFound expected (describe (gt_tok t)))))"

definition expect_gpunct :: "span \<Rightarrow> char \<Rightarrow> string \<Rightarrow> span gparser" where
  "expect_gpunct eof c what p =
     (if is_punct c p then Inr (span_here eof p, gadvance p) else unexpected eof what p)"

lemma gadvance_left: "gpeek p = Some t \<Longrightarrow> gleft (gadvance p) < gleft p"
  by (auto simp: gpeek_def gadvance_def split: list.splits)

lemma peek_tok_left: "peek_tok p = Some t \<Longrightarrow> gleft (gadvance p) < gleft p"
  by (auto simp: peek_tok_def gadvance_left)

lemma is_punct_left: "is_punct c p \<Longrightarrow> gleft (gadvance p) < gleft p"
  by (auto simp: is_punct_def peek_tok_left)

section \<open>Arguments\<close>

definition sieve_string_of :: "string \<Rightarrow> bool \<Rightarrow> span \<Rightarrow> sieve_string" where
  "sieve_string_of v m s = \<lparr>str_value = v, str_span = s, multiline = m\<rparr>"

function string_list_loop :: "span \<Rightarrow> span \<Rightarrow> sieve_string list \<Rightarrow> argument gparser" where
  "string_list_loop eof open_span values p = (case peek_tok p of
       Some (TStr v m) \<Rightarrow>
         (let values' = values @ [sieve_string_of v m (span_here eof p)]; q = gadvance p in
          if is_punct (CHR '','') q then string_list_loop eof open_span values' (gadvance q)
          else rbind (expect_gpunct eof (CHR '']'') ''`,` or `]`'' q) (\<lambda>(close, q').
                 Inr (\<lparr>arg_kind = Strings values' True, arg_span = open_span\<lparr>sp_end := sp_end close\<rparr>\<rparr>, q')))
     | _ \<Rightarrow> unexpected eof ''a string'' p)"
  by pat_completeness auto
termination
proof (relation "measure (\<lambda>(e, s, vs, p). gleft p)", goal_cases)
  case (2 eof s vs p t v m vs' q)
  then have "gleft q < gleft p" "gleft (gadvance q) < gleft q"
    by (auto dest: peek_tok_left is_punct_left)
  then show ?case by simp
qed simp

declare string_list_loop.simps [simp del]

definition p_string_list :: "span \<Rightarrow> argument gparser" where
  "p_string_list eof p =
     rbind (expect_gpunct eof (CHR ''['') ''`[`'' p) (\<lambda>(open_span, q). string_list_loop eof open_span [] q)"

lemma expect_gpunct_left: "expect_gpunct eof c w p = Inr (s, q) \<Longrightarrow> gleft q < gleft p"
  by (auto simp: expect_gpunct_def unexpected_def is_punct_left split: if_splits)

text \<open>How a successful turn of a loop went.\<close>

lemma unexpected_neq [simp]: "unexpected eof w p \<noteq> Inr x" "\<not> unexpected eof w p = Inr x"
  by (simp_all add: unexpected_def)

lemma string_list_loopE:
  assumes "string_list_loop eof s vs p = Inr (a, q)"
  obtains (more) v m where "peek_tok p = Some (TStr v m)" "is_punct (CHR '','') (gadvance p)"
      "string_list_loop eof s (vs @ [sieve_string_of v m (span_here eof p)]) (gadvance (gadvance p)) = Inr (a, q)"
    | (close) v m e where "peek_tok p = Some (TStr v m)"
      "expect_gpunct eof (CHR '']'') ''`,` or `]`'' (gadvance p) = Inr (e, q)"
      "a = \<lparr>arg_kind = Strings (vs @ [sieve_string_of v m (span_here eof p)]) True,
        arg_span = s\<lparr>sp_end := sp_end e\<rparr>\<rparr>"
  using assms unfolding string_list_loop.simps [of eof s vs p] Let_def
  by (auto simp: rbind_eq_Inr split: option.splits tok.splits if_splits intro: more close)

lemma string_list_loop_left: "string_list_loop eof s vs p = Inr (a, q) \<Longrightarrow> gleft q < gleft p"
proof (induction "gleft p" arbitrary: vs p rule: less_induct)
  case less
  from less.prems show ?case
  proof (cases rule: string_list_loopE)
    case (more v m)
    have "gleft (gadvance p) < gleft p" using more(1) by (rule peek_tok_left)
    moreover have "gleft (gadvance (gadvance p)) < gleft (gadvance p)" using more(2) by (rule is_punct_left)
    ultimately show ?thesis using less.hyps [OF _ more(3)] by simp
  next
    case (close v m e)
    then show ?thesis using peek_tok_left [OF close(1)] by (auto dest!: expect_gpunct_left)
  qed
qed

lemma p_string_list_left: "p_string_list eof p = Inr (a, q) \<Longrightarrow> gleft q < gleft p"
  by (auto simp: p_string_list_def rbind_eq_Inr dest!: expect_gpunct_left string_list_loop_left)

function args_loop :: "span \<Rightarrow> argument list \<Rightarrow> argument list gparser" where
  "args_loop eof args p = (case peek_tok p of
       Some (TStr v m) \<Rightarrow>
         args_loop eof (args @ [\<lparr>arg_kind = Strings [sieve_string_of v m (span_here eof p)] False,
            arg_span = span_here eof p\<rparr>]) (gadvance p)
     | Some (TNumber n) \<Rightarrow>
         args_loop eof (args @ [\<lparr>arg_kind = Number n, arg_span = span_here eof p\<rparr>]) (gadvance p)
     | Some (TTag name) \<Rightarrow>
         args_loop eof (args @ [\<lparr>arg_kind = TagArg name, arg_span = span_here eof p\<rparr>]) (gadvance p)
     | Some (TPunct c) \<Rightarrow>
         if c = CHR ''['' then rbind (p_string_list eof p) (\<lambda>(a, q). args_loop eof (args @ [a]) q)
         else Inr (args, p)
     | _ \<Rightarrow> Inr (args, p))"
  by pat_completeness auto
termination
  by (relation "measure (\<lambda>(e, as, p). gleft p)") (auto dest: peek_tok_left p_string_list_left)

declare args_loop.simps [simp del]

text \<open>\<open>while self.is_punct(b',')\<close>, at most \<open>n\<close> times.\<close>

fun tests_loop :: "nat \<Rightarrow> 'a gparser \<Rightarrow> 'a list \<Rightarrow> 'a list gparser" where
  "tests_loop n T tests p =
     (if is_punct (CHR '','') p then
        (case n of 0 \<Rightarrow> Inl (error_at default_span (Gram LoopBound))
         | Suc m \<Rightarrow> rbind (T (gadvance p)) (\<lambda>(t, q). tests_loop m T (tests @ [t]) q))
      else Inr (tests, p))"

declare tests_loop.simps [simp del]

definition p_arguments :: "span \<Rightarrow> test gparser \<Rightarrow> (argument list \<times> test list \<times> bool) gparser" where
  "p_arguments eof T p = rbind (args_loop eof [] p) (\<lambda>(args, q).
     case peek_tok q of
       Some (TIdent _) \<Rightarrow> rbind (T q) (\<lambda>(t, q'). Inr ((args, [t], False), q'))
     | Some (TPunct c) \<Rightarrow>
         if c = CHR ''('' then
           rbind (T (gadvance q)) (\<lambda>(t, q1).
           rbind (tests_loop (gleft q1) T [t] q1) (\<lambda>(ts, q2).
           rbind (expect_gpunct eof (CHR '')'') ''`,` or `)`'' q2) (\<lambda>(_, q3).
             Inr ((args, ts, True), q3))))
         else Inr ((args, [], False), q)
     | _ \<Rightarrow> Inr ((args, [], False), q))"

section \<open>Tests and commands\<close>

fun p_test :: "span \<Rightarrow> nat \<Rightarrow> test gparser" where
  "p_test eof 0 p = Inl (error_at (span_here eof p) (Gram NestingTooDeep))"
| "p_test eof (Suc room) p = (case peek_tok p of
       Some (TIdent name) \<Rightarrow>
         rbind (p_arguments eof (p_test eof room) (gadvance p)) (\<lambda>((args, tests, listed), q).
           Inr (Test name ((span_here eof p)\<lparr>sp_end := fst q\<rparr>) args tests listed, q))
     | _ \<Rightarrow> unexpected eof ''a test'' p)"

text \<open>\<open>commands\<close>, at most \<open>n\<close> of them.\<close>

fun commands_loop ::
  "span \<Rightarrow> nat \<Rightarrow> 'a gparser \<Rightarrow> bool \<Rightarrow> 'a list \<Rightarrow> 'a list gparser" where
  "commands_loop eof n C in_block out p = (case peek_tok p of
       None \<Rightarrow> if \<not> in_block then Inr (out, p) else unexpected eof ''`}`'' p
     | Some t \<Rightarrow>
         if t = TPunct (CHR ''}'') \<and> in_block then Inr (out, p)
         else (case n of 0 \<Rightarrow> Inl (error_at default_span (Gram LoopBound))
           | Suc m \<Rightarrow> rbind (C p) (\<lambda>(c, q). commands_loop eof m C in_block (out @ [c]) q)))"

declare commands_loop.simps [simp del]

fun p_command :: "span \<Rightarrow> nat \<Rightarrow> command gparser" where
  "p_command eof 0 p = Inl (error_at (span_here eof p) (Gram NestingTooDeep))"
| "p_command eof (Suc room) p = (case peek_tok p of
       Some (TIdent name) \<Rightarrow>
         rbind (p_arguments eof (p_test eof room) (gadvance p)) (\<lambda>((args, tests, listed), q).
         rbind
           (if is_punct (CHR ''{'') q then
              rbind (expect_gpunct eof (CHR ''{'') ''`{`'' q) (\<lambda>(open_span, q1).
              rbind (commands_loop eof (gleft q1) (p_command eof room) True [] q1) (\<lambda>(cs, q2).
              rbind (expect_gpunct eof (CHR ''}'') ''`}`'' q2) (\<lambda>(close, q3).
                Inr (Some (Block cs (open_span\<lparr>sp_end := sp_end close\<rparr>)), q3))))
            else if is_punct (CHR '';'') q then Inr (None, gadvance q)
            else unexpected eof ''`;` or `{`'' q)
           (\<lambda>(block, q'). Inr (Command name ((span_here eof p)\<lparr>sp_end := fst q'\<rparr>) args tests listed block, q')))
     | _ \<Rightarrow> unexpected eof ''a command'' p)"

definition parse_script :: "string \<Rightarrow> script_error + script" where
  "parse_script source = rbind (lex source) (\<lambda>tokens.
     rbind (commands_loop (eof_span source) (length tokens) (p_command (eof_span source) (MAX_DEPTH + 1))
        False [] (0, tokens)) (\<lambda>(cs, _). Inr cs))"

section \<open>Every item consumes a token\<close>

text \<open>The argument a single token makes.\<close>

definition token_arg :: "tok \<Rightarrow> span \<Rightarrow> argument option" where
  "token_arg t s = (case t of
       TStr v m \<Rightarrow> Some \<lparr>arg_kind = Strings [sieve_string_of v m s] False, arg_span = s\<rparr>
     | TNumber n \<Rightarrow> Some \<lparr>arg_kind = Number n, arg_span = s\<rparr>
     | TTag name \<Rightarrow> Some \<lparr>arg_kind = TagArg name, arg_span = s\<rparr>
     | _ \<Rightarrow> None)"

lemma args_loop_step:
  "args_loop eof args p = (case peek_tok p of
       None \<Rightarrow> Inr (args, p)
     | Some t \<Rightarrow>
         (case token_arg t (span_here eof p) of
            Some a \<Rightarrow> args_loop eof (args @ [a]) (gadvance p)
          | None \<Rightarrow>
              if t = TPunct (CHR ''['')
              then rbind (p_string_list eof p) (\<lambda>(a, q). args_loop eof (args @ [a]) q)
              else Inr (args, p)))"
  by (subst args_loop.simps) (simp add: token_arg_def split: option.split tok.split)

lemma args_loopE:
  assumes "args_loop eof args p = Inr (bs, q)"
  obtains (token) t a where "peek_tok p = Some t" "token_arg t (span_here eof p) = Some a"
      "args_loop eof (args @ [a]) (gadvance p) = Inr (bs, q)"
    | (list) a q' where "peek_tok p = Some (TPunct (CHR ''['') )" "p_string_list eof p = Inr (a, q')"
      "args_loop eof (args @ [a]) q' = Inr (bs, q)"
    | (stop) "bs = args" "q = p"
  using assms unfolding args_loop_step [of eof args p]
  by (auto simp: rbind_eq_Inr split: option.splits if_splits intro: token list stop)

lemma args_loop_left: "args_loop eof as p = Inr (bs, q) \<Longrightarrow> gleft q \<le> gleft p"
proof (induction "gleft p" arbitrary: as p rule: less_induct)
  case less
  from less.prems show ?case
  proof (cases rule: args_loopE)
    case (token t a)
    with less.hyps [OF _ token(3)] peek_tok_left [OF token(1)] show ?thesis by simp
  next
    case (list a q')
    with less.hyps [OF _ list(3)] p_string_list_left [OF list(2)] show ?thesis by simp
  qed simp
qed

text \<open>What the loops need of the parser of their items.\<close>

definition consumes :: "'a gparser \<Rightarrow> bool" where
  "consumes f \<longleftrightarrow> (\<forall>p x q. f p = Inr (x, q) \<longrightarrow> gleft q < gleft p)"

lemma consumesD: "consumes f \<Longrightarrow> f p = Inr (x, q) \<Longrightarrow> gleft q < gleft p"
  unfolding consumes_def by blast

lemma tests_loopE:
  assumes "tests_loop n T ts p = Inr (us, q)"
  obtains (more) m t q' where "n = Suc m" "is_punct (CHR '','') p" "T (gadvance p) = Inr (t, q')"
      "tests_loop m T (ts @ [t]) q' = Inr (us, q)"
    | (stop) "\<not> is_punct (CHR '','') p" "us = ts" "q = p"
  using assms unfolding tests_loop.simps [of n T ts p]
  by (auto simp: rbind_eq_Inr split: nat.splits if_splits intro: more stop)

lemma tests_loop_left:
  assumes T: "consumes T"
  shows "tests_loop n T ts p = Inr (us, q) \<Longrightarrow> gleft q \<le> gleft p"
proof (induction n arbitrary: ts p)
  case (Suc n)
  from Suc.prems show ?case
  proof (cases rule: tests_loopE)
    case (more m t q')
    then show ?thesis
      using Suc.IH [of "ts @ [t]" q'] consumesD [OF T more(3)] is_punct_left [OF more(2)] by simp
  qed simp
qed (auto elim: tests_loopE)

lemma p_argumentsE:
  assumes "p_arguments eof T p = Inr (x, q)"
  obtains (one) args q1 name t where "args_loop eof [] p = Inr (args, q1)"
      "peek_tok q1 = Some (TIdent name)" "T q1 = Inr (t, q)" "x = (args, [t], False)"
    | (list) args q1 t q2 ts q3 e where "args_loop eof [] p = Inr (args, q1)"
      "is_punct (CHR ''('') q1" "T (gadvance q1) = Inr (t, q2)"
      "tests_loop (gleft q2) T [t] q2 = Inr (ts, q3)"
      "expect_gpunct eof (CHR '')'') ''`,` or `)`'' q3 = Inr (e, q)" "x = (args, ts, True)"
    | (none) args where "args_loop eof [] p = Inr (args, q)" "x = (args, [], False)"
proof -
  from assms obtain args q1 where args: "args_loop eof [] p = Inr (args, q1)"
    by (auto simp: p_arguments_def rbind_eq_Inr)
  show ?thesis
  proof (cases "peek_tok q1")
    case None
    with assms args none show ?thesis by (simp add: p_arguments_def)
  next
    case (Some t)
    with assms args show ?thesis
      by (cases t) (auto simp: p_arguments_def rbind_eq_Inr is_punct_def split: if_splits
          intro: none one list)
  qed
qed

lemma p_arguments_left:
  assumes T: "consumes T" and p: "p_arguments eof T p = Inr (x, q)"
  shows "gleft q \<le> gleft p"
  using p
proof (cases rule: p_argumentsE)
  case (one args q1 name t)
  then show ?thesis using args_loop_left [OF one(1)] consumesD [OF T one(3)] by simp
next
  case (list args q1 t q2 ts q3 e)
  then show ?thesis
    using args_loop_left [OF list(1)] is_punct_left [OF list(2)] consumesD [OF T list(3)]
      tests_loop_left [OF T list(4)] expect_gpunct_left [OF list(5)] by simp
next
  case (none args)
  then show ?thesis using args_loop_left by simp
qed

lemma p_testE:
  assumes "p_test eof room p = Inr (t, q)"
  obtains room' name args tests listed where "room = Suc room'" "peek_tok p = Some (TIdent name)"
    "p_arguments eof (p_test eof room') (gadvance p) = Inr ((args, tests, listed), q)"
    "t = Test name ((span_here eof p)\<lparr>sp_end := fst q\<rparr>) args tests listed"
  using assms
  by (cases room) (auto simp: rbind_eq_Inr split: option.splits tok.splits)

lemma p_test_consumes: "consumes (p_test eof room)"
proof (induction room)
  case (Suc room)
  have "gleft q < gleft p" if "p_test eof (Suc room) p = Inr (t, q)" for p t q
    using that
  proof (cases rule: p_testE)
    case (1 room' name args tests listed)
    then show ?thesis using p_arguments_left [OF Suc] peek_tok_left [OF 1(2)] by fastforce
  qed
  then show ?case by (simp add: consumes_def)
qed (simp add: consumes_def)

lemma commands_loopE:
  assumes "commands_loop eof n C b cs p = Inr (ds, q)"
  obtains (more) m t c q' where "n = Suc m" "peek_tok p = Some t"
      "\<not> (t = TPunct (CHR ''}'') \<and> b)" "C p = Inr (c, q')"
      "commands_loop eof m C b (cs @ [c]) q' = Inr (ds, q)"
    | (stop) "ds = cs" "q = p" "if b then is_punct (CHR ''}'') p else peek_tok p = None"
  using assms unfolding commands_loop.simps [of eof n C b cs p]
  by (auto simp: rbind_eq_Inr is_punct_def split: nat.splits if_splits option.splits intro: more stop)

lemma commands_loop_left:
  assumes C: "consumes C"
  shows "commands_loop eof n C b cs p = Inr (ds, q) \<Longrightarrow> gleft q \<le> gleft p"
proof (induction n arbitrary: cs p)
  case (Suc n)
  from Suc.prems show ?case
  proof (cases rule: commands_loopE)
    case (more m t c q')
    then show ?thesis using Suc.IH [of "cs @ [c]" q'] consumesD [OF C more(4)] by simp
  qed simp
qed (auto elim: commands_loopE)

lemma p_commandE:
  assumes "p_command eof room p = Inr (c, q)"
  obtains (block) room' name args tests listed q1 s q2 cs q3 e where "room = Suc room'"
      "peek_tok p = Some (TIdent name)"
      "p_arguments eof (p_test eof room') (gadvance p) = Inr ((args, tests, listed), q1)"
      "expect_gpunct eof (CHR ''{'') ''`{`'' q1 = Inr (s, q2)"
      "commands_loop eof (gleft q2) (p_command eof room') True [] q2 = Inr (cs, q3)"
      "expect_gpunct eof (CHR ''}'') ''`}`'' q3 = Inr (e, q)"
      "c = Command name ((span_here eof p)\<lparr>sp_end := fst q\<rparr>) args tests listed
         (Some (Block cs (s\<lparr>sp_end := sp_end e\<rparr>)))"
    | (plain) room' name args tests listed q1 where "room = Suc room'"
      "peek_tok p = Some (TIdent name)"
      "p_arguments eof (p_test eof room') (gadvance p) = Inr ((args, tests, listed), q1)"
      "is_punct (CHR '';'') q1" "q = gadvance q1"
      "c = Command name ((span_here eof p)\<lparr>sp_end := fst q\<rparr>) args tests listed None"
proof -
  from assms obtain room' name args tests listed q1 where room: "room = Suc room'"
    "peek_tok p = Some (TIdent name)"
    and a: "p_arguments eof (p_test eof room') (gadvance p) = Inr ((args, tests, listed), q1)"
    by (cases room) (auto simp: rbind_eq_Inr split: option.splits tok.splits)
  show ?thesis
  proof (cases "is_punct (CHR ''{'') q1")
    case True
    with assms room a show ?thesis by (auto simp: rbind_eq_Inr intro: block)
  next
    case False
    with assms room a show ?thesis by (auto simp: rbind_eq_Inr split: if_splits intro: plain)
  qed
qed

lemma p_command_consumes: "consumes (p_command eof room)"
proof (induction room)
  case (Suc room)
  have "gleft q < gleft p" if "p_command eof (Suc room) p = Inr (c, q)" for p c q
    using that
  proof (cases rule: p_commandE)
    case (block room' name args tests listed q1 s q2 cs q3 e)
    then show ?thesis
      using p_arguments_left [OF p_test_consumes block(3)] peek_tok_left [OF block(2)]
        expect_gpunct_left [OF block(4)] commands_loop_left [OF _ block(5)] Suc
        expect_gpunct_left [OF block(6)] by simp
  next
    case (plain room' name args tests listed q1)
    then show ?thesis
      using p_arguments_left [OF p_test_consumes plain(3)] peek_tok_left [OF plain(2)]
        is_punct_left [OF plain(4)] by simp
  qed
  then show ?case by (simp add: consumes_def)
qed (simp add: consumes_def)

end
