(* ===== verification/Sieve_Tree.thy ===== *)
theory Sieve_Tree
  imports Sieve_Grammar
begin

text \<open>
  What \<open>parse_script\<close> returns: the loops of the parser never reach their bound, the tree is
  never deeper than \<open>MAX_DEPTH\<close> allows, and it has only the shapes the grammar has.
\<close>

section \<open>The loop bounds are enough\<close>

definition not_bound :: "script_error \<Rightarrow> bool" where
  "not_bound e \<longleftrightarrow> err_message e \<noteq> Gram LoopBound"

definition unbounded :: "'a gparser \<Rightarrow> bool" where
  "unbounded f \<longleftrightarrow> (\<forall>p e. f p = Inl e \<longrightarrow> not_bound e)"

lemma unboundedD: "unbounded f \<Longrightarrow> f p = Inl e \<Longrightarrow> not_bound e"
  unfolding unbounded_def by blast

lemma rbind_eq_Inl: "rbind r f = Inl e \<longleftrightarrow> r = Inl e \<or> (\<exists>x. r = Inr x \<and> f x = Inl e)"
  by (cases r) auto

lemma unexpected_not_bound: "unexpected eof w p = Inl e \<Longrightarrow> not_bound e"
  by (auto simp: unexpected_def not_bound_def error_at_def split: option.splits)

lemma expect_not_bound: "expect_gpunct eof c w p = Inl e \<Longrightarrow> not_bound e"
  by (auto simp: expect_gpunct_def unexpected_not_bound split: if_splits)

lemma string_list_loop_not_bound: "string_list_loop eof s vs p = Inl e \<Longrightarrow> not_bound e"
proof (induction "gleft p" arbitrary: vs p rule: less_induct)
  case less
  show ?case
  proof (cases "\<exists>v m. peek_tok p = Some (TStr v m) \<and> is_punct (CHR '','') (gadvance p)")
    case True
    then obtain v m where v: "peek_tok p = Some (TStr v m)" "is_punct (CHR '','') (gadvance p)" by blast
    then have "gleft (gadvance (gadvance p)) < gleft p"
      using peek_tok_left [OF v(1)] is_punct_left [OF v(2)] by simp
    from less.hyps [OF this] less.prems v show ?thesis
      by (simp add: string_list_loop.simps [of eof s vs p])
  next
    case False
    with less.prems show ?thesis
      by (subst (asm) string_list_loop.simps)
        (auto simp: rbind_eq_Inl dest: unexpected_not_bound expect_not_bound
          split: option.splits tok.splits)
  qed
qed

lemma p_string_list_not_bound: "p_string_list eof p = Inl e \<Longrightarrow> not_bound e"
  by (auto simp: p_string_list_def rbind_eq_Inl dest: expect_not_bound string_list_loop_not_bound)

lemma args_loop_not_bound: "args_loop eof as p = Inl e \<Longrightarrow> not_bound e"
proof (induction "gleft p" arbitrary: as p rule: less_induct)
  case less
  have IH: "gleft q < gleft p \<Longrightarrow> args_loop eof bs q = Inl e \<Longrightarrow> not_bound e" for bs q
    by (rule less.hyps)
  have adv: "gleft (gadvance p) < gleft p" if "peek_tok p = Some t" for t
    using that by (rule peek_tok_left)
  from less.prems show ?case
    unfolding args_loop_step [of eof as p]
    by (auto simp: rbind_eq_Inl split: option.splits if_splits
        dest: p_string_list_not_bound intro: IH adv p_string_list_left)
qed

lemma tests_loop_not_bound:
  assumes T: "consumes T" "unbounded T"
  shows "gleft p \<le> n \<Longrightarrow> tests_loop n T ts p = Inl e \<Longrightarrow> not_bound e"
proof (induction n arbitrary: ts p)
  case 0
  then have "\<not> is_punct (CHR '','') p" by (auto simp: is_punct_def peek_tok_def gpeek_def)
  with 0 show ?case by (simp add: tests_loop.simps)
next
  case (Suc n)
  have step: "gleft q \<le> n" if "is_punct (CHR '','') p" "T (gadvance p) = Inr (t, q)" for t q
    using consumesD [OF T(1) that(2)] is_punct_left [OF that(1)] Suc.prems(1) by simp
  have "tests_loop (Suc n) T ts p = Inl e" by (rule Suc.prems(2))
  then show ?case
    by (auto simp: rbind_eq_Inl tests_loop.simps [of "Suc n" T ts p] split: if_splits
        dest: unboundedD [OF T(2)] intro: Suc.IH step)
qed

lemma p_arguments_not_bound:
  assumes T: "consumes T" "unbounded T" and p: "p_arguments eof T p = Inl e"
  shows "not_bound e"
proof (cases "args_loop eof [] p")
  case (Inl e')
  with p show ?thesis by (auto simp: p_arguments_def dest: args_loop_not_bound)
next
  case (Inr r)
  obtain args q where r: "r = (args, q)" by (cases r) auto
  have loop: "tests_loop (length b) T ts (a, b) = Inl e \<Longrightarrow> not_bound e" for a b ts
    by (rule tests_loop_not_bound [OF T]) simp_all
  show ?thesis
  proof (cases "peek_tok q")
    case None
    with Inr r p show ?thesis by (simp add: p_arguments_def)
  next
    case (Some t)
    with Inr r p show ?thesis
      by (cases t) (auto simp: p_arguments_def rbind_eq_Inl split: if_splits
          dest: unboundedD [OF T(2)] loop expect_not_bound)
  qed
qed

lemma p_test_unbounded: "unbounded (p_test eof room)"
proof (induction room)
  case 0
  then show ?case by (simp add: unbounded_def not_bound_def error_at_def)
next
  case (Suc room)
  then show ?case
    unfolding unbounded_def
    by (auto simp: rbind_eq_Inl split: option.splits tok.splits
        dest: unexpected_not_bound p_arguments_not_bound [OF p_test_consumes Suc])
qed

lemma commands_loop_not_bound:
  assumes C: "consumes C" "unbounded C"
  shows "gleft p \<le> n \<Longrightarrow> commands_loop eof n C b cs p = Inl e \<Longrightarrow> not_bound e"
proof (induction n arbitrary: cs p)
  case 0
  then have "peek_tok p = None" by (auto simp: peek_tok_def gpeek_def)
  with 0 show ?case by (auto simp: commands_loop.simps unexpected_not_bound split: if_splits)
next
  case (Suc n)
  have step: "gleft q \<le> n" if "C p = Inr (c, q)" for c q
    using consumesD [OF C(1) that] Suc.prems(1) by simp
  have "commands_loop eof (Suc n) C b cs p = Inl e" by (rule Suc.prems(2))
  then show ?case
    by (auto simp: rbind_eq_Inl commands_loop.simps [of eof "Suc n" C b cs p]
        split: if_splits option.splits dest: unexpected_not_bound unboundedD [OF C(2)]
        intro: Suc.IH step)
qed

lemma p_command_unbounded: "unbounded (p_command eof room)"
proof (induction room)
  case 0
  then show ?case by (simp add: unbounded_def not_bound_def error_at_def)
next
  case (Suc room)
  have loop: "commands_loop eof (length b) (p_command eof room) True [] (a, b) = Inl e \<Longrightarrow> not_bound e"
    for a b e
    by (rule commands_loop_not_bound [OF p_command_consumes Suc]) simp_all
  have "not_bound e" if "p_command eof (Suc room) p = Inl e" for p e
    using that
    by (auto simp: rbind_eq_Inl split: option.splits tok.splits if_splits
        dest: unexpected_not_bound p_arguments_not_bound [OF p_test_consumes p_test_unbounded]
          expect_not_bound loop)
  then show ?case unfolding unbounded_def by blast
qed

lemma comment_loop_not_bound: "comment_loop s c = Inl e \<Longrightarrow> not_bound e"
proof (induction s c rule: comment_loop.induct)
  case (1 s c)
  then show ?case
    by (auto simp: comment_loop.simps [of s c] not_bound_def error_at_def split: option.splits if_splits)
qed

lemma quoted_loop_not_bound: "quoted_loop s v c = Inl e \<Longrightarrow> not_bound e"
proof (induction s v c rule: quoted_loop.induct)
  case (1 s v c)
  then show ?case
    by (auto simp: quoted_loop.simps [of s v c] not_bound_def error_at_def
        split: option.splits if_splits)
qed

lemma multiline_loop_not_bound: "multiline_loop s v c = Inl e \<Longrightarrow> not_bound e"
proof (induction s v c rule: multiline_loop.induct)
  case (1 s v c)
  obtain had c2 where c2: "eat_newline (skip_while (\<lambda>x. x \<noteq> LF) c) = (had, c2)" by fastforce
  from "1.prems" show ?case
    using "1.IH" [OF _ refl refl refl c2 [symmetric] refl]
    by (auto simp: multiline_loop.simps [of s v c] Let_def c2 not_bound_def error_at_def
        split: if_splits)
qed

lemma lex_step_not_bound: "lex_step b c = Inl e \<Longrightarrow> not_bound e"
  unfolding lex_step_def Let_def
  by (simp split: if_splits;
      force simp: rbind_eq_Inl lex_number_def lex_multiline_def Let_def not_bound_def error_at_def
        dest: comment_loop_not_bound quoted_loop_not_bound multiline_loop_not_bound
        split: prod.splits option.splits if_splits)

lemma lex_loop_not_bound: "lex_loop c = Inl e \<Longrightarrow> not_bound e"
proof (induction c rule: lex_loop.induct)
  case (1 c)
  then show ?case
    by (auto simp: lex_loop.simps [of c] rbind_eq_Inl dest: lex_step_not_bound split: option.splits)
qed

text \<open>C24: The parser's loops over nested items always end before their bound: \<open>parse_script\<close> never
  returns the bound's error, so on every text it gives a tree or one of the code's own errors.\<close>

theorem parse_script_bounds_suffice:
  "parse_script source = Inl e \<Longrightarrow> err_message e \<noteq> Gram LoopBound"
  unfolding parse_script_def not_bound_def [symmetric]
  by (auto simp: rbind_eq_Inl lex_def dest: lex_loop_not_bound
      commands_loop_not_bound [OF p_command_consumes p_command_unbounded, rotated])

section \<open>The shape of the tree\<close>

definition ident_ok :: "string \<Rightarrow> bool" where
  "ident_ok s \<longleftrightarrow> s \<noteq> [] \<and> is_ident_start (hd s) \<and> list_all is_ident_char s"

fun tok_ok :: "tok \<Rightarrow> bool" where
  "tok_ok (TIdent s) = ident_ok s"
| "tok_ok (TTag s) = ident_ok s"
| "tok_ok (TNumber n) = True"
| "tok_ok (TStr v m) = valid_utf8 v"
| "tok_ok (TPunct c) = is_mark c"

definition arg_ok :: "argument \<Rightarrow> bool" where
  "arg_ok a = (case arg_kind a of
       Strings vs bracketed \<Rightarrow> vs \<noteq> [] \<and> (\<not> bracketed \<longrightarrow> length vs = 1) \<and>
         list_all (\<lambda>v. valid_utf8 (str_value v)) vs
     | Number n \<Rightarrow> True
     | TagArg t \<Rightarrow> ident_ok t)"

definition tests_shape :: "test list \<Rightarrow> bool \<Rightarrow> bool" where
  "tests_shape ts listed \<longleftrightarrow> (if listed then ts \<noteq> [] else length ts \<le> 1)"

text \<open>A test, or a command, nested at most \<open>room\<close> levels deep and built as the grammar builds it.\<close>

fun test_ok :: "nat \<Rightarrow> test \<Rightarrow> bool" where
  "test_ok 0 t = False"
| "test_ok (Suc room) t \<longleftrightarrow> ident_ok (test_name t) \<and> list_all arg_ok (test_args t) \<and>
     tests_shape (test_tests t) (test_list t) \<and> list_all (test_ok room) (test_tests t)"

fun command_ok :: "nat \<Rightarrow> command \<Rightarrow> bool" where
  "command_ok 0 c = False"
| "command_ok (Suc room) c \<longleftrightarrow> ident_ok (cmd_name c) \<and> list_all arg_ok (cmd_args c) \<and>
     tests_shape (cmd_tests c) (cmd_test_list c) \<and> list_all (test_ok room) (cmd_tests c) \<and>
     (case cmd_block c of None \<Rightarrow> True | Some b \<Rightarrow> list_all (command_ok room) (block_commands b))"

definition toks_ok :: "gstate \<Rightarrow> bool" where
  "toks_ok p \<longleftrightarrow> list_all (\<lambda>t. tok_ok (gt_tok t)) (snd p)"

definition yields :: "'a gparser \<Rightarrow> ('a \<Rightarrow> bool) \<Rightarrow> bool" where
  "yields f P \<longleftrightarrow> (\<forall>p x q. toks_ok p \<longrightarrow> f p = Inr (x, q) \<longrightarrow> P x \<and> toks_ok q)"

lemma yieldsD: "yields f P \<Longrightarrow> f p = Inr (x, q) \<Longrightarrow> toks_ok p \<Longrightarrow> P x \<and> toks_ok q"
  unfolding yields_def by blast

lemma toks_ok_advance [intro]: "toks_ok p \<Longrightarrow> toks_ok (gadvance p)"
  by (auto simp: toks_ok_def gadvance_def split: list.split)

lemma toks_ok_peek: "toks_ok p \<Longrightarrow> peek_tok p = Some t \<Longrightarrow> tok_ok t"
  by (auto simp: toks_ok_def peek_tok_def gpeek_def split: list.splits)

lemma expect_toks_ok: "expect_gpunct eof c w p = Inr (s, q) \<Longrightarrow> toks_ok p \<Longrightarrow> toks_ok q"
  by (auto simp: expect_gpunct_def split: if_splits)

lemma string_list_loop_ok:
  "string_list_loop eof s vs p = Inr (a, q) \<Longrightarrow> toks_ok p \<Longrightarrow>
   list_all (\<lambda>v. valid_utf8 (str_value v)) vs \<Longrightarrow> arg_ok a \<and> toks_ok q"
proof (induction "gleft p" arbitrary: vs p rule: less_induct)
  case less
  from less.prems(1) show ?case
  proof (cases rule: string_list_loopE)
    case (more v m)
    have "gleft (gadvance (gadvance p)) < gleft p"
      using peek_tok_left [OF more(1)] is_punct_left [OF more(2)] by simp
    then show ?thesis
      using less.hyps [OF _ more(3)] less.prems toks_ok_peek [OF _ more(1)]
      by (auto simp: sieve_string_of_def)
  next
    case (close v m e)
    then show ?thesis
      using less.prems toks_ok_peek [OF _ close(1)] expect_toks_ok [OF close(2)]
      by (auto simp: arg_ok_def sieve_string_of_def)
  qed
qed

lemma p_string_list_ok: "yields (p_string_list eof) arg_ok"
  unfolding yields_def
  by (auto simp: p_string_list_def rbind_eq_Inr dest: expect_toks_ok string_list_loop_ok)

lemma token_arg_ok: "token_arg t s = Some a \<Longrightarrow> tok_ok t \<Longrightarrow> arg_ok a"
  by (auto simp: token_arg_def arg_ok_def sieve_string_of_def split: tok.splits)

lemma args_loop_ok:
  "args_loop eof as p = Inr (bs, q) \<Longrightarrow> toks_ok p \<Longrightarrow> list_all arg_ok as \<Longrightarrow>
   list_all arg_ok bs \<and> toks_ok q"
proof (induction "gleft p" arbitrary: as p rule: less_induct)
  case less
  from less.prems(1) show ?case
  proof (cases rule: args_loopE)
    case (token t a)
    then show ?thesis
      using less.hyps [OF peek_tok_left [OF token(1)] token(3)] less.prems
        toks_ok_peek [OF _ token(1)] token_arg_ok [OF token(2)] by auto
  next
    case (list a q')
    then show ?thesis
      using less.hyps [OF p_string_list_left [OF list(2)] list(3)] less.prems
        yieldsD [OF p_string_list_ok list(2)] by auto
  next
    case stop
    with less.prems show ?thesis by simp
  qed
qed

lemma tests_loop_ok:
  assumes T: "yields T P"
  shows "tests_loop n T ts p = Inr (us, q) \<Longrightarrow> toks_ok p \<Longrightarrow> list_all P ts \<Longrightarrow>
    list_all P us \<and> (ts \<noteq> [] \<longrightarrow> us \<noteq> []) \<and> toks_ok q"
proof (induction n arbitrary: ts p)
  case (Suc n)
  from Suc.prems(1) show ?case
  proof (cases rule: tests_loopE)
    case (more m t q')
    then show ?thesis
      using Suc.IH [of "ts @ [t]" q'] Suc.prems yieldsD [OF T more(3)] by auto
  next
    case stop
    with Suc.prems show ?thesis by simp
  qed
qed (auto elim: tests_loopE)

lemma p_arguments_ok:
  assumes T: "yields T P"
  shows "yields (p_arguments eof T)
    (\<lambda>(args, tests, listed). list_all arg_ok args \<and> list_all P tests \<and> tests_shape tests listed)"
  unfolding yields_def
proof (intro allI impI)
  fix p x q
  assume p: "toks_ok p" and x: "p_arguments eof T p = Inr (x, q)"
  from x show "(case x of (args, tests, listed) \<Rightarrow> list_all arg_ok args \<and> list_all P tests \<and> tests_shape tests listed)
      \<and> toks_ok q"
  proof (cases rule: p_argumentsE)
    case (one args q1 name t)
    then show ?thesis
      using args_loop_ok [OF one(1) p] yieldsD [OF T one(3)] by (simp add: tests_shape_def)
  next
    case (list args q1 t q2 ts q3 e)
    have q1: "list_all arg_ok args" "toks_ok q1" using args_loop_ok [OF list(1) p] by simp_all
    have t: "P t" "toks_ok q2"
      using yieldsD [OF T list(3) toks_ok_advance [OF q1(2)]] by simp_all
    have "list_all P ts \<and> ts \<noteq> [] \<and> toks_ok q3"
      using tests_loop_ok [OF T list(4) t(2)] t(1) by simp
    with q1 list(6) expect_toks_ok [OF list(5)] show ?thesis by (simp add: tests_shape_def)
  next
    case (none args)
    then show ?thesis using args_loop_ok [OF none(1) p] by (simp add: tests_shape_def)
  qed
qed

lemma p_test_ok: "yields (p_test eof room) (test_ok room)"
proof (induction room)
  case (Suc room)
  show ?case
    unfolding yields_def
  proof (intro allI impI)
    fix p t q
    assume p: "toks_ok p" and t: "p_test eof (Suc room) p = Inr (t, q)"
    from t show "test_ok (Suc room) t \<and> toks_ok q"
    proof (cases rule: p_testE)
      case (1 room' name args tests listed)
      then show ?thesis
        using yieldsD [OF p_arguments_ok [OF Suc], of _ "gadvance p" "(args, tests, listed)" q]
          toks_ok_peek [OF p 1(2)] p by auto
    qed
  qed
qed (simp add: yields_def)

lemma commands_loop_ok:
  assumes C: "yields C P"
  shows "commands_loop eof n C b cs p = Inr (ds, q) \<Longrightarrow> toks_ok p \<Longrightarrow> list_all P cs \<Longrightarrow>
    list_all P ds \<and> toks_ok q"
proof (induction n arbitrary: cs p)
  case (Suc n)
  from Suc.prems(1) show ?case
  proof (cases rule: commands_loopE)
    case (more m t c q')
    then show ?thesis
      using Suc.IH [of "cs @ [c]" q'] Suc.prems yieldsD [OF C more(4)] by auto
  next
    case stop
    with Suc.prems show ?thesis by simp
  qed
qed (auto elim: commands_loopE)

lemma p_command_ok: "yields (p_command eof room) (command_ok room)"
proof (induction room)
  case (Suc room)
  show ?case
    unfolding yields_def
  proof (intro allI impI)
    fix p c q
    assume p: "toks_ok p" and c: "p_command eof (Suc room) p = Inr (c, q)"
    have args: "list_all arg_ok args \<and> list_all (test_ok room) tests \<and> tests_shape tests listed \<and> toks_ok q1"
      if "p_arguments eof (p_test eof room) (gadvance p) = Inr ((args, tests, listed), q1)" for args tests listed q1
      using yieldsD [OF p_arguments_ok [OF p_test_ok] that] p by auto
    from c show "command_ok (Suc room) c \<and> toks_ok q"
    proof (cases rule: p_commandE)
      case (block room' name args' tests listed q1 s q2 cs q3 e)
      have r: "room' = room" using block(1) by simp
      note a = args [OF block(3) [unfolded r]]
      have "toks_ok q2" using expect_toks_ok [OF block(4)] a by simp
      then have "list_all (command_ok room) cs \<and> toks_ok q3"
        using commands_loop_ok [OF Suc block(5) [unfolded r]] by simp
      then show ?thesis
        using a toks_ok_peek [OF p block(2)] expect_toks_ok [OF block(6)] by (simp add: block(7))
    next
      case (plain room' name args' tests listed q1)
      have r: "room' = room" using plain(1) by simp
      show ?thesis
        using args [OF plain(3) [unfolded r]] toks_ok_peek [OF p plain(2)] plain(5,6) by auto
    qed
  qed
qed (simp add: yields_def)

theorem parse_script_bounds_suffice_witness:
  "\<exists>e. parse_script ''keep'' = Inl e \<and> err_message e \<noteq> Gram LoopBound"
proof -
  have "isl (parse_script ''keep'')" by code_simp
  then obtain e where "parse_script ''keep'' = Inl e" by (cases "parse_script ''keep''") auto
  then show ?thesis using parse_script_bounds_suffice by blast
qed

end
