(* ===== verification/Sieve_Tokens.thy ===== *)
theory Sieve_Tokens
  imports Sieve_Tree
begin

text \<open>
  What the lexer guarantees of its tokens on a valid source: the cursor's moves split the
  source at character boundaries, names are identifiers, strings are valid text. With the
  shape lemmas of the parser this gives the well-formedness of every tree.
\<close>

section \<open>The tokens of a valid source\<close>

text \<open>What a cursor stands before, and what a move passes over, is valid.\<close>

lemma at_char_valid:
  assumes "valid_utf8 src"
  shows "valid_utf8 (c_rest (at_char src k))"
proof -
  have "list_all char_ok (drop k (utf8_chars src))"
    using assms by (auto simp: valid_utf8_def list_all_iff dest: in_set_dropD)
  then show ?thesis by (simp add: at_char_def Let_def valid_utf8_concat)
qed

lemma moves_valid:
  assumes "valid_utf8 src" "moves (start_cursor src) c"
  shows "valid_utf8 (c_rest c)"
  using moves_at_char [OF assms] at_char_valid [OF assms(1)] by metis

lemma moves_split:
  assumes "valid_utf8 (c_rest c)" "moves c c'"
  shows "c_rest c = source_slice c c' @ c_rest c' \<and> valid_utf8 (source_slice c c') \<and> valid_utf8 (c_rest c')"
proof -
  have "\<exists>u. c_rest c = u @ c_rest ((cbump ^^ n) c) \<and> c_pos ((cbump ^^ n) c) = c_pos c + length u \<and>
      valid_utf8 (c_rest ((cbump ^^ n) c))" for n
  proof (induction n)
    case 0
    with assms(1) show ?case by (intro exI [of _ "[]"]) simp
  next
    case (Suc n)
    define d where "d = (cbump ^^ n) c"
    from Suc obtain u where u: "c_rest c = u @ c_rest d" "c_pos d = c_pos c + length u"
      "valid_utf8 (c_rest d)" unfolding d_def by blast
    show ?case
    proof (cases "utf8_chars (c_rest d)")
      case Nil
      then have "c_rest d = []" by (metis concat.simps(1) concat_utf8_chars)
      then have "cbump d = d" by (simp add: cbump_def)
      with u show ?thesis by (auto simp: d_def [symmetric])
    next
      case (Cons ch cs)
      with u(3) have ok: "char_ok ch" "list_all char_ok cs" by (simp_all add: valid_utf8_def)
      have rest: "c_rest d = ch @ concat cs" by (metis Cons concat.simps(2) concat_utf8_chars)
      from char_ok_length [OF ok(1)] obtain a r where a: "ch = a # r" "length ch = char_width a"
        by (cases ch) auto
      have drop: "drop (char_width a) (a # r @ concat cs) = concat cs"
        using a by (metis append_Cons append_eq_conv_conj)
      have LF: "a = LF \<Longrightarrow> ch = [LF]" using char_ok_LF [OF ok(1)] a by simp
      have "c_rest (cbump d) = concat cs \<and> c_pos (cbump d) = c_pos d + length ch"
        using a drop LF by (auto simp: cbump_def rest)
      with u rest valid_utf8_concat [OF ok(2)] show ?thesis
        by (intro exI [of _ "u @ ch"]) (simp add: d_def [symmetric])
    qed
  qed
  with assms(2) obtain u where u: "c_rest c = u @ c_rest c'" "c_pos c' = c_pos c + length u"
    "valid_utf8 (c_rest c')" by (auto simp: moves_def)
  have "source_slice c c' = u" using u by (simp add: source_slice_def)
  with u assms(1) valid_utf8_split [of u "c_rest c'"] valid_utf8_boundary show ?thesis by simp
qed

lemma moves_keep_valid: "valid_utf8 (c_rest c) \<Longrightarrow> moves c c' \<Longrightarrow> valid_utf8 (c_rest c')"
  using moves_split by blast

lemma bump_valid: "valid_utf8 (c_rest c) \<Longrightarrow> valid_utf8 (c_rest (cbump c))"
  by (rule moves_keep_valid [OF _ moves_bump])

lemma next_char_valid:
  assumes "valid_utf8 (c_rest c)" "next_char c = Some ch"
  shows "valid_utf8 ch"
proof -
  obtain b s where b: "c_rest c = b # s" "ch = take (char_width b) (b # s)"
    using assms(2) by (auto simp: next_char_def split: list.splits)
  then have "ch = hd (utf8_chars (c_rest c))" by (cases "char_width b") simp_all
  with assms(1) b(1) have "list_all char_ok [ch]" by (simp add: valid_utf8_def)
  then show ?thesis using valid_utf8_concat by fastforce
qed

lemma quoted_loop_valid:
  "quoted_loop s v c = Inr (out, c') \<Longrightarrow> valid_utf8 (c_rest c) \<Longrightarrow> valid_utf8 v \<Longrightarrow> valid_utf8 out"
proof (induction s v c rule: quoted_loop.induct)
  case (1 s v c)
  note run = "1.prems"(1) [unfolded quoted_loop.simps [of s v c]]
  obtain b where b: "cpeek c = Some b" using run by (cases "cpeek c") auto
  have b1: "valid_utf8 (c_rest (cbump c))" using "1.prems"(2) by (rule bump_valid)
  then have b2: "valid_utf8 (c_rest (cbump (cbump c)))" by (rule bump_valid)
  consider "b = DQ" | (esc) "b \<noteq> DQ" "b = BSL" | (char) "b \<noteq> DQ" "b \<noteq> BSL" by blast
  then show ?case
  proof cases
    case 1
    with run b "1.prems"(3) show ?thesis by simp
  next
    case esc
    then obtain ch where ch: "next_char (cbump c) = Some ch" using run b by (cases "next_char (cbump c)") auto
    have "valid_utf8 (v @ ch)" using "1.prems"(3) next_char_valid [OF b1 ch] by (rule valid_utf8_append)
    with "1.IH"(1) [OF b esc ch _ b2] run b esc ch show ?thesis by simp
  next
    case char
    have "valid_utf8 (case next_char c of Some ch \<Rightarrow> v @ ch | None \<Rightarrow> v)"
      using "1.prems"(3) next_char_valid [OF "1.prems"(2)] by (auto intro: valid_utf8_append split: option.split)
    with "1.IH"(2) [OF b char _ b1] run b char show ?thesis by simp
  qed
qed

lemma strip_cr_valid:
  "valid_utf8 raw \<Longrightarrow> valid_utf8 (case strip_suffix [CR] raw of Some l \<Rightarrow> l | None \<Rightarrow> raw)"
proof (cases "suffix [CR] raw")
  case True
  assume raw: "valid_utf8 raw"
  from True obtain l where l: "raw = l @ [CR]" by (auto simp: suffix_def)
  have "is_ascii CR" by (simp add: is_ascii_def)
  with raw l have "valid_utf8 l" using valid_utf8_snoc by blast
  with l show ?thesis by (simp add: strip_suffix_def)
qed (simp add: strip_suffix_def)

lemma ml_unstuff_valid:
  assumes "valid_utf8 l"
  shows "valid_utf8 (ml_unstuff l)"
proof (cases "\<exists>t. l = CHR ''.'' # t")
  case True
  then obtain t where l: "l = CHR ''.'' # t" ..
  have "is_ascii (CHR ''.'')" by (simp add: is_ascii_def)
  with assms l have "valid_utf8 t" by (simp add: valid_utf8_Cons)
  with assms l show ?thesis by (simp add: ml_unstuff_def)
next
  case False
  then have "\<not> prefix ''.'' l" by (auto simp: prefix_def)
  with assms show ?thesis by (simp add: ml_unstuff_def)
qed

lemma multiline_loop_valid:
  "multiline_loop s v c = Inr (out, c') \<Longrightarrow> valid_utf8 (c_rest c) \<Longrightarrow> valid_utf8 v \<Longrightarrow> valid_utf8 out"
proof (induction s v c rule: multiline_loop.induct)
  case (1 s v c)
  define c1 where "c1 = skip_while (\<lambda>x. x \<noteq> LF) c"
  obtain had c2 where c2: "eat_newline c1 = (had, c2)" by fastforce
  have m1: "moves c c1" by (simp add: c1_def moves_skip_while)
  have m2: "moves c c2" using moves_eat_newline [of c1] c2 m1 moves_trans by (metis snd_conv)
  have crlf: "valid_utf8 [CR, LF]" by (rule valid_utf8_ascii) (simp add: is_ascii_def)
  have line: "valid_utf8 (case strip_suffix [CR] (source_slice c c1) of Some l \<Rightarrow> l | None \<Rightarrow> source_slice c c1)"
    (is "valid_utf8 ?line")
    using moves_split [OF "1.prems"(2) m1] by (intro strip_cr_valid) simp
  have val: "valid_utf8 (v @ ml_unstuff ?line @ (if had then [CR, LF] else []))"
    using "1.prems"(3) line crlf by (simp add: valid_utf8_append ml_unstuff_valid)
  from "1.prems"(1) show ?case
    using "1.IH" [OF _ c1_def refl refl refl c2 [symmetric] _ _ moves_keep_valid [OF "1.prems"(2) m2] val]
      "1.prems"(3)
    by (auto simp: multiline_loop.simps [of s v c] Let_def c1_def [symmetric] c2 split: if_splits)
qed

lemma lex_multiline_valid:
  assumes "lex_multiline c start = Inr (val, c')" "valid_utf8 (c_rest c)"
  shows "valid_utf8 val"
proof -
  define c1 where "c1 = skip_while (\<lambda>x. x = SP \<or> x = TAB) c"
  define c2 where "c2 = (if cpeek c1 = Some (CHR ''#'') then skip_while (\<lambda>x. x \<noteq> LF) c1 else c1)"
  obtain nl c3 where c3: "eat_newline c2 = (nl, c3)" by fastforce
  have run: "multiline_loop start [] c3 = Inr (val, c')"
    using assms(1) unfolding lex_multiline_def c1_def [symmetric]
    by (simp only: Let_def c2_def [symmetric] c3 prod.case split: if_splits) simp_all
  have "moves c2 c3" using moves_eat_newline [of c2] c3 by simp
  moreover have "moves c1 c2" by (simp add: c2_def moves_skip_while)
  moreover have "moves c c1" by (simp add: c1_def moves_skip_while)
  ultimately have "moves c c3" by (meson moves_trans)
  with assms(2) have "valid_utf8 (c_rest c3)" by (rule moves_keep_valid)
  with run show ?thesis by (rule multiline_loop_valid) simp
qed

text \<open>An ASCII run the cursor skips is the longest prefix of that kind.\<close>

lemma cbump_ascii: "c_rest c = b # s \<Longrightarrow> is_ascii b \<Longrightarrow> c_rest (cbump c) = s \<and> c_pos (cbump c) = Suc (c_pos c)"
  by (simp add: cbump_def)

lemma skip_while_ascii:
  assumes p: "\<And>b. p b \<Longrightarrow> is_ascii b"
  shows "c_rest (skip_while p c) = dropWhile p (c_rest c) \<and>
    c_pos (skip_while p c) = c_pos c + length (takeWhile p (c_rest c))"
proof (induction "c_rest c" arbitrary: c)
  case Nil
  then show ?case by (simp add: skip_while.simps [of p c] cpeek_def)
next
  case (Cons b s)
  then have rest: "c_rest c = b # s" by simp
  show ?case
  proof (cases "p b")
    case True
    have bump: "c_rest (cbump c) = s" "c_pos (cbump c) = Suc (c_pos c)"
      using cbump_ascii [OF rest p [OF True]] by simp_all
    with Cons.hyps(1) [of "cbump c"] True rest show ?thesis
      by (simp add: skip_while.simps [of p c] cpeek_def)
  next
    case False
    with rest show ?thesis by (simp add: skip_while.simps [of p c] cpeek_def)
  qed
qed

lemma source_slice_ascii:
  assumes "\<And>b. p b \<Longrightarrow> is_ascii b"
  shows "source_slice c (skip_while p c) = takeWhile p (c_rest c)"
  using skip_while_ascii [of p c, OF assms]
  by (simp add: source_slice_def) (metis append_eq_conv_conj takeWhile_dropWhile_id)

lemma ident_char_ascii: "is_ident_char b \<Longrightarrow> is_ascii b"
  by (auto simp: is_ident_char_def is_ascii_def is_upper_def is_lower_def is_digit_def)

lemma ident_start_char: "is_ident_start b \<Longrightarrow> is_ident_char b"
  by (auto simp: is_ident_start_def is_ident_char_def)

lemma ident_slice_ok:
  assumes "cpeek c = Some b" "is_ident_start b"
  shows "ident_ok (source_slice c (skip_while is_ident_char c))"
proof -
  obtain s where "c_rest c = b # s" using assms(1) by (auto simp: cpeek_Some)
  with assms(2) show ?thesis
    by (simp add: source_slice_ascii ident_char_ascii ident_ok_def ident_start_char list_all_iff)
      (meson set_takeWhileD)
qed

lemma lex_step_ok:
  assumes step: "lex_step b c = Inr (Some x, c')" and b: "cpeek c = Some b"
    and valid: "valid_utf8 (c_rest c)"
  shows "tok_ok (gt_tok x)"
proof -
  have str: "valid_utf8 v" if "quoted_loop s [] (cbump c) = Inr (v, c')" for s v
    using that bump_valid [OF valid] by (rule quoted_loop_valid) simp
  have mult: "valid_utf8 v"
    if "lex_multiline (cbump (skip_while is_ident_char c)) s = Inr (v, c')" for s v
    by (rule lex_multiline_valid [OF that moves_keep_valid [OF valid]])
      (intro moves_step moves_skip_while)
  have tag: "ident_ok (source_slice (cbump c) (skip_while is_ident_char (cbump c)))"
    if "case cpeek (cbump c) of Some x \<Rightarrow> is_ident_start x | None \<Rightarrow> False"
    using that by (auto intro: ident_slice_ok split: option.splits)
  show ?thesis
    using step str mult tag ident_slice_ok [OF b]
    unfolding lex_step_def Let_def
    by (simp split: if_splits;
        force simp: rbind_eq_Inr mk_token_def dest: lex_number_moves split: prod.splits)
qed

lemma lex_loop_ok:
  "lex_loop c = Inr ts \<Longrightarrow> valid_utf8 (c_rest c) \<Longrightarrow> list_all (\<lambda>t. tok_ok (gt_tok t)) ts"
proof (induction c arbitrary: ts rule: lex_loop.induct)
  case (1 c)
  show ?case
  proof (cases "cpeek c")
    case None
    with "1.prems" show ?thesis by (simp add: lex_loop.simps [of c])
  next
    case (Some b)
    with "1.prems"(1) obtain t c' us where step: "lex_step b c = Inr (t, c')"
      and us: "lex_loop c' = Inr us" and ts: "ts = (case t of Some x \<Rightarrow> x # us | None \<Rightarrow> us)"
      by (auto simp: lex_loop.simps [of c] rbind_eq_Inr)
    have "valid_utf8 (c_rest c')"
      using lex_step_moves [OF step] moves_keep_valid [OF "1.prems"(2)] by blast
    with "1.IH" [OF Some step refl us] ts lex_step_ok [OF _ Some "1.prems"(2)] step show ?thesis
      by (cases t) auto
  qed
qed

lemma parsed_tree_ok:
  assumes "valid_utf8 source" "parse_script source = Inr cs"
  shows "list_all (command_ok (MAX_DEPTH + 1)) cs"
proof -
  from assms(2) obtain ts p where ts: "lex source = Inr ts"
    and run: "commands_loop (eof_span source) (length ts) (p_command (eof_span source) (MAX_DEPTH + 1))
      False [] (0, ts) = Inr (cs, p)"
    by (auto simp: parse_script_def rbind_eq_Inr)
  have "toks_ok (0, ts)"
    using lex_loop_ok ts assms(1) by (simp add: lex_def toks_ok_def start_cursor_def)
  then show ?thesis using commands_loop_ok [OF p_command_ok run] by simp
qed

text \<open>Every tree \<open>parse_script\<close> returns for a valid source respects the nesting bound, its
  names are identifiers, its strings valid text, a bare string argument holds one string, a
  bracketed one at least one, and a test list is never empty.\<close>

theorem parsed_tree_well_formed:
  assumes "valid_utf8 source" "parse_script source = Inr cs"
  shows "list_all (command_ok (MAX_DEPTH + 1)) cs"
  using assms by (rule parsed_tree_ok)

lemma sample_script_parses: "\<exists>cs. parse_script sample_script = Inr cs"
proof -
  have "\<not> isl (parse_script sample_script)" by code_simp
  then show ?thesis by (cases "parse_script sample_script") auto
qed

theorem parsed_tree_well_formed_witness:
  "\<exists>cs. parse_script sample_script = Inr cs \<and> list_all (command_ok (MAX_DEPTH + 1)) cs"
  using parsed_tree_well_formed [OF sample_script_valid] sample_script_parses by blast

end
