(* ===== verification/Sieve_Unparse.thy ===== *)
theory Sieve_Unparse
  imports Sieve_Tokens
begin

text \<open>
  Printing a syntax tree and reading it back. The printer is the specification side of the
  grammar: it writes every token followed by a space, strings quoted. Reading a printed tree
  gives the tree back up to positions and the way strings were written, for every tree within
  the nesting bound. The locale \<open>item_reader\<close> is what the loops of the parser need of the
  parser of their items; it is interpreted on the test and the command parser.
\<close>

section \<open>Trees up to positions\<close>

definition erase_string :: "sieve_string \<Rightarrow> sieve_string" where
  "erase_string v = v\<lparr>str_span := default_span, multiline := False\<rparr>"

definition erase_arg :: "argument \<Rightarrow> argument" where
  "erase_arg a = \<lparr>arg_kind = (case arg_kind a of
       Strings vs b \<Rightarrow> Strings (map erase_string vs) b | k \<Rightarrow> k), arg_span = default_span\<rparr>"

fun erase_test :: "test \<Rightarrow> test" where
  "erase_test (Test n s as ts listed) =
     Test n default_span (map erase_arg as) (map erase_test ts) listed"

fun erase_command :: "command \<Rightarrow> command" and erase_block :: "block \<Rightarrow> block" where
  "erase_command (Command n s as ts listed b) =
     Command n default_span (map erase_arg as) (map erase_test ts) listed (map_option erase_block b)"
| "erase_block (Block cs s) = Block (map erase_command cs) default_span"

section \<open>The tokens of a tree\<close>

abbreviation "comma_tok \<equiv> TPunct (CHR '','')"

definition value_tok :: "sieve_string \<Rightarrow> tok" where
  "value_tok v = TStr (str_value v) False"

definition arg_toks :: "argument \<Rightarrow> tok list" where
  "arg_toks a = (case arg_kind a of
       Strings vs b \<Rightarrow> if b
         then TPunct (CHR ''['') # join [comma_tok] (map (\<lambda>v. [value_tok v]) vs) @ [TPunct (CHR '']'')]
         else map value_tok vs
     | Number n \<Rightarrow> [TNumber n]
     | TagArg t \<Rightarrow> [TTag t])"

definition listed_toks :: "tok list list \<Rightarrow> bool \<Rightarrow> tok list" where
  "listed_toks tss listed = (if listed
     then TPunct (CHR ''('') # join [comma_tok] tss @ [TPunct (CHR '')'')] else concat tss)"

fun test_toks :: "test \<Rightarrow> tok list" where
  "test_toks (Test n s as ts listed) =
     TIdent n # concat (map arg_toks as) @ listed_toks (map test_toks ts) listed"

fun command_toks :: "command \<Rightarrow> tok list" and block_toks :: "block \<Rightarrow> tok list" where
  "command_toks (Command n s as ts listed b) =
     TIdent n # concat (map arg_toks as) @ listed_toks (map test_toks ts) listed @
       (case b of None \<Rightarrow> [TPunct (CHR '';'')] | Some bl \<Rightarrow> block_toks bl)"
| "block_toks (Block cs s) =
     TPunct (CHR ''{'') # concat (map command_toks cs) @ [TPunct (CHR ''}'')]"

definition esc_char :: "string \<Rightarrow> string" where
  "esc_char ch = (if ch = [DQ] \<or> ch = [BSL] then BSL # ch else ch)"

definition quote_text :: "string \<Rightarrow> string" where
  "quote_text v = DQ # concat (map esc_char (utf8_chars v)) @ [DQ]"

fun tok_text :: "tok \<Rightarrow> string" where
  "tok_text (TIdent s) = s"
| "tok_text (TTag s) = CHR '':'' # s"
| "tok_text (TNumber n) = dec_str (unat n)"
| "tok_text (TStr v m) = quote_text v"
| "tok_text (TPunct c) = [c]"

definition print_toks :: "tok list \<Rightarrow> string" where
  "print_toks ts = concat (map (\<lambda>t. tok_text t @ [SP]) ts)"

definition print_script :: "script \<Rightarrow> string" where
  "print_script cs = print_toks (concat (map command_toks cs))"

section \<open>The parser on the tokens of a tree\<close>

definition toks_of :: "gstate \<Rightarrow> tok list" where
  "toks_of p = map gt_tok (snd p)"

lemma peek_toks: "peek_tok p = (case toks_of p of [] \<Rightarrow> None | t # _ \<Rightarrow> Some t)"
  by (simp add: peek_tok_def gpeek_def toks_of_def split: list.split)

lemma toks_of_advance [simp]: "toks_of (gadvance p) = List.tl (toks_of p)"
  by (simp add: gadvance_def toks_of_def split: list.split)

lemma gleft_toks: "gleft p = length (toks_of p)"
  by (simp add: toks_of_def)

lemma is_punct_toks: "is_punct c p \<longleftrightarrow> (\<exists>ws. toks_of p = TPunct c # ws)"
  by (simp add: is_punct_def peek_toks split: list.split)

lemma expect_toks:
  "toks_of p = TPunct c # ws \<Longrightarrow> \<exists>s q. expect_gpunct eof c w p = Inr (s, q) \<and> toks_of q = ws"
  by (auto simp: expect_gpunct_def is_punct_toks)

lemma join_Cons: "join sep (t # ts) = t @ concat (map (\<lambda>u. sep @ u) ts)"
  by (induction ts arbitrary: t) simp_all

text \<open>A token after which a test or an argument list is complete.\<close>

definition closes :: "tok list \<Rightarrow> bool" where
  "closes ws \<longleftrightarrow> (\<exists>c vs. ws = TPunct c # vs \<and> c \<in> set '',);{'')"

locale item_reader =
  fixes item :: "'a gparser" and toks :: "'a \<Rightarrow> tok list"
    and same :: "'a \<Rightarrow> 'a \<Rightarrow> bool" and ok :: "'a \<Rightarrow> bool" and follow :: "tok list \<Rightarrow> bool"
  assumes item_reads: "ok x \<Longrightarrow> toks_of p = toks x @ ws \<Longrightarrow> follow ws \<Longrightarrow>
      \<exists>y q. item p = Inr (y, q) \<and> toks_of q = ws \<and> same y x"
    and toks_nonempty: "ok x \<Longrightarrow> \<exists>n ts. toks x = TIdent n # ts"
begin

lemma separated_reads:
  assumes follow: "\<And>vs. follow (comma_tok # vs)" "follow ws" "\<And>vs. ws \<noteq> comma_tok # vs"
  shows "list_all ok xs \<Longrightarrow> toks_of p = concat (map (\<lambda>x. comma_tok # toks x) xs) @ ws \<Longrightarrow>
    length xs \<le> n \<Longrightarrow>
    \<exists>ys q. tests_loop n item acc p = Inr (acc @ ys, q) \<and> toks_of q = ws \<and> list_all2 same ys xs"
proof (induction xs arbitrary: p n acc)
  case Nil
  then have "\<not> is_punct (CHR '','') p" using follow(3) by (simp add: is_punct_toks)
  with Nil show ?case by (simp add: tests_loop.simps)
next
  case (Cons x xs)
  let ?ws = "concat (map (\<lambda>x. comma_tok # toks x) xs) @ ws"
  have "follow ?ws" using follow(1,2) by (cases xs) simp_all
  moreover have "toks_of (gadvance p) = toks x @ ?ws" using Cons.prems(2) by simp
  ultimately obtain y q where y: "item (gadvance p) = Inr (y, q)" "toks_of q = ?ws" "same y x"
    using item_reads [of x "gadvance p" ?ws] Cons.prems(1) by auto
  obtain m where n: "n = Suc m" "length xs \<le> m" using Cons.prems(3) by (cases n) auto
  from Cons.IH [OF _ y(2) n(2), of "acc @ [y]"] Cons.prems(1) obtain ys r where
    "tests_loop m item (acc @ [y]) q = Inr (acc @ y # ys, r)" "toks_of r = ws" "list_all2 same ys xs"
    by auto
  moreover have "is_punct (CHR '','') p" using Cons.prems(2) by (simp add: is_punct_toks)
  ultimately show ?case
    using y n by (intro exI [of _ "y # ys"] exI [of _ r]) (simp add: tests_loop.simps [of "Suc m" item acc p])
qed

lemma sequence_reads:
  assumes follow: "\<And>vs n. follow (TIdent n # vs)" "follow ws"
    "ws = (if in_block then TPunct (CHR ''}'') # vs else [])"
  shows "list_all ok xs \<Longrightarrow> toks_of p = concat (map toks xs) @ ws \<Longrightarrow> length xs \<le> n \<Longrightarrow>
    \<exists>ys q. commands_loop eof n item in_block acc p = Inr (acc @ ys, q) \<and> toks_of q = ws \<and>
      list_all2 same ys xs"
proof (induction xs arbitrary: p n acc)
  case Nil
  then show ?case
    using follow(3) by (cases in_block) (simp_all add: commands_loop.simps peek_toks)
next
  case (Cons x xs)
  let ?ws = "concat (map toks xs) @ ws"
  have heads: "list_all (\<lambda>x. \<exists>n ts. toks x = TIdent n # ts) xs"
    using Cons.prems(1) toks_nonempty by (auto simp: list_all_iff)
  have "follow ?ws"
  proof (cases xs)
    case (Cons z zs)
    with heads obtain n ts where "toks z = TIdent n # ts" by auto
    with Cons follow(1) show ?thesis by simp
  qed (simp add: follow(2))
  then obtain y q where y: "item p = Inr (y, q)" "toks_of q = ?ws" "same y x"
    using item_reads [of x p ?ws] Cons.prems by auto
  obtain m where n: "n = Suc m" "length xs \<le> m" using Cons.prems(3) by (cases n) auto
  from Cons.IH [OF _ y(2) n(2), of "acc @ [y]"] Cons.prems(1) obtain ys r where
    r: "commands_loop eof m item in_block (acc @ [y]) q = Inr (acc @ y # ys, r)" "toks_of r = ws"
      "list_all2 same ys xs"
    by auto
  obtain k ts where "toks x = TIdent k # ts" using toks_nonempty [of x] Cons.prems(1) by auto
  then have "peek_tok p = Some (TIdent k)" using Cons.prems(2) by (simp add: peek_toks)
  with y r n show ?case
    by (intro exI [of _ "y # ys"] exI [of _ r])
      (simp add: commands_loop.simps [of eof "Suc m" item in_block acc p])
qed

end

section \<open>Arguments\<close>

lemma string_list_loop_reads:
  "toks_of p = value_tok v # concat (map (\<lambda>v. [comma_tok, value_tok v]) vs) @ TPunct (CHR '']'') # ws \<Longrightarrow>
   \<exists>a q us. string_list_loop eof s acc p = Inr (a, q) \<and> toks_of q = ws \<and>
     arg_kind a = Strings (acc @ us) True \<and> map erase_string us = map erase_string (v # vs)"
proof (induction vs arbitrary: v p acc)
  case Nil
  let ?u = "sieve_string_of (str_value v) False (span_here eof p)"
  from Nil have p: "peek_tok p = Some (TStr (str_value v) False)"
    "toks_of (gadvance p) = TPunct (CHR '']'') # ws" by (simp_all add: peek_toks value_tok_def)
  from expect_toks [OF p(2)] obtain e q where
    q: "expect_gpunct eof (CHR '']'') ''`,` or `]`'' (gadvance p) = Inr (e, q)" "toks_of q = ws" by blast
  have "\<not> is_punct (CHR '','') (gadvance p)" using p(2) by (simp add: is_punct_toks)
  with p q show ?case
    by (intro exI conjI) (auto simp: string_list_loop.simps [of eof s acc p] Let_def erase_string_def
        sieve_string_of_def)
next
  case (Cons w vs)
  let ?u = "sieve_string_of (str_value v) False (span_here eof p)"
  have u: "erase_string ?u = erase_string v" by (simp add: erase_string_def sieve_string_of_def)
  from Cons.prems have p: "peek_tok p = Some (TStr (str_value v) False)"
    "is_punct (CHR '','') (gadvance p)"
    "toks_of (gadvance (gadvance p)) =
       value_tok w # concat (map (\<lambda>v. [comma_tok, value_tok v]) vs) @ TPunct (CHR '']'') # ws"
    by (simp_all add: peek_toks value_tok_def is_punct_toks)
  from Cons.IH [OF p(3), of "acc @ [?u]"] obtain a q us where
    "string_list_loop eof s (acc @ [?u]) (gadvance (gadvance p)) = Inr (a, q)" "toks_of q = ws"
    "arg_kind a = Strings (acc @ ?u # us) True" "map erase_string us = map erase_string (w # vs)" by auto
  with p u show ?case
    by (intro exI [of _ a] exI [of _ q] exI [of _ "?u # us"])
      (simp add: string_list_loop.simps [of eof s acc p])
qed

lemma args_loop_reads:
  assumes ws: "closes ws \<or> (\<exists>n vs. ws = TIdent n # vs) \<or> (\<exists>vs. ws = TPunct (CHR ''('') # vs)"
  shows "list_all arg_ok as \<Longrightarrow> toks_of p = concat (map arg_toks as) @ ws \<Longrightarrow>
    \<exists>bs q. args_loop eof acc p = Inr (acc @ bs, q) \<and> toks_of q = ws \<and> map erase_arg bs = map erase_arg as"
proof (induction as arbitrary: p acc)
  case Nil
  with ws have "args_loop eof acc p = Inr (acc, p)"
    by (auto simp: args_loop.simps [of eof acc p] peek_toks closes_def)
  with Nil show ?case by simp
next
  case (Cons a as)
  let ?ws = "concat (map arg_toks as) @ ws"
  have one: ?case if "token_arg t (span_here eof p) = Some b" "arg_toks a = [t]" "erase_arg b = erase_arg a" for t b
  proof -
    have p: "peek_tok p = Some t" "toks_of (gadvance p) = ?ws"
      using Cons.prems(2) that(2) by (simp_all add: peek_toks)
    from Cons.IH [OF _ p(2), of "acc @ [b]"] Cons.prems(1) obtain bs q where
      "args_loop eof (acc @ [b]) (gadvance p) = Inr (acc @ b # bs, q)" "toks_of q = ws"
      "map erase_arg bs = map erase_arg as" by auto
    with p that show ?thesis
      by (intro exI [of _ "b # bs"] exI [of _ q]) (simp add: args_loop_step [of eof acc p])
  qed
  show ?case
  proof (cases "arg_kind a")
    case (Number n)
    then show ?thesis by (intro one) (auto simp: token_arg_def arg_toks_def erase_arg_def)
  next
    case (TagArg t)
    then show ?thesis by (intro one) (auto simp: token_arg_def arg_toks_def erase_arg_def)
  next
    case (Strings vs b)
    show ?thesis
    proof (cases b)
      case False
      with Strings Cons.prems(1) obtain v where v: "vs = [v]" by (auto simp: arg_ok_def length_Suc_conv)
      with Strings False show ?thesis
        by (intro one) (auto simp: token_arg_def arg_toks_def value_tok_def erase_arg_def erase_string_def
            sieve_string_of_def)
    next
      case True
      with Strings Cons.prems(1) obtain v us where v: "vs = v # us" by (cases vs) (auto simp: arg_ok_def)
      have "arg_toks a = TPunct (CHR ''['') # value_tok v #
          concat (map (\<lambda>v. [comma_tok, value_tok v]) us) @ [TPunct (CHR '']'')]"
        using Strings True v by (simp add: arg_toks_def join_Cons o_def)
      then have "toks_of p = TPunct (CHR ''['') # value_tok v #
          concat (map (\<lambda>v. [comma_tok, value_tok v]) us) @ TPunct (CHR '']'') # ?ws"
        using Cons.prems(2) by simp
      then obtain s q1 where q1: "expect_gpunct eof (CHR ''['') ''`[`'' p = Inr (s, q1)"
        "toks_of q1 = value_tok v # concat (map (\<lambda>v. [comma_tok, value_tok v]) us) @ TPunct (CHR '']'') # ?ws"
        and peek: "peek_tok p = Some (TPunct (CHR ''[''))"
        using expect_toks [of p] by (fastforce simp: peek_toks)
      from string_list_loop_reads [OF q1(2), of eof s "[]"] obtain c q2 where
        c: "p_string_list eof p = Inr (c, q2)" "toks_of q2 = ?ws" "erase_arg c = erase_arg a"
        using q1 Strings True v by (auto simp: p_string_list_def erase_arg_def)
      from Cons.IH [OF _ c(2), of "acc @ [c]"] Cons.prems(1) obtain bs q where
        "args_loop eof (acc @ [c]) q2 = Inr (acc @ c # bs, q)" "toks_of q = ws"
        "map erase_arg bs = map erase_arg as" by auto
      with peek c show ?thesis
        by (intro exI [of _ "c # bs"] exI [of _ q])
          (simp add: args_loop.simps [of eof acc p])
    qed
  qed
qed

section \<open>Tests and commands\<close>

definition same_test :: "test \<Rightarrow> test \<Rightarrow> bool" where
  "same_test x y \<longleftrightarrow> erase_test x = erase_test y"

definition same_command :: "command \<Rightarrow> command \<Rightarrow> bool" where
  "same_command x y \<longleftrightarrow> erase_command x = erase_command y"

lemma list_all2_same:
  "list_all2 same_test xs ys \<Longrightarrow> map erase_test xs = map erase_test ys"
  "list_all2 same_command cs ds \<Longrightarrow> map erase_command cs = map erase_command ds"
  by (induction rule: list_all2_induct; simp add: same_test_def same_command_def)+

abbreviation test_reader :: "span \<Rightarrow> nat \<Rightarrow> bool" where
  "test_reader eof room \<equiv> item_reader (p_test eof room) test_toks same_test (test_ok room) closes"

lemma closes_simps [simp]:
  "closes (comma_tok # vs)" "closes (TPunct (CHR '')'') # vs)" "closes (TPunct (CHR '';'') # vs)"
  "closes (TPunct (CHR ''{'') # vs)" "\<not> closes (TIdent n # vs)" "\<not> closes (TPunct (CHR ''('') # vs)"
  by (simp_all add: closes_def)

lemma p_arguments_reads:
  assumes T: "test_reader eof room"
    and ok: "list_all arg_ok as" "list_all (test_ok room) ts" "tests_shape ts listed"
    and p: "toks_of p = concat (map arg_toks as) @ listed_toks (map test_toks ts) listed @ ws"
    and ws: "closes ws"
  shows "\<exists>bs us q. p_arguments eof (p_test eof room) p = Inr ((bs, us, listed), q) \<and> toks_of q = ws \<and>
    map erase_arg bs = map erase_arg as \<and> map erase_test us = map erase_test ts"
proof (cases ts)
  case Nil
  with ok(3) have "\<not> listed" by (simp add: tests_shape_def split: if_splits)
  with p Nil have "toks_of p = concat (map arg_toks as) @ ws" by (simp add: listed_toks_def)
  from args_loop_reads [OF _ ok(1) this, of eof "[]"] ws obtain bs q where
    "args_loop eof [] p = Inr (bs, q)" "toks_of q = ws" "map erase_arg bs = map erase_arg as" by auto
  moreover obtain c vs where "ws = TPunct c # vs" "c \<noteq> CHR ''(''" using ws by (auto simp: closes_def)
  ultimately show ?thesis
    using Nil \<open>\<not> listed\<close> by (simp add: p_arguments_def peek_toks)
next
  case (Cons t ts')
  obtain n vs where t: "test_toks t = TIdent n # vs" by (cases t) auto
  show ?thesis
  proof (cases listed)
    case False
    with ok(3) Cons have ts: "ts = [t]" by (simp add: tests_shape_def)
    with p False have p': "toks_of p = concat (map arg_toks as) @ test_toks t @ ws"
      by (simp add: listed_toks_def)
    from args_loop_reads [OF _ ok(1) p', of eof "[]"] t obtain bs q1 where
      q1: "args_loop eof [] p = Inr (bs, q1)" "toks_of q1 = test_toks t @ ws"
        "map erase_arg bs = map erase_arg as" by auto
    from item_reader.item_reads [OF T _ q1(2) ws] ok(2) ts obtain u q where
      "p_test eof room q1 = Inr (u, q)" "toks_of q = ws" "same_test u t" by auto
    with q1 t ts False show ?thesis
      by (intro exI [of _ bs] exI [of _ "[u]"] exI [of _ q])
        (simp add: p_arguments_def peek_toks same_test_def)
  next
    case True
    let ?tail = "TPunct (CHR '')'') # ws"
    let ?more = "concat (map (\<lambda>x. comma_tok # test_toks x) ts')"
    have p': "toks_of p = concat (map arg_toks as) @ TPunct (CHR ''('') # test_toks t @ ?more @ ?tail"
      using p True Cons by (simp add: listed_toks_def join_Cons o_def)
    from args_loop_reads [OF _ ok(1) p', of eof "[]"] obtain bs q1 where
      q1: "args_loop eof [] p = Inr (bs, q1)"
        "toks_of q1 = TPunct (CHR ''('') # test_toks t @ ?more @ ?tail"
        "map erase_arg bs = map erase_arg as" by auto
    have "closes (?more @ ?tail)" by (cases ts') simp_all
    from item_reader.item_reads [OF T _ _ this, of t "gadvance q1"] ok(2) Cons q1(2) obtain u q2 where
      q2: "p_test eof room (gadvance q1) = Inr (u, q2)" "toks_of q2 = ?more @ ?tail" "same_test u t"
      by auto
    have "length ts' \<le> gleft q2"
      unfolding gleft_toks q2(2) by (induction ts') simp_all
    from item_reader.separated_reads [OF T _ _ _ _ q2(2) this, of "[u]"] ok(2) Cons obtain us q3 where
      q3: "tests_loop (gleft q2) (p_test eof room) [u] q2 = Inr (u # us, q3)" "toks_of q3 = ?tail"
        "list_all2 same_test us ts'" by auto
    from expect_toks [OF q3(2)] obtain e q where
      q: "expect_gpunct eof (CHR '')'') ''`,` or `)`'' q3 = Inr (e, q)" "toks_of q = ws" by blast
    have peek: "peek_tok q1 = Some (TPunct (CHR ''(''))" using q1(2) by (simp add: peek_toks)
    have "p_arguments eof (p_test eof room) p = Inr ((bs, u # us, True), q)"
      using q1(1) q2(1) q3(1) q(1) peek by (simp add: p_arguments_def)
    moreover have "map erase_test (u # us) = map erase_test ts"
      using q2(3) list_all2_same(1) [OF q3(3)] Cons by (simp add: same_test_def)
    ultimately show ?thesis
      using q(2) q1(3) True by (intro exI [of _ bs] exI [of _ "u # us"] exI [of _ q]) simp
  qed
qed

lemma p_test_reader: "test_reader eof room"
proof (induction room)
  case 0
  show ?case by unfold_locales simp_all
next
  case (Suc room)
  show ?case
  proof unfold_locales
    fix t p ws
    assume ok: "test_ok (Suc room) t" and p: "toks_of p = test_toks t @ ws" and ws: "closes ws"
    obtain n s as ts listed where t: "t = Test n s as ts listed" by (cases t)
    have peek: "peek_tok p = Some (TIdent n)" using p t by (simp add: peek_toks)
    have "toks_of (gadvance p) = concat (map arg_toks as) @ listed_toks (map test_toks ts) listed @ ws"
      using p t by simp
    from p_arguments_reads [OF Suc _ _ _ this ws] ok t obtain bs us q where
      "p_arguments eof (p_test eof room) (gadvance p) = Inr ((bs, us, listed), q)" "toks_of q = ws"
      "map erase_arg bs = map erase_arg as" "map erase_test us = map erase_test ts" by auto
    with peek t show "\<exists>y q. p_test eof (Suc room) p = Inr (y, q) \<and> toks_of q = ws \<and> same_test y t"
      by (simp add: same_test_def)
  next
    fix t
    show "\<exists>n ts. test_toks t = TIdent n # ts" by (cases t) simp
  qed
qed

abbreviation command_reader :: "span \<Rightarrow> nat \<Rightarrow> bool" where
  "command_reader eof room \<equiv>
     item_reader (p_command eof room) command_toks same_command (command_ok room) (\<lambda>_. True)"

lemma command_toks_head: "\<exists>n ts. command_toks c = TIdent n # ts"
  by (cases c) simp

lemma length_concat_nonempty: "(\<And>x. x \<in> set xs \<Longrightarrow> f x \<noteq> []) \<Longrightarrow> length xs \<le> length (concat (map f xs))"
  by (induction xs) (auto simp: Suc_le_eq intro: add_pos_nonneg trans_less_add2 order.strict_trans1)

lemma command_count: "length cs \<le> length (concat (map command_toks cs))"
  by (rule length_concat_nonempty) (metis command_toks_head list.distinct(1))

lemma p_command_reader: "command_reader eof room"
proof (induction room)
  case 0
  show ?case by unfold_locales simp_all
next
  case (Suc room)
  show ?case
  proof unfold_locales
    fix c p ws
    assume ok: "command_ok (Suc room) c" and p: "toks_of p = command_toks c @ ws"
    obtain n s as ts listed b where c: "c = Command n s as ts listed b" by (cases c)
    let ?finish = "case b of None \<Rightarrow> [TPunct (CHR '';'')] | Some bl \<Rightarrow> block_toks bl"
    have peek: "peek_tok p = Some (TIdent n)" using p c by (simp add: peek_toks)
    have adv: "toks_of (gadvance p) =
        concat (map arg_toks as) @ listed_toks (map test_toks ts) listed @ ?finish @ ws"
      using p c by simp
    have "closes (?finish @ ws)"
    proof (cases b)
      case (Some bl)
      then show ?thesis by (cases bl) simp
    qed simp
    from p_arguments_reads [OF p_test_reader [of eof room] _ _ _ adv this] ok c obtain bs us q1 where
      q1: "p_arguments eof (p_test eof room) (gadvance p) = Inr ((bs, us, listed), q1)"
        "toks_of q1 = ?finish @ ws"
      and same: "map erase_arg bs = map erase_arg as" "map erase_test us = map erase_test ts" by auto
    show "\<exists>y q. p_command eof (Suc room) p = Inr (y, q) \<and> toks_of q = ws \<and> same_command y c"
    proof (cases b)
      case None
      then have "is_punct (CHR '';'') q1" "\<not> is_punct (CHR ''{'') q1" "toks_of (gadvance q1) = ws"
        using q1(2) by (simp_all add: is_punct_toks)
      with peek q1(1) same c None show ?thesis by (simp add: same_command_def)
    next
      case (Some bl)
      obtain cs bs' where bl: "bl = Block cs bs'" by (cases bl)
      let ?ws = "TPunct (CHR ''}'') # ws"
      have q1': "toks_of q1 = TPunct (CHR ''{'') # concat (map command_toks cs) @ ?ws"
        using q1(2) Some bl by simp
      from expect_toks [OF q1'] obtain s1 q2 where
        q2: "expect_gpunct eof (CHR ''{'') ''`{`'' q1 = Inr (s1, q2)"
          "toks_of q2 = concat (map command_toks cs) @ ?ws" by blast
      have count: "length cs \<le> gleft q2"
        using command_count [of cs] by (simp add: gleft_toks q2(2))
      have oks: "list_all (command_ok room) cs" using ok c Some bl by simp
      from item_reader.sequence_reads [OF Suc TrueI TrueI _ oks q2(2) count, of True ws eof "[]"]
      obtain ds q3 where
        q3: "commands_loop eof (gleft q2) (p_command eof room) True [] q2 = Inr (ds, q3)"
          "toks_of q3 = ?ws" "list_all2 same_command ds cs" by auto
      from expect_toks [OF q3(2)] obtain e q where
        q: "expect_gpunct eof (CHR ''}'') ''`}`'' q3 = Inr (e, q)" "toks_of q = ws" by blast
      have brace: "is_punct (CHR ''{'') q1" using q1' by (simp add: is_punct_toks)
      show ?thesis
        using peek q1(1) same c Some bl brace q2(1) q3(1) q list_all2_same(2) [OF q3(3)]
        by (simp add: same_command_def)
    qed
  next
    fix c
    show "\<exists>n ts. command_toks c = TIdent n # ts" by (rule command_toks_head)
  qed
qed

interpretation test_item: item_reader "p_test eof room" test_toks same_test "test_ok room" closes
  for eof room by (rule p_test_reader)

interpretation command_item: item_reader "p_command eof room" command_toks same_command
    "command_ok room" "\<lambda>_. True" for eof room
  by (rule p_command_reader)

section \<open>The lexer on a printed token\<close>

lemma cbump_char:
  assumes "char_ok ch" "c_rest c = ch @ s"
  shows "c_rest (cbump c) = s \<and> next_char c = Some ch"
proof -
  from char_ok_length [OF assms(1)] obtain a r where a: "ch = a # r" "length ch = char_width a"
    by (cases ch) auto
  have "drop (char_width a) (a # r @ s) = s" "take (char_width a) (a # r @ s) = ch"
    using a by (metis append_Cons append_eq_conv_conj)+
  moreover have "a = LF \<Longrightarrow> r = []" using char_ok_LF [OF assms(1)] a(1) by simp
  ultimately show ?thesis using a assms(2) by (auto simp: cbump_def next_char_def)
qed

lemma char_ok_single: "is_ascii b \<Longrightarrow> char_ok [b]"
  by (simp add: lead_ok_def is_ascii_def)

lemma quoted_loop_reads:
  "list_all char_ok chs \<Longrightarrow> c_rest c = concat (map esc_char chs) @ DQ # s \<Longrightarrow>
   \<exists>c'. quoted_loop start v c = Inr (v @ concat chs, c') \<and> c_rest c' = s"
proof (induction chs arbitrary: v c)
  case Nil
  then have "c_rest (cbump c) = s" using cbump_char [OF char_ok_single, of DQ c s]
    by (simp add: is_ascii_def)
  with Nil show ?case by (simp add: quoted_loop.simps [of start v c] cpeek_def)
next
  case (Cons ch chs)
  let ?r = "concat (map esc_char chs) @ DQ # s"
  have ok: "char_ok ch" using Cons.prems(1) by simp
  show ?case
  proof (cases "ch = [DQ] \<or> ch = [BSL]")
    case True
    then have "esc_char ch = BSL # ch" by (auto simp: esc_char_def)
    then have c: "c_rest c = [BSL] @ ch @ ?r" using Cons.prems(2) by simp
    have "char_ok [BSL]" by (rule char_ok_single) (simp add: is_ascii_def)
    from cbump_char [OF this c] have b1: "c_rest (cbump c) = ch @ ?r" by simp
    from cbump_char [OF ok b1] have b2: "c_rest (cbump (cbump c)) = ?r" "next_char (cbump c) = Some ch"
      by simp_all
    from Cons.IH [OF _ b2(1), of "v @ ch"] Cons.prems(1) c b2 show ?thesis
      by (simp add: quoted_loop.simps [of start v c] cpeek_def)
  next
    case False
    then have "esc_char ch = ch" by (auto simp: esc_char_def)
    then have c: "c_rest c = ch @ ?r" using Cons.prems(2) by simp
    from cbump_char [OF ok c] have b: "c_rest (cbump c) = ?r" "next_char c = Some ch" by simp_all
    obtain a t where a: "ch = a # t" using char_ok_length [OF ok] by (cases ch) auto
    have "a = x \<Longrightarrow> is_ascii x \<Longrightarrow> ch = [x]" for x
      using char_ok_length [OF ok] a by simp
    from this [of DQ] this [of BSL] False have "a \<noteq> DQ" "a \<noteq> BSL" by (auto simp: is_ascii_def)
    with Cons.IH [OF _ b(1), of "v @ ch"] Cons.prems(1) c b a show ?thesis
      by (simp add: quoted_loop.simps [of start v c] cpeek_def)
  qed
qed

fun plain_tok :: "tok \<Rightarrow> tok" where
  "plain_tok (TStr v m) = TStr v False"
| "plain_tok t = t"

lemma ident_start_other:
  assumes "is_ident_start b"
  shows "\<not> is_layout b" "b \<noteq> CHR ''#''" "b \<noteq> CHR ''/''" "b \<noteq> DQ" "\<not> is_mark b" "b \<noteq> CHR '':''" "\<not> is_digit b"
  using assms by (auto simp: is_ident_start_def is_upper_def is_lower_def is_layout_def is_mark_def is_digit_def)

lemma digit_other:
  assumes "is_digit b"
  shows "\<not> is_layout b" "b \<noteq> CHR ''#''" "b \<noteq> CHR ''/''" "b \<noteq> DQ" "\<not> is_mark b" "b \<noteq> CHR '':''"
  using assms by (auto simp: is_layout_def is_mark_def is_digit_def)

lemma mark_other:
  assumes "is_mark b"
  shows "\<not> is_layout b" "b \<noteq> CHR ''#''" "b \<noteq> CHR ''/''" "b \<noteq> DQ" "is_ascii b"
  using assms by (auto simp: is_layout_def is_mark_def is_ascii_def)

lemma quote_not_layout: "\<not> is_layout DQ" "\<not> is_layout (CHR '':'')" "\<not> is_mark (CHR '':'')" "is_layout SP"
  "\<not> is_ident_char SP" "\<not> is_digit SP" "is_ascii SP" "is_ascii (CHR '':'')" "is_ascii DQ"
  "number_shift (Some SP) = 0"
  by (simp_all add: is_layout_def is_mark_def is_ident_char_def is_upper_def is_lower_def is_digit_def
      is_ascii_def number_shift_def)

lemma skip_run:
  assumes "\<And>b. p b \<Longrightarrow> is_ascii b" "list_all p u" "\<not> p SP" "c_rest c = u @ SP # s"
  shows "c_rest (skip_while p c) = SP # s \<and> source_slice c (skip_while p c) = u"
proof -
  have "takeWhile p (u @ SP # s) = u" "dropWhile p (u @ SP # s) = SP # s"
    using assms(2,3) by (auto simp: list_all_iff)
  then show ?thesis
    using skip_while_ascii [of p c] source_slice_ascii [of p c] assms(1,4) by simp
qed

lemma lex_tok:
  assumes ok: "tok_ok t" and c: "c_rest c = tok_text t @ SP # s"
  shows "\<exists>b x c'. cpeek c = Some b \<and> lex_step b c = Inr (Some x, c') \<and> gt_tok x = plain_tok t \<and>
    c_rest c' = SP # s"
proof (cases t)
  case (TIdent u)
  with ok have u: "list_all is_ident_char u" and ne: "u \<noteq> []" and hd: "is_ident_start (hd u)"
    by (simp_all add: ident_ok_def)
  from skip_run [OF ident_char_ascii u quote_not_layout(5)] c TIdent
  have skip: "c_rest (skip_while is_ident_char c) = SP # s" "source_slice c (skip_while is_ident_char c) = u"
    by simp_all
  have "cpeek c = Some (hd u)" using c TIdent ne by (cases u) (simp_all add: cpeek_def)
  moreover have "cpeek (skip_while is_ident_char c) = Some SP" using skip(1) by (simp add: cpeek_def)
  ultimately show ?thesis
    using skip TIdent hd ident_start_other [OF hd]
    by (simp add: lex_step_def Let_def mk_token_def)
next
  case (TTag u)
  with ok have u: "list_all is_ident_char u" and ne: "u \<noteq> []" and hd: "is_ident_start (hd u)"
    by (simp_all add: ident_ok_def)
  have b: "c_rest (cbump c) = u @ SP # s" "cpeek c = Some (CHR '':'')"
    using c TTag cbump_ascii [of c "CHR '':''"] quote_not_layout(8) by (simp_all add: cpeek_def)
  from skip_run [OF ident_char_ascii u quote_not_layout(5) b(1)]
  have skip: "c_rest (skip_while is_ident_char (cbump c)) = SP # s"
    "source_slice (cbump c) (skip_while is_ident_char (cbump c)) = u" by simp_all
  have "cpeek (cbump c) = Some (hd u)" using b(1) ne by (cases u) (simp_all add: cpeek_def)
  then show ?thesis
    using skip TTag b(2) hd quote_not_layout by (simp add: lex_step_def Let_def mk_token_def)
next
  case (TNumber n)
  have digits: "list_all is_digit (dec_str (unat n))" by (rule dec_str_digits)
  from skip_run [OF digit_ascii digits quote_not_layout(6)] c TNumber
  have skip: "c_rest (skip_while is_digit c) = SP # s" "source_slice c (skip_while is_digit c) = dec_str (unat n)"
    by simp_all
  obtain b u where b: "dec_str (unat n) = b # u" using dec_str_nonempty by (cases "dec_str (unat n)") auto
  then have d: "is_digit b" "cpeek c = Some b" using digits c TNumber by (simp_all add: cpeek_def)
  have "unat n \<le> 2 ^ 64 - 1" using unsigned_less [of n, where ?'a = nat] by simp
  then have num: "parse_digits (2 ^ 64 - 1) (dec_str (unat n)) = Some (unat n)" by (rule parse_digits_dec_str)
  have peek: "cpeek (skip_while is_digit c) = Some SP" using skip(1) by (simp add: cpeek_def)
  have "lex_number c (here c) = Inr (Some (mk_token (TNumber n) (here c) (c_pos (skip_while is_digit c))),
      skip_while is_digit c)"
    unfolding lex_number_def Let_def skip(2) num option.case peek quote_not_layout(10)
    by (simp add: quote_not_layout peek)
  then show ?thesis
    using d skip digit_other [OF d(1)] TNumber by (simp add: lex_step_def Let_def mk_token_def)
next
  case (TStr v m)
  have chs: "list_all char_ok (utf8_chars v)" using ok TStr by (simp add: valid_utf8_def)
  have c': "c_rest c = DQ # concat (map esc_char (utf8_chars v)) @ DQ # SP # s"
    using c TStr by (simp add: quote_text_def)
  then have "c_rest (cbump c) = concat (map esc_char (utf8_chars v)) @ DQ # SP # s"
    using cbump_ascii quote_not_layout(9) by blast
  from quoted_loop_reads [OF chs this, of "here c" "[]"] obtain d where
    d: "quoted_loop (here c) [] (cbump c) = Inr (v, d)" "c_rest d = SP # s" by auto
  have "cpeek c = Some DQ" using c' by (simp add: cpeek_def)
  with d TStr quote_not_layout show ?thesis by (simp add: lex_step_def Let_def mk_token_def)
next
  case (TPunct p)
  with ok have p: "is_mark p" by simp
  have "c_rest (cbump c) = SP # s" "cpeek c = Some p"
    using c TPunct cbump_ascii [of c p "SP # s"] mark_other(5) [OF p] by (simp_all add: cpeek_def)
  with p TPunct mark_other [OF p] show ?thesis by (simp add: lex_step_def Let_def mk_token_def)
qed

lemma lex_space:
  assumes "c_rest c = SP # s"
  shows "lex_loop c = lex_loop (cbump c) \<and> c_rest (cbump c) = s"
proof -
  have "lex_step SP c = Inr (None, cbump c)" by (simp add: lex_step_def quote_not_layout)
  moreover have "c_rest (cbump c) = s" using cbump_ascii assms quote_not_layout(7) by blast
  ultimately show ?thesis
    using assms by (subst lex_loop.simps) (cases "lex_loop (cbump c)", simp_all add: cpeek_def)
qed

lemma lex_printed:
  "list_all tok_ok ts \<Longrightarrow> c_rest c = print_toks ts \<Longrightarrow>
   \<exists>us. lex_loop c = Inr us \<and> map gt_tok us = map plain_tok ts"
proof (induction ts arbitrary: c)
  case Nil
  then show ?case by (simp add: lex_loop.simps [of c] cpeek_def print_toks_def)
next
  case (Cons t ts)
  have "c_rest c = tok_text t @ SP # print_toks ts" using Cons.prems(2) by (simp add: print_toks_def)
  from lex_tok [OF _ this] Cons.prems(1) obtain b x c' where
    c': "cpeek c = Some b" "lex_step b c = Inr (Some x, c')" "gt_tok x = plain_tok t"
      "c_rest c' = SP # print_toks ts" by auto
  from lex_space [OF c'(4)] Cons.IH [of "cbump c'"] Cons.prems(1) obtain us where
    "lex_loop c' = Inr us" "map gt_tok us = map plain_tok ts" by auto
  with c' show ?case by (simp add: lex_loop.simps [of c])
qed

section \<open>The round trip\<close>

lemma join_tokens_ok: "list_all (list_all tok_ok) tss \<Longrightarrow> tok_ok sep \<Longrightarrow> list_all tok_ok (join [sep] tss)"
  by (induction tss rule: induct_list012) simp_all

lemma marks_ok [simp]:
  "is_mark (CHR '','')" "is_mark (CHR ''('')" "is_mark (CHR '')'')" "is_mark (CHR ''{'')"
  "is_mark (CHR ''}'')" "is_mark (CHR '';'')" "is_mark (CHR ''['')" "is_mark (CHR '']'')"
  by (simp_all add: is_mark_def)

lemma plain_join: "plain_tok sep = sep \<Longrightarrow> map plain_tok (join [sep] tss) = join [sep] (map (map plain_tok) tss)"
  by (induction tss rule: induct_list012) simp_all

definition plain_toks :: "tok list \<Rightarrow> bool" where
  "plain_toks ts \<longleftrightarrow> list_all (\<lambda>t. tok_ok t \<and> plain_tok t = t) ts"

lemma plain_toks_simps [simp]:
  "plain_toks []" "plain_toks (t # ts) \<longleftrightarrow> tok_ok t \<and> plain_tok t = t \<and> plain_toks ts"
  "plain_toks (ts @ us) \<longleftrightarrow> plain_toks ts \<and> plain_toks us"
  "plain_toks (concat tss) \<longleftrightarrow> list_all plain_toks tss"
  by (auto simp: plain_toks_def list_all_iff)

lemma plain_toks_join: "list_all plain_toks tss \<Longrightarrow> plain_toks (join [comma_tok] tss)"
  by (induction tss rule: induct_list012) simp_all

lemma arg_toks_plain: "arg_ok a \<Longrightarrow> plain_toks (arg_toks a)"
proof (cases "arg_kind a")
  case (Strings vs b)
  assume "arg_ok a"
  with Strings have vs: "list_all (\<lambda>v. valid_utf8 (str_value v)) vs" by (simp add: arg_ok_def)
  then have "plain_toks (map value_tok vs)" by (simp add: plain_toks_def list_all_iff value_tok_def)
  moreover have "plain_toks (join [comma_tok] (map (\<lambda>v. [value_tok v]) vs))"
    using vs by (intro plain_toks_join) (simp add: list_all_iff value_tok_def)
  ultimately show ?thesis using Strings by (simp add: arg_toks_def)
qed (simp_all add: arg_toks_def arg_ok_def)

lemma listed_toks_plain: "list_all plain_toks tss \<Longrightarrow> plain_toks (listed_toks tss listed)"
  by (simp add: listed_toks_def plain_toks_join)

lemma test_toks_plain: "test_ok room t \<Longrightarrow> plain_toks (test_toks t)"
proof (induction room t rule: test_ok.induct)
  case (2 room t)
  obtain n s as ts listed where t: "t = Test n s as ts listed" by (cases t)
  have "list_all plain_toks (map test_toks ts)"
    using 2 t by (simp add: list_all_iff)
  moreover have "list_all plain_toks (map arg_toks as)"
    using "2.prems" t arg_toks_plain by (simp add: list_all_iff)
  ultimately show ?case using "2.prems" t by (simp add: listed_toks_plain)
qed simp

lemma command_toks_plain: "command_ok room c \<Longrightarrow> plain_toks (command_toks c)"
proof (induction room c rule: command_ok.induct)
  case (2 room c)
  obtain n s as ts listed b where c: "c = Command n s as ts listed b" by (cases c)
  have "list_all plain_toks (map test_toks ts)"
    using "2.prems" c test_toks_plain by (auto simp: list_all_iff)
  moreover have "list_all plain_toks (map arg_toks as)"
    using "2.prems" c arg_toks_plain by (simp add: list_all_iff)
  moreover have "plain_toks (case b of None \<Rightarrow> [TPunct (CHR '';'')] | Some bl \<Rightarrow> block_toks bl)"
  proof (cases b)
    case (Some bl)
    obtain cs x where bl: "bl = Block cs x" by (cases bl)
    have "list_all plain_toks (map command_toks cs)"
      using "2.IH" "2.prems" c Some bl by (simp add: list_all_iff)
    with Some bl show ?thesis by simp
  qed simp
  ultimately show ?case using "2.prems" c by (simp add: listed_toks_plain)
qed simp

lemma print_then_parse:
  assumes "list_all (command_ok (MAX_DEPTH + 1)) cs"
  shows "\<exists>ds. parse_script (print_script cs) = Inr ds \<and> map erase_command ds = map erase_command cs"
proof -
  let ?ts = "concat (map command_toks cs)"
  have plain: "plain_toks ?ts"
    using assms command_toks_plain [of "MAX_DEPTH + 1"]
    by (simp add: list_all_iff del: command_ok.simps)
  then have all: "tok_ok t \<and> plain_tok t = t" if "t \<in> set ?ts" for t
    using that by (simp only: plain_toks_def list_all_iff)
  have "list_all tok_ok ?ts" using all by (simp only: list_all_iff) blast
  have same: "map plain_tok ?ts = ?ts" using all by (intro map_idI) blast
  from lex_printed [OF \<open>list_all tok_ok ?ts\<close>, of "start_cursor (print_script cs)"] obtain us where
    us: "lex (print_script cs) = Inr us" "map gt_tok us = ?ts"
    unfolding same by (auto simp: lex_def start_cursor_def print_script_def)
  have toks: "toks_of (0, us) = ?ts @ []" using us(2) by (simp add: toks_of_def)
  have "length cs \<le> length us" using command_count [of cs] us(2) by (metis length_map)
  from command_item.sequence_reads [OF TrueI TrueI _ assms toks this, where acc = "[]" and
      in_block = False and eof = "eof_span (print_script cs)" and eofa = "eof_span (print_script cs)"]
  obtain ds q where
    "commands_loop (eof_span (print_script cs)) (length us) (p_command (eof_span (print_script cs)) (MAX_DEPTH + 1))
      False [] (0, us) = Inr (ds, q)" "list_all2 same_command ds cs" by auto
  with us(1) list_all2_same(2) show ?thesis by (auto simp: parse_script_def)
qed

text \<open>C25: Every syntax tree within the nesting bound survives printing and parsing: \<open>parse_script\<close> of
  the printed tree succeeds and gives the same commands, tests, arguments, numbers and strings,
  only positions (and the quoting style of strings) excepted.\<close>

theorem unparse_parse_roundtrip:
  assumes "list_all (command_ok (MAX_DEPTH + 1)) cs"
  shows "\<exists>ds. parse_script (print_script cs) = Inr ds \<and> map erase_command ds = map erase_command cs"
  using assms by (rule print_then_parse)

text \<open>\<open>parse_script\<close> loses nothing but layout: whatever valid source it accepted, printing its tree
  and parsing again is accepted too and gives the same tree up to positions and quoting style.\<close>

theorem reparse_stable:
  assumes "valid_utf8 source" "parse_script source = Inr cs"
  shows "\<exists>ds. parse_script (print_script cs) = Inr ds \<and> map erase_command ds = map erase_command cs"
  by (rule print_then_parse) (rule parsed_tree_ok [OF assms])

definition bare_stop :: command where
  "bare_stop = Command ''stop'' default_span [] [] False None"

theorem unparse_parse_roundtrip_witness:
  "\<exists>ds. parse_script (print_script [bare_stop]) = Inr ds \<and>
     map erase_command ds = map erase_command [bare_stop]"
proof (rule unparse_parse_roundtrip)
  show "list_all (command_ok (MAX_DEPTH + 1)) [bare_stop]" by code_simp
qed

theorem reparse_stable_witness:
  "\<exists>cs ds. parse_script sample_script = Inr cs \<and> parse_script (print_script cs) = Inr ds \<and>
     map erase_command ds = map erase_command cs"
  using sample_script_parses reparse_stable [OF sample_script_valid] by blast

end
