(* ===== verification/Sieve_Extensions.thy ===== *)
theory Sieve_Extensions
  imports Sieve_Tokens
begin

text \<open>
  Validation and the extension inventory of a parsed script (\<open>extensions.rs\<close>). The analysis
  the Rust walker mutates is threaded; an error discards it, as the code does. The lemmas show
  that the inventory is complete: what it lists is what stands anywhere in the tree.
\<close>

section \<open>Tables\<close>

definition KNOWN_CAPABILITIES :: "string list" where
  "KNOWN_CAPABILITIES =
     [''fileinto'', ''reject'', ''ereject'', ''envelope'', ''imap4flags'', ''body'', ''variables'',
      ''vacation'', ''vacation-seconds'', ''relational'', ''comparator-i;ascii-numeric'', ''regex'',
      ''date'', ''index'', ''copy'', ''include'', ''mailbox'', ''editheader'', ''spamtest'',
      ''spamtestplus'', ''virustest'', ''subaddress'', ''duplicate'', ''enotify'', ''ihave'']"

definition COMMANDS :: "(string \<times> string option) list" where
  "COMMANDS =
     [(''require'', None), (''if'', None), (''elsif'', None), (''else'', None), (''stop'', None),
      (''keep'', None), (''discard'', None), (''redirect'', None),
      (''fileinto'', Some ''fileinto''), (''reject'', Some ''reject''),
      (''ereject'', Some ''ereject''), (''vacation'', Some ''vacation''),
      (''setflag'', Some ''imap4flags''), (''addflag'', Some ''imap4flags''),
      (''removeflag'', Some ''imap4flags''), (''set'', Some ''variables''),
      (''include'', Some ''include''), (''return'', Some ''include''),
      (''global'', Some ''include''), (''addheader'', Some ''editheader''),
      (''deleteheader'', Some ''editheader''), (''notify'', Some ''enotify''),
      (''error'', Some ''ihave'')]"

definition TESTS :: "(string \<times> string option) list" where
  "TESTS =
     [(''address'', None), (''allof'', None), (''anyof'', None), (''exists'', None),
      (''false'', None), (''header'', None), (''not'', None), (''size'', None), (''true'', None),
      (''envelope'', Some ''envelope''), (''body'', Some ''body''),
      (''hasflag'', Some ''imap4flags''), (''string'', Some ''variables''),
      (''date'', Some ''date''), (''currentdate'', Some ''date''),
      (''mailboxexists'', Some ''mailbox''), (''spamtest'', Some ''spamtest''),
      (''virustest'', Some ''virustest''), (''duplicate'', Some ''duplicate''),
      (''valid_notify_method'', Some ''enotify''),
      (''notify_method_capability'', Some ''enotify''), (''ihave'', Some ''ihave'')]"

definition TAGS :: "(string \<times> string) list" where
  "TAGS =
     [(''copy'', ''copy''), (''flags'', ''imap4flags''), (''value'', ''relational''),
      (''count'', ''relational''), (''regex'', ''regex''), (''user'', ''subaddress''),
      (''detail'', ''subaddress''), (''create'', ''mailbox'')]"

definition TEST_TAGS :: "(string \<times> string) list" where
  "TEST_TAGS = [(''index'', ''index''), (''last'', ''index'')]"

section \<open>The analysis\<close>

record target =
  target_value :: "string option"
  target_span :: span

record analysis =
  required :: "string set"
  require_spans :: "(string \<times> span) list"
  used :: "string set"
  unknown_names :: "string set"
  redirects :: "target list"
  notify_targets :: "target list"
  vacations :: "span list"
  include_targets :: "target list"

definition empty_analysis :: analysis where
  "empty_analysis = \<lparr>required = {}, require_spans = [], used = {}, unknown_names = {},
     redirects = [], notify_targets = [], vacations = [], include_targets = []\<rparr>"

definition target_of :: "string \<Rightarrow> span \<Rightarrow> target" where
  "target_of val s =
     \<lparr>target_value = (if sublist ''${'' val then None else Some val), target_span = s\<rparr>"

type_synonym walk = "analysis \<Rightarrow> script_error + analysis"

section \<open>The walker\<close>

text \<open>A capability is available when required, or when a stronger one is.\<close>

definition satisfied :: "string set \<Rightarrow> string \<Rightarrow> bool" where
  "satisfied req cap \<longleftrightarrow> cap \<in> req \<or> (cap = ''vacation'' \<and> ''vacation-seconds'' \<in> req) \<or>
     (cap = ''spamtest'' \<and> ''spamtestplus'' \<in> req)"

definition need :: "string \<Rightarrow> span \<Rightarrow> string \<Rightarrow> walk" where
  "need cap s what a =
     (if satisfied (required a) cap then Inr (a\<lparr>used := insert cap (used a)\<rparr>)
      else Inl (error_at s (Chk (NeedsRequire what cap))))"

definition lookup_name ::
  "bool \<Rightarrow> (string \<times> string option) list \<Rightarrow> string \<Rightarrow> string \<Rightarrow> string \<Rightarrow> string \<Rightarrow> span \<Rightarrow> walk" where
  "lookup_name strict table name kind written what s a = (case map_of table name of
       Some (Some cap) \<Rightarrow> need cap s what a
     | Some None \<Rightarrow> Inr a
     | None \<Rightarrow> if strict then Inl (error_at s (Chk (UnknownName kind written)))
         else Inr (a\<lparr>unknown_names := insert name (unknown_names a)\<rparr>))"

definition first_string :: "argument \<Rightarrow> sieve_string option" where
  "first_string a = (case arg_strings a of Some (s # _) \<Rightarrow> Some s | _ \<Rightarrow> None)"

definition comparator_check :: "argument \<Rightarrow> argument list \<Rightarrow> walk" where
  "comparator_check arg rest a =
     (case (case rest of [] \<Rightarrow> None | next # _ \<Rightarrow> first_string next) of
        Some s \<Rightarrow>
          if eq_nocase (str_value s) ''i;ascii-numeric''
          then need ''comparator-i;ascii-numeric'' (str_span s) ''comparator `i;ascii-numeric`'' a
          else Inr a
      | None \<Rightarrow> Inl (error_at (arg_span arg) (Chk ComparatorNeedsName)))"

fun w_arguments :: "bool \<Rightarrow> argument list \<Rightarrow> walk" where
  "w_arguments in_test [] a = Inr a"
| "w_arguments in_test (arg # rest) a = (case arg_tag arg of
       None \<Rightarrow> w_arguments in_test rest a
     | Some written \<Rightarrow>
         (let tag = to_lower written in
          rbind (case map_of (TAGS @ (if in_test then TEST_TAGS else [])) tag of
                   Some cap \<Rightarrow> need cap (arg_span arg) (''`:'' @ tag @ ''`'') a
                 | None \<Rightarrow> Inr a) (\<lambda>a1.
          rbind (if tag = ''comparator'' then comparator_check arg rest a1 else Inr a1) (\<lambda>a2.
          w_arguments in_test rest a2))))"

definition test_shape :: "string \<Rightarrow> test \<Rightarrow> script_error + unit" where
  "test_shape name t =
     (if name = ''allof'' \<or> name = ''anyof'' then
        guard_err (\<not> test_list t \<or> test_args t \<noteq> []) (error_at (test_span t) (Chk (TakesTestList name)))
      else if name = ''not'' then
        guard_err (length (test_tests t) \<noteq> 1 \<or> test_list t \<or> test_args t \<noteq> [])
          (error_at (test_span t) (Chk (TakesOneTest name)))
      else if map_of TESTS name \<noteq> None \<and> test_tests t \<noteq> [] then
        Inl (error_at (test_span (hd (test_tests t))) (Chk (TakesNoNestedTest name)))
      else Inr ())"

fun w_test :: "bool \<Rightarrow> test \<Rightarrow> walk" and w_tests :: "bool \<Rightarrow> test list \<Rightarrow> walk" where
  "w_test strict (Test written s args ts listed) a =
     (let name = to_lower written in
      rbind (lookup_name strict TESTS name ''test'' written (''test `'' @ name @ ''`'') s a) (\<lambda>a1.
      rbind (test_shape name (Test written s args ts listed)) (\<lambda>_.
      rbind (w_arguments True args a1) (\<lambda>a2. w_tests strict ts a2))))"
| "w_tests strict [] a = Inr a"
| "w_tests strict (t # ts) a = rbind (w_test strict t a) (\<lambda>a1. w_tests strict ts a1)"

text \<open>The checks of one command's form; the result is the next \<open>after_if\<close>.\<close>

definition command_shape :: "string \<Rightarrow> bool \<Rightarrow> command \<Rightarrow> script_error + bool" where
  "command_shape name after_if c =
     (let s = cmd_span c in
      if name = ''if'' \<or> name = ''elsif'' then
        rbind (guard_err (name = ''elsif'' \<and> \<not> after_if) (error_at s (Chk (WithoutIf name)))) (\<lambda>_.
        rbind (guard_err (length (cmd_tests c) \<noteq> 1 \<or> cmd_test_list c)
                 (error_at s (Chk (TakesOneTest name)))) (\<lambda>_.
        rbind (case cmd_args c of [] \<Rightarrow> Inr ()
               | arg # _ \<Rightarrow> Inl (error_at (arg_span arg) (Chk (TakesNoArguments name)))) (\<lambda>_.
        rbind (guard_err (cmd_block c = None) (error_at s (Chk (NeedsBlock name)))) (\<lambda>_. Inr True))))
      else if name = ''else'' then
        rbind (guard_err (\<not> after_if) (error_at s (Chk (WithoutIf name)))) (\<lambda>_.
        rbind (guard_err (cmd_tests c \<noteq> [] \<or> cmd_args c \<noteq> [])
                 (error_at s (Chk ElseTakesNothing))) (\<lambda>_.
        rbind (guard_err (cmd_block c = None) (error_at s (Chk (NeedsBlock name)))) (\<lambda>_. Inr False)))
      else if map_of COMMANDS name \<noteq> None then
        rbind (guard_err (cmd_block c \<noteq> None) (error_at s (Chk (TakesNoBlock name)))) (\<lambda>_.
        rbind (case cmd_tests c of [] \<Rightarrow> Inr ()
               | t # _ \<Rightarrow> Inl (error_at (test_span t) (Chk (TakesNoTest name)))) (\<lambda>_. Inr False))
      else Inr False)"

definition last_string :: "argument list \<Rightarrow> sieve_string option" where
  "last_string args = (case List.map_filter first_string (rev args) of [] \<Rightarrow> None | s # _ \<Rightarrow> Some s)"

definition command_facts :: "string \<Rightarrow> command \<Rightarrow> analysis \<Rightarrow> analysis" where
  "command_facts name c a =
     (if name = ''redirect'' then a\<lparr>redirects := redirects a @ [case last_string (cmd_args c) of
          Some s \<Rightarrow> target_of (str_value s) (str_span s)
        | None \<Rightarrow> \<lparr>target_value = None, target_span = cmd_span c\<rparr>]\<rparr>
      else if name = ''notify'' then (case last_string (cmd_args c) of
          Some s \<Rightarrow> a\<lparr>notify_targets := notify_targets a @ [target_of (str_value s) (str_span s)]\<rparr>
        | None \<Rightarrow> a)
      else if name = ''vacation'' then a\<lparr>vacations := vacations a @ [cmd_span c]\<rparr>
      else if name = ''include'' then (case last_string (cmd_args c) of
          Some s \<Rightarrow> a\<lparr>include_targets := include_targets a @ [target_of (str_value s) (str_span s)]\<rparr>
        | None \<Rightarrow> a)
      else a)"

definition vacation_seconds :: "string \<Rightarrow> command \<Rightarrow> walk" where
  "vacation_seconds name c a =
     (case (if name = ''vacation''
            then List.find (\<lambda>arg. case arg_tag arg of Some t \<Rightarrow> eq_nocase t ''seconds'' | None \<Rightarrow> False)
                   (cmd_args c)
            else None) of
        Some arg \<Rightarrow> need ''vacation-seconds'' (arg_span arg) ''`:seconds`'' a
      | None \<Rightarrow> Inr a)"

text \<open>One command except its block: every check and every fact.\<close>

definition w_command_head :: "bool \<Rightarrow> bool \<Rightarrow> command \<Rightarrow> analysis \<Rightarrow> script_error + bool \<times> analysis" where
  "w_command_head strict after_if c a =
     (let name = to_lower (cmd_name c) in
      rbind (lookup_name strict COMMANDS name ''command'' (cmd_name c) (''`'' @ name @ ''`'') (cmd_span c) a) (\<lambda>a1.
      rbind (command_shape name after_if c) (\<lambda>after_if'.
      rbind (w_arguments False (cmd_args c) a1) (\<lambda>a2.
      rbind (vacation_seconds name c a2) (\<lambda>a3.
      rbind (w_tests strict (cmd_tests c) (command_facts name c a3)) (\<lambda>a4.
        Inr (after_if', a4)))))))"

fun w_commands :: "bool \<Rightarrow> bool \<Rightarrow> bool \<Rightarrow> command list \<Rightarrow> walk"
  and w_block :: "bool \<Rightarrow> block \<Rightarrow> walk" where
  "w_commands strict outer after_if [] a = Inr a"
| "w_commands strict outer after_if (Command nm s args ts listed b # cs) a =
     (let c = Command nm s args ts listed b in
      if to_lower nm = ''require'' then
        (if \<not> outer then Inl (error_at s (Chk RequireOnlyTop)) else w_commands strict outer False cs a)
      else
        rbind (w_command_head strict after_if c a) (\<lambda>(after_if', a1).
        rbind (case b of None \<Rightarrow> Inr a1 | Some bl \<Rightarrow> w_block strict bl a1) (\<lambda>a2.
          w_commands strict outer after_if' cs a2)))"
| "w_block strict (Block cs s) a = w_commands strict False False cs a"

section \<open>Requires\<close>

definition require_list :: "command \<Rightarrow> sieve_string list option" where
  "require_list c = (case cmd_args c of
       [arg] \<Rightarrow> if cmd_tests c = [] then arg_strings arg else None
     | _ \<Rightarrow> None)"

fun add_caps :: "sieve_string list \<Rightarrow> analysis \<Rightarrow> analysis" where
  "add_caps [] a = a"
| "add_caps (cap # caps) a =
     (let name = to_lower (str_value cap) in
      add_caps caps (if name \<in> required a then a
        else a\<lparr>required := insert name (required a),
               require_spans := require_spans a @ [(name, str_span cap)]\<rparr>))"

fun scan_requires :: "bool \<Rightarrow> command list \<Rightarrow> walk" where
  "scan_requires past [] a = Inr a"
| "scan_requires past (c # cs) a =
     (if cmd_is c ''require'' then
        (if past then Inl (error_at (cmd_span c) (Chk RequireNotFirst))
         else case require_list c of
             None \<Rightarrow> Inl (error_at (cmd_span c) (Chk RequireTakesList))
           | Some caps \<Rightarrow> scan_requires past cs (add_caps caps a))
      else scan_requires True cs a)"

definition is_strict :: "analysis \<Rightarrow> bool" where
  "is_strict a \<longleftrightarrow> ''ihave'' \<notin> required a \<and> required a \<subseteq> set KNOWN_CAPABILITIES"

definition analyze :: "script \<Rightarrow> script_error + analysis" where
  "analyze script = rbind (scan_requires False script empty_analysis) (\<lambda>a.
     w_commands (is_strict a) True False script a)"

definition check :: "string \<Rightarrow> script_error + script \<times> analysis" where
  "check source = rbind (parse_script source) (\<lambda>script.
     rbind (analyze script) (\<lambda>a. Inr (script, a)))"

section \<open>What a walk may change\<close>

text \<open>
  A quiet step touches neither the requires nor the facts, only adds to \<open>used\<close> capabilities
  that are available, and under \<open>strict\<close> meets no unknown name.
\<close>

definition quiet :: "bool \<Rightarrow> analysis \<Rightarrow> analysis \<Rightarrow> bool" where
  "quiet strict a b \<longleftrightarrow> required b = required a \<and> require_spans b = require_spans a \<and>
     redirects b = redirects a \<and> notify_targets b = notify_targets a \<and>
     vacations b = vacations a \<and> include_targets b = include_targets a \<and>
     used a \<subseteq> used b \<and> (\<forall>cap \<in> used b - used a. satisfied (required a) cap) \<and>
     (strict \<longrightarrow> unknown_names b = unknown_names a)"

lemma quiet_refl [simp, intro]: "quiet strict a a"
  by (simp add: quiet_def)

lemma quiet_trans: "quiet strict a b \<Longrightarrow> quiet strict b c \<Longrightarrow> quiet strict a c"
  unfolding quiet_def by (metis DiffD1 DiffD2 DiffI subset_trans)

lemma need_quiet: "need cap s w a = Inr b \<Longrightarrow> quiet strict a b \<and> satisfied (required a) cap \<and> cap \<in> used b"
  by (auto simp: need_def quiet_def split: if_splits)

lemma lookup_name_quiet:
  assumes "lookup_name strict table name k wr w s a = Inr b"
  shows "quiet strict a b \<and> (case map_of table name of
      Some (Some cap) \<Rightarrow> satisfied (required a) cap \<and> cap \<in> used b
    | Some None \<Rightarrow> True | None \<Rightarrow> \<not> strict)"
proof (cases "map_of table name")
  case None
  with assms show ?thesis by (auto simp: lookup_name_def quiet_def split: if_splits)
next
  case (Some e)
  with assms show ?thesis
    by (cases e) (auto simp: lookup_name_def dest: need_quiet)
qed

lemma comparator_check_quiet: "comparator_check arg rest a = Inr b \<Longrightarrow> quiet strict a b"
  by (auto simp: comparator_check_def dest: need_quiet split: option.splits list.splits if_splits)

lemma w_arguments_quiet: "w_arguments in_test args a = Inr b \<Longrightarrow> quiet strict a b"
proof (induction in_test args a rule: w_arguments.induct)
  case (2 in_test arg rest a)
  show ?case
  proof (cases "arg_tag arg")
    case None
    with 2 show ?thesis by simp
  next
    case (Some written)
    let ?tag = "to_lower written"
    from "2.prems" Some obtain a1 a2 where
      a1: "(case map_of (TAGS @ (if in_test then TEST_TAGS else [])) ?tag of
             Some cap \<Rightarrow> need cap (arg_span arg) (''`:'' @ ?tag @ ''`'') a | None \<Rightarrow> Inr a) = Inr a1"
      and a2: "(if ?tag = ''comparator'' then comparator_check arg rest a1 else Inr a1) = Inr a2"
      and b: "w_arguments in_test rest a2 = Inr b"
      by (auto simp: rbind_eq_Inr Let_def)
    have "quiet strict a a1" using a1 by (auto dest: need_quiet split: option.splits)
    moreover have "quiet strict a1 a2" using a2 by (auto dest: comparator_check_quiet split: if_splits)
    moreover have "quiet strict a2 b" using "2.IH"(2) [OF Some refl a1 a2 b] .
    ultimately show ?thesis by (meson quiet_trans)
  qed
qed simp

text \<open>All tests in a list of tests, outermost first.\<close>

fun sub_tests :: "test \<Rightarrow> test list" and sub_tests_list :: "test list \<Rightarrow> test list" where
  "sub_tests (Test n s args ts listed) = Test n s args ts listed # sub_tests_list ts"
| "sub_tests_list [] = []"
| "sub_tests_list (t # ts) = sub_tests t @ sub_tests_list ts"

definition test_checked :: "bool \<Rightarrow> string set \<Rightarrow> test \<Rightarrow> bool" where
  "test_checked strict req t \<longleftrightarrow> test_shape (to_lower (test_name t)) t = Inr () \<and>
     (case map_of TESTS (to_lower (test_name t)) of
        Some (Some cap) \<Rightarrow> satisfied req cap | Some None \<Rightarrow> True | None \<Rightarrow> \<not> strict)"

lemma w_test_quiet:
  "w_test strict t a = Inr b \<Longrightarrow> quiet strict a b \<and> (\<forall>u \<in> set (sub_tests t). test_checked strict (required a) u)"
  "w_tests strict ts a = Inr b \<Longrightarrow>
     quiet strict a b \<and> (\<forall>u \<in> set (sub_tests_list ts). test_checked strict (required a) u)"
proof (induction strict t a and strict ts a arbitrary: b and b rule: w_test_w_tests.induct)
  case (1 strict written s args ts listed a)
  let ?t = "Test written s args ts listed" and ?name = "to_lower written"
  from "1.prems" obtain a1 a2 where
    a1: "lookup_name strict TESTS ?name ''test'' written (''test `'' @ ?name @ ''`'') s a = Inr a1"
    and shape: "test_shape ?name ?t = Inr ()"
    and a2: "w_arguments True args a1 = Inr a2" and b: "w_tests strict ts a2 = Inr b"
    by (auto simp: rbind_eq_Inr Let_def)
  have q1: "quiet strict a a1" and q2: "quiet strict a1 a2"
    using lookup_name_quiet [OF a1] w_arguments_quiet [OF a2] by simp_all
  note IH = "1.IH" [OF refl a1 shape a2 b]
  have req: "required a2 = required a" using q1 q2 by (simp add: quiet_def)
  show ?case
    using IH req lookup_name_quiet [OF a1] shape quiet_trans [OF q1 quiet_trans [OF q2]]
    by (auto simp: test_checked_def split: option.splits)
next
  case (3 strict t ts a)
  from "3.prems" obtain a1 where a1: "w_test strict t a = Inr a1" "w_tests strict ts a1 = Inr b"
    by (auto simp: rbind_eq_Inr)
  note q1 = "3.IH"(1) [OF a1(1)] and q2 = "3.IH"(2) [OF a1]
  have "required a1 = required a" using q1 by (simp add: quiet_def)
  moreover have "quiet strict a b" using q1 q2 quiet_trans by blast
  ultimately show ?case using q1 q2 by auto
qed simp_all

section \<open>The inventory is complete\<close>

text \<open>
  The commands the walker reaches, in source order. A \<open>require\<close> is passed over whole, its
  block included if somebody wrote one.
\<close>

definition is_require :: "command \<Rightarrow> bool" where
  "is_require c \<longleftrightarrow> to_lower (cmd_name c) = ''require''"

fun reached :: "command list \<Rightarrow> command list" and reached_block :: "block \<Rightarrow> command list" where
  "reached [] = []"
| "reached (Command nm s args ts listed b # cs) =
     (if to_lower nm = ''require'' then reached cs
      else Command nm s args ts listed b #
        (case b of None \<Rightarrow> [] | Some bl \<Rightarrow> reached_block bl) @ reached cs)"
| "reached_block (Block cs s) = reached cs"

definition fact_of :: "string \<Rightarrow> command \<Rightarrow> target list" where
  "fact_of name c = (if to_lower (cmd_name c) = name
     then (case last_string (cmd_args c) of
         Some s \<Rightarrow> [target_of (str_value s) (str_span s)]
       | None \<Rightarrow> if name = ''redirect'' then [\<lparr>target_value = None, target_span = cmd_span c\<rparr>] else [])
     else [])"

definition facts_of :: "string \<Rightarrow> command list \<Rightarrow> target list" where
  "facts_of name cs = concat (map (fact_of name) cs)"

definition vacation_spans :: "command list \<Rightarrow> span list" where
  "vacation_spans cs = map cmd_span (filter (\<lambda>c. to_lower (cmd_name c) = ''vacation'') cs)"

definition command_checked :: "bool \<Rightarrow> string set \<Rightarrow> command \<Rightarrow> bool" where
  "command_checked strict req c \<longleftrightarrow>
     (\<exists>after_if after_if'. command_shape (to_lower (cmd_name c)) after_if c = Inr after_if') \<and>
     (case map_of COMMANDS (to_lower (cmd_name c)) of
        Some (Some cap) \<Rightarrow> satisfied req cap | Some None \<Rightarrow> True | None \<Rightarrow> \<not> strict) \<and>
     (\<forall>t \<in> set (sub_tests_list (cmd_tests c)). test_checked strict req t)"

text \<open>One walk over \<open>cs\<close> from \<open>a\<close> to \<open>b\<close>.\<close>

definition walked :: "bool \<Rightarrow> command list \<Rightarrow> analysis \<Rightarrow> analysis \<Rightarrow> bool" where
  "walked strict cs a b \<longleftrightarrow> required b = required a \<and> require_spans b = require_spans a \<and>
     redirects b = redirects a @ facts_of ''redirect'' cs \<and>
     notify_targets b = notify_targets a @ facts_of ''notify'' cs \<and>
     vacations b = vacations a @ vacation_spans cs \<and>
     include_targets b = include_targets a @ facts_of ''include'' cs \<and>
     used a \<subseteq> used b \<and> (\<forall>cap \<in> used b - used a. satisfied (required a) cap) \<and>
     (strict \<longrightarrow> unknown_names b = unknown_names a) \<and>
     (\<forall>c \<in> set cs. command_checked strict (required a) c)"

lemma walked_refl: "walked strict [] a a"
  by (simp add: walked_def facts_of_def vacation_spans_def)

lemma walked_append: "walked strict cs a b \<Longrightarrow> walked strict ds b c \<Longrightarrow> walked strict (cs @ ds) a c"
  by (auto simp: walked_def facts_of_def vacation_spans_def)

lemma command_facts_same:
  "required (command_facts n c a) = required a" "require_spans (command_facts n c a) = require_spans a"
  "used (command_facts n c a) = used a" "unknown_names (command_facts n c a) = unknown_names a"
  by (simp_all add: command_facts_def split: option.split)

lemma command_facts_lists:
  assumes "n = to_lower (cmd_name c)"
  shows "redirects (command_facts n c a) = redirects a @ fact_of ''redirect'' c"
    "notify_targets (command_facts n c a) = notify_targets a @ fact_of ''notify'' c"
    "include_targets (command_facts n c a) = include_targets a @ fact_of ''include'' c"
    "vacations (command_facts n c a) = vacations a @ vacation_spans [c]"
  unfolding assms by (simp_all add: command_facts_def fact_of_def vacation_spans_def split: option.split)

lemma vacation_seconds_quiet: "vacation_seconds n c a = Inr b \<Longrightarrow> quiet strict a b"
  by (auto simp: vacation_seconds_def dest: need_quiet split: option.splits)

lemma w_command_head_walked:
  assumes "w_command_head strict after_if c a = Inr (after_if', b)"
  shows "walked strict [c] a b"
proof -
  let ?name = "to_lower (cmd_name c)"
  from assms obtain a1 a2 a3 where
    a1: "lookup_name strict COMMANDS ?name ''command'' (cmd_name c) (''`'' @ ?name @ ''`'') (cmd_span c) a = Inr a1"
    and shape: "command_shape ?name after_if c = Inr after_if'"
    and a2: "w_arguments False (cmd_args c) a1 = Inr a2"
    and a3: "vacation_seconds ?name c a2 = Inr a3"
    and b: "w_tests strict (cmd_tests c) (command_facts ?name c a3) = Inr b"
    by (auto simp: w_command_head_def rbind_eq_Inr Let_def)
  have q: "quiet strict a a3"
    using lookup_name_quiet [OF a1] w_arguments_quiet [OF a2] vacation_seconds_quiet [OF a3]
    by (meson quiet_trans)
  note t = w_test_quiet(2) [OF b]
  have lists: "redirects b = redirects a @ fact_of ''redirect'' c"
    "notify_targets b = notify_targets a @ fact_of ''notify'' c"
    "include_targets b = include_targets a @ fact_of ''include'' c"
    "vacations b = vacations a @ vacation_spans [c]"
    "required b = required a" "require_spans b = require_spans a"
    using q t by (simp_all add: quiet_def command_facts_lists command_facts_same)
  have sets: "used a \<subseteq> used b" "\<forall>cap \<in> used b - used a. satisfied (required a) cap"
    "strict \<longrightarrow> unknown_names b = unknown_names a"
    using q t by (auto simp: quiet_def command_facts_same)
  have checked: "command_checked strict (required a) c"
    using shape lookup_name_quiet [OF a1] t q
    by (auto simp: command_checked_def quiet_def command_facts_same split: option.splits)
  show ?thesis
    unfolding walked_def using lists sets checked by (simp add: facts_of_def)
qed

lemma w_commands_walked:
  "w_commands strict outer after_if cs a = Inr b \<Longrightarrow> walked strict (reached cs) a b"
  "w_block strict bl a = Inr b \<Longrightarrow> walked strict (reached_block bl) a b"
proof (induction strict outer after_if cs a and strict bl a arbitrary: b and b
    rule: w_commands_w_block.induct)
  case (1 strict outer after_if a)
  then show ?case by (simp add: walked_refl)
next
  case (2 strict outer after_if nm s args ts listed bo cs a)
  let ?c = "Command nm s args ts listed bo"
  show ?case
  proof (cases "to_lower nm = ''require''")
    case True
    with "2.prems" have "outer" "w_commands strict outer False cs a = Inr b"
      by (simp_all split: if_splits)
    with "2.IH"(1) True show ?thesis by simp
  next
    case False
    with "2.prems" obtain after_if' a1 a2 where
      h: "w_command_head strict after_if ?c a = Inr (after_if', a1)"
      and bl: "(case bo of None \<Rightarrow> Inr a1 | Some bl \<Rightarrow> w_block strict bl a1) = Inr a2"
      and rest: "w_commands strict outer after_if' cs a2 = Inr b"
      by (auto simp: rbind_eq_Inr)
    have "walked strict (case bo of None \<Rightarrow> [] | Some bl \<Rightarrow> reached_block bl) a1 a2"
    proof (cases bo)
      case None
      with bl show ?thesis by (simp add: walked_refl)
    next
      case (Some bl')
      with bl "2.IH"(2) [OF refl False h refl Some] show ?thesis by simp
    qed
    moreover have "walked strict (reached cs) a2 b" using "2.IH"(3) [OF refl False h refl bl rest] .
    ultimately have "walked strict ((case bo of None \<Rightarrow> [] | Some bl \<Rightarrow> reached_block bl) @ reached cs) a1 b"
      by (rule walked_append)
    from walked_append [OF w_command_head_walked [OF h] this] False show ?thesis by simp
  qed
next
  case (3 strict cs s a)
  then show ?case by simp
qed

section \<open>The requires\<close>

definition caps_of :: "command \<Rightarrow> string set" where
  "caps_of c = (case require_list c of
       Some caps \<Rightarrow> (\<lambda>v. to_lower (str_value v)) ` set caps | None \<Rightarrow> {})"

lemma is_require_iff: "cmd_is c ''require'' \<longleftrightarrow> is_require c"
proof -
  have "to_lower ''require'' = ''require''" by (simp add: ascii_lower_def is_upper_def)
  then show ?thesis by (simp add: cmd_is_def eq_nocase_def is_require_def)
qed

definition only_requires :: "analysis \<Rightarrow> bool" where
  "only_requires a \<longleftrightarrow> redirects a = [] \<and> notify_targets a = [] \<and> vacations a = [] \<and>
     include_targets a = [] \<and> used a = {} \<and> unknown_names a = {} \<and>
     fst ` set (require_spans a) = required a \<and> distinct (map fst (require_spans a))"

lemma add_caps_spec:
  "only_requires a \<Longrightarrow> only_requires (add_caps caps a) \<and>
     required (add_caps caps a) = required a \<union> (\<lambda>v. to_lower (str_value v)) ` set caps"
proof (induction caps arbitrary: a)
  case (Cons cap caps)
  let ?n = "to_lower (str_value cap)"
  let ?a = "if ?n \<in> required a then a else a\<lparr>required := insert ?n (required a),
      require_spans := require_spans a @ [(?n, str_span cap)]\<rparr>"
  have "only_requires ?a" using Cons.prems by (auto simp: only_requires_def)
  from Cons.IH [OF this] show ?case by (auto simp: Let_def)
qed simp

lemma scan_requires_spec:
  "scan_requires past cs a = Inr b \<Longrightarrow> only_requires a \<Longrightarrow>
   only_requires b \<and> required b = required a \<union> \<Union> (caps_of ` {c \<in> set cs. is_require c}) \<and>
   (\<exists>rs ds. cs = rs @ ds \<and> list_all is_require rs \<and> list_all (\<lambda>c. \<not> is_require c) ds \<and>
     (past \<longrightarrow> rs = []))"
proof (induction past cs a rule: scan_requires.induct)
  case (2 past c cs a)
  show ?case
  proof (cases "is_require c")
    case True
    with "2.prems"(1) obtain caps where p: "\<not> past" "require_list c = Some caps"
      "scan_requires past cs (add_caps caps a) = Inr b"
      by (auto simp: is_require_iff split: if_splits option.splits)
    note add = add_caps_spec [OF "2.prems"(2), of caps]
    from "2.IH"(1) [OF _ p(1,2,3)] True add obtain rs ds where
      IH: "only_requires b" "required b = required (add_caps caps a) \<union> \<Union> (caps_of ` {c \<in> set cs. is_require c})"
        "cs = rs @ ds" "list_all is_require rs" "list_all (\<lambda>c. \<not> is_require c) ds"
      by (auto simp: is_require_iff)
    have "required b = required a \<union> \<Union> (caps_of ` {x \<in> set (c # cs). is_require x})"
      using IH(2) add p(2) True by (auto simp: caps_of_def)
    moreover have "c # cs = (c # rs) @ ds" using IH(3) by simp
    ultimately show ?thesis using IH True p(1) by (metis list.pred_inject(2))
  next
    case False
    with "2.prems" "2.IH"(2) obtain rs ds where
      IH: "only_requires b" "required b = required a \<union> \<Union> (caps_of ` {c \<in> set cs. is_require c})"
        "cs = rs @ ds" "rs = []" "list_all (\<lambda>c. \<not> is_require c) ds"
      by (auto simp: is_require_iff)
    have "required b = required a \<union> \<Union> (caps_of ` {x \<in> set (c # cs). is_require x})"
      using IH(2) False by auto
    moreover have "c # cs = [] @ (c # cs)" "list_all (\<lambda>c. \<not> is_require c) (c # cs)"
      using IH False by simp_all
    ultimately show ?thesis using IH(1) by (metis list.pred_inject(1))
  qed
qed simp

text \<open>What a successful analysis is worth.\<close>

definition inventory_of :: "script \<Rightarrow> analysis \<Rightarrow> bool" where
  "inventory_of cs a \<longleftrightarrow>
     redirects a = facts_of ''redirect'' (reached cs) \<and>
     notify_targets a = facts_of ''notify'' (reached cs) \<and>
     vacations a = vacation_spans (reached cs) \<and>
     include_targets a = facts_of ''include'' (reached cs)"

lemma analyze_spec:
  assumes "analyze cs = Inr a"
  shows "inventory_of cs a \<and> (\<forall>cap \<in> used a. satisfied (required a) cap) \<and>
    (is_strict a \<longrightarrow> unknown_names a = {}) \<and>
    (\<forall>c \<in> set (reached cs). command_checked (is_strict a) (required a) c) \<and>
    required a = \<Union> (caps_of ` {c \<in> set cs. is_require c}) \<and>
    fst ` set (require_spans a) = required a \<and> distinct (map fst (require_spans a)) \<and>
    (\<exists>rs ds. cs = rs @ ds \<and> list_all is_require rs \<and> list_all (\<lambda>c. \<not> is_require c) ds)"
proof -
  from assms obtain a0 where a0: "scan_requires False cs empty_analysis = Inr a0"
    and w: "w_commands (is_strict a0) True False cs a0 = Inr a"
    by (auto simp: analyze_def rbind_eq_Inr)
  have "only_requires empty_analysis" by (simp add: only_requires_def empty_analysis_def)
  from scan_requires_spec [OF a0 this] have
    r: "only_requires a0" "required a0 = \<Union> (caps_of ` {c \<in> set cs. is_require c})"
      "\<exists>rs ds. cs = rs @ ds \<and> list_all is_require rs \<and> list_all (\<lambda>c. \<not> is_require c) ds"
    by (auto simp: empty_analysis_def)
  note wk = w_commands_walked(1) [OF w]
  have "is_strict a = is_strict a0" using wk by (simp add: walked_def is_strict_def)
  then show ?thesis
    using wk r unfolding walked_def inventory_of_def only_requires_def by simp
qed

text \<open>
  The contract the policy and the local runner rely on: a source that passes \<open>chk\<close> parses,
  and the analysis that comes with the tree is its complete inventory.
\<close>

locale checked_script =
  fixes chk :: "string \<Rightarrow> script_error + script \<times> analysis"
  assumes chk_parses: "chk src = Inr (cs, a) \<Longrightarrow> parse_script src = Inr cs"
    and chk_inventory: "chk src = Inr (cs, a) \<Longrightarrow> inventory_of cs a"
    and chk_requires: "chk src = Inr (cs, a) \<Longrightarrow> fst ` set (require_spans a) = required a"
    and chk_commands: "chk src = Inr (cs, a) \<Longrightarrow> c \<in> set (reached cs) \<Longrightarrow>
      command_checked (is_strict a) (required a) c"
begin

lemma reached_redirect:
  assumes "chk src = Inr (cs, a)" "c \<in> set (reached cs)" "to_lower (cmd_name c) = ''redirect''"
  shows "\<exists>t \<in> set (redirects a). fact_of ''redirect'' c = [t]"
proof -
  have "redirects a = facts_of ''redirect'' (reached cs)"
    using chk_inventory [OF assms(1)] by (simp add: inventory_of_def)
  moreover obtain t where "fact_of ''redirect'' c = [t]"
    by (cases "last_string (cmd_args c)") (simp_all add: fact_of_def assms(3))
  ultimately show ?thesis using assms(2) by (force simp: facts_of_def)
qed

lemma reached_vacation:
  assumes "chk src = Inr (cs, a)" "vacations a = []" "c \<in> set (reached cs)"
  shows "to_lower (cmd_name c) \<noteq> ''vacation''"
  using chk_inventory [OF assms(1)] assms(2,3)
  by (auto simp: inventory_of_def vacation_spans_def filter_empty_conv)

end

interpretation checked: checked_script check
proof
  fix src cs a
  assume "check src = Inr (cs, a)"
  then have p: "parse_script src = Inr cs" and a: "analyze cs = Inr a"
    by (auto simp: check_def rbind_eq_Inr)
  show "parse_script src = Inr cs" by (rule p)
  show "inventory_of cs a" "fst ` set (require_spans a) = required a"
    using analyze_spec [OF a] by simp_all
  show "command_checked (is_strict a) (required a) c" if "c \<in> set (reached cs)" for c
    using analyze_spec [OF a] that by blast
qed



text \<open>The requires come first and are all recorded: a validated script is a run of \<open>require\<close> commands
  followed by commands that are none, and \<open>required\<close> is exactly the set of capabilities they
  name, each with the position of its first mention.\<close>

theorem requires_first_and_recorded:
  assumes "analyze cs = Inr a"
  shows "required a = \<Union> (caps_of ` {c \<in> set cs. is_require c}) \<and>
    fst ` set (require_spans a) = required a \<and> distinct (map fst (require_spans a)) \<and>
    (\<exists>rs ds. cs = rs @ ds \<and> list_all is_require rs \<and> list_all (\<lambda>c. \<not> is_require c) ds)"
  using analyze_spec [OF assms] by simp

definition require_with_block :: string where
  "require_with_block = ''require '' @ [DQ] @ ''copy'' @ [DQ] @ '' { redirect '' @ [DQ] @ ''x@y.example'' @
     [DQ] @ ''; }''"


section \<open>A concrete script\<close>

definition sample_checked :: string where
  "sample_checked = ''require '' @ [DQ] @ ''vacation'' @ [DQ] @ ''; if true { redirect '' @ [DQ] @
     ''a@b.example'' @ [DQ] @ ''; vacation '' @ [DQ] @ ''away'' @ [DQ] @ ''; }''"

lemma sample_checked_ok: "\<exists>cs a. check sample_checked = Inr (cs, a)"
proof -
  have "\<not> isl (check sample_checked)" by code_simp
  then show ?thesis by (cases "check sample_checked") auto
qed

lemma sample_analyzed: "\<exists>cs a. check sample_checked = Inr (cs, a) \<and> analyze cs = Inr a"
  using sample_checked_ok by (auto simp: check_def rbind_eq_Inr)



theorem requires_first_and_recorded_witness:
  "\<exists>cs a. check sample_checked = Inr (cs, a) \<and> required a = \<Union> (caps_of ` {c \<in> set cs. is_require c}) \<and>
     fst ` set (require_spans a) = required a \<and> distinct (map fst (require_spans a)) \<and>
     (\<exists>rs ds. cs = rs @ ds \<and> list_all is_require rs \<and> list_all (\<lambda>c. \<not> is_require c) ds)"
proof -
  obtain cs a where 1: "check sample_checked = Inr (cs, a)" "analyze cs = Inr a"
    using sample_analyzed by blast
  show ?thesis
    by (intro exI [of _ cs] exI [of _ a] conjI [OF 1(1)] requires_first_and_recorded [OF 1(2)])
qed

end
