(* ===== verification/Sieve_Policy.thy ===== *)
theory Sieve_Policy
  imports Sieve_Extensions
begin

text \<open>
  The server-side policy a script passes before it is stored (\<open>policy.rs\<close>): size, raw edits,
  extensions, automatic replies, the number of redirects and where they lead. Sizes and
  counts are \<open>usize\<close> values the code only compares, so they are \<open>nat\<close>.
\<close>

section \<open>Policies and violations\<close>

record policy =
  max_script_bytes :: "nat option"
  max_scripts :: "nat option"
  max_redirects :: "nat option"
  own_domains :: "string list"
  forward_external :: bool
  vacation_allowed :: bool
  allowed_extensions :: "string set option"
  advertised :: "string set option"
  raw_edit :: bool

datatype edit_kind = Builder | Raw

datatype violation_kind =
    TooLarge
  | TooManyScripts
  | Invalid
  | RawEditNotAllowed
  | ExternalTarget
  | TooManyRedirects
  | VacationNotAllowed
  | ExtensionNotAllowed
  | ExtensionNotAdvertised

fun violation_code :: "violation_kind \<Rightarrow> string" where
  "violation_code TooLarge = ''sieve.tooLarge''"
| "violation_code TooManyScripts = ''sieve.tooManyScripts''"
| "violation_code Invalid = ''sieve.invalid''"
| "violation_code RawEditNotAllowed = ''sieve.rawEditNotAllowed''"
| "violation_code ExternalTarget = ''sieve.externalTarget''"
| "violation_code TooManyRedirects = ''sieve.tooManyRedirects''"
| "violation_code VacationNotAllowed = ''sieve.vacationNotAllowed''"
| "violation_code ExtensionNotAllowed = ''sieve.extensionNotAllowed''"
| "violation_code ExtensionNotAdvertised = ''sieve.extensionNotAdvertised''"

datatype policy_msg =
    SizeMsg nat nat
  | RawEditMsg
  | ScriptMsg script_msg
  | UnmodelledMsg
  | NotAllowedMsg string
  | NotSupportedMsg string
  | NoRepliesMsg
  | RedirectsMsg nat
  | LeavesDomainMsg string string
  | FromVariablesMsg string
  | ScriptsMsg nat

record violation =
  v_kind :: violation_kind
  v_line :: nat
  v_column :: nat
  v_message :: policy_msg

definition violation_at :: "violation_kind \<Rightarrow> span \<Rightarrow> policy_msg \<Rightarrow> violation" where
  "violation_at k s m =
     \<lparr>v_kind = k, v_line = max (sp_line s) 1, v_column = max (sp_column s) 1, v_message = m\<rparr>"

definition violation_whole :: "violation_kind \<Rightarrow> policy_msg \<Rightarrow> violation" where
  "violation_whole k m = \<lparr>v_kind = k, v_line = 1, v_column = 1, v_message = m\<rparr>"

definition violation_from :: "script_error \<Rightarrow> violation" where
  "violation_from e = \<lparr>v_kind = Invalid, v_line = err_line e, v_column = err_column e,
     v_message = ScriptMsg (err_message e)\<rparr>"

section \<open>Where a target leads\<close>

text \<open>The part between the last \<open><\<close> and a closing \<open>>\<close>, else the whole address.\<close>

definition angle_address :: "string \<Rightarrow> string" where
  "angle_address address = (case rsplit_once (CHR ''<'') address of
       Some (_, a) \<Rightarrow> (case strip_suffix ''>'' a of Some x \<Rightarrow> x | None \<Rightarrow> address)
     | None \<Rightarrow> address)"

definition target_is_own :: "string option \<Rightarrow> string list \<Rightarrow> bool" where
  "target_is_own addr domains = (case addr of
       None \<Rightarrow> False
     | Some a \<Rightarrow>
         (case rsplit_once (CHR ''@'') (angle_address (trim a)) of
            None \<Rightarrow> False
          | Some (l, domain) \<Rightarrow>
              if l = [] \<or> domain = [] then False
              else let d = trim_end_bytes {CHR ''.''} domain
                in list_ex (\<lambda>own. eq_nocase (trim_end_bytes {CHR ''.''} own) d) domains))"

definition hex_digit :: "char \<Rightarrow> nat option" where
  "hex_digit b = (if is_digit b then Some (byte b - 48)
     else if 65 \<le> byte b \<and> byte b \<le> 70 then Some (byte b - 55)
     else if 97 \<le> byte b \<and> byte b \<le> 102 then Some (byte b - 87) else None)"

text \<open>\<open>u8::from_str_radix(hex, 16)\<close> on two bytes: one sign is accepted.\<close>

definition hex_byte :: "char \<Rightarrow> char \<Rightarrow> nat option" where
  "hex_byte a b = (case hex_digit b of None \<Rightarrow> None
     | Some lo \<Rightarrow> if a = CHR ''+'' then Some lo
         else map_option (\<lambda>hi. 16 * hi + lo) (hex_digit a))"

fun percent_bytes :: "string \<Rightarrow> string" where
  "percent_bytes (p # a # b # s) =
     (if p = CHR ''%'' \<and> boundary (a # b # s) \<and> boundary s
      then (case hex_byte a b of Some v \<Rightarrow> char_of v # percent_bytes s
            | None \<Rightarrow> p # percent_bytes (a # b # s))
      else p # percent_bytes (a # b # s))"
| "percent_bytes s = s"

definition percent_decode :: "string \<Rightarrow> string" where
  "percent_decode s = from_utf8_lossy (percent_bytes s)"

definition recipients :: "string \<Rightarrow> string list" where
  "recipients s = map percent_decode (filter (\<lambda>w. w \<noteq> []) (split_on (CHR '','') s))"

definition mailto_addresses :: "string \<Rightarrow> string list option" where
  "mailto_addresses uri =
     (if 7 \<le> length uri \<and> boundary (drop 7 uri) \<and> eq_nocase (take 7 uri) ''mailto:'' then
        (let (to, query) = (case split_once (CHR ''?'') (drop 7 uri) of
               Some p \<Rightarrow> p | None \<Rightarrow> (drop 7 uri, []))
         in Some (recipients to @ concat (map (\<lambda>pair. case split_once (CHR ''='') pair of
              Some (k, v) \<Rightarrow> if to_lower k \<in> set [''to'', ''cc'', ''bcc''] then recipients v else []
            | None \<Rightarrow> []) (split_on (CHR ''&'') query))))
      else None)"

definition notify_is_own :: "string option \<Rightarrow> string list \<Rightarrow> bool" where
  "notify_is_own val domains =
     (case (case val of Some v \<Rightarrow> mailto_addresses v | None \<Rightarrow> None) of
        Some addrs \<Rightarrow> addrs \<noteq> [] \<and> list_all (\<lambda>a. target_is_own (Some a) domains) addrs
      | None \<Rightarrow> False)"

definition external :: "target \<Rightarrow> string \<Rightarrow> violation" where
  "external t what = violation_at ExternalTarget (target_span t)
     (case target_value t of Some v \<Rightarrow> LeavesDomainMsg what v | None \<Rightarrow> FromVariablesMsg what)"

section \<open>Enforcement\<close>

definition extension_violation :: "policy \<Rightarrow> string \<times> span \<Rightarrow> violation list" where
  "extension_violation p cs =
     (if (case allowed_extensions p of Some allowed \<Rightarrow> fst cs \<notin> allowed | None \<Rightarrow> False)
      then [violation_at ExtensionNotAllowed (snd cs) (NotAllowedMsg (fst cs))]
      else if (case advertised p of Some adv \<Rightarrow> fst cs \<notin> adv | None \<Rightarrow> False)
      then [violation_at ExtensionNotAdvertised (snd cs) (NotSupportedMsg (fst cs))]
      else [])"

text \<open>The violations of a script that parsed and validated, in the order they are pushed.\<close>

definition analysis_violations :: "analysis \<Rightarrow> policy \<Rightarrow> violation list" where
  "analysis_violations a p =
     (if unknown_names a \<noteq> {} \<or> include_targets a \<noteq> []
      then [violation_whole ExtensionNotAllowed UnmodelledMsg] else []) @
     concat (map (extension_violation p) (require_spans a)) @
     (case vacations a of s # _ \<Rightarrow>
        if \<not> vacation_allowed p then [violation_at VacationNotAllowed s NoRepliesMsg] else []
      | [] \<Rightarrow> []) @
     (case max_redirects p of Some m \<Rightarrow>
        if length (redirects a) > m
        then [violation_at TooManyRedirects (target_span (redirects a ! m)) (RedirectsMsg m)] else []
      | None \<Rightarrow> []) @
     (if \<not> forward_external p then
        map (\<lambda>t. external t ''redirect'')
          (filter (\<lambda>t. \<not> target_is_own (target_value t) (own_domains p)) (redirects a)) @
        map (\<lambda>t. external t ''notification'')
          (filter (\<lambda>t. \<not> notify_is_own (target_value t) (own_domains p)) (notify_targets a))
      else [])"

definition enforce :: "string \<Rightarrow> policy \<Rightarrow> edit_kind \<Rightarrow> violation list + analysis" where
  "enforce source p edit =
     (if (case max_script_bytes p of Some m \<Rightarrow> length source > m | None \<Rightarrow> False)
      then Inl [violation_whole TooLarge (SizeMsg (length source) (the (max_script_bytes p)))]
      else let raw = (if edit = Raw \<and> \<not> raw_edit p
                      then [violation_whole RawEditNotAllowed RawEditMsg] else [])
        in case check source of
             Inl e \<Rightarrow> Inl (raw @ [violation_from e])
           | Inr (_, a) \<Rightarrow> (let out = raw @ analysis_violations a p in if out = [] then Inr a else Inl out))"

definition check_script_count :: "nat \<Rightarrow> bool \<Rightarrow> policy \<Rightarrow> violation + unit" where
  "check_script_count existing replaces_existing p = (case max_scripts p of
       Some m \<Rightarrow> if \<not> replaces_existing \<and> existing \<ge> m
         then Inl (violation_whole TooManyScripts (ScriptsMsg m)) else Inr ()
     | None \<Rightarrow> Inr ())"

section \<open>What an accepted script satisfies\<close>

definition within :: "nat \<Rightarrow> nat option \<Rightarrow> bool" where
  "within n limit = (case limit of Some m \<Rightarrow> n \<le> m | None \<Rightarrow> True)"

definition allows :: "string set option \<Rightarrow> string \<Rightarrow> bool" where
  "allows s cap = (case s of Some names \<Rightarrow> cap \<in> names | None \<Rightarrow> True)"

definition edit_allowed :: "edit_kind \<Rightarrow> policy \<Rightarrow> bool" where
  "edit_allowed edit p = (case edit of Raw \<Rightarrow> raw_edit p | Builder \<Rightarrow> True)"

definition complies :: "policy \<Rightarrow> analysis \<Rightarrow> bool" where
  "complies p a \<longleftrightarrow> unknown_names a = {} \<and> include_targets a = [] \<and>
     (\<forall>cap \<in> required a. allows (allowed_extensions p) cap \<and> allows (advertised p) cap) \<and>
     (vacation_allowed p \<or> vacations a = []) \<and> within (length (redirects a)) (max_redirects p) \<and>
     (forward_external p \<or>
       (list_all (\<lambda>t. target_is_own (target_value t) (own_domains p)) (redirects a) \<and>
        list_all (\<lambda>t. notify_is_own (target_value t) (own_domains p)) (notify_targets a)))"

lemma extension_violation_none:
  "extension_violation p cs = [] \<longleftrightarrow> allows (allowed_extensions p) (fst cs) \<and> allows (advertised p) (fst cs)"
  by (simp add: extension_violation_def allows_def split: option.split)

lemma analysis_violations_none:
  assumes "fst ` set (require_spans a) = required a"
  shows "analysis_violations a p = [] \<longleftrightarrow> complies p a"
proof -
  have "concat (map (extension_violation p) (require_spans a)) = [] \<longleftrightarrow>
      (\<forall>cap \<in> required a. allows (allowed_extensions p) cap \<and> allows (advertised p) cap)"
    unfolding assms [symmetric] by (simp add: extension_violation_none)
  moreover have "(case vacations a of s # _ \<Rightarrow>
        if \<not> vacation_allowed p then [violation_at VacationNotAllowed s NoRepliesMsg] else []
      | [] \<Rightarrow> []) = [] \<longleftrightarrow> vacation_allowed p \<or> vacations a = []"
    by (simp split: list.split)
  moreover have "(case max_redirects p of Some m \<Rightarrow>
        if length (redirects a) > m
        then [violation_at TooManyRedirects (target_span (redirects a ! m)) (RedirectsMsg m)] else []
      | None \<Rightarrow> []) = [] \<longleftrightarrow> within (length (redirects a)) (max_redirects p)"
    by (simp add: within_def not_less split: option.split)
  ultimately show ?thesis
    by (simp add: analysis_violations_def complies_def filter_empty_conv list_all_iff) blast
qed

lemma enforce_accepts:
  "enforce source p edit = Inr a \<longleftrightarrow>
     within (length source) (max_script_bytes p) \<and> edit_allowed edit p \<and>
     (\<exists>cs. check source = Inr (cs, a)) \<and> complies p a"
proof (cases "check source")
  case (Inl e)
  then show ?thesis by (simp add: enforce_def Let_def)
next
  case (Inr r)
  obtain cs b where r: "r = (cs, b)" by (cases r)
  have size: "within (length source) (max_script_bytes p) \<longleftrightarrow>
      \<not> (case max_script_bytes p of Some m \<Rightarrow> length source > m | None \<Rightarrow> False)"
    by (simp add: within_def not_less split: option.split)
  have comp: "analysis_violations b p = [] \<longleftrightarrow> complies p b"
    using checked.chk_requires [OF Inr [unfolded r]] by (rule analysis_violations_none)
  show ?thesis
    unfolding size comp [symmetric] using Inr r
    by (cases edit) (auto simp: enforce_def Let_def comp edit_allowed_def)
qed

text \<open>C29: \<open>enforce\<close> accepts exactly the scripts that are small enough, edited in an allowed way, valid, free
  of unmodelled commands and includes, within the allowed and advertised extensions, without
  forbidden replies, within the redirect limit, and, unless external forwarding is allowed,
  with every redirect and notification inside the account's own domains.\<close>

theorem enforce_exact:
  "enforce source p edit = Inr a \<longleftrightarrow>
     within (length source) (max_script_bytes p) \<and> edit_allowed edit p \<and>
     (\<exists>cs. check source = Inr (cs, a)) \<and> complies p a"
  by (rule enforce_accepts)

text \<open>A redirect to a literal address whose domain is one of the account's.\<close>

definition literal_own_redirect :: "string list \<Rightarrow> command \<Rightarrow> bool" where
  "literal_own_redirect domains c \<longleftrightarrow> (\<exists>s l d own.
     last_string (cmd_args c) = Some s \<and> \<not> sublist ''${'' (str_value s) \<and>
     angle_address (trim (str_value s)) = l @ CHR ''@'' # d \<and> CHR ''@'' \<notin> set d \<and> l \<noteq> [] \<and> d \<noteq> [] \<and>
     own \<in> set domains \<and> eq_nocase (trim_end_bytes {CHR ''.''} own) (trim_end_bytes {CHR ''.''} d))"

lemma target_is_ownD:
  assumes "target_is_own (Some a) domains"
  shows "\<exists>l d own. angle_address (trim a) = l @ CHR ''@'' # d \<and> CHR ''@'' \<notin> set d \<and> l \<noteq> [] \<and> d \<noteq> [] \<and>
    own \<in> set domains \<and> eq_nocase (trim_end_bytes {CHR ''.''} own) (trim_end_bytes {CHR ''.''} d)"
proof -
  from assms obtain l d where ld: "rsplit_once (CHR ''@'') (angle_address (trim a)) = Some (l, d)"
    "l \<noteq> []" "d \<noteq> []"
    and own: "list_ex (\<lambda>own. eq_nocase (trim_end_bytes {CHR ''.''} own) (trim_end_bytes {CHR ''.''} d)) domains"
    by (auto simp: target_is_own_def Let_def split: option.splits if_splits)
  from rsplit_once_SomeD [OF ld(1)] ld(2,3) own show ?thesis
    unfolding list_ex_iff by blast
qed

lemma accepted_vacations:
  assumes "enforce source p edit = Inr a" "check source = Inr (cs, b)"
  shows "vacation_allowed p \<or> (\<forall>c \<in> set (reached cs). to_lower (cmd_name c) \<noteq> ''vacation'')"
proof -
  from assms have comp: "complies p b" by (auto simp: enforce_accepts)
  show ?thesis
  proof (cases "vacation_allowed p")
    case False
    then have "vacations b = []" using comp by (simp add: complies_def)
    from checked.reached_vacation [OF assms(2) this] show ?thesis by (intro disjI2 ballI)
  qed simp
qed

lemma accepted_redirect_target:
  assumes "enforce source p edit = Inr a" "\<not> forward_external p" "check source = Inr (cs, b)"
    "c \<in> set (reached cs)" "to_lower (cmd_name c) = ''redirect''"
  shows "\<exists>s. last_string (cmd_args c) = Some s \<and> \<not> sublist ''${'' (str_value s) \<and>
    target_is_own (Some (str_value s)) (own_domains p)"
proof -
  from assms(1) have comp: "complies p a" and "b = a"
    using assms(3) by (auto simp: enforce_accepts)
  obtain t where t: "t \<in> set (redirects a)" "fact_of ''redirect'' c = [t]"
    using checked.reached_redirect [OF assms(3,4,5)] \<open>b = a\<close> by blast
  have own: "target_is_own (target_value t) (own_domains p)"
    using comp assms(2) t(1) by (auto simp: complies_def list_all_iff)
  then obtain s where s: "last_string (cmd_args c) = Some s" "t = target_of (str_value s) (str_span s)"
    using t(2) assms(5) by (cases "last_string (cmd_args c)")
      (auto simp: fact_of_def target_is_own_def)
  have lit: "\<not> sublist ''${'' (str_value s)"
    using own s(2) by (auto simp: target_of_def target_is_own_def split: if_splits)
  then have "target_is_own (Some (str_value s)) (own_domains p)"
    using own s(2) by (simp add: target_of_def)
  with s(1) lit show ?thesis by blast
qed

lemma accepted_redirect_own:
  assumes "enforce source p edit = Inr a" "\<not> forward_external p" "check source = Inr (cs, b)"
    "c \<in> set (reached cs)" "to_lower (cmd_name c) = ''redirect''"
  shows "literal_own_redirect (own_domains p) c"
proof -
  obtain s where s: "last_string (cmd_args c) = Some s" "\<not> sublist ''${'' (str_value s)"
    "target_is_own (Some (str_value s)) (own_domains p)"
    using accepted_redirect_target [OF assms] by blast
  from target_is_ownD [OF s(3)] s(1,2) show ?thesis
    unfolding literal_own_redirect_def by blast
qed


text \<open>A script accepted while automatic replies are forbidden contains no \<open>vacation\<close> command, at any
  depth, and a script accepted under a redirect limit has at most that many \<open>redirect\<close>s.\<close>

theorem accepted_script_limits:
  assumes "enforce source p edit = Inr a" "check source = Inr (cs, b)"
  shows "(vacation_allowed p \<or> (\<forall>c \<in> set (reached cs). to_lower (cmd_name c) \<noteq> ''vacation'')) \<and>
    within (length (filter (\<lambda>c. to_lower (cmd_name c) = ''redirect'') (reached cs))) (max_redirects p)"
proof -
  from assms have comp: "complies p a" and ba: "b = a" by (auto simp: enforce_accepts)
  have one: "length (fact_of ''redirect'' c) = (if to_lower (cmd_name c) = ''redirect'' then 1 else 0)" for c
    by (simp add: fact_of_def split: option.split)
  have count: "length (facts_of ''redirect'' ds) =
      length (filter (\<lambda>c. to_lower (cmd_name c) = ''redirect'') ds)" for ds
    by (induction ds) (simp_all add: facts_of_def one)
  have "redirects a = facts_of ''redirect'' (reached cs)"
    using checked.chk_inventory [OF assms(2)] ba by (simp add: inventory_of_def)
  with comp count have "within (length (filter (\<lambda>c. to_lower (cmd_name c) = ''redirect'') (reached cs)))
      (max_redirects p)" by (simp add: complies_def)
  moreover note accepted_vacations [OF assms]
  ultimately show ?thesis by (rule conjI [rotated])
qed

text \<open>Replacing a script is always within \<open>sieve.maxScripts\<close>, and adding one is refused exactly when
  the account already holds the maximum.\<close>

theorem script_count_exact:
  "check_script_count existing replaces_existing p = Inr () \<longleftrightarrow>
     replaces_existing \<or> within (Suc existing) (max_scripts p)"
  by (auto simp: check_script_count_def within_def split: option.split)

section \<open>A concrete policy\<close>

definition sample_policy :: policy where
  "sample_policy = \<lparr>max_script_bytes = Some 200, max_scripts = Some 3, max_redirects = Some 1,
     own_domains = [''other.example'', ''B.example.''], forward_external = False,
     vacation_allowed = True, allowed_extensions = Some {''vacation''}, advertised = None,
     raw_edit = True\<rparr>"

lemma sample_accepted: "\<exists>a. enforce sample_checked sample_policy Raw = Inr a"
proof -
  have "\<not> isl (enforce sample_checked sample_policy Raw)" by code_simp
  then show ?thesis by (cases "enforce sample_checked sample_policy Raw") auto
qed

lemma sample_redirect:
  "\<exists>cs a c. check sample_checked = Inr (cs, a) \<and> c \<in> set (reached cs) \<and> to_lower (cmd_name c) = ''redirect''"
proof -
  have "case check sample_checked of Inr (cs, a) \<Rightarrow>
      list_ex (\<lambda>c. to_lower (cmd_name c) = ''redirect'') (reached cs) | Inl e \<Rightarrow> False"
    by code_simp
  then show ?thesis unfolding list_ex_iff by (cases "check sample_checked") fastforce+
qed


theorem accepted_script_limits_witness:
  "\<exists>cs a. check sample_checked = Inr (cs, a) \<and>
     (vacation_allowed sample_policy \<or> (\<forall>c \<in> set (reached cs). to_lower (cmd_name c) \<noteq> ''vacation'')) \<and>
     within (length (filter (\<lambda>c. to_lower (cmd_name c) = ''redirect'') (reached cs)))
       (max_redirects sample_policy)"
proof -
  obtain cs a b where 1: "enforce sample_checked sample_policy Raw = Inr a" "check sample_checked = Inr (cs, b)"
    using sample_accepted sample_checked_ok by blast
  show ?thesis
    by (intro exI [of _ cs] exI [of _ b] conjI [OF 1(2)] accepted_script_limits [OF 1])
qed

text \<open>Only what follows the last \<open>@\<close> is judged: a target that lists an outside address before one of
  the account's own, as a \<open>mailto:\<close> URI can with an encoded comma, counts as the account's own.\<close>

theorem own_target_may_list_others:
  "target_is_own (Some ''spy@evil.test,me@own.test'') [''own.test''] \<and>
   mailto_addresses ''mailto:spy@evil.test%2Cme@own.test'' = Some [''spy@evil.test,me@own.test'']"
  by code_simp

end
