(* ===== verification/Sieve_Managed.thy ===== *)
theory Sieve_Managed
  imports Sieve_Roundtrip
begin

text \<open>
  The builder's managed blocks in a script the user may edit by hand (\<open>managed.rs\<close>): the
  marker lines, the splitting of a script into the segments they delimit, the rules read
  back from the blocks, and the merge that rewrites the blocks for a new rule list. Offsets
  are byte offsets into the source, as in the code; a missing key of the block map would be
  a panic and is \<open>None\<close>.
\<close>

section \<open>Segments and markers\<close>

datatype segment =
    SText string
  | SRequire string
  | SRule string bool string string

fun seg_text :: "segment \<Rightarrow> string" where
  "seg_text (SText t) = t"
| "seg_text (SRequire t) = t"
| "seg_text (SRule rid disabled t body) = t"

definition RULE_MARK :: string where "RULE_MARK = ''# mailwoman:rule ''"
definition REQUIRE_BEGIN :: string where "REQUIRE_BEGIN = ''# mailwoman:require begin''"
definition REQUIRE_END :: string where "REQUIRE_END = ''# mailwoman:require end''"

datatype marker_kind =
    RuleBegin string bool
  | RuleEnd string
  | RequireBegin
  | RequireEnd

definition rule_marker :: "string \<Rightarrow> marker_kind option" where
  "rule_marker rest = (case split_whitespace rest of
       [] \<Rightarrow> None
     | rid # ws \<Rightarrow>
         if ws = [''begin''] then Some (RuleBegin rid False)
         else if ws = [''begin'', ''disabled''] then Some (RuleBegin rid True)
         else if ws = [''end''] then Some (RuleEnd rid)
         else None)"

definition marker :: "string \<Rightarrow> marker_kind option" where
  "marker raw =
     (let line = trim_start_bytes {SP, TAB} (trim_end_bytes {CR, LF} raw)
      in if trim_end line = REQUIRE_BEGIN then Some RequireBegin
         else if trim_end line = REQUIRE_END then Some RequireEnd
         else case strip_prefix RULE_MARK line of
             None \<Rightarrow> None
           | Some rest \<Rightarrow> rule_marker rest)"

section \<open>Splitting\<close>

type_synonym open_block = "marker_kind \<times> nat \<times> nat \<times> nat"

record split_state =
  segs_out :: "segment list"
  text_start :: nat
  opened :: "open_block option"
  seen_ids :: "string set"
  have_require :: bool

definition slice_of :: "string \<Rightarrow> nat \<Rightarrow> nat \<Rightarrow> string" where
  "slice_of source a b = take (b - a) (drop a source)"

definition open_at :: "string \<Rightarrow> marker_kind \<Rightarrow> nat \<Rightarrow> nat \<Rightarrow> nat \<Rightarrow> split_state \<Rightarrow> split_state" where
  "open_at source m start stop lineno st = st\<lparr>
     segs_out := segs_out st @ (if text_start st < start
       then [SText (slice_of source (text_start st) start)] else []),
     opened := Some (m, start, stop, lineno)\<rparr>"

definition split_step :: "string \<Rightarrow> nat \<Rightarrow> nat \<Rightarrow> string \<Rightarrow> split_state \<Rightarrow> sieve_error + split_state" where
  "split_step source lineno start line st =
     (let stop = start + length line
      in case marker line of
        None \<Rightarrow> Inr st
      | Some m \<Rightarrow> (case (opened st, m) of
            (None, RuleBegin rid disabled) \<Rightarrow>
              if rid \<in> seen_ids st then Inl (MarkerAt lineno (RuleAppearsTwice rid))
              else Inr (open_at source m start stop lineno
                (st\<lparr>seen_ids := insert rid (seen_ids st)\<rparr>))
          | (None, RequireBegin) \<Rightarrow>
              if have_require st then Inl (MarkerAt lineno SecondRequire)
              else Inr (open_at source m start stop lineno (st\<lparr>have_require := True\<rparr>))
          | (None, _) \<Rightarrow> Inl (MarkerAt lineno EndWithoutBegin)
          | (Some (RuleBegin rid disabled, bstart, body_start, open_line), RuleEnd end_id) \<Rightarrow>
              if end_id = rid
              then Inr (st\<lparr>opened := None, text_start := stop,
                segs_out := segs_out st @ [SRule rid disabled (slice_of source bstart stop)
                  (slice_of source body_start start)]\<rparr>)
              else Inl (MarkerAt lineno (DoesNotClose open_line))
          | (Some (RequireBegin, bstart, _, open_line), RequireEnd) \<Rightarrow>
              Inr (st\<lparr>opened := None, text_start := stop,
                segs_out := segs_out st @ [SRequire (slice_of source bstart stop)]\<rparr>)
          | (Some (_, _, _, open_line), _) \<Rightarrow> Inl (MarkerAt lineno (DoesNotClose open_line))))"

fun split_loop :: "string \<Rightarrow> nat \<Rightarrow> nat \<Rightarrow> string list \<Rightarrow> split_state \<Rightarrow> sieve_error + split_state" where
  "split_loop source lineno start [] st = Inr st"
| "split_loop source lineno start (line # ls) st =
     rbind (split_step source (Suc lineno) start line st)
       (split_loop source (Suc lineno) (start + length line) ls)"

definition split_end :: "string \<Rightarrow> split_state \<Rightarrow> sieve_error + segment list" where
  "split_end source st = (case opened st of
       Some (_, _, _, open_line) \<Rightarrow> Inl (MarkerAt open_line NeverClosed)
     | None \<Rightarrow> Inr (segs_out st @ (if text_start st < length source
         then [SText (drop (text_start st) source)] else [])))"

definition split :: "string \<Rightarrow> sieve_error + segment list" where
  "split source = rbind (split_loop source 0 0 (split_lines source)
       \<lparr>segs_out = [], text_start = 0, opened = None, seen_ids = {}, have_require = False\<rparr>)
     (split_end source)"

section \<open>Reading the rules\<close>

definition uncomment_line :: "string \<Rightarrow> string" where
  "uncomment_line l =
     (let t = trim_start_bytes {SP, TAB} l
      in case strip_prefix ''# '' t of
          Some u \<Rightarrow> u
        | None \<Rightarrow> (case strip_prefix ''#'' t of Some u \<Rightarrow> u | None \<Rightarrow> t))"

definition read_rule :: "string \<Rightarrow> bool \<Rightarrow> string \<Rightarrow> (sieve_error + rule) option" where
  "read_rule rid disabled body =
     (let text = (if disabled then concat (map uncomment_line (split_lines body)) else body)
      in map_option (\<lambda>parsed. case parsed of
          Inl e \<Rightarrow> Inl (ChangedOutside rid (Some e))
        | Inr [r] \<Rightarrow> Inr (r\<lparr>rule_id := rid, enabled := \<not> disabled\<rparr>)
        | Inr _ \<Rightarrow> Inl (ChangedOutside rid None)) (parse text))"

fun read_rules :: "segment list \<Rightarrow> rule list \<Rightarrow> (sieve_error + rule list) option" where
  "read_rules [] out = Some (Inr out)"
| "read_rules (SRule rid disabled t body # segs) out =
     (case read_rule rid disabled body of
        None \<Rightarrow> None
      | Some (Inl e) \<Rightarrow> Some (Inl e)
      | Some (Inr r) \<Rightarrow> read_rules segs (out @ [r]))"
| "read_rules (_ # segs) out = read_rules segs out"

definition managed_rules :: "string \<Rightarrow> (sieve_error + rule list) option" where
  "managed_rules source = (case split source of
       Inl e \<Rightarrow> Some (Inl e) | Inr segs \<Rightarrow> read_rules segs [])"

fun text_of :: "segment \<Rightarrow> string option" where
  "text_of (SText t) = Some t"
| "text_of _ = None"

definition hand_written :: "string \<Rightarrow> sieve_error + string" where
  "hand_written source =
     rbind (split source) (\<lambda>segs. Inr (concat (List.map_filter text_of segs)))"

section \<open>Merging\<close>

definition valid_id :: "string \<Rightarrow> bool" where
  "valid_id rid \<longleftrightarrow> rid \<noteq> [] \<and> length rid \<le> 128 \<and>
     list_all (\<lambda>b. is_alnum b \<or> b \<in> {CHR ''-'', CHR ''_'', CHR ''.''}) rid"

fun check_ids :: "rule list \<Rightarrow> string set \<Rightarrow> sieve_error + string set" where
  "check_ids [] ids = Inr ids"
| "check_ids (r # rs) ids =
     (if \<not> valid_id (rule_id r) then Inl (BadRuleId (rule_id r))
      else if rule_id r \<in> ids then Inl (RuleIdTwice (rule_id r))
      else check_ids rs (insert (rule_id r) ids))"

definition rule_block :: "rule \<Rightarrow> string \<Rightarrow> string" where
  "rule_block r body =
     (if enabled r then RULE_MARK @ rule_id r @ '' begin'' @ [LF] @ body
      else RULE_MARK @ rule_id r @ '' begin disabled'' @ [LF] @
        concat (map (\<lambda>l. ''# '' @ l @ [LF]) (str_lines body))) @
     RULE_MARK @ rule_id r @ '' end'' @ [LF]"

definition with_eol :: "bool \<Rightarrow> string \<Rightarrow> string" where
  "with_eol crlf s = (if crlf then concat (map (\<lambda>c. if c = LF then [CR, LF] else [c]) s) else s)"

fun collect_blocks ::
  "bool \<Rightarrow> rule list \<Rightarrow> string set \<Rightarrow> (string \<rightharpoonup> string) \<Rightarrow> string set \<times> (string \<rightharpoonup> string)" where
  "collect_blocks crlf [] exts blocks = (exts, blocks)"
| "collect_blocks crlf (r # rs) exts blocks =
     (let (body, ext) = generate_rule r
      in collect_blocks crlf rs (if enabled r then exts \<union> ext else exts)
           (blocks(rule_id r \<mapsto> with_eol crlf (rule_block r body))))"

definition managed_require :: "bool \<Rightarrow> string set \<Rightarrow> string option" where
  "managed_require crlf exts = (if exts = {} then None
     else Some (with_eol crlf (REQUIRE_BEGIN @ [LF] @ require_line exts @ REQUIRE_END @ [LF])))"

fun rule_slot :: "segment \<Rightarrow> string option" where
  "rule_slot (SRule rid _ _ _) = Some rid"
| "rule_slot _ = None"

fun is_req_seg :: "segment \<Rightarrow> bool" where
  "is_req_seg (SRequire _) = True"
| "is_req_seg _ = False"

definition opt_text :: "string option \<Rightarrow> string" where
  "opt_text req = (case req of None \<Rightarrow> [] | Some t \<Rightarrow> t)"

fun merge_slots :: "string set \<Rightarrow> (string \<rightharpoonup> string) \<Rightarrow> string option \<Rightarrow> segment list \<Rightarrow>
    string list \<Rightarrow> string \<Rightarrow> string option" where
  "merge_slots ids blocks req [] slots out = Some out"
| "merge_slots ids blocks req (SText t # segs) slots out =
     merge_slots ids blocks req segs slots (out @ t)"
| "merge_slots ids blocks req (SRequire t # segs) slots out =
     merge_slots ids blocks req segs slots (out @ opt_text req)"
| "merge_slots ids blocks req (SRule rid disabled t body # segs) slots out =
     (if rid \<in> ids then (case slots of
          [] \<Rightarrow> merge_slots ids blocks req segs [] out
        | nxt # rest \<Rightarrow> (case blocks nxt of
            None \<Rightarrow> None
          | Some b \<Rightarrow> merge_slots ids blocks req segs rest (out @ b)))
      else merge_slots ids blocks req segs slots out)"

fun merge_new :: "bool \<Rightarrow> string set \<Rightarrow> (string \<rightharpoonup> string) \<Rightarrow> rule list \<Rightarrow> string \<Rightarrow> string option" where
  "merge_new crlf surviving blocks [] out = Some out"
| "merge_new crlf surviving blocks (r # rs) out =
     (if rule_id r \<in> surviving then merge_new crlf surviving blocks rs out
      else let out1 = (if out \<noteq> [] \<and> last out \<noteq> LF then out @ (if crlf then [CR, LF] else [LF]) else out)
        in case blocks (rule_id r) of
          None \<Rightarrow> None
        | Some b \<Rightarrow> merge_new crlf surviving blocks rs (out1 @ b))"

definition merge :: "string \<Rightarrow> rule list \<Rightarrow> (sieve_error + string) option" where
  "merge source rs = (case check_ids rs {} of
       Inl e \<Rightarrow> Some (Inl e)
     | Inr ids \<Rightarrow> (case split source of
         Inl e \<Rightarrow> Some (Inl e)
       | Inr segs \<Rightarrow>
          (let crlf = sublist [CR, LF] source;
               (exts, blocks) = collect_blocks crlf rs {} Map.empty;
               req = managed_require crlf exts;
               surviving = set (filter (\<lambda>rid. rid \<in> ids) (List.map_filter rule_slot segs));
               slots = filter (\<lambda>rid. rid \<in> surviving) (map rule_id rs);
               out = (if list_ex is_req_seg segs then [] else opt_text req)
           in case merge_slots ids blocks req segs slots out of
                None \<Rightarrow> None
              | Some out1 \<Rightarrow> map_option Inr (merge_new crlf surviving blocks rs out1))))"

section \<open>Lines\<close>

definition ends_lf :: "string \<Rightarrow> bool" where
  "ends_lf s \<longleftrightarrow> s = [] \<or> last s = LF"

lemma ends_lf_simps [simp]:
  "ends_lf []" "ends_lf (s @ [LF])" "ends_lf (s @ b # u) \<longleftrightarrow> ends_lf (b # u)"
  by (simp_all add: ends_lf_def)

lemma ends_lf_append: "ends_lf s \<Longrightarrow> ends_lf t \<Longrightarrow> ends_lf (s @ t)"
  by (cases t) (simp_all add: ends_lf_def)

lemma split_lines_Nil [simp]: "split_lines s = [] \<longleftrightarrow> s = []"
  by (cases s) (auto split: list.splits)

lemma split_lines_snoc: "split_lines (s @ LF # t) = split_lines (s @ [LF]) @ split_lines t"
  by (induction s) (auto split: list.splits)

lemma split_lines_append: "ends_lf s \<Longrightarrow> split_lines (s @ t) = split_lines s @ split_lines t"
proof (cases s rule: rev_exhaust)
  case (snoc u b)
  moreover assume "ends_lf s"
  ultimately show ?thesis using split_lines_snoc [of u t] by (simp add: ends_lf_def)
qed simp

text \<open>A list of lines in the sense of \<open>split_lines\<close>: every line but the last ends in a line feed.\<close>

definition lines_ok :: "string list \<Rightarrow> bool" where
  "lines_ok ls \<longleftrightarrow> split_lines (concat ls) = ls"

lemma split_lines_ConsD:
  assumes "split_lines s = l # ls"
  shows "s = l @ concat ls \<and> split_lines l = [l] \<and> split_lines (concat ls) = ls \<and> (ls \<noteq> [] \<longrightarrow> ends_lf l)"
  using assms
proof (induction s arbitrary: l ls)
  case (Cons b s)
  show ?case
  proof (cases "b = LF")
    case True
    with Cons.prems show ?thesis by (auto simp: ends_lf_def)
  next
    case False
    show ?thesis
    proof (cases "split_lines s")
      case Nil
      with False Cons.prems show ?thesis by auto
    next
      case (Cons w ws)
      with False Cons.prems have l: "l = b # w" "ls = ws" by auto
      from Cons.IH [OF Cons] False show ?thesis
        using Cons split_lines_nonempty [of w s] by (auto simp: l ends_lf_def)
    qed
  qed
qed simp

lemma lines_okD:
  assumes "lines_ok (l # ls)"
  shows "lines_ok ls" "split_lines l = [l]" "ls \<noteq> [] \<Longrightarrow> ends_lf l" "l \<noteq> []"
  using split_lines_ConsD [of "concat (l # ls)" l ls] assms
  by (auto simp: lines_ok_def)

lemma lines_ok_split [simp]: "lines_ok (split_lines s)"
  by (simp add: lines_ok_def)

section \<open>Splitting by lines\<close>

text \<open>
  The reference splitting: a line at a time, with the text of the pending piece and of the open
  block kept as strings instead of offsets.
\<close>

definition text_seg :: "string \<Rightarrow> segment list" where
  "text_seg p = (if p = [] then [] else [SText p])"

type_synonym open_text = "marker_kind \<times> string \<times> string \<times> nat"

fun by_lines :: "nat \<Rightarrow> segment list \<Rightarrow> string \<Rightarrow> open_text option \<Rightarrow> string set \<Rightarrow> bool \<Rightarrow>
    string list \<Rightarrow> sieve_error + segment list" where
  "by_lines n segs p None seen req [] = Inr (segs @ text_seg p)"
| "by_lines n segs p (Some (m, b, body, k)) seen req [] = Inl (MarkerAt k NeverClosed)"
| "by_lines n segs p None seen req (l # ls) = (case marker l of
       None \<Rightarrow> by_lines (Suc n) segs (p @ l) None seen req ls
     | Some (RuleBegin rid d) \<Rightarrow>
         if rid \<in> seen then Inl (MarkerAt (Suc n) (RuleAppearsTwice rid))
         else by_lines (Suc n) (segs @ text_seg p) [] (Some (RuleBegin rid d, l, [], Suc n))
           (insert rid seen) req ls
     | Some RequireBegin \<Rightarrow>
         if req then Inl (MarkerAt (Suc n) SecondRequire)
         else by_lines (Suc n) (segs @ text_seg p) [] (Some (RequireBegin, l, [], Suc n)) seen True ls
     | _ \<Rightarrow> Inl (MarkerAt (Suc n) EndWithoutBegin))"
| "by_lines n segs p (Some (m, b, body, k)) seen req (l # ls) = (case marker l of
       None \<Rightarrow> by_lines (Suc n) segs p (Some (m, b, body @ l, k)) seen req ls
     | Some e \<Rightarrow> (case (m, e) of
         (RuleBegin rid d, RuleEnd rid') \<Rightarrow>
           if rid' = rid then by_lines (Suc n) (segs @ [SRule rid d (b @ body @ l) body]) [] None seen req ls
           else Inl (MarkerAt (Suc n) (DoesNotClose k))
       | (RequireBegin, RequireEnd) \<Rightarrow>
           by_lines (Suc n) (segs @ [SRequire (b @ body @ l)]) [] None seen req ls
       | _ \<Rightarrow> Inl (MarkerAt (Suc n) (DoesNotClose k))))"

text \<open>The state of the offset loop that a state of the reference stands for.\<close>

definition simulates :: "string \<Rightarrow> nat \<Rightarrow> string list \<Rightarrow> split_state \<Rightarrow> segment list \<Rightarrow> string \<Rightarrow>
    open_text option \<Rightarrow> bool" where
  "simulates source off ls st segs p op \<longleftrightarrow>
     (let done_text = concat (map seg_text segs) in
      segs_out st = segs \<and> (case op of
        None \<Rightarrow> opened st = None \<and> text_start st = length done_text \<and>
          source = done_text @ p @ concat ls \<and> off = length done_text + length p
      | Some (m, b, body, k) \<Rightarrow> p = [] \<and>
          opened st = Some (m, length done_text, length done_text + length b, k) \<and>
          (case m of RuleBegin _ _ \<Rightarrow> True | RequireBegin \<Rightarrow> True | _ \<Rightarrow> False) \<and>
          source = done_text @ b @ body @ concat ls \<and>
          off = length done_text + length b + length body))"

lemma slice_of_append:
  "a = length u \<Longrightarrow> b = length u + length v \<Longrightarrow> slice_of (u @ v @ w) a b = v"
  by (simp add: slice_of_def)

lemma text_seg_texts [simp]: "concat (map seg_text (text_seg p)) = p"
  by (simp add: text_seg_def)

lemma slice_inner: "slice_of (u @ b @ v @ w) (length u + length b) (length u + (length b + length v)) = v"
  by (simp add: slice_of_def)

lemma slice_block: "slice_of (u @ b @ v @ l @ w) (length u) (length u + (length b + (length v + length l))) = b @ v @ l"
  by (simp add: slice_of_def)

lemma split_loop_by_lines:
  assumes "simulates source off ls st segs p op" "list_all (\<lambda>l. l \<noteq> []) ls"
  shows "rbind (split_loop source n off ls st) (split_end source) =
     by_lines n segs p op (seen_ids st) (have_require st) ls"
  using assms
proof (induction ls arbitrary: n off st segs p op)
  case Nil
  then show ?case
    by (auto simp: simulates_def Let_def split_end_def text_seg_def split: option.splits)
next
  case (Cons l ls)
  have IH: "\<And>n off st segs p op. simulates source off ls st segs p op \<Longrightarrow>
     rbind (split_loop source n off ls st) (split_end source) =
     by_lines n segs p op (seen_ids st) (have_require st) ls"
    using Cons by simp
  note sim = Cons.prems(1)
  show ?case
  proof (cases op)
    case None
    with sim have st: "opened st = None" "segs_out st = segs"
      "text_start st = length (concat (map seg_text segs))"
      "source = concat (map seg_text segs) @ p @ l @ concat ls"
      "off = length (concat (map seg_text segs)) + length p"
      by (auto simp: simulates_def Let_def)
    have pend: "simulates source (off + length l) ls st segs (p @ l) None"
      using st by (simp add: simulates_def Let_def)
    have opn: "simulates source (off + length l) ls
        (open_at source m off (off + length l) k (st\<lparr>seen_ids := A, have_require := B\<rparr>))
        (segs @ text_seg p) [] (Some (m, l, [], k))"
      if "m = RuleBegin rid d \<or> m = RequireBegin" for m k A B rid d
      using st that
      by (auto simp: simulates_def Let_def open_at_def text_seg_def slice_of_append split: option.split)
    show ?thesis
    proof (cases "marker l")
      case None
      with \<open>op = None\<close> show ?thesis
        by (simp add: split_step_def Let_def IH [OF pend])
    next
      case (Some m)
      show ?thesis
      proof (cases m)
        case (RuleBegin rid d)
        have "simulates source (off + length l) ls
          (open_at source m off (off + length l) (Suc n) (st\<lparr>seen_ids := insert rid (seen_ids st)\<rparr>))
          (segs @ text_seg p) [] (Some (m, l, [], Suc n))"
          using opn [where m = m and k = "Suc n" and A = "insert rid (seen_ids st)" and B = "have_require st" and rid = rid and d = d] RuleBegin by simp
        from IH [OF this] Some RuleBegin \<open>op = None\<close> st(1) show ?thesis
          by (simp add: split_step_def Let_def open_at_def)
      next
        case RequireBegin
        have "simulates source (off + length l) ls
          (open_at source m off (off + length l) (Suc n) (st\<lparr>have_require := True\<rparr>))
          (segs @ text_seg p) [] (Some (m, l, [], Suc n))"
          using opn [where m = m and k = "Suc n" and A = "seen_ids st" and B = True] RequireBegin by simp
        from IH [OF this] Some RequireBegin \<open>op = None\<close> st(1) show ?thesis
          by (simp add: split_step_def Let_def open_at_def)
      qed (use Some \<open>op = None\<close> st(1) in \<open>simp_all add: split_step_def Let_def\<close>)
    qed
  next
    case (Some o4)
    then obtain m b body k where op: "op = Some (m, b, body, k)" by (cases o4) auto
    let ?u = "concat (map seg_text segs)"
    from sim op have st: "p = []" "segs_out st = segs"
      "opened st = Some (m, length ?u, length ?u + length b, k)"
      "source = ?u @ b @ body @ l @ concat ls" "off = length ?u + length b + length body"
      and m: "case m of RuleBegin _ _ \<Rightarrow> True | RequireBegin \<Rightarrow> True | _ \<Rightarrow> False"
      by (auto simp: simulates_def Let_def)
    have more: "simulates source (off + length l) ls st segs p (Some (m, b, body @ l, k))"
      using st m by (simp add: simulates_def Let_def)
    have close: "simulates source (off + length l) ls
        (st\<lparr>opened := None, text_start := off + length l, segs_out := segs @ [s]\<rparr>) (segs @ [s]) [] None"
      if "seg_text s = b @ body @ l" for s
      using st that by (simp add: simulates_def Let_def)
    have sl: "slice_of source (length ?u) (off + length l) = b @ body @ l"
      "slice_of source (length ?u + length b) off = body"
      using slice_block [of ?u b body l "concat ls"] slice_inner [of ?u b body "l @ concat ls"]
      by (simp_all add: st(4,5) add.assoc)
    show ?thesis
    proof (cases "marker l")
      case None
      with op show ?thesis by (simp add: split_step_def Let_def IH [OF more])
    next
      case (Some e)
      show ?thesis
      proof (cases m)
        case (RuleBegin rid d)
        show ?thesis
        proof (cases "e = RuleEnd rid")
          case True
          have "seg_text (SRule rid d (b @ body @ l) body) = b @ body @ l" by simp
          from IH [OF close [OF this]] True Some op RuleBegin st(1,2,3) sl show ?thesis
            by (simp add: split_step_def Let_def)
        next
          case False
          with Some op RuleBegin st(3) show ?thesis
            by (cases e) (simp_all add: split_step_def Let_def)
        qed
      next
        case RequireBegin
        show ?thesis
        proof (cases "e = RequireEnd")
          case True
          have "seg_text (SRequire (b @ body @ l)) = b @ body @ l" by simp
          from IH [OF close [OF this]] True Some op RequireBegin st(1,2,3) sl show ?thesis
            by (simp add: split_step_def Let_def)
        next
          case False
          with Some op RequireBegin st(3) show ?thesis
            by (cases e) (simp_all add: split_step_def Let_def)
        qed
      qed (use m in simp_all)
    qed
  qed
qed

lemma split_by_lines: "split source = by_lines 0 [] [] None {} False (split_lines source)"
proof -
  have "simulates source 0 (split_lines source)
    \<lparr>segs_out = [], text_start = 0, opened = None, seen_ids = {}, have_require = False\<rparr> [] [] None"
    by (simp add: simulates_def)
  from split_loop_by_lines [OF this, of 0] show ?thesis
    by (auto simp: split_def list_all_iff dest: split_lines_nonempty)
qed

section \<open>What a split script looks like\<close>

definition unmarked :: "string \<Rightarrow> bool" where
  "unmarked t \<longleftrightarrow> list_all (\<lambda>l. marker l = None) (split_lines t)"

definition bracketed :: "marker_kind \<Rightarrow> marker_kind \<Rightarrow> string \<Rightarrow> string \<Rightarrow> bool" where
  "bracketed mb me t body \<longleftrightarrow> (case split_lines t of [] \<Rightarrow> False
     | b # r \<Rightarrow> r \<noteq> [] \<and> marker b = Some mb \<and> marker (last r) = Some me \<and>
         list_all (\<lambda>l. marker l = None) (butlast r) \<and> body = concat (butlast r))"

fun seg_ok :: "segment \<Rightarrow> bool" where
  "seg_ok (SText t) \<longleftrightarrow> t \<noteq> [] \<and> unmarked t"
| "seg_ok (SRequire t) \<longleftrightarrow> bracketed RequireBegin RequireEnd t (concat (butlast (tl (split_lines t))))"
| "seg_ok (SRule rid d t body) \<longleftrightarrow> bracketed (RuleBegin rid d) (RuleEnd rid) t body"

fun is_text :: "segment \<Rightarrow> bool" where
  "is_text (SText _) = True"
| "is_text _ = False"

definition apart :: "segment list \<Rightarrow> bool" where
  "apart = successively (\<lambda>a b. \<not> (is_text a \<and> is_text b))"

definition rule_ids :: "segment list \<Rightarrow> string list" where
  "rule_ids segs = List.map_filter rule_slot segs"

definition segs_ok :: "segment list \<Rightarrow> bool" where
  "segs_ok segs \<longleftrightarrow> list_all seg_ok segs \<and> apart segs \<and>
     list_all (\<lambda>s. ends_lf (seg_text s)) (butlast segs) \<and>
     distinct (rule_ids segs) \<and> length (filter is_req_seg segs) \<le> 1"

lemma unmarked_Nil [simp]: "unmarked []"
  by (simp add: unmarked_def)

lemma unmarked_append: "ends_lf s \<Longrightarrow> unmarked (s @ t) \<longleftrightarrow> unmarked s \<and> unmarked t"
  by (simp add: unmarked_def split_lines_append)

lemma unmarked_line: "split_lines l = [l] \<Longrightarrow> unmarked l \<longleftrightarrow> marker l = None"
  by (simp add: unmarked_def)

lemma bracketedI:
  assumes "split_lines b = [b]" "ends_lf b" "marker b = Some mb" "ends_lf body" "unmarked body"
    "split_lines l = [l]" "marker l = Some me"
  shows "bracketed mb me (b @ body @ l) body"
  using assms by (simp add: bracketed_def split_lines_append unmarked_def)

lemma bracketedE:
  assumes "bracketed mb me t body"
  obtains b l where "t = b @ body @ l" "split_lines b = [b]" "ends_lf b" "marker b = Some mb"
    "ends_lf body" "unmarked body" "split_lines l = [l]" "marker l = Some me"
proof -
  from assms obtain b r where r: "split_lines t = b # r" "r \<noteq> []" "marker b = Some mb"
    "marker (last r) = Some me" "list_all (\<lambda>l. marker l = None) (butlast r)" "body = concat (butlast r)"
    by (auto simp: bracketed_def split: list.splits)
  from split_lines_ConsD [OF r(1)] r(2)
  have t: "t = b @ concat r" "split_lines b = [b]" "ends_lf b" "lines_ok r"
    by (auto simp: lines_ok_def)
  have snoc: "ends_lf (concat ls) \<and> lines_ok ls \<and> split_lines l = [l]" if "lines_ok (ls @ [l])" for ls l
    using that
  proof (induction ls)
    case Nil
    then show ?case using lines_okD(2) [of l "[]"] by (simp add: lines_ok_def)
  next
    case (Cons x ls)
    from lines_okD [of x "ls @ [l]"] Cons.prems
    have x: "lines_ok (ls @ [l])" "split_lines x = [x]" "ends_lf x" by simp_all
    from Cons.IH [OF x(1)] have ls: "ends_lf (concat ls)" "lines_ok ls" "split_lines l = [l]"
      by simp_all
    from x ls show ?case by (simp add: ends_lf_append lines_ok_def split_lines_append)
  qed
  from r(2) have "r = butlast r @ [last r]" by simp
  with snoc [of "butlast r" "last r"] t(4)
  have last: "ends_lf (concat (butlast r))" "lines_ok (butlast r)" "split_lines (last r) = [last r]"
    by simp_all
  have "concat r = body @ last r" using \<open>r = butlast r @ [last r]\<close> r(6)
    by (metis concat.simps concat_append append_Nil2)
  with r t last show thesis
    by (intro that [of b "last r"]) (simp_all add: unmarked_def lines_ok_def)
qed

lemma rule_ids_simps [simp]:
  "rule_ids [] = []" "rule_ids (segs @ segs') = rule_ids segs @ rule_ids segs'"
  "rule_ids (SText t # segs) = rule_ids segs" "rule_ids (SRequire t # segs) = rule_ids segs"
  "rule_ids (SRule rid d t body # segs) = rid # rule_ids segs" "rule_ids (text_seg p) = []"
  by (simp_all add: rule_ids_def List.map_filter_def text_seg_def)

lemma text_seg_simps [simp]:
  "filter is_req_seg (text_seg p) = []" "list_all seg_ok (text_seg p) \<longleftrightarrow> unmarked p"
  "list_all (\<lambda>s. ends_lf (seg_text s)) (text_seg p) \<longleftrightarrow> ends_lf p"
  by (simp_all add: text_seg_def)

lemma apart_snoc:
  "apart (segs @ [s]) \<longleftrightarrow> apart segs \<and> (segs \<noteq> [] \<longrightarrow> \<not> (is_text (last segs) \<and> is_text s))"
  by (auto simp: apart_def successively_append_iff)

lemma apart_text_seg:
  "apart segs \<Longrightarrow> (segs \<noteq> [] \<longrightarrow> \<not> is_text (last segs)) \<Longrightarrow> apart (segs @ text_seg p)"
  by (simp add: text_seg_def apart_snoc)

section \<open>Splitting is sound\<close>

definition closed_ok :: "segment list \<Rightarrow> bool" where
  "closed_ok segs \<longleftrightarrow> list_all seg_ok segs \<and> apart segs \<and> list_all (\<lambda>s. ends_lf (seg_text s)) segs \<and>
     distinct (rule_ids segs) \<and> length (filter is_req_seg segs) \<le> 1"

fun split_inv :: "segment list \<Rightarrow> string \<Rightarrow> open_text option \<Rightarrow> string set \<Rightarrow> bool \<Rightarrow> string list \<Rightarrow> bool" where
  "split_inv segs p None seen req ls \<longleftrightarrow>
     (if p = [] \<and> ls = [] then segs_ok segs else closed_ok segs \<and> (segs \<noteq> [] \<longrightarrow> \<not> is_text (last segs))) \<and>
     unmarked p \<and> (ls \<noteq> [] \<longrightarrow> ends_lf p) \<and>
     seen = set (rule_ids segs) \<and> (req \<longleftrightarrow> filter is_req_seg segs \<noteq> [])"
| "split_inv segs p (Some (m, b, body, k)) seen req ls \<longleftrightarrow> p = [] \<and>
     closed_ok segs \<and> split_lines b = [b] \<and> marker b = Some m \<and> unmarked body \<and>
     (ls \<noteq> [] \<longrightarrow> ends_lf b \<and> ends_lf body) \<and>
     (case m of
        RuleBegin rid d \<Rightarrow> rid \<notin> set (rule_ids segs) \<and> seen = insert rid (set (rule_ids segs)) \<and>
          (req \<longleftrightarrow> filter is_req_seg segs \<noteq> [])
      | RequireBegin \<Rightarrow> filter is_req_seg segs = [] \<and> req \<and> seen = set (rule_ids segs)
      | _ \<Rightarrow> False)"

lemma closed_segs_ok:
  "closed_ok segs \<Longrightarrow> segs_ok segs"
  "segs \<noteq> [] \<longrightarrow> \<not> is_text (last segs) \<Longrightarrow> closed_ok segs \<Longrightarrow> unmarked p \<Longrightarrow> segs_ok (segs @ text_seg p)"
  by (auto simp: closed_ok_def segs_ok_def apart_text_seg butlast_append text_seg_def apart_snoc
      dest: in_set_butlastD simp: list_all_iff)

lemma closed_text_seg:
  "segs \<noteq> [] \<longrightarrow> \<not> is_text (last segs) \<Longrightarrow> closed_ok segs \<Longrightarrow> unmarked p \<Longrightarrow> ends_lf p \<Longrightarrow>
   closed_ok (segs @ text_seg p)"
  by (simp add: closed_ok_def apart_text_seg)

lemma closed_ok_snoc:
  assumes "closed_ok segs" "seg_ok s" "\<not> is_text s" "distinct (rule_ids segs @ rule_ids [s])"
    "length (filter is_req_seg (segs @ [s])) \<le> 1"
  shows "ends_lf (seg_text s) \<Longrightarrow> closed_ok (segs @ [s])" "segs_ok (segs @ [s])"
  using assms by (auto simp: closed_ok_def segs_ok_def apart_snoc butlast_append dest: in_set_butlastD)

lemma by_lines_sound:
  assumes "by_lines n segs p op seen req ls = Inr result" "split_inv segs p op seen req ls" "lines_ok ls"
  shows "segs_ok result \<and> concat (map seg_text result) = concat (map seg_text segs) @
     (case op of None \<Rightarrow> p | Some (m, b, body, k) \<Rightarrow> b @ body) @ concat ls"
  using assms
proof (induction n segs p op seen req ls arbitrary: result rule: by_lines.induct)
  case (1 n segs p seen req)
  then show ?case
    using closed_segs_ok(2) [of segs p] by (cases "p = []") (auto simp: text_seg_def)
next
  case (3 n segs p seen req l ls)
  note l = lines_okD [OF \<open>lines_ok (l # ls)\<close>]
  show ?case
  proof (cases "marker l")
    case None
    have "split_inv segs (p @ l) None seen req ls"
      using 3 None l by (auto simp: unmarked_append unmarked_line ends_lf_append)
    with 3 None l show ?thesis by simp
  next
    case (Some m)
    show ?thesis
    proof (cases m)
      case (RuleBegin rid d)
      with Some 3 have "rid \<notin> seen" by (auto split: if_splits)
      moreover have "split_inv (segs @ text_seg p) [] (Some (RuleBegin rid d, l, [], Suc n)) (insert rid seen) req ls"
        using 3 Some RuleBegin l \<open>rid \<notin> seen\<close> by (simp add: closed_text_seg)
      ultimately show ?thesis using 3 Some RuleBegin l by simp
    next
      case RequireBegin
      with Some 3 have "\<not> req" by (auto split: if_splits)
      moreover have "split_inv (segs @ text_seg p) [] (Some (RequireBegin, l, [], Suc n)) seen True ls"
        using 3 Some RequireBegin l \<open>\<not> req\<close> by (simp add: closed_text_seg)
      ultimately show ?thesis using 3 Some RequireBegin l by simp
    qed (use Some 3 in simp_all)
  qed
next
  case (4 n segs p m b body k seen req l ls)
  note l = lines_okD [OF \<open>lines_ok (l # ls)\<close>]
  from 4 have inv: "closed_ok segs" "split_lines b = [b]" "marker b = Some m" "unmarked body"
    "ends_lf b" "ends_lf body" by simp_all
  show ?case
  proof (cases "marker l")
    case None
    have "split_inv segs p (Some (m, b, body @ l, k)) seen req ls"
      using 4 None l by (auto simp: unmarked_append unmarked_line ends_lf_append)
    with 4 None l show ?thesis by simp
  next
    case (Some e)
    have tail: "ends_lf (b @ body @ l)" if "ls \<noteq> []"
      using that inv l by (simp add: ends_lf_append)
    show ?thesis
    proof (cases m)
      case (RuleBegin rid d)
      with 4 Some have e: "e = RuleEnd rid" by (cases e) (auto split: if_splits)
      let ?s = "SRule rid d (b @ body @ l) body"
      have ok: "seg_ok ?s" using inv Some RuleBegin e l by (simp add: bracketedI)
      have snoc: "ends_lf (seg_text ?s) \<Longrightarrow> closed_ok (segs @ [?s])" "segs_ok (segs @ [?s])"
        using closed_ok_snoc [OF inv(1) ok] 4 RuleBegin by (auto simp: closed_ok_def)
      have "split_inv (segs @ [?s]) [] None seen req ls"
        using snoc tail 4 RuleBegin by auto
      with 4 Some RuleBegin e l show ?thesis by simp
    next
      case RequireBegin
      with 4 Some have e: "e = RequireEnd" by (cases e) auto
      let ?s = "SRequire (b @ body @ l)"
      have "butlast (tl (split_lines (b @ body @ l))) = split_lines body"
        using inv l by (simp add: split_lines_append butlast_append)
      then have ok: "seg_ok ?s" using inv Some RequireBegin e l by (simp add: bracketedI)
      have snoc: "ends_lf (seg_text ?s) \<Longrightarrow> closed_ok (segs @ [?s])" "segs_ok (segs @ [?s])"
        using closed_ok_snoc [OF inv(1) ok] 4 RequireBegin by (auto simp: closed_ok_def)
      have "split_inv (segs @ [?s]) [] None seen req ls"
        using snoc tail 4 RequireBegin by auto
      with 4 Some RequireBegin e l show ?thesis by simp
    qed (use 4 in simp_all)
  qed
qed simp

lemma split_sound: "split source = Inr segs \<Longrightarrow> segs_ok segs \<and> concat (map seg_text segs) = source"
  using by_lines_sound [of 0 "[]" "[]" None "{}" False "split_lines source" segs]
  by (simp add: split_by_lines closed_ok_def segs_ok_def apart_def)

section \<open>Splitting is complete\<close>

text \<open>Pieces a script may be put together from: texts may be empty and may touch.\<close>

fun piece_ok :: "segment \<Rightarrow> bool" where
  "piece_ok (SText t) \<longleftrightarrow> unmarked t"
| "piece_ok s \<longleftrightarrow> seg_ok s"

definition pieces_ok :: "segment list \<Rightarrow> bool" where
  "pieces_ok ps \<longleftrightarrow> list_all piece_ok ps \<and> list_all (\<lambda>s. ends_lf (seg_text s)) (butlast ps) \<and>
     distinct (rule_ids ps) \<and> length (filter is_req_seg ps) \<le> 1"

fun fuse :: "string \<Rightarrow> segment list \<Rightarrow> segment list" where
  "fuse p [] = text_seg p"
| "fuse p (SText t # ps) = fuse (p @ t) ps"
| "fuse p (s # ps) = text_seg p @ s # fuse [] ps"

lemma by_lines_text:
  "list_all (\<lambda>l. marker l = None) ls \<Longrightarrow>
   by_lines n segs p None seen req (ls @ ms) =
     by_lines (n + length ls) segs (p @ concat ls) None seen req ms"
  by (induction ls arbitrary: n p) auto

lemma by_lines_body:
  "list_all (\<lambda>l. marker l = None) ls \<Longrightarrow>
   by_lines n segs p (Some (m, b, body, k)) seen req (ls @ ms) =
     by_lines (n + length ls) segs p (Some (m, b, body @ concat ls, k)) seen req ms"
  by (induction ls arbitrary: n body) auto

lemma by_lines_rule:
  assumes "bracketed (RuleBegin rid d) (RuleEnd rid) t body" "rid \<notin> seen"
  shows "by_lines n segs p None seen req (split_lines t @ ms) =
     by_lines (n + length (split_lines t)) (segs @ text_seg p @ [SRule rid d t body]) [] None (insert rid seen) req ms"
proof -
  from assms(1) obtain b l where b: "t = b @ body @ l" "split_lines b = [b]" "ends_lf b"
    "marker b = Some (RuleBegin rid d)" "ends_lf body" "unmarked body" "split_lines l = [l]"
    "marker l = Some (RuleEnd rid)" by (rule bracketedE)
  from b by_lines_body [of "split_lines body" "Suc n" "segs @ text_seg p" "[]" "RuleBegin rid d" b "[]"
      "Suc n" "insert rid seen" req "l # ms"] assms(2)
  show ?thesis by (simp add: split_lines_append unmarked_def)
qed

lemma by_lines_require:
  assumes "bracketed RequireBegin RequireEnd t body" "\<not> req"
  shows "by_lines n segs p None seen req (split_lines t @ ms) =
     by_lines (n + length (split_lines t)) (segs @ text_seg p @ [SRequire t]) [] None seen True ms"
proof -
  from assms(1) obtain b l where b: "t = b @ body @ l" "split_lines b = [b]" "ends_lf b"
    "marker b = Some RequireBegin" "ends_lf body" "unmarked body" "split_lines l = [l]"
    "marker l = Some RequireEnd" by (rule bracketedE)
  from b by_lines_body [of "split_lines body" "Suc n" "segs @ text_seg p" "[]" RequireBegin b "[]"
      "Suc n" seen True "l # ms"] assms(2)
  show ?thesis by (simp add: split_lines_append unmarked_def)
qed

lemma by_lines_pieces:
  assumes "list_all piece_ok ps" "list_all (\<lambda>s. ends_lf (seg_text s)) (butlast ps)"
    "distinct (rule_ids ps)" "set (rule_ids ps) \<inter> seen = {}"
    "length (filter is_req_seg ps) + (if req then 1 else 0) \<le> 1"
  shows "by_lines n segs p None seen req (split_lines (concat (map seg_text ps))) = Inr (segs @ fuse p ps)"
  using assms
proof (induction ps arbitrary: n segs p seen req)
  case (Cons s ps)
  have sp: "split_lines (concat (map seg_text (s # ps))) = split_lines (seg_text s) @ split_lines (concat (map seg_text ps))"
    using Cons.prems(2) by (cases "ps = []") (simp_all add: split_lines_append)
  have but: "list_all (\<lambda>s. ends_lf (seg_text s)) (butlast ps)"
    using Cons.prems(2) by (cases "ps = []") simp_all
  show ?case
  proof (cases s)
    case (SText t)
    have "by_lines n segs p None seen req (split_lines t @ split_lines (concat (map seg_text ps))) =
      by_lines (n + length (split_lines t)) segs (p @ t) None seen req (split_lines (concat (map seg_text ps)))"
      using by_lines_text [of "split_lines t"] Cons.prems(1) SText by (simp add: unmarked_def)
    moreover have "by_lines (n + length (split_lines t)) segs (p @ t) None seen req
      (split_lines (concat (map seg_text ps))) = Inr (segs @ fuse (p @ t) ps)"
      by (rule Cons.IH) (use Cons.prems but SText in simp_all)
    ultimately show ?thesis unfolding sp using SText by simp
  next
    case (SRequire t)
    with Cons.prems have req: "\<not> req" "bracketed RequireBegin RequireEnd t (concat (butlast (tl (split_lines t))))"
      by (auto split: if_splits)
    have "by_lines (n + length (split_lines t)) (segs @ text_seg p @ [SRequire t]) [] None seen True
      (split_lines (concat (map seg_text ps))) = Inr ((segs @ text_seg p @ [SRequire t]) @ fuse [] ps)"
      by (rule Cons.IH) (use Cons.prems but SRequire req in simp_all)
    with by_lines_require [OF req(2,1)] show ?thesis unfolding sp using SRequire by simp
  next
    case (SRule rid d t body)
    with Cons.prems have rule: "rid \<notin> seen" "bracketed (RuleBegin rid d) (RuleEnd rid) t body"
      by auto
    have "by_lines (n + length (split_lines t)) (segs @ text_seg p @ [SRule rid d t body]) [] None
      (insert rid seen) req (split_lines (concat (map seg_text ps))) =
      Inr ((segs @ text_seg p @ [SRule rid d t body]) @ fuse [] ps)"
      by (rule Cons.IH) (use Cons.prems but SRule rule in simp_all)
    with by_lines_rule [OF rule(2,1)] show ?thesis unfolding sp using SRule by simp
  qed
qed simp

lemma split_pieces: "pieces_ok ps \<Longrightarrow> split (concat (map seg_text ps)) = Inr (fuse [] ps)"
  by (simp add: split_by_lines by_lines_pieces pieces_ok_def)

lemma fuse_apart:
  "apart ps \<Longrightarrow> list_all seg_ok ps \<Longrightarrow> (p \<noteq> [] \<longrightarrow> ps \<noteq> [] \<longrightarrow> \<not> is_text (hd ps)) \<Longrightarrow> fuse p ps = text_seg p @ ps"
proof (induction p ps rule: fuse.induct)
  case (2 p t ps)
  then show ?case
    by (cases ps) (auto simp: apart_def text_seg_def)
qed (auto simp: apart_def successively_Cons text_seg_def)

lemma seg_ok_piece: "seg_ok s \<Longrightarrow> piece_ok s"
  by (cases s) simp_all

lemma segs_ok_split: "segs_ok segs \<Longrightarrow> split (concat (map seg_text segs)) = Inr segs"
  using split_pieces [of segs] fuse_apart [of segs "[]"]
  by (simp add: segs_ok_def pieces_ok_def text_seg_def list_all_iff seg_ok_piece)

text \<open>C31: splitting is exact. The splitter, which works on byte offsets with one open marker,
  returns a list of segments exactly when the segments' texts put together are the source, every
  segment is a marker-free text or a block between its two markers, texts do not touch, every
  segment but the last ends a line, no rule id occurs twice and there is at most one managed
  require block. In particular no byte of the script is lost or moved by splitting it.\<close>

theorem split_exact:
  "split source = Inr segs \<longleftrightarrow> segs_ok segs \<and> concat (map seg_text segs) = source"
  using split_sound segs_ok_split by blast

end
