(* ===== verification/Sieve_Merge.thy ===== *)
theory Sieve_Merge
  imports Sieve_Managed "HOL-Library.Code_Target_Nat"
begin

text \<open>
  What \<open>merge\<close> does to a script (\<open>managed.rs\<close>): the text the user wrote is kept, and the
  rules read back from the result are the rules that were saved. The interface between the
  generator and the managed blocks is the locale \<open>rule_text\<close>: a rendered rule is a list of
  whole lines, none of which can be taken for a marker, and the parser reads it back.
\<close>

section \<open>Line endings\<close>

definition eol :: "bool \<Rightarrow> string" where
  "eol crlf = (if crlf then [CR, LF] else [LF])"

lemma with_eol_append: "with_eol crlf (s @ t) = with_eol crlf s @ with_eol crlf t"
  by (simp add: with_eol_def)

lemma with_eol_LF: "with_eol crlf (LF # s) = eol crlf @ with_eol crlf s"
  by (simp add: with_eol_def eol_def)

lemma with_eol_Nil [simp]: "with_eol crlf [] = []"
  by (simp add: with_eol_def)

lemma with_eol_plain: "LF \<notin> set s \<Longrightarrow> with_eol crlf s = s"
  by (induction s) (auto simp: with_eol_def)

lemma ends_lf_eol [simp]: "ends_lf (s @ eol crlf)" "ends_lf (eol crlf)"
  by (simp_all add: ends_lf_def eol_def)

lemma split_lines_eol: "LF \<notin> set l \<Longrightarrow> split_lines (l @ eol crlf @ s) = (l @ eol crlf) # split_lines s"
  using split_lines_line [of "l @ [CR]" s] by (simp add: eol_def)

definition lines_text :: "bool \<Rightarrow> string list \<Rightarrow> string" where
  "lines_text crlf ls = concat (map (\<lambda>l. l @ eol crlf) ls)"

lemma lines_text_simps [simp]:
  "lines_text crlf [] = []" "lines_text crlf (l # ls) = l @ eol crlf @ lines_text crlf ls"
  by (simp_all add: lines_text_def)

lemma split_lines_text:
  "list_all (\<lambda>l. LF \<notin> set l) ls \<Longrightarrow> split_lines (lines_text crlf ls) = map (\<lambda>l. l @ eol crlf) ls"
  by (induction ls) (simp_all add: split_lines_eol)

lemma ends_lf_lines_text: "ends_lf (lines_text crlf ls)"
  by (induction ls) (simp_all add: ends_lf_append flip: append_assoc)

lemma with_eol_lines_text:
  "list_all (\<lambda>l. LF \<notin> set l) ls \<Longrightarrow> with_eol crlf (lines_text False ls) = lines_text crlf ls"
  by (induction ls) (simp_all add: with_eol_append with_eol_plain eol_def with_eol_LF)

lemma line_body_simple: "CR \<notin> set l \<Longrightarrow> line_body (l @ [LF]) = l"
  by (cases l rule: rev_exhaust) (auto simp: line_body_def strip_suffix_def suffix_def)

lemma str_lines_text:
  "list_all (\<lambda>l. LF \<notin> set l \<and> CR \<notin> set l) ls \<Longrightarrow> str_lines (lines_text False ls) = ls"
  by (induction ls) (simp_all add: str_lines_def eol_def line_body_simple)

section \<open>Markers\<close>

text \<open>Blanks are what \<open>marker\<close> trims at the start of a line.\<close>

abbreviation unindent :: "string \<Rightarrow> string" where
  "unindent l \<equiv> trim_start_bytes {SP, TAB} l"

lemma trim_end_prefix: "prefix (trim_end s) s"
proof -
  have "prefix (concat (rev (dropWhile P (rev cs)))) (concat cs)" for P and cs :: "string list"
  proof -
    have "cs = rev (dropWhile P (rev cs)) @ rev (takeWhile P (rev cs))"
      by (metis rev_append rev_rev_ident takeWhile_dropWhile_id)
    then show ?thesis by (metis concat_append prefixI)
  qed
  then show ?thesis by (metis trim_end_def drop_ws_def concat_utf8_chars)
qed

lemma trim_end_bytes_prefix: "prefix (trim_end_bytes C s) s"
  unfolding trim_end_bytes_def
  by (metis prefixI rev_append rev_rev_ident takeWhile_dropWhile_id)

lemma prefix_dropWhile:
  assumes "prefix p (dropWhile P x)" "prefix x y" "p \<noteq> []"
  shows "prefix p (dropWhile P y)"
proof -
  from assms(2) obtain z where y: "y = x @ z" by (auto simp: prefix_def)
  have ne: "dropWhile P x \<noteq> []"
  proof
    assume a: "dropWhile P x = []"
    show False using assms(1,3) unfolding a by simp
  qed
  then have "dropWhile P y = dropWhile P x @ z"
    unfolding y using ne by (induction x) auto
  with assms(1) show ?thesis by (simp add: prefix_prefix)
qed

definition mark_head :: string where "mark_head = ''# mailwoman:''"

lemma mark_heads:
  "prefix mark_head REQUIRE_BEGIN" "prefix mark_head REQUIRE_END" "prefix mark_head (RULE_MARK @ s)"
  "mark_head \<noteq> []" "set mark_head \<inter> {CR, LF} = {}"
  by (simp_all add: mark_head_def REQUIRE_BEGIN_def REQUIRE_END_def RULE_MARK_def)

definition plain_line :: "string \<Rightarrow> bool" where
  "plain_line l \<longleftrightarrow> \<not> prefix mark_head (unindent l)"

lemma marker_prefix:
  assumes "marker l = Some m"
  shows "prefix mark_head (unindent l)"
proof -
  define l1 where "l1 = unindent (trim_end_bytes {CR, LF} l)"
  have "prefix mark_head l1"
  proof (cases "trim_end l1 = REQUIRE_BEGIN \<or> trim_end l1 = REQUIRE_END")
    case True
    then have "prefix mark_head (trim_end l1)" using mark_heads(1,2) by presburger
    then show ?thesis using trim_end_prefix prefix_order.trans by blast
  next
    case False
    have "marker l = (case strip_prefix RULE_MARK l1 of None \<Rightarrow> None | Some rest \<Rightarrow> rule_marker rest)"
      unfolding marker_def Let_def l1_def [symmetric] using False by presburger
    with assms have "strip_prefix RULE_MARK l1 \<noteq> None" by (cases "strip_prefix RULE_MARK l1") simp_all
    then obtain rest where "strip_prefix RULE_MARK l1 = Some rest" by blast
    then show ?thesis using mark_heads(3) by (simp add: strip_prefix_eq_Some)
  qed
  then show ?thesis unfolding l1_def
    by (rule prefix_dropWhile [OF _ trim_end_bytes_prefix mark_heads(4)])
qed

lemma plain_unmarked: "plain_line l \<Longrightarrow> marker l = None"
  using marker_prefix [of l] unfolding plain_line_def by (cases "marker l") blast+

lemma eol_cases: "eol crlf = LF # [] \<or> eol crlf = CR # LF # []"
  by (simp add: eol_def)

lemma eol_set: "set p \<inter> {CR, LF} = {} \<Longrightarrow> set p \<inter> set (eol crlf) = {}"
  by (auto simp: eol_def)

lemma prefix_before:
  assumes "prefix p (u @ v)" "set p \<inter> set v = {}"
  shows "prefix p u"
proof (rule ccontr)
  assume "\<not> prefix p u"
  with assms(1) obtain w where w: "p = u @ w" "prefix w v" by (auto simp: prefix_append)
  with \<open>\<not> prefix p u\<close> have "w \<noteq> []" by auto
  moreover have "set w \<subseteq> set v" using w(2) by (simp add: set_mono_prefix)
  ultimately show False using assms(2) w(1) by (cases w) auto
qed

lemma unindent_eol: "unindent (l @ eol crlf) = unindent l @ eol crlf"
  by (induction l) (simp_all add: eol_def)

lemma plain_line_eol: "plain_line l \<Longrightarrow> plain_line (l @ eol crlf)"
  unfolding plain_line_def unindent_eol
  by (erule contrapos_nn) (erule prefix_before, rule eol_set, rule mark_heads(5))

lemma unmarked_lines:
  assumes "list_all (\<lambda>l. LF \<notin> set l \<and> plain_line l) ls"
  shows "unmarked (lines_text crlf ls)"
proof -
  have "list_all (\<lambda>l. LF \<notin> set l) ls" using assms by (auto simp: list_all_iff)
  then show ?thesis
    using assms by (auto simp: unmarked_def split_lines_text list_all_iff plain_unmarked plain_line_eol)
qed

section \<open>The markers the merge writes\<close>

definition id_byte :: "char \<Rightarrow> bool" where
  "id_byte b \<longleftrightarrow> is_alnum b \<or> b \<in> {CHR ''-'', CHR ''_'', CHR ''.''}"

lemma id_byte_range: "id_byte b \<Longrightarrow> 45 \<le> byte b \<and> byte b \<le> 122"
  by (auto simp: id_byte_def is_digit_def is_upper_def is_lower_def)

lemma id_byte_plain: "id_byte b \<Longrightarrow> is_ascii b \<and> b \<noteq> CR \<and> b \<noteq> LF \<and> \<not> is_ws [b]"
  using id_byte_range [of b] by (auto simp: is_ascii_def is_ws_def ws_chars_def)

lemma id_ascii:
  assumes "valid_id rid"
  shows "list_all is_ascii rid" "list_all (\<lambda>c. \<not> is_ws [c]) rid" "rid \<noteq> []"
    "CR \<notin> set rid" "LF \<notin> set rid"
proof -
  from assms have "rid \<noteq> []" "list_all id_byte rid"
    by (simp_all add: valid_id_def id_byte_def [abs_def])
  then show "list_all is_ascii rid" "list_all (\<lambda>c. \<not> is_ws [c]) rid" "rid \<noteq> []"
    "CR \<notin> set rid" "LF \<notin> set rid"
    using id_byte_plain by (auto simp: list_all_iff)
qed

lemma trim_end_ascii: "list_all is_ascii s \<Longrightarrow> \<not> is_ws [c] \<Longrightarrow> is_ascii c \<Longrightarrow> trim_end (s @ [c]) = s @ [c]"
  by (simp add: trim_end_def utf8_chars_ascii drop_ws_def rev_map)

lemma trim_end_bytes_eol: "b \<notin> {CR, LF} \<Longrightarrow> trim_end_bytes {CR, LF} ((s @ [b]) @ eol crlf) = s @ [b]"
  by (auto simp: trim_end_bytes_def eol_def)

lemma ws_words_run:
  "list_all (\<lambda>c. \<not> is_ws c) cs \<Longrightarrow> ws_words acc (cs @ ds) = ws_words (acc @ concat cs) ds"
  by (induction cs arbitrary: acc) simp_all

lemma split_words_id:
  assumes "valid_id rid" "list_all is_ascii t"
  shows "split_whitespace (rid @ SP # t) = rid # ws_words [] (map (\<lambda>b. [b]) t)"
proof -
  have ws: "is_ws [SP]" by (simp add: is_ws_def ws_chars_def)
  have "utf8_chars (rid @ SP # t) = map (\<lambda>b. [b]) rid @ [SP] # map (\<lambda>b. [b]) t"
    using assms id_ascii [of rid] by (subst utf8_chars_ascii) (simp_all add: is_ascii_def)
  moreover have "list_all (\<lambda>c. \<not> is_ws c) (map (\<lambda>b. [b]) rid)"
    using id_ascii [OF assms(1)] by (simp add: list_all_iff)
  ultimately show ?thesis
    using id_ascii [OF assms(1)] ws by (simp add: split_whitespace_def ws_words_run)
qed

lemma marker_rule_line:
  assumes "valid_id rid" "list_all is_ascii (t @ [c])" "\<not> is_ws [c]" "c \<notin> {CR, LF}"
  shows "marker ((RULE_MARK @ rid @ SP # t @ [c]) @ eol crlf) = rule_marker (rid @ SP # t @ [c])"
proof -
  let ?l = "RULE_MARK @ rid @ SP # t @ [c]"
  have "trim_end_bytes {CR, LF} (?l @ eol crlf) = ?l"
    using trim_end_bytes_eol [of c "RULE_MARK @ rid @ SP # t" crlf] assms(4) by simp
  moreover have "trim_end ?l = ?l"
    using trim_end_ascii [of "RULE_MARK @ rid @ SP # t" c] assms id_ascii [OF assms(1)]
    by (simp add: RULE_MARK_def is_ascii_def)
  moreover have "unindent ?l = ?l" by (simp add: RULE_MARK_def)
  moreover have "?l \<noteq> REQUIRE_BEGIN" "?l \<noteq> REQUIRE_END"
    by (simp_all add: RULE_MARK_def REQUIRE_BEGIN_def REQUIRE_END_def)
  ultimately show ?thesis
    by (simp add: marker_def Let_def)
qed

lemma markers_written:
  assumes "valid_id rid"
  shows "marker (RULE_MARK @ rid @ '' begin'' @ eol crlf) = Some (RuleBegin rid False)"
    "marker (RULE_MARK @ rid @ '' begin disabled'' @ eol crlf) = Some (RuleBegin rid True)"
    "marker (RULE_MARK @ rid @ '' end'' @ eol crlf) = Some (RuleEnd rid)"
  using marker_rule_line [OF assms, of "''begi''" "CHR ''n''" crlf]
    marker_rule_line [OF assms, of "''begin disable''" "CHR ''d''" crlf]
    marker_rule_line [OF assms, of "''en''" "CHR ''d''" crlf]
  by (simp_all add: is_ascii_def is_ws_def ws_chars_def rule_marker_def split_words_id [OF assms])

lemma require_markers:
  "marker (REQUIRE_BEGIN @ eol crlf) = Some RequireBegin"
  "marker (REQUIRE_END @ eol crlf) = Some RequireEnd"
proof -
  have opens: "trim_end_bytes {CR, LF} (REQUIRE_BEGIN @ eol crlf) = REQUIRE_BEGIN"
    using trim_end_bytes_eol [of "CHR ''n''" "''# mailwoman:require begi''" crlf]
    by (simp add: REQUIRE_BEGIN_def)
  have closes: "trim_end_bytes {CR, LF} (REQUIRE_END @ eol crlf) = REQUIRE_END"
    using trim_end_bytes_eol [of "CHR ''d''" "''# mailwoman:require en''" crlf]
    by (simp add: REQUIRE_END_def)
  have "trim_end REQUIRE_BEGIN = REQUIRE_BEGIN" "trim_end REQUIRE_END = REQUIRE_END"
    using trim_end_ascii [of "''# mailwoman:require begi''" "CHR ''n''"]
      trim_end_ascii [of "''# mailwoman:require en''" "CHR ''d''"]
    by (simp_all add: REQUIRE_BEGIN_def REQUIRE_END_def is_ascii_def is_ws_def ws_chars_def)
  moreover have "unindent REQUIRE_BEGIN = REQUIRE_BEGIN" "unindent REQUIRE_END = REQUIRE_END"
    "REQUIRE_END \<noteq> REQUIRE_BEGIN"
    by (simp_all add: REQUIRE_BEGIN_def REQUIRE_END_def)
  ultimately show "marker (REQUIRE_BEGIN @ eol crlf) = Some RequireBegin"
    "marker (REQUIRE_END @ eol crlf) = Some RequireEnd"
    using opens closes by (simp_all add: marker_def Let_def)
qed

section \<open>The interface to the generator\<close>

definition comment_body :: "bool \<Rightarrow> string list \<Rightarrow> string" where
  "comment_body crlf ls = lines_text crlf (map (\<lambda>l. ''# '' @ l) ls)"

locale rule_text =
  fixes lines_of :: "rule \<Rightarrow> string list" and norm :: "rule \<Rightarrow> rule"
  assumes no_break: "l \<in> set (lines_of r) \<Longrightarrow> LF \<notin> set l \<and> CR \<notin> set l"
    and plain: "l \<in> set (lines_of r) \<Longrightarrow> plain_line l \<and> plain_line (''# '' @ l)"
    and reads: "parse (lines_text crlf (lines_of r)) = Some (Inr [norm r])"
begin

definition body_lines :: "rule \<Rightarrow> string list" where
  "body_lines r = (if enabled r then lines_of r else map (\<lambda>l. ''# '' @ l) (lines_of r))"

definition block_text :: "bool \<Rightarrow> rule \<Rightarrow> string" where
  "block_text crlf r = with_eol crlf (rule_block r (lines_text False (lines_of r)))"

definition block_seg :: "bool \<Rightarrow> rule \<Rightarrow> segment" where
  "block_seg crlf r = SRule (rule_id r) (\<not> enabled r) (block_text crlf r)
     (lines_text crlf (body_lines r))"

definition begin_line :: "rule \<Rightarrow> string" where
  "begin_line r = RULE_MARK @ rule_id r @ (if enabled r then '' begin'' else '' begin disabled'')"

lemma body_no_break: "list_all (\<lambda>l. LF \<notin> set l) (body_lines r)"
  using no_break by (auto simp: body_lines_def list_all_iff)

lemma body_unmarked: "unmarked (lines_text crlf (body_lines r))"
  using no_break plain by (intro unmarked_lines) (auto simp: body_lines_def list_all_iff)

lemma block_lines: "valid_id (rule_id r) \<Longrightarrow> block_text crlf r =
    (begin_line r @ eol crlf) @ lines_text crlf (body_lines r) @ (RULE_MARK @ rule_id r @ '' end'') @ eol crlf"
proof -
  assume "valid_id (rule_id r)"
  note rid = id_ascii(5) [OF this]
  have "rule_block r (lines_text False (lines_of r)) =
      lines_text False (begin_line r # body_lines r @ [RULE_MARK @ rule_id r @ '' end''])"
  proof (cases "enabled r")
    case True
    then show ?thesis
      by (simp add: rule_block_def begin_line_def body_lines_def eol_def lines_text_def)
  next
    case False
    have "str_lines (lines_text False (lines_of r)) = lines_of r"
      using no_break by (intro str_lines_text) (auto simp: list_all_iff)
    with False show ?thesis
      by (simp add: rule_block_def begin_line_def body_lines_def eol_def lines_text_def o_def)
  qed
  moreover have "list_all (\<lambda>l. LF \<notin> set l) (begin_line r # body_lines r @ [RULE_MARK @ rule_id r @ '' end''])"
    using rid body_no_break [of r] by (simp add: begin_line_def RULE_MARK_def)
  ultimately show ?thesis
    by (simp only: block_text_def with_eol_lines_text) (simp add: lines_text_def)
qed

lemma block_ok:
  assumes "valid_id (rule_id r)"
  shows "seg_ok (block_seg crlf r)" "ends_lf (block_text crlf r)"
proof -
  note rid = id_ascii(5) [OF assms]
  have o: "marker (begin_line r @ eol crlf) = Some (RuleBegin (rule_id r) (\<not> enabled r))"
    using markers_written [OF assms, of crlf] by (simp add: begin_line_def)
  have c: "marker ((RULE_MARK @ rule_id r @ '' end'') @ eol crlf) = Some (RuleEnd (rule_id r))"
    using markers_written [OF assms, of crlf] by simp
  have lo: "split_lines (begin_line r @ eol crlf) = [begin_line r @ eol crlf]"
    using split_lines_eol [of "begin_line r" crlf "[]"] rid by (simp add: begin_line_def RULE_MARK_def)
  have lc: "split_lines ((RULE_MARK @ rule_id r @ '' end'') @ eol crlf) = [(RULE_MARK @ rule_id r @ '' end'') @ eol crlf]"
    using split_lines_eol [of "RULE_MARK @ rule_id r @ '' end''" crlf "[]"] rid by (simp add: RULE_MARK_def)
  show "seg_ok (block_seg crlf r)"
    unfolding block_seg_def block_lines [OF assms] seg_ok.simps
    by (rule bracketedI [OF lo _ o ends_lf_lines_text body_unmarked lc c]) simp
  show "ends_lf (block_text crlf r)"
    unfolding block_lines [OF assms] by (simp add: ends_lf_append ends_lf_lines_text flip: append_assoc)
qed

lemma uncomment: "uncomment_line ((''# '' @ l) @ e) = l @ e"
  by (simp add: uncomment_line_def strip_prefix_def)

lemma block_reads:
  "read_rule (rule_id r) (\<not> enabled r) (lines_text crlf (body_lines r)) =
     Some (Inr ((norm r)\<lparr>rule_id := rule_id r, enabled := enabled r\<rparr>))"
proof (cases "enabled r")
  case True
  then show ?thesis by (simp add: read_rule_def body_lines_def reads)
next
  case False
  then have "map uncomment_line (split_lines (lines_text crlf (body_lines r))) =
      map (\<lambda>l. l @ eol crlf) (lines_of r)"
    using body_no_break [of r] by (simp add: split_lines_text body_lines_def o_def uncomment del: append_Cons append_Nil append_assoc)
  then have "concat (map uncomment_line (split_lines (lines_text crlf (body_lines r)))) =
      lines_text crlf (lines_of r)"
    by (simp add: lines_text_def)
  with False show ?thesis by (simp add: read_rule_def reads)
qed

end

section \<open>The lines of a generated rule\<close>

definition action_line :: "action \<Rightarrow> string" where
  "action_line a = fst (render_action a)"

definition guard_line :: "rule \<Rightarrow> string" where
  "guard_line r = ''if '' @ lex_text (guard_lexemes (match_all r) (conditions r)) @ '' {''"

definition rule_lines :: "rule \<Rightarrow> string list" where
  "rule_lines r = (''# rule: '' @ sanitize_comment (rule_name r)) #
     (if conditions r = [] then map action_line (actions r)
      else guard_line r # map (\<lambda>a. ''    '' @ action_line a) (actions r) @ [''}''])"

lemma concat_concat_map: "concat (concat (map f xs)) = concat (map (\<lambda>x. concat (f x)) xs)"
  by (induction xs) simp_all

lemma generate_rule_lines: "fst (generate_rule r) = lines_text False (rule_lines r)"
  by (simp add: generate_rule_def render_rule_eq rule_lexemes_def rule_lines_def guard_line_def
      bare_lexemes_def block_lexemes_def action_line_def render_action_text lines_text_def eol_def
      o_def map_concat concat_concat_map)
lemma fit_no_break:
  "all_fit ls r \<Longrightarrow> LxNewline \<notin> set ls \<Longrightarrow> LF \<notin> set (lex_text ls) \<and> CR \<notin> set (lex_text ls)"
proof (induction ls)
  case (Cons l ls)
  have "LF \<notin> set (quote p) \<and> CR \<notin> set (quote p)" for p
    by (induction p) (auto simp: quote_def quote_char_def)
  moreover have "\<not> word_byte LF" "\<not> word_byte CR" by (simp_all add: word_byte_def is_delim_def)
  ultimately have "LF \<notin> set (lexeme_text l) \<and> CR \<notin> set (lexeme_text l)"
    using Cons.prems by (cases l) (auto simp: word_ok_def list_all_iff simp del: quote_append)
  with Cons show ?case by auto
qed simp

lemma condition_no_newline: "LxNewline \<notin> set (condition_lexemes c)"
  by (cases c) (auto simp: test_lexemes_def)

lemma action_no_newline: "LxNewline \<notin> set (action_lexemes a)"
  by (cases a) (auto simp: command_lexemes_def)

lemma join_no_newline:
  "LxNewline \<notin> set sep \<Longrightarrow> list_all (\<lambda>ls. LxNewline \<notin> set ls) lss \<Longrightarrow> LxNewline \<notin> set (join sep lss)"
  by (induction sep lss rule: join.induct) simp_all

lemma guard_no_newline: "LxNewline \<notin> set (guard_lexemes m cs)"
proof -
  have "list_all (\<lambda>ls. LxNewline \<notin> set ls) (map condition_lexemes cs)"
    by (simp add: list_all_iff condition_no_newline)
  then show ?thesis
    by (auto simp: guard_lexemes_def condition_no_newline join_no_newline split: list.split)
qed

lemma action_line_no_break: "LF \<notin> set (action_line a) \<and> CR \<notin> set (action_line a)"
  unfolding action_line_def render_action_text
  by (rule fit_no_break [where r = "[]"]) (simp_all add: action_fit action_no_newline)

lemma guard_line_no_break: "LF \<notin> set (guard_line r) \<and> CR \<notin> set (guard_line r)"
  using fit_no_break [of "guard_lexemes (match_all r) (conditions r)" "[]"]
  by (simp add: guard_line_def guard_fit guard_no_newline)

lemma rule_line_no_break: "l \<in> set (rule_lines r) \<Longrightarrow> LF \<notin> set l \<and> CR \<notin> set l"
  using action_line_no_break guard_line_no_break
  by (auto simp: rule_lines_def sanitize_no_newline split: if_splits)

lemma action_line_plain:
  "plain_line (action_line a)" "plain_line (''    '' @ action_line a)"
  "plain_line (''# '' @ action_line a)" "plain_line (''#     '' @ action_line a)"
  by (cases a; simp add: action_line_def plain_line_def mark_head_def)+

lemma rule_line_plain: "l \<in> set (rule_lines r) \<Longrightarrow> plain_line l \<and> plain_line (''# '' @ l)"
  using action_line_plain
  by (auto simp: rule_lines_def guard_line_def plain_line_def mark_head_def split: if_splits)

lemma parse_lone_rule: "parse (lex_text (rule_lexemes r)) = Some (Inr [norm_rule (dec_str (Suc 0)) r])"
  using parse_rules_toks [of "[]" 0 "[r]"]
  by (simp add: parse_def tokenize_generated rule_fit rule_toks)

section \<open>Scanning text with carriage returns\<close>

lemma trim_cr: "CR \<notin> set c \<Longrightarrow> trim_end_bytes {CR} (c @ [CR]) = c"
  by (cases c rule: rev_exhaust) (auto simp: trim_end_bytes_def)

abbreviation "crlf_text \<equiv> with_eol True"

lemma crlf_plain:
  "fits l r \<Longrightarrow> l \<noteq> LxNewline \<Longrightarrow> crlf_text (lexeme_text l @ r) = lexeme_text l @ crlf_text r"
  using fit_no_break [of "[l]" r] by (simp add: with_eol_append with_eol_plain del: lexeme_text.simps)

lemma crlf_starts: "starts_delim r \<Longrightarrow> starts_delim (crlf_text r)"
  by (cases r) (auto simp: with_eol_def is_delim_def)

lemma crlf_starts_lf: "starts_lf r \<Longrightarrow> crlf_text r = [] \<or> (\<exists>r'. crlf_text r = CR # LF # r')"
  by (cases r) (auto simp: with_eol_LF eol_def)

lemma tokenize_cr: "tokenize_impl keep (CR # s) = tokenize_impl keep s"
  by (simp add: tokenize_impl.simps(2))

lemma tokenize_comment_cr:
  assumes "c = SP # c'" "LF \<notin> set c" "CR \<notin> set c"
  shows "tokenize_impl keep (CHR ''#'' # c @ CR # LF # r) =
     tok_out keep (LxComment c) (tokenize_impl keep (CR # LF # r))"
proof -
  have "takeWhile (\<lambda>c. c \<noteq> LF) (c @ CR # LF # r) = c @ [CR]"
    "dropWhile (\<lambda>c. c \<noteq> LF) (c @ CR # LF # r) = LF # r"
    using assms(2) by (simp_all add: takeWhile_append dropWhile_append)
  moreover have "boundary (c @ CR # LF # r)" "\<not> is_cont LF" using assms(1) by (simp_all add: is_cont_def)
  ultimately show ?thesis
    using assms(3) by (simp add: tokenize_impl.simps(2) trim_cr tok_out_def lexeme_tokens_def)
qed

lemma tokenize_crlf_lexeme:
  assumes fit: "fits l r"
  shows "tokenize_impl keep (crlf_text (lexeme_text l @ r)) = tok_out keep l (tokenize_impl keep (crlf_text r))"
proof (cases "fits l (crlf_text r) \<and> l \<noteq> LxNewline")
  case True
  then show ?thesis using crlf_plain [OF fit] tokenize_lexeme by presburger
next
  case False
  show ?thesis
  proof (cases l)
    case LxNewline
    then show ?thesis
      by (simp add: with_eol_LF eol_def tokenize_impl.simps(2) tok_out_def lexeme_tokens_def)
  next
    case (LxComment c)
    with fit obtain c' where c: "c = SP # c'" "LF \<notin> set c" "CR \<notin> set c" "starts_lf r" by auto
    with False LxComment have "\<not> starts_lf (crlf_text r)" by auto
    with crlf_starts_lf [OF c(4)] obtain r' where r: "crlf_text r = CR # LF # r'" by auto
    have "crlf_text (lexeme_text l @ r) = CHR ''#'' # c @ CR # LF # r'"
      using crlf_plain [OF fit] LxComment r by simp
    with tokenize_comment_cr [OF c(1,2,3)] LxComment r show ?thesis by presburger
  next
    case (LxPunct p)
    with fit False have p: "p = CHR ''{''" "starts_lf r" by auto
    with False LxPunct crlf_starts_lf [OF p(2)] obtain r' where r: "crlf_text r = CR # LF # r'" by auto
    have "scan_literal (CR # LF # r') = None" by (simp add: scan_literal_def is_digit_def)
    with crlf_plain [OF fit] LxPunct p(1) r show ?thesis
      by (simp add: tokenize_impl.simps(2) tok_out_def lexeme_tokens_def)
  qed (use False fit crlf_starts in auto)
qed

interpretation crlf_tok: lexeme_scanner "\<lambda>s. tokenize_impl keep (crlf_text s)" "tok_out keep" for keep
  by unfold_locales (rule tokenize_crlf_lexeme)

lemma parse_crlf:
  assumes "all_fit ls []"
  shows "parse (with_eol crlf (lex_text ls)) = parse (lex_text ls)"
proof (cases crlf)
  case True
  have "tokenize_impl True (with_eol True (lex_text ls)) = tokenize_impl True (lex_text ls)"
    using crlf_tok.scan_text [OF assms, of True] tok.scan_text [OF assms, of True] by simp
  with True show ?thesis by (simp add: parse_def tokenize_with_comments_def)
qed (simp add: with_eol_def)

interpretation builder: rule_text rule_lines "norm_rule (dec_str (Suc 0))"
proof
  fix l r
  assume "l \<in> set (rule_lines r)"
  then show "LF \<notin> set l \<and> CR \<notin> set l" "plain_line l \<and> plain_line (''# '' @ l)"
    by (rule rule_line_no_break, rule rule_line_plain)
next
  fix crlf r
  have "lines_text crlf (rule_lines r) = with_eol crlf (lex_text (rule_lexemes r))"
    using with_eol_lines_text [of "rule_lines r" crlf] rule_line_no_break [of _ r]
      generate_rule_lines [of r] by (simp add: generate_rule_def render_rule_eq list_all_iff)
  then show "parse (lines_text crlf (rule_lines r)) = Some (Inr [norm_rule (dec_str (Suc 0)) r])"
    by (simp add: parse_crlf rule_fit parse_lone_rule)
qed

section \<open>The pieces of a merged script\<close>

definition req_seg :: "string option \<Rightarrow> segment list" where
  "req_seg req = (case req of None \<Rightarrow> [] | Some t \<Rightarrow> [SRequire t])"

fun refill :: "bool \<Rightarrow> string set \<Rightarrow> string option \<Rightarrow> segment list \<Rightarrow> rule list \<Rightarrow> segment list" where
  "refill crlf ids req [] rs = []"
| "refill crlf ids req (SText t # segs) rs = SText t # refill crlf ids req segs rs"
| "refill crlf ids req (SRequire t # segs) rs = req_seg req @ refill crlf ids req segs rs"
| "refill crlf ids req (SRule rid d t body # segs) rs =
     (if rid \<in> ids then (case rs of [] \<Rightarrow> refill crlf ids req segs []
        | r # rest \<Rightarrow> builder.block_seg crlf r # refill crlf ids req segs rest)
      else refill crlf ids req segs rs)"

abbreviation "texts ps \<equiv> concat (map seg_text ps)"

definition has_block :: "bool \<Rightarrow> (string \<rightharpoonup> string) \<Rightarrow> rule \<Rightarrow> bool" where
  "has_block crlf blocks r \<longleftrightarrow> blocks (rule_id r) = Some (builder.block_text crlf r)"

lemma block_seg_text [simp]: "seg_text (builder.block_seg crlf r) = builder.block_text crlf r"
  by (simp add: builder.block_seg_def)

lemma req_seg_text [simp]: "texts (req_seg req) = opt_text req"
  by (simp add: req_seg_def opt_text_def split: option.split)

lemma merge_slots_refill:
  "list_all (has_block crlf blocks) rs \<Longrightarrow>
   merge_slots ids blocks req segs (map rule_id rs) out = Some (out @ texts (refill crlf ids req segs rs))"
proof (induction crlf ids req segs rs arbitrary: out rule: refill.induct)
  case (4 crlf ids req rid d t body segs rs)
  then show ?case by (cases rs) (auto simp: has_block_def)
qed simp_all

definition gap :: "bool \<Rightarrow> string \<Rightarrow> rule list \<Rightarrow> string" where
  "gap crlf out new = (if new = [] \<or> ends_lf out then [] else eol crlf)"

lemma block_text_end:
  "valid_id (rule_id r) \<Longrightarrow> ends_lf (s @ builder.block_text crlf r)"
  using builder.block_ok(2) [of r crlf]
  by (auto simp: ends_lf_def builder.block_lines builder.begin_line_def RULE_MARK_def)

lemma merge_new_blocks:
  assumes "list_all (has_block crlf blocks) rs" "list_all (\<lambda>r. valid_id (rule_id r)) rs"
  shows "merge_new crlf surv blocks rs out =
    (let new = filter (\<lambda>r. rule_id r \<notin> surv) rs
     in Some (out @ gap crlf out new @ texts (map (builder.block_seg crlf) new)))"
  using assms
proof (induction rs arbitrary: out)
  case (Cons r rs)
  show ?case
  proof (cases "rule_id r \<in> surv")
    case False
    have gap: "gap crlf (s @ builder.block_text crlf r) new = []" for s new
      using block_text_end [of r s crlf] Cons.prems(2) by (simp add: gap_def)
    define out1 where "out1 = (if out \<noteq> [] \<and> last out \<noteq> LF then out @ eol crlf else out)"
    have "merge_new crlf surv blocks (r # rs) out = merge_new crlf surv blocks rs (out1 @ builder.block_text crlf r)"
      using False Cons.prems(1) by (simp add: has_block_def out1_def eol_def)
    moreover have "out1 = out @ gap crlf out (r # rs')" for rs'
      by (auto simp: out1_def gap_def ends_lf_def)
    ultimately show ?thesis
      using Cons False gap by (simp add: Let_def)
  qed (use Cons in \<open>simp add: Let_def\<close>)
qed (simp add: gap_def)

lemma collect_blocks_other:
  "k \<notin> rule_id ` set rs \<Longrightarrow> snd (collect_blocks crlf rs exts blocks) k = blocks k"
  by (induction rs arbitrary: exts blocks) (auto simp: split_beta Let_def)

lemma collect_blocks_has:
  "distinct (map rule_id rs) \<Longrightarrow> list_all (has_block crlf (snd (collect_blocks crlf rs exts blocks))) rs"
proof (induction rs arbitrary: exts blocks)
  case (Cons r rs)
  have "snd (collect_blocks crlf (r # rs) exts blocks) (rule_id r) = Some (builder.block_text crlf r)"
    using Cons.prems collect_blocks_other [of "rule_id r" rs crlf]
    by (auto simp: split_beta Let_def builder.block_text_def generate_rule_lines)
  with Cons show ?case by (simp add: has_block_def split_beta Let_def)
qed simp

section \<open>Their shape\<close>

lemma require_seg_ok:
  assumes "managed_require crlf exts = Some t"
  shows "seg_ok (SRequire t)" "ends_lf t"
proof -
  define inner where "inner = ''require ['' @ join '', '' (map quote (sorted_list_of_set exts)) @ ''];''"
  have q: "LF \<notin> set (quote p) \<and> CR \<notin> set (quote p)" for p
    by (induction p) (auto simp: quote_def quote_char_def)
  have "LF \<notin> set (join '', '' (map quote es))" for es
    by (induction es rule: induct_list012) (use q in \<open>auto simp del: quote_append\<close>)
  then have lf: "LF \<notin> set inner" by (simp add: inner_def)
  have plain: "plain_line inner" by (simp add: inner_def plain_line_def mark_head_def)
  have "t = with_eol crlf (lines_text False [REQUIRE_BEGIN, inner, REQUIRE_END])"
    using assms by (simp add: managed_require_def require_line_def inner_def eol_def split: if_splits)
  moreover have "LF \<notin> set REQUIRE_BEGIN" "LF \<notin> set REQUIRE_END"
    by (simp_all add: REQUIRE_BEGIN_def REQUIRE_END_def)
  ultimately have t: "t = (REQUIRE_BEGIN @ eol crlf) @ (inner @ eol crlf) @ REQUIRE_END @ eol crlf"
    using lf by (subst (asm) with_eol_lines_text) simp_all
  have lines: "split_lines (REQUIRE_BEGIN @ eol crlf) = [REQUIRE_BEGIN @ eol crlf]"
    "split_lines (REQUIRE_END @ eol crlf) = [REQUIRE_END @ eol crlf]"
    using split_lines_eol [of REQUIRE_BEGIN crlf "[]"] split_lines_eol [of REQUIRE_END crlf "[]"]
    by (simp_all add: REQUIRE_BEGIN_def REQUIRE_END_def)
  have "unmarked (inner @ eol crlf)"
    using unmarked_lines [of "[inner]" crlf] lf plain by simp
  from bracketedI [OF lines(1) _ require_markers(1) _ this lines(2) require_markers(2)]
  have br: "bracketed RequireBegin RequireEnd t (inner @ eol crlf)" by (simp add: t)
  then have "concat (butlast (tl (split_lines t))) = inner @ eol crlf"
    by (auto simp: bracketed_def split: list.splits)
  with br show "seg_ok (SRequire t)" by simp
  show "ends_lf t" unfolding t by (simp flip: append_assoc)
qed

definition req_ok :: "string option \<Rightarrow> bool" where
  "req_ok req \<longleftrightarrow> (\<forall>t. req = Some t \<longrightarrow> seg_ok (SRequire t) \<and> ends_lf t)"

lemma managed_req_ok: "req_ok (managed_require crlf exts)"
  using require_seg_ok by (simp add: req_ok_def)

lemma req_seg_facts [simp]:
  "req_ok req \<Longrightarrow> list_all piece_ok (req_seg req)"
  "req_ok req \<Longrightarrow> list_all (\<lambda>s. ends_lf (seg_text s)) (req_seg req)"
  "rule_ids (req_seg req) = []" "List.map_filter text_of (req_seg req) = []"
  by (auto simp: req_seg_def req_ok_def List.map_filter_def split: option.split)

abbreviation whole :: "segment \<Rightarrow> bool" where
  "whole s \<equiv> ends_lf (seg_text s)"

lemma block_piece:
  "valid_id (rule_id r) \<Longrightarrow> piece_ok (builder.block_seg crlf r) \<and> whole (builder.block_seg crlf r)"
  using builder.block_ok [of r crlf] by (simp add: builder.block_seg_def)

lemma req_seg_whole:
  "req_ok req \<Longrightarrow> list_all whole (butlast ps) \<Longrightarrow> list_all whole (butlast (req_seg req @ ps))"
  by (auto simp: req_seg_def req_ok_def butlast_append split: option.split)

lemma req_seg_weak: "req_ok req \<Longrightarrow> list_all (\<lambda>s. whole s \<or> is_text s) (req_seg req)"
  by (auto simp: req_seg_def req_ok_def split: option.split)

lemma refill_ok:
  assumes "list_all seg_ok segs" "list_all whole (butlast segs)" "req_ok req"
    "list_all (\<lambda>r. valid_id (rule_id r)) rs"
  shows "list_all piece_ok (refill crlf ids req segs rs)"
    "list_all whole (butlast (refill crlf ids req segs rs))"
    "list_all (\<lambda>s. whole s \<or> is_text s) (refill crlf ids req segs rs)"
proof -
  have head: "list_all whole (butlast (s # ps))" if "whole s" "list_all whole (butlast ps)" for s ps
    using that by (cases ps) simp_all
  have "list_all piece_ok (refill crlf ids req segs rs) \<and>
    list_all whole (butlast (refill crlf ids req segs rs)) \<and>
    list_all (\<lambda>s. whole s \<or> is_text s) (refill crlf ids req segs rs)"
    using assms
  proof (induction crlf ids req segs rs rule: refill.induct)
    case (2 crlf ids req t segs rs)
    then show ?case by (cases segs) auto
  next
    case (3 crlf ids req t segs rs)
    then show ?case by (cases segs) (auto simp: req_seg_whole req_seg_weak req_seg_whole [where ps = "[]", simplified])
  next
    case (4 crlf ids req rid d t body segs rs)
    then have but: "list_all whole (butlast segs)" by (cases segs) simp_all
    show ?case
    proof (cases rs)
      case (Cons r rest)
      with 4 but block_piece [of r crlf] show ?thesis by (auto intro: head)
    qed (use 4 but in simp)
  qed simp
  then show "list_all piece_ok (refill crlf ids req segs rs)"
    "list_all whole (butlast (refill crlf ids req segs rs))"
    "list_all (\<lambda>s. whole s \<or> is_text s) (refill crlf ids req segs rs)" by blast+
qed

lemma refill_texts: "concat (List.map_filter text_of (refill crlf ids req segs rs)) =
    concat (List.map_filter text_of segs)"
proof (induction crlf ids req segs rs rule: refill.induct)
  case (4 crlf ids req rid d t body segs rs)
  then show ?case by (cases rs) (auto simp: List.map_filter_def builder.block_seg_def)
qed (auto simp: List.map_filter_def req_seg_def split: option.split)

definition is_rule :: "segment \<Rightarrow> bool" where
  "is_rule s \<longleftrightarrow> rule_slot s \<noteq> None"

lemma refill_rules:
  "length rs = length (filter (\<lambda>rid. rid \<in> ids) (rule_ids segs)) \<Longrightarrow>
   filter is_rule (refill crlf ids req segs rs) = map (builder.block_seg crlf) rs"
proof (induction crlf ids req segs rs rule: refill.induct)
  case (4 crlf ids req rid d t body segs rs)
  then show ?case by (cases rs) (auto simp: is_rule_def builder.block_seg_def split: if_splits)
qed (auto simp: is_rule_def req_seg_def split: option.split)

lemma refill_requires: "length (filter is_req_seg (refill crlf ids req segs rs)) \<le> length (filter is_req_seg segs)"
proof (induction crlf ids req segs rs rule: refill.induct)
  case (4 crlf ids req rid d t body segs rs)
  then show ?case by (cases rs) (auto simp: builder.block_seg_def)
qed (auto simp: req_seg_def split: option.split)

lemma rule_ids_filter: "rule_ids ps = rule_ids (filter is_rule ps)"
proof (induction ps)
  case (Cons s ps)
  then show ?case by (cases s) (simp_all add: is_rule_def)
qed simp

lemma rule_ids_blocks: "rule_ids (map (builder.block_seg crlf) rs) = map rule_id rs"
  by (induction rs) (simp_all add: builder.block_seg_def)

text \<open>A line ending added after a last text that has none.\<close>

definition pad :: "string \<Rightarrow> segment list \<Rightarrow> segment list" where
  "pad g ps = (if g = [] then ps else butlast ps @ [SText (seg_text (last ps) @ g)])"

lemma marker_eol: "marker (l @ eol crlf) = marker l"
  by (simp add: marker_def trim_end_bytes_def eol_def)

lemma split_lines_short: "LF \<notin> set l \<Longrightarrow> split_lines l = (if l = [] then [] else [l])"
  by (induction l) (auto split: list.splits)

lemma whole_texts: "list_all whole ps \<Longrightarrow> ends_lf (texts ps)"
  by (induction ps) (simp_all add: ends_lf_append)

lemma unmarked_eol:
  assumes "unmarked t" "\<not> ends_lf t"
  shows "unmarked (t @ eol crlf)"
proof -
  obtain u l where t: "t = u @ l" "ends_lf u" "LF \<notin> set l" "l \<noteq> []"
  proof -
    define l where "l = rev (takeWhile (\<lambda>b. b \<noteq> LF) (rev t))"
    define u where "u = rev (dropWhile (\<lambda>b. b \<noteq> LF) (rev t))"
    have "t = u @ l" by (metis l_def u_def rev_append rev_rev_ident takeWhile_dropWhile_id)
    moreover have "ends_lf u"
      using hd_dropWhile [of "\<lambda>b. b \<noteq> LF" "rev t"] by (auto simp: u_def ends_lf_def last_rev)
    moreover have "LF \<notin> set l" by (auto simp: l_def dest: set_takeWhileD)
    moreover have "l \<noteq> []" using \<open>t = u @ l\<close> \<open>ends_lf u\<close> assms(2) by auto
    ultimately show thesis by (rule that)
  qed
  have "split_lines (l @ eol crlf) = [l @ eol crlf]"
    using split_lines_eol [OF t(3), of crlf "[]"] by simp
  with t assms(1) split_lines_short [OF t(3)] show ?thesis
    by (simp add: unmarked_def split_lines_append marker_eol)
qed

lemma pad_facts:
  assumes "list_all piece_ok ps" "list_all whole (butlast ps)" "list_all (\<lambda>s. whole s \<or> is_text s) ps"
    "g = (if ends_lf (texts ps) then [] else eol crlf)"
  shows "list_all piece_ok (pad g ps)" "list_all whole (pad g ps)" "texts (pad g ps) = texts ps @ g"
    "filter is_rule (pad g ps) = filter is_rule ps"
    "filter is_req_seg (pad g ps) = filter is_req_seg ps"
    "concat (List.map_filter text_of (pad g ps)) = concat (List.map_filter text_of ps) @ g"
proof -
  have "list_all piece_ok (pad g ps) \<and> list_all whole (pad g ps) \<and> texts (pad g ps) = texts ps @ g \<and>
    filter is_rule (pad g ps) = filter is_rule ps \<and> filter is_req_seg (pad g ps) = filter is_req_seg ps \<and>
    concat (List.map_filter text_of (pad g ps)) = concat (List.map_filter text_of ps) @ g"
  proof (cases ps rule: rev_exhaust)
    case Nil
    then show ?thesis using assms(4) by (simp add: pad_def)
  next
    case (snoc qs s)
    show ?thesis
    proof (cases "ends_lf (texts ps)")
      case True
      have "whole s"
      proof (cases "seg_text s" rule: rev_exhaust)
        case (snoc u b)
        with True \<open>ps = qs @ [s]\<close> show ?thesis by (simp add: ends_lf_def)
      qed simp
      with True snoc assms show ?thesis by (simp add: pad_def)
    next
      case False
      then have g: "g = eol crlf" "g \<noteq> []" using assms(4) by (simp_all add: eol_def)
      have "ends_lf (texts qs)" using assms(2) snoc by (simp add: whole_texts)
      with False snoc have "\<not> whole s" by (auto intro: ends_lf_append)
      with assms(3) snoc obtain t where s: "s = SText t" "\<not> ends_lf t" by (cases s) auto
      have "unmarked (t @ g)" using unmarked_eol [OF _ s(2)] assms(1) snoc s g by simp
      with assms snoc s g show ?thesis
        by (simp add: pad_def is_rule_def List.map_filter_def)
    qed
  qed
  then show "list_all piece_ok (pad g ps)" "list_all whole (pad g ps)" "texts (pad g ps) = texts ps @ g"
    "filter is_rule (pad g ps) = filter is_rule ps"
    "filter is_req_seg (pad g ps) = filter is_req_seg ps"
    "concat (List.map_filter text_of (pad g ps)) = concat (List.map_filter text_of ps) @ g" by blast+
qed

section \<open>The merged script\<close>

definition ids_ok :: "rule list \<Rightarrow> bool" where
  "ids_ok rs \<longleftrightarrow> list_all (\<lambda>r. valid_id (rule_id r)) rs \<and> distinct (map rule_id rs)"

lemma check_ids_iff:
  "check_ids rs ids = Inr ids' \<longleftrightarrow> ids_ok rs \<and> set (map rule_id rs) \<inter> ids = {} \<and>
     ids' = ids \<union> set (map rule_id rs)"
  by (induction rs ids rule: check_ids.induct) (auto simp: ids_ok_def)

text \<open>The rules that keep a block of the script, and the ones that get a new one at its end.\<close>

definition kept_rules :: "segment list \<Rightarrow> rule list \<Rightarrow> rule list" where
  "kept_rules segs rs = filter (\<lambda>r. rule_id r \<in> set (rule_ids segs)) rs"

definition new_rules :: "segment list \<Rightarrow> rule list \<Rightarrow> rule list" where
  "new_rules segs rs = filter (\<lambda>r. rule_id r \<notin> set (rule_ids segs)) rs"

definition body_pieces :: "bool \<Rightarrow> string option \<Rightarrow> segment list \<Rightarrow> rule list \<Rightarrow> segment list" where
  "body_pieces crlf req segs rs = (if list_ex is_req_seg segs then [] else req_seg req) @
     refill crlf (set (map rule_id rs)) req segs (kept_rules segs rs)"

definition merged_pieces :: "bool \<Rightarrow> string option \<Rightarrow> segment list \<Rightarrow> rule list \<Rightarrow> segment list" where
  "merged_pieces crlf req segs rs = (let ps = body_pieces crlf req segs rs; new = new_rules segs rs
     in (if new = [] then ps else pad (gap crlf (texts ps) new) ps) @ map (builder.block_seg crlf) new)"

lemma map_filter_append: "List.map_filter f (xs @ ys) = List.map_filter f xs @ List.map_filter f ys"
  by (simp add: List.map_filter_def)

lemma kept_count:
  assumes "distinct (map rule_id rs)" "distinct (rule_ids segs)"
  shows "length (kept_rules segs rs) =
    length (filter (\<lambda>rid. rid \<in> set (map rule_id rs)) (rule_ids segs))"
proof -
  have "length (kept_rules segs rs) = card (set (map rule_id (kept_rules segs rs)))"
    using assms(1) by (metis distinct_card distinct_map_filter kept_rules_def length_map)
  also have "set (map rule_id (kept_rules segs rs)) =
      set (filter (\<lambda>rid. rid \<in> set (map rule_id rs)) (rule_ids segs))"
    by (auto simp: kept_rules_def)
  finally show ?thesis using assms(2) by (simp only: distinct_card distinct_filter)
qed

lemma body_pieces_facts:
  assumes "segs_ok segs" "ids_ok rs" "req_ok req"
  shows "list_all piece_ok (body_pieces crlf req segs rs)"
    "list_all whole (butlast (body_pieces crlf req segs rs))"
    "list_all (\<lambda>s. whole s \<or> is_text s) (body_pieces crlf req segs rs)"
    "filter is_rule (body_pieces crlf req segs rs) = map (builder.block_seg crlf) (kept_rules segs rs)"
    "length (filter is_req_seg (body_pieces crlf req segs rs)) \<le> 1"
    "concat (List.map_filter text_of (body_pieces crlf req segs rs)) =
       concat (List.map_filter text_of segs)"
proof -
  have valid: "list_all (\<lambda>r. valid_id (rule_id r)) (kept_rules segs rs)"
    using assms(2) by (auto simp: ids_ok_def kept_rules_def list_all_iff)
  from assms(1) have segs: "list_all seg_ok segs" "list_all whole (butlast segs)"
    by (simp_all add: segs_ok_def)
  note ref = refill_ok [OF segs assms(3) valid, of crlf "set (map rule_id rs)"]
  show "list_all piece_ok (body_pieces crlf req segs rs)"
    "list_all whole (butlast (body_pieces crlf req segs rs))"
    "list_all (\<lambda>s. whole s \<or> is_text s) (body_pieces crlf req segs rs)"
    using ref assms(3) by (simp_all add: body_pieces_def req_seg_whole req_seg_weak)
  have "filter is_rule (req_seg req) = []"
    by (simp add: req_seg_def is_rule_def split: option.split)
  then show "filter is_rule (body_pieces crlf req segs rs) = map (builder.block_seg crlf) (kept_rules segs rs)"
    using refill_rules [OF kept_count] assms(1,2)
    by (simp add: body_pieces_def ids_ok_def segs_ok_def)
  have none: "filter is_req_seg segs = []" if "\<not> list_ex is_req_seg segs"
    using that by (auto simp: list_ex_iff)
  have "length (filter is_req_seg (req_seg req)) \<le> 1"
    by (simp add: req_seg_def split: option.split)
  then show "length (filter is_req_seg (body_pieces crlf req segs rs)) \<le> 1"
    using refill_requires [of crlf "set (map rule_id rs)" req segs "kept_rules segs rs"] none assms(1)
    by (auto simp: body_pieces_def segs_ok_def)
  show "concat (List.map_filter text_of (body_pieces crlf req segs rs)) =
       concat (List.map_filter text_of segs)"
    by (simp add: body_pieces_def map_filter_append refill_texts)
qed

lemma merged_pieces_facts:
  assumes "segs_ok segs" "ids_ok rs" "req_ok req"
  shows "pieces_ok (merged_pieces crlf req segs rs)"
    "texts (merged_pieces crlf req segs rs) = (let ps = body_pieces crlf req segs rs; new = new_rules segs rs
       in texts ps @ gap crlf (texts ps) new @ texts (map (builder.block_seg crlf) new))"
    "filter is_rule (merged_pieces crlf req segs rs) =
       map (builder.block_seg crlf) (kept_rules segs rs @ new_rules segs rs)"
    "concat (List.map_filter text_of (merged_pieces crlf req segs rs)) =
       concat (List.map_filter text_of segs) @ gap crlf (texts (body_pieces crlf req segs rs)) (new_rules segs rs)"
proof -
  define ps where "ps = body_pieces crlf req segs rs"
  define new where "new = new_rules segs rs"
  define qs where "qs = (if new = [] then ps else pad (gap crlf (texts ps) new) ps)"
  note body = body_pieces_facts [OF assms, of crlf, folded ps_def]
  note padded = pad_facts [OF body(1-3) refl]
  have qs: "list_all piece_ok qs" "new \<noteq> [] \<Longrightarrow> list_all whole qs" "list_all whole (butlast qs)"
    "texts qs = texts ps @ gap crlf (texts ps) new" "filter is_rule qs = filter is_rule ps"
    "filter is_req_seg qs = filter is_req_seg ps"
    "concat (List.map_filter text_of qs) = concat (List.map_filter text_of ps) @ gap crlf (texts ps) new"
  proof -
    have "list_all whole (butlast qs)" if "list_all whole qs"
      using that by (auto simp: list_all_iff dest: in_set_butlastD)
    then show "list_all piece_ok qs" "new \<noteq> [] \<Longrightarrow> list_all whole qs" "list_all whole (butlast qs)"
      "texts qs = texts ps @ gap crlf (texts ps) new" "filter is_rule qs = filter is_rule ps"
      "filter is_req_seg qs = filter is_req_seg ps"
      "concat (List.map_filter text_of qs) = concat (List.map_filter text_of ps) @ gap crlf (texts ps) new"
      using body padded [of crlf] by (cases "new = []"; simp add: qs_def gap_def)+
  qed
  have P: "merged_pieces crlf req segs rs = qs @ map (builder.block_seg crlf) new"
    by (simp add: merged_pieces_def Let_def qs_def ps_def new_def)
  have valid: "list_all (\<lambda>r. valid_id (rule_id r)) new"
    using assms(2) by (auto simp: ids_ok_def new_def new_rules_def list_all_iff)
  have blocks: "list_all piece_ok (map (builder.block_seg crlf) new)"
    "list_all whole (map (builder.block_seg crlf) new)"
    using valid block_piece by (auto simp: list_all_iff)
  have no_req: "filter is_req_seg (map (builder.block_seg crlf) new) = []"
    and all_rule: "filter is_rule (map (builder.block_seg crlf) new) = map (builder.block_seg crlf) new"
    and no_text: "List.map_filter text_of (map (builder.block_seg crlf) new) = []"
    by (induction new) (simp_all add: builder.block_seg_def is_rule_def List.map_filter_def)
  show rules: "filter is_rule (merged_pieces crlf req segs rs) =
      map (builder.block_seg crlf) (kept_rules segs rs @ new_rules segs rs)"
    using body(4) qs(5) all_rule by (simp add: P new_def)
  show "texts (merged_pieces crlf req segs rs) = (let ps = body_pieces crlf req segs rs; new = new_rules segs rs
       in texts ps @ gap crlf (texts ps) new @ texts (map (builder.block_seg crlf) new))"
    using qs(4) by (simp add: P Let_def ps_def new_def)
  show "concat (List.map_filter text_of (merged_pieces crlf req segs rs)) =
      concat (List.map_filter text_of segs) @ gap crlf (texts (body_pieces crlf req segs rs)) (new_rules segs rs)"
    using qs(7) body(6) by (simp add: P map_filter_append no_text [unfolded new_def] ps_def new_def)
  have ids: "distinct (map rule_id (kept_rules segs rs @ new_rules segs rs))"
    using assms(2) by (auto simp: ids_ok_def kept_rules_def new_rules_def distinct_map_filter distinct_map inj_on_def)
  have tail: "list_all whole (butlast (qs @ map (builder.block_seg crlf) new))"
    using qs blocks(2) by (cases new rule: rev_exhaust) (simp_all add: butlast_append)
  show "pieces_ok (merged_pieces crlf req segs rs)"
    unfolding pieces_ok_def
  proof (intro conjI)
    show "list_all piece_ok (merged_pieces crlf req segs rs)" using qs(1) blocks(1) by (simp add: P)
    show "list_all whole (butlast (merged_pieces crlf req segs rs))" using tail by (simp add: P)
    show "distinct (rule_ids (merged_pieces crlf req segs rs))"
      using ids by (subst rule_ids_filter) (simp only: rules rule_ids_blocks)
    show "length (filter is_req_seg (merged_pieces crlf req segs rs)) \<le> 1"
      using qs(6) body(5) no_req by (simp add: P)
  qed
qed

lemma merge_eq:
  assumes "split source = Inr segs" "ids_ok rs"
  shows "merge source rs = Some (Inr (let crlf = sublist [CR, LF] source;
      req = managed_require crlf (fst (collect_blocks crlf rs {} Map.empty))
    in texts (merged_pieces crlf req segs rs)))"
proof -
  define crlf where "crlf = sublist [CR, LF] source"
  define exts where "exts = fst (collect_blocks crlf rs {} Map.empty)"
  define blocks where "blocks = snd (collect_blocks crlf rs {} Map.empty)"
  define req where "req = managed_require crlf exts"
  define ids where "ids = set (map rule_id rs)"
  define surviving where "surviving = set (filter (\<lambda>rid. rid \<in> ids) (List.map_filter rule_slot segs))"
  have surv: "rid \<in> surviving \<longleftrightarrow> rid \<in> set (rule_ids segs)" if "rid \<in> ids" for rid
    using that by (simp add: surviving_def rule_ids_def)
  have kept: "filter (\<lambda>rid. rid \<in> surviving) (map rule_id rs) = map rule_id (kept_rules segs rs)"
    using surv by (auto simp: filter_map kept_rules_def ids_def o_def intro!: arg_cong [of _ _ "map rule_id"] filter_cong)
  have new: "filter (\<lambda>r. rule_id r \<notin> surviving) rs = new_rules segs rs"
    using surv by (auto simp: new_rules_def ids_def intro!: filter_cong)
  have has: "list_all (has_block crlf blocks) rs"
    using assms(2) collect_blocks_has by (simp add: blocks_def ids_ok_def)
  then have has_kept: "list_all (has_block crlf blocks) (kept_rules segs rs)"
    by (auto simp: kept_rules_def list_all_iff)
  have ids_eq: "check_ids rs {} = Inr ids" using assms(2) by (simp add: check_ids_iff ids_def)
  have pair: "collect_blocks crlf rs {} Map.empty = (exts, blocks)" by (simp add: exts_def blocks_def)
  let ?out = "if list_ex is_req_seg segs then [] else opt_text req"
  have "merge source rs = (case merge_slots ids blocks req segs
      (filter (\<lambda>rid. rid \<in> surviving) (map rule_id rs)) ?out of
        None \<Rightarrow> None | Some out1 \<Rightarrow> map_option Inr (merge_new crlf surviving blocks rs out1))"
    unfolding merge_def ids_eq assms(1) sum.case Let_def crlf_def [symmetric] pair prod.case
      req_def [symmetric] surviving_def [symmetric] ..
  also have "\<dots> = map_option Inr (merge_new crlf surviving blocks rs
      (?out @ texts (refill crlf ids req segs (kept_rules segs rs))))"
    unfolding kept merge_slots_refill [OF has_kept] by simp
  also have "?out @ texts (refill crlf ids req segs (kept_rules segs rs)) = texts (body_pieces crlf req segs rs)"
    by (simp add: body_pieces_def ids_def)
  finally show ?thesis
    using merge_new_blocks [OF has, of surviving "texts (body_pieces crlf req segs rs)"] assms(2)
      merged_pieces_facts(2) [OF conjunct1 [OF split_sound [OF assms(1)]] assms(2) managed_req_ok [of crlf exts], of crlf]
    by (simp add: Let_def new ids_ok_def flip: crlf_def exts_def req_def)
qed


lemma fuse_texts: "concat (List.map_filter text_of (fuse p ps)) = p @ concat (List.map_filter text_of ps)"
  by (induction p ps rule: fuse.induct) (simp_all add: text_seg_def List.map_filter_def)

lemma fuse_rules: "filter is_rule (fuse p ps) = filter is_rule ps"
  by (induction p ps rule: fuse.induct) (simp_all add: text_seg_def is_rule_def)

lemma read_rules_filter: "read_rules segs out = read_rules (filter is_rule segs) out"
  by (induction segs out rule: read_rules.induct) (simp_all add: is_rule_def split: option.split sum.split)

text \<open>A rule as the builder sees it after saving: \<open>norm_rule\<close> under its own id and switch.\<close>

definition saved :: "rule \<Rightarrow> rule" where
  "saved r = (norm_rule (rule_id r) r)\<lparr>enabled := enabled r\<rparr>"

lemma saved_alt: "saved r = (norm_rule x r)\<lparr>rule_id := rule_id r, enabled := enabled r\<rparr>"
  by (simp add: saved_def norm_rule_def)

lemma read_blocks: "read_rules (map (builder.block_seg crlf) rs) out = Some (Inr (out @ map saved rs))"
  by (induction rs arbitrary: out) (simp_all add: builder.block_seg_def builder.block_reads flip: saved_alt)

lemma merge_result:
  assumes "split source = Inr segs" "ids_ok rs" "merge source rs = Some (Inr t)"
  obtains req where "req_ok req" "t = texts (merged_pieces (sublist [CR, LF] source) req segs rs)"
    "split t = Inr (fuse [] (merged_pieces (sublist [CR, LF] source) req segs rs))" "segs_ok segs"
proof -
  let ?crlf = "sublist [CR, LF] source"
  define req where "req = managed_require ?crlf (fst (collect_blocks ?crlf rs {} Map.empty))"
  have ok: "segs_ok segs" "req_ok req"
    using split_sound [OF assms(1)] by (simp_all add: req_def managed_req_ok)
  have t: "t = texts (merged_pieces ?crlf req segs rs)"
    using merge_eq [OF assms(1,2)] assms(3) by (simp add: Let_def req_def)
  with split_pieces [OF merged_pieces_facts(1) [OF ok(1) assms(2) ok(2)]] ok show thesis
    by (intro that) simp_all
qed

lemma merge_Inr:
  "(\<exists>t. merge source rs = Some (Inr t)) \<longleftrightarrow> ids_ok rs \<and> (\<exists>segs. split source = Inr segs)"
  "merge source rs \<noteq> None"
proof -
  have "merge source rs \<noteq> None \<and>
    ((\<exists>t. merge source rs = Some (Inr t)) \<longleftrightarrow> ids_ok rs \<and> (\<exists>segs. split source = Inr segs))"
  proof (cases "ids_ok rs")
    case True
    show ?thesis
    proof (cases "split source")
      case (Inr segs)
      with True show ?thesis using merge_eq [OF Inr True] by (simp add: Let_def)
    next
      case (Inl e)
      from True have "check_ids rs {} = Inr (set (map rule_id rs))" by (simp add: check_ids_iff)
      with Inl show ?thesis by (simp add: merge_def)
    qed
  next
    case False
    then have "\<nexists>ids. check_ids rs {} = Inr ids" by (simp add: check_ids_iff)
    then obtain e where "check_ids rs {} = Inl e" by (cases "check_ids rs {}") auto
    with False show ?thesis by (simp add: merge_def)
  qed
  then show "(\<exists>t. merge source rs = Some (Inr t)) \<longleftrightarrow> ids_ok rs \<and> (\<exists>segs. split source = Inr segs)"
    "merge source rs \<noteq> None" by blast+
qed

lemma last_text_ends:
  assumes "list_all whole (butlast ps)" "list_all (\<lambda>s. whole s \<or> is_text s) ps"
    "ends_lf (concat (List.map_filter text_of ps))"
  shows "ends_lf (texts ps)"
proof (cases ps rule: rev_exhaust)
  case (snoc qs s)
  have "whole s"
  proof (cases s)
    case (SText u)
    show ?thesis
    proof (cases u)
      case (Cons b v)
      with assms(3) snoc SText show ?thesis by (simp add: map_filter_append List.map_filter_def)
    qed (simp add: SText)
  qed (use assms(2) snoc in simp_all)
  with snoc assms(1) show ?thesis by (simp add: whole_texts ends_lf_append)
qed simp

section \<open>Properties\<close>

text \<open>C32: saving never fails for another reason than the documented ones. \<open>merge\<close> returns (no
  lookup of a block panics), and it returns a script exactly when every rule id is made of 1 to
  128 letters, digits, dashes, underscores or dots, no id is used twice, and the markers of the
  old script are in order.\<close>

theorem merge_succeeds_iff:
  "merge source rs \<noteq> None \<and>
   ((\<exists>t. merge source rs = Some (Inr t)) \<longleftrightarrow> ids_ok rs \<and> (\<exists>segs. split source = Inr segs))"
  using merge_Inr by blast

text \<open>C33: saving keeps what the user wrote. The hand-written text of the merged script is that of
  the old one, byte for byte, for any rules and any line ending; the one exception is a line
  ending put after an unterminated last line when a new block follows it.\<close>

theorem merge_keeps_hand_written:
  assumes "merge source rs = Some (Inr t)" "hand_written source = Inr h"
  shows "hand_written t = Inr h \<or> (\<not> ends_lf h \<and> hand_written t = Inr (h @ eol (sublist [CR, LF] source)))"
proof -
  from assms(2) obtain segs where segs: "split source = Inr segs" "h = concat (List.map_filter text_of segs)"
    by (auto simp: hand_written_def)
  have ids: "ids_ok rs" using merge_Inr(1) [of source rs] assms(1) by blast
  obtain req where req: "req_ok req" "segs_ok segs"
    "split t = Inr (fuse [] (merged_pieces (sublist [CR, LF] source) req segs rs))"
    using merge_result [OF segs(1) ids assms(1)] by metis
  define crlf where "crlf = sublist [CR, LF] source"
  have t: "hand_written t = Inr (h @ gap crlf (texts (body_pieces crlf req segs rs)) (new_rules segs rs))"
    using merged_pieces_facts(4) [OF req(2) ids req(1)] req(3)
    by (simp add: hand_written_def fuse_texts segs(2) crlf_def)
  have "ends_lf (texts (body_pieces crlf req segs rs))" if "ends_lf h"
    using that body_pieces_facts [OF req(2) ids req(1), of crlf] segs(2) last_text_ends by metis
  with t show ?thesis by (auto simp: gap_def crlf_def)
qed


definition sample_source :: string where
  "sample_source = ''keep;'' @ [CR, LF] @ ''# mailwoman:rule a begin'' @ [CR, LF] @
     ''stop;'' @ [CR, LF] @ ''# mailwoman:rule a end'' @ [CR, LF] @ ''discard;''"

definition sample_saved :: "rule list" where
  "sample_saved = [
     \<lparr>rule_id = ''b'', rule_name = ''New'', match_all = True, conditions = [], actions = [Stop], enabled = True\<rparr>,
     \<lparr>rule_id = ''a'', rule_name = ''Old'', match_all = True, conditions = [], actions = [Move ''M''],
       enabled = False\<rparr>]"

lemma sample_lines: "split_lines sample_source = [''keep;'' @ [CR, LF],
    ''# mailwoman:rule a begin'' @ [CR, LF], ''stop;'' @ [CR, LF],
    ''# mailwoman:rule a end'' @ [CR, LF], ''discard;'']"
  by code_simp

lemma sample_merge:
  "ids_ok sample_saved"
  "split sample_source = Inr [SText (''keep;'' @ [CR, LF]), SRule ''a'' False
     (''# mailwoman:rule a begin'' @ [CR, LF] @ ''stop;'' @ [CR, LF] @ ''# mailwoman:rule a end'' @ [CR, LF])
     (''stop;'' @ [CR, LF]), SText ''discard;'']"
  unfolding split_by_lines sample_lines by code_simp+

lemma sample_hand: "hand_written sample_source = Inr (''keep;'' @ [CR, LF] @ ''discard;'')"
  by (simp add: hand_written_def sample_merge(2) List.map_filter_def)

lemma sample_merges: "\<exists>t. merge sample_source sample_saved = Some (Inr t)"
  using merge_Inr(1) sample_merge by blast

theorem merge_keeps_hand_written_witness:
  "\<exists>t. merge sample_source sample_saved = Some (Inr t) \<and>
     (hand_written t = Inr (''keep;'' @ [CR, LF] @ ''discard;'') \<or>
      hand_written t = Inr (''keep;'' @ [CR, LF] @ ''discard;'' @ [CR, LF]))"
proof -
  have "sublist [CR, LF] sample_source" by code_simp
  then show ?thesis
    using sample_merges merge_keeps_hand_written [OF _ sample_hand] by (auto simp: eol_def)
qed


end
