(* ===== verification/Sieve_Local.thy ===== *)
theory Sieve_Local
  imports Sieve_Policy Sieve_Eval
begin

text \<open>
  Fail-closed local execution of a Sieve script on a delivered message (\<open>local.rs\<close>,
  \<open>local_date.rs\<close>): the validation of the whole script, branches that will not match
  included, and the run that turns a validated script into actions. Indexing out of range and
  \<open>unwrap\<close> of nothing are panics, the result \<open>None\<close> of an option. The calendar of the crate
  \<open>chrono\<close> is the record \<open>chrono\<close> of functions, an argument of the definitions that use it.
\<close>

section \<open>Panics and fallible steps\<close>

definition obind :: "('e + 'a) option \<Rightarrow> ('a \<Rightarrow> ('e + 'b) option) \<Rightarrow> ('e + 'b) option" where
  "obind m f = (case m of None \<Rightarrow> None | Some (Inl e) \<Rightarrow> Some (Inl e) | Some (Inr x) \<Rightarrow> f x)"

lemma obind_simps [simp]:
  "obind None f = None" "obind (Some (Inl e)) f = Some (Inl e)" "obind (Some (Inr x)) f = f x"
  by (simp_all add: obind_def)

fun any_opt :: "('a \<Rightarrow> bool option) \<Rightarrow> 'a list \<Rightarrow> bool option" where
  "any_opt f [] = Some False"
| "any_opt f (x # xs) = (case f x of
     None \<Rightarrow> None | Some True \<Rightarrow> Some True | Some False \<Rightarrow> any_opt f xs)"

definition nth_opt :: "'a list \<Rightarrow> nat \<Rightarrow> 'a option" where
  "nth_opt xs i = (if i < length xs then Some (xs ! i) else None)"

section \<open>Messages and actions\<close>

definition LOCAL_EXTENSIONS :: "string list" where
  "LOCAL_EXTENSIONS = [''fileinto'', ''imap4flags'', ''envelope'', ''copy'', ''subaddress'',
     ''vacation'', ''vacation-seconds'', ''date'', ''index'', ''relational'',
     ''comparator-i;ascii-numeric'']"

record message =
  current_time :: "int option"
  headers :: "(string \<times> string) list"
  msg_body :: string
  msg_flags :: "string list"
  msg_size :: "64 word"
  envelope_from :: "string option"
  envelope_to :: "string option"

record vacation =
  vac_seconds :: "64 word"
  vac_subject :: "string option"
  vac_from :: "string option"
  vac_addresses :: "string list"
  vac_mime :: bool
  vac_handle :: "string option"
  vac_reason :: string

datatype flag_operation = SetFlags | AddFlags | RemoveFlags

datatype local_action =
    Vacation vacation
  | Keep
  | Discard
  | FileInto string bool "string list option"
  | Flags flag_operation "string list"
  | Redirect string bool

section \<open>Arguments\<close>

definition string_values :: "sieve_string list \<Rightarrow> string list" where
  "string_values vs = map str_value vs"

text \<open>The string lists of an argument list, without the values of tags that take one.\<close>

fun strings_from :: "bool \<Rightarrow> argument list \<Rightarrow> string list list" where
  "strings_from skip [] = []"
| "strings_from skip (a # args) =
     (if skip then strings_from False args
      else case arg_tag a of
          Some t \<Rightarrow> strings_from
            (to_lower t \<in> set [''comparator'', ''flags'', ''value'', ''count'', ''zone'']) args
        | None \<Rightarrow> (case arg_strings a of
            Some vs \<Rightarrow> string_values vs # strings_from False args
          | None \<Rightarrow> strings_from False args))"

definition strings :: "argument list \<Rightarrow> string list list" where
  "strings args = strings_from False args"

definition is_tag :: "string \<Rightarrow> argument \<Rightarrow> bool" where
  "is_tag tag a = (case arg_tag a of Some t \<Rightarrow> eq_nocase t tag | None \<Rightarrow> False)"

definition tagged :: "argument list \<Rightarrow> string \<Rightarrow> bool" where
  "tagged args tag = list_ex (is_tag tag) args"

definition after_tag :: "argument list \<Rightarrow> string \<Rightarrow> argument option" where
  "after_tag args tag = (case dropWhile (\<lambda>a. \<not> is_tag tag a) args of
       _ # a # _ \<Rightarrow> Some a | _ \<Rightarrow> None)"

definition tagged_values :: "argument list \<Rightarrow> string \<Rightarrow> string list option" where
  "tagged_values args tag = (case after_tag args tag of
       None \<Rightarrow> None
     | Some a \<Rightarrow> map_option string_values (arg_strings a))"

definition flag_values :: "string list \<Rightarrow> string list" where
  "flag_values vs = concat (map split_whitespace vs)"

fun tags :: "argument list \<Rightarrow> string list \<Rightarrow> span \<Rightarrow> script_error + unit" where
  "tags [] allowed s = Inr ()"
| "tags (a # args) allowed s = (case arg_tag a of
       None \<Rightarrow> tags args allowed s
     | Some t \<Rightarrow> if list_ex (\<lambda>v. eq_nocase t v) allowed then tags args allowed s
         else Inl (error_at s (Loc (TagUnavailable t))))"

definition index_of :: "argument list \<Rightarrow> nat option" where
  "index_of args = (case after_tag args ''index'' of
       Some a \<Rightarrow> (case arg_kind a of Number n \<Rightarrow> if n > 0 then Some (unat n) else None | _ \<Rightarrow> None)
     | None \<Rightarrow> None)"

section \<open>Vacation\<close>

definition vac_number :: "string \<Rightarrow> string set \<Rightarrow> 64 word \<Rightarrow> 64 word option" where
  "vac_number tag seen n =
     (if (''days'' \<in> seen \<and> ''seconds'' \<in> seen) \<or> (tag = ''seconds'' \<and> n \<ge> 2 ^ 31) then None
      else Some (if tag = ''days'' then min (max n 1) 31 * 86400 else n))"

definition vac_strings :: "string \<Rightarrow> string list \<Rightarrow> vacation \<Rightarrow> vacation option" where
  "vac_strings tag vs v =
     (if length vs \<noteq> 1 \<and> tag \<noteq> ''addresses'' then None
      else if tag = ''subject'' then
        (if list_ex is_control (utf8_chars (hd vs)) then None else Some (v\<lparr>vac_subject := Some (hd vs)\<rparr>))
      else if tag = ''from'' then Some (v\<lparr>vac_from := Some (hd vs)\<rparr>)
      else if tag = ''addresses'' then Some (v\<lparr>vac_addresses := vs\<rparr>)
      else Some (v\<lparr>vac_handle := Some (hd vs)\<rparr>))"

fun vac_loop :: "argument list \<Rightarrow> string set \<Rightarrow> vacation \<Rightarrow> vacation option" where
  "vac_loop [] seen v = None"
| "vac_loop (a # args) seen v = (case arg_tag a of
       None \<Rightarrow> (case arg_strings a of
           None \<Rightarrow> None
         | Some vs \<Rightarrow> if length vs \<noteq> 1 \<or> args \<noteq> [] then None
             else Some (v\<lparr>vac_reason := str_value (hd vs)\<rparr>))
     | Some written \<Rightarrow>
         (let tag = to_lower written in
          if tag \<in> seen then None
          else if tag = ''mime'' then vac_loop args (insert tag seen) (v\<lparr>vac_mime := True\<rparr>)
          else if tag \<in> set [''days'', ''seconds''] then (case args of
              [] \<Rightarrow> None
            | b # rest \<Rightarrow> (case arg_kind b of
                Number n \<Rightarrow> (case vac_number tag (insert tag seen) n of
                    None \<Rightarrow> None
                  | Some secs \<Rightarrow> vac_loop rest (insert tag seen) (v\<lparr>vac_seconds := secs\<rparr>))
              | _ \<Rightarrow> None))
          else if tag \<in> set [''subject'', ''from'', ''addresses'', ''handle''] then (case args of
              [] \<Rightarrow> None
            | b # rest \<Rightarrow> (case arg_strings b of
                None \<Rightarrow> None
              | Some vs \<Rightarrow> (case vac_strings tag (string_values vs) v of
                    None \<Rightarrow> None
                  | Some v1 \<Rightarrow> vac_loop rest (insert tag seen) v1)))
          else None))"

definition default_vacation :: vacation where
  "default_vacation = \<lparr>vac_seconds = 7 * 86400, vac_subject = None, vac_from = None,
     vac_addresses = [], vac_mime = False, vac_handle = None, vac_reason = []\<rparr>"

definition vacation_of :: "command \<Rightarrow> script_error + vacation" where
  "vacation_of c = (case vac_loop (cmd_args c) {} default_vacation of
       None \<Rightarrow> Inl (error_at (cmd_span c) (Loc InvalidVacation))
     | Some v \<Rightarrow> Inr v)"

section \<open>Validation\<close>

definition system_flag :: "string \<Rightarrow> bool" where
  "system_flag f \<longleftrightarrow> to_lower f \<in> set [BSL # ''seen'', BSL # ''answered'', BSL # ''flagged'',
     BSL # ''deleted'', BSL # ''draft'']"

definition flag_ok :: "string \<Rightarrow> bool" where
  "flag_ok f \<longleftrightarrow> system_flag f \<or>
     \<not> list_ex (\<lambda>c. is_control c \<or> c \<in> set (map (\<lambda>b. [b]) (''(){%*'' @ [DQ, BSL] @ '']''))) (utf8_chars f)"

definition check_flags :: "string list \<Rightarrow> span \<Rightarrow> script_error + unit" where
  "check_flags flags s = guard_err (list_ex (\<lambda>f. \<not> flag_ok f) flags) (error_at s (Loc InvalidFlag))"

definition is_number :: "argument \<Rightarrow> bool" where
  "is_number a = (case arg_kind a of Number _ \<Rightarrow> True | _ \<Rightarrow> False)"

definition validate_action :: "string \<Rightarrow> command \<Rightarrow> script_error + unit" where
  "validate_action name c =
     (let args = cmd_args c; s = cmd_span c; vals = strings args in
      if name = ''vacation'' then rbind (vacation_of c) (\<lambda>_. Inr ())
      else if name \<in> set [''require'', ''if'', ''elsif'', ''else''] then tags args [] s
      else if name = ''keep'' then
        rbind (tags args [''flags''] s) (\<lambda>_.
          guard_err (vals \<noteq> [] \<or> (tagged args ''flags'' \<and> tagged_values args ''flags'' = None))
            (error_at s (Loc InvalidKeepFlags)))
      else if name \<in> set [''discard'', ''stop''] then
        guard_err (args \<noteq> []) (error_at s (Loc UnexpectedActionArguments))
      else if name \<in> set [''fileinto'', ''redirect''] then
        rbind (tags args (if name = ''fileinto'' then [''copy'', ''flags''] else [''copy'']) s) (\<lambda>_.
          guard_err (length vals \<noteq> 1 \<or> length (hd vals) \<noteq> 1 \<or> hd (hd vals) = [] \<or> list_ex is_number args)
            (error_at s (Loc ActionNeedsString)))
      else if name \<in> set [''setflag'', ''addflag'', ''removeflag''] then
        rbind (tags args [] s) (\<lambda>_.
        rbind (guard_err (length vals \<noteq> 1) (error_at s (Loc FlagActionNeedsList))) (\<lambda>_.
          check_flags (flag_values (hd vals)) s))
      else Inl (error_at s (Loc (CommandUnavailable name))))"

definition validate_flags_tag :: "command \<Rightarrow> script_error + unit" where
  "validate_flags_tag c =
     (if tagged (cmd_args c) ''flags'' then (case tagged_values (cmd_args c) ''flags'' of
          None \<Rightarrow> Inl (error_at (cmd_span c) (Loc MissingFlagList))
        | Some flags \<Rightarrow> check_flags (flag_values flags) (cmd_span c))
      else Inr ())"

section \<open>Date parts\<close>

record ('d, 'z) chrono =
  utc_now :: int
  utc_at :: "int \<Rightarrow> 'd option"
  parse_rfc2822 :: "string \<Rightarrow> 'd option"
  offset_of :: "'d \<Rightarrow> 'z"
  east_opt :: "int \<Rightarrow> 'z option"
  in_zone :: "'d \<Rightarrow> 'z \<Rightarrow> 'd"
  format_date :: "string \<Rightarrow> 'd \<Rightarrow> string"
  rfc3339_secs :: "'d \<Rightarrow> string"
  rfc2822_text :: "'d \<Rightarrow> string"
  from_sunday :: "'d \<Rightarrow> nat"
  days_since :: "'d \<Rightarrow> int \<Rightarrow> nat \<Rightarrow> nat \<Rightarrow> int option"

text \<open>\<open>str::parse::<i32>\<close> on the two-byte fields of a zone: a sign and digits, or digits.\<close>

definition parse_i32 :: "string \<Rightarrow> int option" where
  "parse_i32 s = (case s of
       [] \<Rightarrow> None
     | b # r \<Rightarrow>
         if b = CHR ''-'' then map_option (\<lambda>n. - int n) (parse_digits (2 ^ 31) r)
         else map_option int (parse_digits (2 ^ 31 - 1) (if b = CHR ''+'' then r else s)))"

definition zone :: "('d, 'z) chrono \<Rightarrow> string \<Rightarrow> 'z option" where
  "zone ch v =
     (if length v \<noteq> 5 \<or> \<not> list_all is_ascii v \<or> hd v \<notin> {CHR ''+'', CHR ''-''} then None
      else Option.bind (parse_i32 (take 2 (drop 1 v))) (\<lambda>hours.
        Option.bind (parse_i32 (drop 3 v)) (\<lambda>minutes.
          if hours > 23 \<or> minutes > 59 then None
          else east_opt ch ((hours * 3600 + minutes * 60) * (if hd v = CHR ''-'' then -1 else 1)))))"

definition DATE_PARTS :: "string list" where
  "DATE_PARTS = [''year'', ''month'', ''day'', ''date'', ''julian'', ''hour'', ''minute'', ''second'',
     ''time'', ''iso8601'', ''std11'', ''zone'', ''weekday'']"

definition date_validate :: "('d, 'z) chrono \<Rightarrow> test \<Rightarrow> script_error + bool" where
  "date_validate ch t =
     (let args = test_args t; current = test_is t ''currentdate'';
          vals = strings args; part = (if current then 0 else 1)
      in rbind (tags args [''is'', ''contains'', ''matches'', ''value'', ''count'', ''comparator'', ''zone'',
             ''originalzone'', ''index'', ''last''] (test_span t)) (\<lambda>_. Inr (
        if current \<and> (tagged args ''originalzone'' \<or> tagged args ''index'' \<or> tagged args ''last'') then False
        else if tagged args ''zone'' \<and> (tagged args ''originalzone'' \<or>
            (case tagged_values args ''zone'' of Some [v] \<Rightarrow> zone ch v = None | _ \<Rightarrow> True)) then False
        else length vals = part + 2 \<and> length (vals ! part) = 1 \<and>
          (current \<or> length (hd vals) = 1) \<and> hd (vals ! part) \<in> set DATE_PARTS)))"

section \<open>Tests, statically\<close>

definition RELATIONS :: "string list" where
  "RELATIONS = [''gt'', ''ge'', ''lt'', ''le'', ''eq'', ''ne'']"

definition relation_ok :: "argument list \<Rightarrow> string \<Rightarrow> bool" where
  "relation_ok args tag \<longleftrightarrow> (tagged args tag \<longrightarrow>
     (case tagged_values args tag of Some [v] \<Rightarrow> v \<in> set RELATIONS | _ \<Rightarrow> False))"

definition match_tags_ok :: "test \<Rightarrow> script_error + unit" where
  "match_tags_ok t =
     (let args = test_args t; s = test_span t in
      rbind (guard_err (tagged args ''comparator'' \<and> (case tagged_values args ''comparator'' of
            Some [v] \<Rightarrow> v \<notin> set [''i;octet'', ''i;ascii-casemap'', ''i;ascii-numeric''] | _ \<Rightarrow> True))
          (error_at s (Loc UnsupportedComparator))) (\<lambda>_.
      rbind (guard_err (\<not> relation_ok args ''value'' \<or> \<not> relation_ok args ''count'')
          (error_at s (Loc InvalidRelational))) (\<lambda>_.
        guard_err (length (filter (tagged args) [''is'', ''contains'', ''matches'', ''value'', ''count'']) > 1 \<or>
            (tagged args ''last'' \<and> \<not> tagged args ''index'') \<or>
            (tagged args ''index'' \<and> index_of args = None))
          (error_at s (Loc ConflictingMatch)))))"

definition address_tags :: "string list" where
  "address_tags = [''is'', ''contains'', ''matches'', ''all'', ''localpart'', ''domain'', ''user'', ''detail'',
     ''comparator'', ''value'', ''count'', ''index'', ''last'']"

definition test_valid :: "('d, 'z) chrono \<Rightarrow> string \<Rightarrow> test \<Rightarrow> script_error + bool" where
  "test_valid ch name t =
     (let args = test_args t; s = test_span t; vals = strings args in
      if name \<in> set [''date'', ''currentdate''] then date_validate ch t
      else if name \<in> set [''allof'', ''anyof'', ''not'', ''true'', ''false''] then Inr (args = [])
      else if name = ''exists'' then Inr (length vals = 1 \<and> length args = 1)
      else if name \<in> set [''header'', ''address'', ''envelope''] then
        rbind (tags args address_tags s) (\<lambda>_. Inr (length vals = 2 \<and>
          (\<not> test_is t ''envelope'' \<or> (\<not> tagged args ''index'' \<and> \<not> tagged args ''last''))))
      else if name = ''hasflag'' then
        rbind (tags args [''is'', ''contains'', ''matches'', ''comparator'', ''value'', ''count''] s)
          (\<lambda>_. Inr (length vals = 1))
      else if name = ''body'' then
        rbind (tags args [''is'', ''contains'', ''matches'', ''text''] s) (\<lambda>_. Inr (length vals = 1))
      else if name = ''size'' then
        rbind (tags args [''over'', ''under''] s) (\<lambda>_. Inr (length args = 2 \<and>
          tagged args ''over'' \<noteq> tagged args ''under'' \<and> list_ex is_number args))
      else Inr False)"

fun validate_test :: "('d, 'z) chrono \<Rightarrow> test \<Rightarrow> script_error + unit"
  and validate_tests :: "('d, 'z) chrono \<Rightarrow> test list \<Rightarrow> script_error + unit" where
  "validate_test ch (Test nm s args ts listed) =
     (let t = Test nm s args ts listed in
      rbind (match_tags_ok t) (\<lambda>_.
      rbind (test_valid ch (to_lower nm) t) (\<lambda>valid.
      rbind (guard_err (\<not> valid) (error_at s (Loc (UnsupportedTest nm)))) (\<lambda>_.
        validate_tests ch ts))))"
| "validate_tests ch [] = Inr ()"
| "validate_tests ch (t # ts) = rbind (validate_test ch t) (\<lambda>_. validate_tests ch ts)"

section \<open>The whole script\<close>

fun validate_commands :: "('d, 'z) chrono \<Rightarrow> command list \<Rightarrow> script_error + unit"
  and validate_block :: "('d, 'z) chrono \<Rightarrow> block \<Rightarrow> script_error + unit" where
  "validate_commands ch [] = Inr ()"
| "validate_commands ch (Command nm s args ts listed b # cs) =
     (let c = Command nm s args ts listed b in
      rbind (validate_flags_tag c) (\<lambda>_.
      rbind (validate_action (to_lower nm) c) (\<lambda>_.
      rbind (validate_tests ch ts) (\<lambda>_.
      rbind (case b of None \<Rightarrow> Inr () | Some bl \<Rightarrow> validate_block ch bl) (\<lambda>_.
        validate_commands ch cs)))))"
| "validate_block ch (Block cs s) = validate_commands ch cs"

fun check_extensions :: "(string \<times> span) list \<Rightarrow> script_error + unit" where
  "check_extensions [] = Inr ()"
| "check_extensions ((ext, s) # rest) =
     (if ext \<notin> set LOCAL_EXTENSIONS then Inl (error_at s (Loc (ExtensionUnavailable ext)))
      else check_extensions rest)"

definition validate :: "('d, 'z) chrono \<Rightarrow> string \<Rightarrow> script_error + script" where
  "validate ch source =
     (if length source > 1048576
      then Inl (error_at (default_span\<lparr>sp_line := 1, sp_column := 1\<rparr>) (Loc ScriptTooLarge))
      else rbind (check source) (\<lambda>(script, a).
        rbind (check_extensions (require_spans a)) (\<lambda>_.
        rbind (validate_commands ch script) (\<lambda>_. Inr script))))"

section \<open>Matching\<close>

datatype ordering = Less | Equal | Greater

definition cmp :: "'a::linorder \<Rightarrow> 'a \<Rightarrow> ordering" where
  "cmp a b = (if a = b then Equal else if a < b then Less else Greater)"

definition then_with :: "ordering \<Rightarrow> ordering \<Rightarrow> ordering" where
  "then_with a b = (if a = Equal then b else a)"

definition number_prefix :: "string \<Rightarrow> string option" where
  "number_prefix s = (let ds = takeWhile is_digit s in
     if ds = [] then None else Some (trim_start_bytes {CHR ''0''} ds))"

definition numeric_order :: "string \<Rightarrow> string \<Rightarrow> ordering" where
  "numeric_order left right = (case (number_prefix left, number_prefix right) of
       (None, None) \<Rightarrow> Equal
     | (None, Some _) \<Rightarrow> Greater
     | (Some _, None) \<Rightarrow> Less
     | (Some l, Some r) \<Rightarrow> then_with (cmp (length l) (length r)) (cmp l r))"

definition relation_holds :: "string \<Rightarrow> ordering \<Rightarrow> bool" where
  "relation_holds r order = (
     if r = ''gt'' then order = Greater
     else if r = ''ge'' then order \<noteq> Less
     else if r = ''lt'' then order = Less
     else if r = ''le'' then order \<noteq> Greater
     else if r = ''ne'' then order \<noteq> Equal
     else order = Equal)"

definition matches_text :: "argument list \<Rightarrow> string \<Rightarrow> string \<Rightarrow> bool option" where
  "matches_text args key0 text0 =
     (let numeric = (tagged_values args ''comparator'' = Some [''i;ascii-numeric'']);
          octet = (tagged_values args ''comparator'' = Some [''i;octet'']);
          key = (if octet then key0 else to_lower key0);
          text = (if octet then text0 else to_lower text0)
      in if tagged args ''value'' \<or> tagged args ''count'' then
           (let order = (if numeric then numeric_order text key else cmp text key) in
            case (case tagged_values args ''value'' of Some v \<Rightarrow> Some v | None \<Rightarrow> tagged_values args ''count'') of
              None \<Rightarrow> None
            | Some vs \<Rightarrow> map_option (\<lambda>r. relation_holds r order) (nth_opt vs 0))
         else Some (
           if tagged args ''contains'' then sublist key text
           else if tagged args ''matches'' then glob_matches_exact key text
           else if numeric then numeric_order text key = Equal
           else text = key))"

definition match_values :: "argument list \<Rightarrow> string list \<Rightarrow> string list \<Rightarrow> bool option" where
  "match_values args keys vals =
     (if tagged args ''count''
      then any_opt (\<lambda>key. matches_text args key (dec_str (length vals))) keys
      else any_opt (\<lambda>val. any_opt (\<lambda>key. matches_text args key val) keys) vals)"

definition header_values :: "message \<Rightarrow> string \<Rightarrow> argument list \<Rightarrow> string list" where
  "header_values m name args =
     (let vals = map snd (filter (\<lambda>(h, _). eq_nocase h name) (headers m))
      in case index_of args of
          Some i \<Rightarrow> (let vs = (if tagged args ''last'' then rev vals else vals)
                     in case nth_opt vs (i - 1) of None \<Rightarrow> [] | Some v \<Rightarrow> [v])
        | None \<Rightarrow> vals)"

section \<open>Addresses\<close>

definition bare_address :: "string \<Rightarrow> string" where
  "bare_address v = (let a = trim v in
     case rsplit_once (CHR ''<'') a of
       Some (_, r) \<Rightarrow> (case strip_suffix ''>'' r of Some u \<Rightarrow> u | None \<Rightarrow> a)
     | None \<Rightarrow> a)"

definition address_part :: "argument list \<Rightarrow> string \<Rightarrow> string" where
  "address_part args v =
     (let address = bare_address v;
          (loc, domain) = (case rsplit_once (CHR ''@'') address of Some p \<Rightarrow> p | None \<Rightarrow> (address, []))
      in if tagged args ''localpart'' then loc
         else if tagged args ''domain'' then domain
         else if tagged args ''user'' then hd (split_on (CHR ''+'') loc)
         else if tagged args ''detail'' then (case split_once (CHR ''+'') loc of None \<Rightarrow> [] | Some (_, d) \<Rightarrow> d)
         else address)"

definition address_sources :: "test \<Rightarrow> message \<Rightarrow> string \<Rightarrow> string list" where
  "address_sources t m name =
     (if test_is t ''envelope'' then
        (if eq_nocase name ''from'' then (case envelope_from m of None \<Rightarrow> [] | Some v \<Rightarrow> [v]) else []) @
        (if eq_nocase name ''to'' then (case envelope_to m of None \<Rightarrow> [] | Some v \<Rightarrow> [v]) else [])
      else header_values m name (test_args t))"

definition selected_addresses :: "test \<Rightarrow> message \<Rightarrow> string list \<Rightarrow> string list" where
  "selected_addresses t m names =
     map (address_part (test_args t))
       (concat (map (split_on (CHR '','')) (concat (map (address_sources t m) names))))"

section \<open>Dates\<close>

definition int_str :: "int \<Rightarrow> string" where
  "int_str i = (if i < 0 then CHR ''-'' # dec_str (nat (- i)) else dec_str (nat i))"

definition date_part :: "('d, 'z) chrono \<Rightarrow> string \<Rightarrow> 'd \<Rightarrow> string option option" where
  "date_part ch part d =
     (if part = ''year'' then Some (Some (format_date ch ''%Y'' d))
      else if part = ''month'' then Some (Some (format_date ch ''%m'' d))
      else if part = ''day'' then Some (Some (format_date ch ''%d'' d))
      else if part = ''date'' then Some (Some (format_date ch ''%Y-%m-%d'' d))
      else if part = ''hour'' then Some (Some (format_date ch ''%H'' d))
      else if part = ''minute'' then Some (Some (format_date ch ''%M'' d))
      else if part = ''second'' then Some (Some (format_date ch ''%S'' d))
      else if part = ''time'' then Some (Some (format_date ch ''%H:%M:%S'' d))
      else if part = ''iso8601'' then Some (Some (rfc3339_secs ch d))
      else if part = ''std11'' then Some (Some (rfc2822_text ch d))
      else if part = ''zone'' then Some (Some (format_date ch ''%z'' d))
      else if part = ''weekday'' then Some (Some (dec_str (from_sunday ch d)))
      else if part = ''julian'' then map_option (\<lambda>n. Some (int_str n)) (days_since ch d 1858 11 17)
      else Some None)"

definition header_date :: "('d, 'z) chrono \<Rightarrow> string \<Rightarrow> string \<Rightarrow> 'd option" where
  "header_date ch name val =
     (let v = (if eq_nocase name ''received'' then
            (case rsplit_once (CHR '';'') val of Some (_, d) \<Rightarrow> d | None \<Rightarrow> val) else val)
      in parse_rfc2822 ch (trim v))"

text \<open>\<open>date_part\<close> is \<open>None\<close> when the epoch of the Julian day does not exist (an \<open>unwrap\<close>) and
  \<open>Some None\<close> for a part it does not know; the same goes for \<open>date_of\<close> with the header name.\<close>

definition date_of :: "('d, 'z) chrono \<Rightarrow> test \<Rightarrow> message \<Rightarrow> 'd option option" where
  "date_of ch t m =
     (if test_is t ''currentdate'' then
        Some (utc_at ch (case current_time m of Some s \<Rightarrow> s | None \<Rightarrow> 0))
      else Option.bind (nth_opt (strings (test_args t)) 0) (\<lambda>names.
        Option.bind (nth_opt names 0) (\<lambda>name.
          Some (case header_values m name (test_args t) of
              [] \<Rightarrow> None
            | v # _ \<Rightarrow> header_date ch name v))))"

definition date_zone :: "('d, 'z) chrono \<Rightarrow> argument list \<Rightarrow> 'd \<Rightarrow> 'z option" where
  "date_zone ch args d =
     (let fallback = (if tagged args ''originalzone'' then Some (offset_of ch d) else east_opt ch 0)
      in case tagged_values args ''zone'' of
          None \<Rightarrow> fallback
        | Some vs \<Rightarrow> Option.bind (nth_opt vs 0) (\<lambda>v.
            case zone ch v of Some z \<Rightarrow> Some z | None \<Rightarrow> fallback))"

definition date_matches :: "('d, 'z) chrono \<Rightarrow> test \<Rightarrow> message \<Rightarrow> bool option" where
  "date_matches ch t m =
     (let args = test_args t; vals = strings args; part = (if test_is t ''currentdate'' then 0 else 1)
      in case date_of ch t m of
          None \<Rightarrow> None
        | Some None \<Rightarrow> Some False
        | Some (Some d) \<Rightarrow>
            Option.bind (date_zone ch args d) (\<lambda>z.
            Option.bind (nth_opt vals part) (\<lambda>ps.
            Option.bind (nth_opt ps 0) (\<lambda>p.
              case date_part ch p (in_zone ch d z) of
                None \<Rightarrow> None
              | Some None \<Rightarrow> Some False
              | Some (Some rendered) \<Rightarrow>
                  Option.bind (nth_opt vals (part + 1)) (any_opt (\<lambda>key.
                    matches_text args key (if tagged args ''count'' then ''1'' else rendered)))))))"

section \<open>Tests\<close>

definition size_limit :: "argument list \<Rightarrow> 64 word" where
  "size_limit args = (case List.map_filter (\<lambda>a. case arg_kind a of Number n \<Rightarrow> Some n | _ \<Rightarrow> None) args of
       [] \<Rightarrow> 0 | n # _ \<Rightarrow> n)"

definition leaf_matches :: "('d, 'z) chrono \<Rightarrow> message \<Rightarrow> string list \<Rightarrow> string \<Rightarrow> test \<Rightarrow> bool option" where
  "leaf_matches ch m flags name t =
     (let args = test_args t; vals = strings args in
      if name \<in> set [''date'', ''currentdate''] then date_matches ch t m
      else if name = ''true'' then Some True
      else if name = ''false'' then Some False
      else if name = ''hasflag'' then
        Option.bind (nth_opt vals 0) (\<lambda>keys. match_values args keys flags)
      else if name = ''exists'' then
        map_option (list_all (\<lambda>n. list_ex (\<lambda>(h, _). eq_nocase h n) (headers m))) (nth_opt vals 0)
      else if name = ''size'' then
        Some (if tagged args ''over'' then msg_size m > size_limit args else msg_size m < size_limit args)
      else if name = ''body'' then
        Option.bind (nth_opt vals 0) (any_opt (\<lambda>key. matches_text args key (msg_body m)))
      else if name = ''header'' then
        Option.bind (nth_opt vals 1) (\<lambda>keys. Option.bind (nth_opt vals 0) (\<lambda>names.
          match_values args keys (concat (map (\<lambda>n. header_values m n args) names))))
      else if name \<in> set [''address'', ''envelope''] then
        Option.bind (nth_opt vals 0) (\<lambda>names. Option.bind (nth_opt vals 1) (\<lambda>keys.
          match_values args keys (selected_addresses t m names)))
      else Some False)"

fun test_matches :: "('d, 'z) chrono \<Rightarrow> message \<Rightarrow> string list \<Rightarrow> test \<Rightarrow> bool option"
  and all_match :: "('d, 'z) chrono \<Rightarrow> message \<Rightarrow> string list \<Rightarrow> test list \<Rightarrow> bool option"
  and any_match :: "('d, 'z) chrono \<Rightarrow> message \<Rightarrow> string list \<Rightarrow> test list \<Rightarrow> bool option"
  and first_match :: "('d, 'z) chrono \<Rightarrow> message \<Rightarrow> string list \<Rightarrow> test list \<Rightarrow> bool option" where
  "test_matches ch m flags (Test nm s args ts listed) =
     (let name = to_lower nm in
      if name = ''not'' then map_option Not (first_match ch m flags ts)
      else if name = ''allof'' then all_match ch m flags ts
      else if name = ''anyof'' then any_match ch m flags ts
      else leaf_matches ch m flags name (Test nm s args ts listed))"
| "all_match ch m flags [] = Some True"
| "all_match ch m flags (t # ts) = (case test_matches ch m flags t of
     None \<Rightarrow> None | Some False \<Rightarrow> Some False | Some True \<Rightarrow> all_match ch m flags ts)"
| "any_match ch m flags [] = Some False"
| "any_match ch m flags (t # ts) = (case test_matches ch m flags t of
     None \<Rightarrow> None | Some True \<Rightarrow> Some True | Some False \<Rightarrow> any_match ch m flags ts)"
| "first_match ch m flags [] = None"
| "first_match ch m flags (t # ts) = test_matches ch m flags t"

section \<open>Running\<close>

definition has_flag :: "string list \<Rightarrow> string \<Rightarrow> bool" where
  "has_flag flags f = list_ex (\<lambda>g. eq_nocase g f) flags"

fun add_flags :: "string list \<Rightarrow> string list \<Rightarrow> string list" where
  "add_flags [] flags = flags"
| "add_flags (f # fs) flags = add_flags fs (if has_flag flags f then flags else flags @ [f])"

definition change_flags :: "flag_operation \<Rightarrow> string list \<Rightarrow> string list \<Rightarrow> string list" where
  "change_flags op fs flags = (case op of
       SetFlags \<Rightarrow> fs
     | RemoveFlags \<Rightarrow> filter (\<lambda>f. \<not> list_ex (\<lambda>v. eq_nocase v f) fs) flags
     | AddFlags \<Rightarrow> add_flags fs flags)"

definition flag_operation_of :: "string \<Rightarrow> flag_operation" where
  "flag_operation_of name = (if name = ''setflag'' then SetFlags
     else if name = ''removeflag'' then RemoveFlags else AddFlags)"

definition run_action :: "string \<Rightarrow> command \<Rightarrow> local_action list \<Rightarrow> string list \<Rightarrow>
    (script_error + local_action list \<times> string list) option" where
  "run_action name c acts flags =
     (let args = cmd_args c; vals = strings args; first = Option.bind (nth_opt vals 0) (\<lambda>v. nth_opt v 0) in
      if name = ''vacation'' then Some (rbind (vacation_of c) (\<lambda>v. Inr (acts @ [Vacation v], flags)))
      else if name = ''require'' then Some (Inr (acts, flags))
      else if name = ''keep'' then
        Some (Inr (acts @ (case tagged_values args ''flags'' of
            None \<Rightarrow> [] | Some vs \<Rightarrow> [Flags SetFlags (flag_values vs)]) @ [Keep], flags))
      else if name = ''discard'' then Some (Inr (acts @ [Discard], flags))
      else if name = ''fileinto'' then
        map_option (\<lambda>v. Inr (acts @ [FileInto v (tagged args ''copy'')
          (map_option flag_values (tagged_values args ''flags''))], flags)) first
      else if name = ''redirect'' then
        map_option (\<lambda>v. Inr (acts @ [Redirect v (tagged args ''copy'')], flags)) first
      else if name \<in> set [''setflag'', ''addflag'', ''removeflag''] then
        map_option (\<lambda>vs. let op = flag_operation_of name; fs = flag_values vs
          in Inr (acts @ [Flags op fs], change_flags op fs flags)) (nth_opt vals 0)
      else Some (Inl (error_at (cmd_span c) (Loc UnsupportedAction))))"

definition ACTION_LIMIT :: nat where "ACTION_LIMIT = 1024"

type_synonym run_result = "(script_error + bool \<times> local_action list \<times> string list) option"

definition guard_matches ::
  "('d, 'z) chrono \<Rightarrow> message \<Rightarrow> string list \<Rightarrow> bool \<Rightarrow> string \<Rightarrow> test list \<Rightarrow> bool option" where
  "guard_matches ch m flags matched name ts =
     (if matched then Some False
      else if name = ''else'' then Some True
      else Option.bind (nth_opt ts 0) (test_matches ch m flags))"

fun run :: "('d, 'z) chrono \<Rightarrow> message \<Rightarrow> bool \<Rightarrow> command list \<Rightarrow> local_action list \<Rightarrow> string list \<Rightarrow> run_result"
  and run_block :: "('d, 'z) chrono \<Rightarrow> message \<Rightarrow> block \<Rightarrow> local_action list \<Rightarrow> string list \<Rightarrow> run_result" where
  "run ch m matched [] acts flags = Some (Inr (False, acts, flags))"
| "run ch m matched (Command nm s args ts listed b # cs) acts flags =
     (let name = to_lower nm in
      if name \<in> set [''if'', ''elsif'', ''else''] then
        (let matched1 = (name \<noteq> ''if'' \<and> matched) in
         case guard_matches ch m flags matched1 name ts of
           None \<Rightarrow> None
         | Some False \<Rightarrow> run ch m matched1 cs acts flags
         | Some True \<Rightarrow> (case b of
             None \<Rightarrow> run ch m True cs acts flags
           | Some bl \<Rightarrow> obind (run_block ch m bl acts flags) (\<lambda>(stopped, acts1, flags1).
               if stopped then Some (Inr (True, acts1, flags1)) else run ch m True cs acts1 flags1)))
      else if name = ''stop'' then Some (Inr (True, acts, flags))
      else obind (run_action name (Command nm s args ts listed b) acts flags) (\<lambda>(acts1, flags1).
        if length acts1 > ACTION_LIMIT then Some (Inl (error_at s (Loc ActionLimit)))
        else run ch m False cs acts1 flags1))"
| "run_block ch m (Block cs s) acts flags = run ch m False cs acts flags"

fun is_vacation :: "local_action \<Rightarrow> bool" where
  "is_vacation (Vacation _) = True"
| "is_vacation _ = False"

definition evaluate_local :: "('d, 'z) chrono \<Rightarrow> string \<Rightarrow> message \<Rightarrow> (script_error + local_action list) option" where
  "evaluate_local ch source msg =
     (case validate ch source of
        Inl e \<Rightarrow> Some (Inl e)
      | Inr script \<Rightarrow>
          (let m = msg\<lparr>current_time := Some (case current_time msg of Some s \<Rightarrow> s | None \<Rightarrow> utc_now ch)\<rparr>
           in obind (run ch m False script [] (msg_flags m)) (\<lambda>(_, acts, _).
                if length (filter is_vacation acts) > 1
                then Some (Inl (error_at default_span (Loc MultipleVacations)))
                else Some (Inr acts))))"

end
