(* ===== verification/Sieve_Local_Safe.thy ===== *)
theory Sieve_Local_Safe
  imports Sieve_Local
begin

text \<open>
  What the validation of \<open>Sieve_Local\<close> is worth: a validated script never panics, stops with an
  error only for the action limit or a second vacation, and yields well-formed actions. The
  validation is a type system (\<open>test_typed\<close>, \<open>command_typed\<close>), the run its semantics.
\<close>

section \<open>Typed arguments\<close>

text \<open>What the runner takes for granted of \<open>chrono\<close>: the zero offset and the epoch of the
  Julian day exist.\<close>

definition chrono_ok :: "('d, 'z) chrono \<Rightarrow> bool" where
  "chrono_ok ch \<longleftrightarrow> east_opt ch 0 \<noteq> None \<and> (\<forall>d. days_since ch d 1858 11 17 \<noteq> None)"

definition relations_ok :: "argument list \<Rightarrow> bool" where
  "relations_ok args \<longleftrightarrow> relation_ok args ''value'' \<and> relation_ok args ''count''"

lemma untagged_values: "\<not> tagged args tag \<Longrightarrow> tagged_values args tag = None"
proof -
  assume "\<not> tagged args tag"
  then have e: "dropWhile (\<lambda>a. \<not> is_tag tag a) args = []"
    by (auto simp: tagged_def list_ex_iff dropWhile_eq_Nil_conv)
  show ?thesis unfolding tagged_values_def after_tag_def e by simp
qed

lemma relation_okD: "relation_ok args tag \<Longrightarrow> tagged args tag \<Longrightarrow> \<exists>v. tagged_values args tag = Some [v]"
  by (auto simp: relation_ok_def split: option.splits list.splits)

lemma matches_text_total:
  assumes "relations_ok args"
  shows "matches_text args key text \<noteq> None"
proof (cases "tagged args ''value'' \<or> tagged args ''count''")
  case True
  then have "\<exists>r. (case tagged_values args ''value'' of Some v \<Rightarrow> Some v | None \<Rightarrow> tagged_values args ''count'')
      = Some [r]"
    using assms untagged_values [of args "''value''"] relation_okD [of args "''value''"]
      relation_okD [of args "''count''"] by (fastforce simp: relations_ok_def split: option.split)
  with True show ?thesis by (auto simp: matches_text_def Let_def nth_opt_def)
next
  case False
  then show ?thesis by (simp add: matches_text_def Let_def)
qed

lemma any_opt_total: "(\<And>x. x \<in> set xs \<Longrightarrow> f x \<noteq> None) \<Longrightarrow> any_opt f xs \<noteq> None"
proof (induction xs)
  case (Cons x xs)
  then have "f x \<noteq> None" "any_opt f xs \<noteq> None" by simp_all
  then show ?case by (auto split: option.split bool.split)
qed simp

lemma match_values_total: "relations_ok args \<Longrightarrow> match_values args keys vals \<noteq> None"
  unfolding match_values_def by (auto intro!: any_opt_total matches_text_total simp del: not_None_eq)

section \<open>Typed tests\<close>

definition test_typed :: "('d, 'z) chrono \<Rightarrow> test \<Rightarrow> bool" where
  "test_typed ch t \<longleftrightarrow> match_tags_ok t = Inr () \<and> test_valid ch (to_lower (test_name t)) t = Inr True \<and>
     (to_lower (test_name t) = ''not'' \<longrightarrow> test_tests t \<noteq> [])"

lemma guard_err_Inr: "guard_err b e = Inr u \<longleftrightarrow> \<not> b"
  by (simp add: guard_err_def)

lemma match_tags_relations: "match_tags_ok t = Inr () \<Longrightarrow> relations_ok (test_args t)"
  by (simp add: match_tags_ok_def Let_def rbind_eq_Inr guard_err_Inr relations_ok_def)

lemma nth_opt_simps: "i < length xs \<Longrightarrow> nth_opt xs i = Some (xs ! i)"
  by (simp add: nth_opt_def)

lemma nth_opt_hd: "length xs = 1 \<Longrightarrow> nth_opt xs 0 = Some (hd xs)"
  by (cases xs) (simp_all add: nth_opt_def)

definition date_field :: "test \<Rightarrow> nat" where
  "date_field t = (if test_is t ''currentdate'' then 0 else 1)"

lemma date_validD:
  assumes "date_validate ch t = Inr True"
  shows "tagged (test_args t) ''zone'' \<Longrightarrow> \<exists>v z. tagged_values (test_args t) ''zone'' = Some [v] \<and> zone ch v = Some z"
    "length (strings (test_args t)) = date_field t + 2"
    "length (strings (test_args t) ! date_field t) = 1"
    "test_is t ''currentdate'' \<or> length (hd (strings (test_args t))) = 1"
  using assms
  by (auto simp: date_validate_def Let_def rbind_eq_Inr date_field_def split: if_splits option.splits list.splits)

lemma date_of_total: "date_validate ch t = Inr True \<Longrightarrow> date_of ch t m \<noteq> None"
proof (cases "test_is t ''currentdate''")
  case False
  assume v: "date_validate ch t = Inr True"
  define vals where "vals = strings (test_args t)"
  from False date_validD [OF v] have "length vals \<noteq> 0" "length (hd vals) = 1"
    by (simp_all add: vals_def)
  then have "nth_opt vals 0 = Some (hd vals) \<and> nth_opt (hd vals) 0 = Some (hd (hd vals))"
    using nth_opt_hd [of "hd vals"] by (simp add: nth_opt_def hd_conv_nth)
  with False show ?thesis by (simp add: date_of_def flip: vals_def)
qed (simp add: date_of_def)

lemma date_zone_total:
  assumes "date_validate ch t = Inr True" "chrono_ok ch"
  shows "date_zone ch (test_args t) d \<noteq> None"
proof (cases "tagged (test_args t) ''zone''")
  case True
  with date_validD(1) [OF assms(1)] obtain v z where
    "tagged_values (test_args t) ''zone'' = Some [v]" "zone ch v = Some z" by blast
  then show ?thesis by (simp add: date_zone_def nth_opt_def)
next
  case False
  with assms(2) show ?thesis by (simp add: date_zone_def untagged_values chrono_ok_def)
qed

lemma date_matches_total:
  assumes "chrono_ok ch" "date_validate ch t = Inr True" "relations_ok (test_args t)"
  shows "date_matches ch t m \<noteq> None"
proof -
  define vals where "vals = strings (test_args t)"
  define k where "k = date_field t"
  note v = date_validD(2,3) [OF assms(2), folded vals_def k_def]
  have parts: "nth_opt vals k = Some (vals ! k)" "nth_opt (vals ! k) 0 = Some (hd (vals ! k))"
    "nth_opt vals (k + 1) = Some (vals ! (k + 1))"
    using v(1) nth_opt_hd [OF v(2)] by (simp_all add: nth_opt_simps)
  have any: "any_opt (\<lambda>key. matches_text (test_args t) key u) ks \<noteq> None" for u ks
    by (rule any_opt_total) (rule matches_text_total [OF assms(3)])
  obtain od where od: "date_of ch t m = Some od" using date_of_total [OF assms(2)] by blast
  show ?thesis
  proof (cases od)
    case None
    with od show ?thesis by (simp add: date_matches_def Let_def)
  next
    case (Some d)
    obtain z where z: "date_zone ch (test_args t) d = Some z"
      using date_zone_total [OF assms(2,1)] by blast
    have "date_part ch p e \<noteq> None" for p e
      using assms(1) by (simp add: date_part_def chrono_ok_def)
    then obtain r where r: "date_part ch (hd (vals ! k)) (in_zone ch d z) = Some r" by blast
    have "date_matches ch t m = (case r of None \<Rightarrow> Some False | Some rendered \<Rightarrow>
        any_opt (\<lambda>key. matches_text (test_args t) key
          (if tagged (test_args t) ''count'' then ''1'' else rendered)) (vals ! (k + 1)))"
      unfolding date_matches_def Let_def vals_def [symmetric] date_field_def [symmetric] k_def [symmetric]
        od Some option.case z parts Option.bind.bind_lunit r ..
    with any show ?thesis by (cases r) (simp_all del: not_None_eq)
  qed
qed

lemma length_two: "length xs = 2 \<Longrightarrow> nth_opt xs 0 = Some (xs ! 0) \<and> nth_opt xs 1 = Some (xs ! 1)"
  by (simp add: nth_opt_def)

lemma leaf_typed_cases:
  assumes "test_valid ch name t = Inr True"
  shows "name = ''exists'' \<or> name = ''hasflag'' \<or> name = ''body'' \<Longrightarrow> length (strings (test_args t)) = 1"
    "name \<in> set [''header'', ''address'', ''envelope''] \<Longrightarrow> length (strings (test_args t)) = 2"
proof -
  have one: "test_valid ch ''exists'' t = Inr True \<Longrightarrow> length (strings (test_args t)) = 1"
    "test_valid ch ''hasflag'' t = Inr True \<Longrightarrow> length (strings (test_args t)) = 1"
    "test_valid ch ''body'' t = Inr True \<Longrightarrow> length (strings (test_args t)) = 1"
    and two: "test_valid ch ''header'' t = Inr True \<Longrightarrow> length (strings (test_args t)) = 2"
    "test_valid ch ''address'' t = Inr True \<Longrightarrow> length (strings (test_args t)) = 2"
    "test_valid ch ''envelope'' t = Inr True \<Longrightarrow> length (strings (test_args t)) = 2"
    by (simp_all add: test_valid_def Let_def rbind_eq_Inr)
  show "name = ''exists'' \<or> name = ''hasflag'' \<or> name = ''body'' \<Longrightarrow> length (strings (test_args t)) = 1"
    using one assms(1) by (elim disjE) simp_all
  show "name \<in> set [''header'', ''address'', ''envelope''] \<Longrightarrow> length (strings (test_args t)) = 2"
    using two assms(1) by simp (elim disjE; simp)
qed

lemma leaf_matches_total:
  assumes ch: "chrono_ok ch" and tags: "match_tags_ok t = Inr ()"
    and valid: "test_valid ch name t = Inr True"
  shows "leaf_matches ch m flags name t \<noteq> None"
proof -
  define args where "args = test_args t"
  define vals where "vals = strings args"
  note rel = match_tags_relations [OF tags]
  note mv = match_values_total [OF rel, folded args_def]
  have any: "any_opt (\<lambda>key. matches_text args key u) ks \<noteq> None" for u ks
    unfolding args_def by (rule any_opt_total) (rule matches_text_total [OF rel])
  consider (date) "name \<in> set [''date'', ''currentdate'']"
    | (one) "name \<notin> set [''date'', ''currentdate'']" "name = ''exists'' \<or> name = ''hasflag'' \<or> name = ''body''"
    | (two) "name \<notin> set [''date'', ''currentdate'']" "name \<in> set [''header'', ''address'', ''envelope'']"
    | (other) "name \<notin> set [''date'', ''currentdate'', ''exists'', ''hasflag'', ''body'', ''header'', ''address'', ''envelope'']"
    by auto
  then show ?thesis
  proof cases
    case date
    then have "date_validate ch t = Inr True" using valid unfolding test_valid_def Let_def by presburger
    from date_matches_total [OF ch this rel] date show ?thesis
      unfolding leaf_matches_def Let_def by presburger
  next
    case one
    with leaf_typed_cases(1) [OF valid] have "nth_opt vals 0 = Some (hd vals)"
      by (simp add: nth_opt_hd vals_def args_def)
    with one any mv show ?thesis
      by (auto simp: leaf_matches_def Let_def simp flip: args_def vals_def simp del: not_None_eq)
  next
    case two
    with leaf_typed_cases(2) [OF valid] have "length vals = 2" by (simp add: vals_def args_def)
    with two length_two [of vals] mv show ?thesis
      by (auto simp: leaf_matches_def Let_def simp flip: args_def vals_def simp del: not_None_eq)
  next
    case other
    then show ?thesis by (simp add: leaf_matches_def Let_def del: not_None_eq)
  qed
qed

lemma test_matches_total:
  assumes "chrono_ok ch"
  shows "(\<forall>u \<in> set (sub_tests t). test_typed ch u) \<Longrightarrow> test_matches ch m flags t \<noteq> None"
    and "(\<forall>u \<in> set (sub_tests_list ts). test_typed ch u) \<Longrightarrow> all_match ch m flags ts \<noteq> None"
    and "(\<forall>u \<in> set (sub_tests_list ts'). test_typed ch u) \<Longrightarrow> any_match ch m flags ts' \<noteq> None"
    and "(\<forall>u \<in> set (sub_tests_list us). test_typed ch u) \<Longrightarrow> us \<noteq> [] \<Longrightarrow> first_match ch m flags us \<noteq> None"
  using assms
proof (induction ch m flags t and ch m flags ts and ch m flags ts' and ch m flags us
    rule: test_matches_all_match_any_match_first_match.induct)
  case (1 ch m flags nm s args ts listed)
  let ?t = "Test nm s args ts listed"
  have typed: "match_tags_ok ?t = Inr ()" "test_valid ch (to_lower nm) ?t = Inr True"
    "to_lower nm = ''not'' \<Longrightarrow> ts \<noteq> []"
    and sub: "\<forall>u \<in> set (sub_tests_list ts). test_typed ch u"
    using 1 by (simp_all add: test_typed_def)
  have leaf: "leaf_matches ch m flags (to_lower nm) ?t \<noteq> None"
    by (rule leaf_matches_total [OF 1(5) typed(1,2)])
  show ?case
  proof (cases "to_lower nm \<in> set [''not'', ''allof'', ''anyof'']")
    case True
    then show ?thesis using 1(1-3,5) sub typed(3) by (fastforce simp: Let_def simp del: map_option_is_None)
  next
    case False
    with leaf show ?thesis by (simp add: Let_def)
  qed
next
  case (3 ch m flags t ts)
  then obtain b where "test_matches ch m flags t = Some b" by auto
  with 3 show ?case by (cases b) auto
next
  case (5 ch m flags t ts)
  then obtain b where "test_matches ch m flags t = Some b" by auto
  with 5 show ?case by (cases b) auto
next
  case (7 ch m flags t ts)
  then show ?case by auto
qed simp_all

section \<open>Typed commands\<close>

definition command_typed :: "('d, 'z) chrono \<Rightarrow> command \<Rightarrow> bool" where
  "command_typed ch c \<longleftrightarrow> validate_flags_tag c = Inr () \<and>
     validate_action (to_lower (cmd_name c)) c = Inr () \<and>
     (to_lower (cmd_name c) \<in> set [''if'', ''elsif''] \<longrightarrow> cmd_tests c \<noteq> []) \<and>
     (\<forall>u \<in> set (sub_tests_list (cmd_tests c)). test_typed ch u)"

lemma validate_tests_typed:
  "validate_test ch t = Inr () \<Longrightarrow> (\<forall>u \<in> set (sub_tests t). match_tags_ok u = Inr () \<and>
     test_valid ch (to_lower (test_name u)) u = Inr True)"
  "validate_tests ch ts = Inr () \<Longrightarrow> (\<forall>u \<in> set (sub_tests_list ts). match_tags_ok u = Inr () \<and>
     test_valid ch (to_lower (test_name u)) u = Inr True)"
  by (induction ch t and ch ts rule: validate_test_validate_tests.induct)
     (auto simp: rbind_eq_Inr Let_def guard_err_Inr)

definition locally_valid :: "('d, 'z) chrono \<Rightarrow> command \<Rightarrow> bool" where
  "locally_valid ch c \<longleftrightarrow> validate_flags_tag c = Inr () \<and>
     validate_action (to_lower (cmd_name c)) c = Inr () \<and> validate_tests ch (cmd_tests c) = Inr ()"

lemma reached_Cons_subset:
  "set (reached (Command nm s args ts listed b # cs)) \<subseteq> insert (Command nm s args ts listed b)
     (set (case b of None \<Rightarrow> [] | Some bl \<Rightarrow> reached_block bl) \<union> set (reached cs))"
  by auto

lemma validate_commands_reached:
  "validate_commands ch cs = Inr () \<Longrightarrow> (\<forall>c \<in> set (reached cs). locally_valid ch c)"
  "validate_block ch bl = Inr () \<Longrightarrow> (\<forall>c \<in> set (reached_block bl). locally_valid ch c)"
proof (induction ch cs and ch bl rule: validate_commands_validate_block.induct)
  case (2 ch nm s args ts listed b cs)
  let ?c = "Command nm s args ts listed b"
  from "2.prems" have v: "validate_flags_tag ?c = Inr ()" "validate_action (to_lower nm) ?c = Inr ()"
    "validate_tests ch ts = Inr ()"
    "(case b of None \<Rightarrow> Inr () | Some bl \<Rightarrow> validate_block ch bl) = Inr ()" "validate_commands ch cs = Inr ()"
    by (simp_all add: Let_def rbind_eq_Inr)
  have "locally_valid ch ?c" using v by (simp add: locally_valid_def)
  moreover have "\<forall>c \<in> set (case b of None \<Rightarrow> [] | Some bl \<Rightarrow> reached_block bl). locally_valid ch c"
  proof (cases b)
    case (Some bl)
    with v(4) have "validate_block ch bl = Inr ()" by simp
    from "2.IH"(1) [OF refl v(1,2,3) Some this] Some show ?thesis by simp
  qed simp
  moreover have "\<forall>c \<in> set (reached cs). locally_valid ch c"
    using "2.IH"(2) [OF refl v] .
  ultimately show ?case using reached_Cons_subset by blast
qed simp_all

lemma validate_typed:
  assumes "validate ch source = Inr cs"
  shows "\<exists>a. check source = Inr (cs, a)" "\<forall>c \<in> set (reached cs). command_typed ch c"
proof -
  from assms obtain a where a: "check source = Inr (cs, a)" and v: "validate_commands ch cs = Inr ()"
    by (auto simp: validate_def rbind_eq_Inr split: if_splits)
  then show "\<exists>a. check source = Inr (cs, a)" by blast
  show "\<forall>c \<in> set (reached cs). command_typed ch c"
  proof
    fix c assume c: "c \<in> set (reached cs)"
    note val = validate_commands_reached(1) [OF v, rule_format, OF c]
    from checked.chk_commands [OF a c] obtain after_if after_if' where
      shape: "command_shape (to_lower (cmd_name c)) after_if c = Inr after_if'"
      and tests: "\<forall>t \<in> set (sub_tests_list (cmd_tests c)). test_checked (is_strict a) (required a) t"
      by (auto simp: command_checked_def)
    have "cmd_tests c \<noteq> []" if "to_lower (cmd_name c) \<in> set [''if'', ''elsif'']"
      using shape that by (auto simp: command_shape_def Let_def rbind_eq_Inr guard_err_Inr)
    moreover have "test_tests u \<noteq> []"
      if "u \<in> set (sub_tests_list (cmd_tests c))" "to_lower (test_name u) = ''not''" for u
    proof -
      have "test_shape ''not'' u = Inr ()" using tests that by (auto simp: test_checked_def)
      then show ?thesis by (auto simp: test_shape_def guard_err_Inr)
    qed
    ultimately show "command_typed ch c"
      using val validate_tests_typed(2) [of ch "cmd_tests c"]
      by (simp add: command_typed_def test_typed_def locally_valid_def)
  qed
qed

section \<open>Running typed commands\<close>

definition produces :: "(local_action \<Rightarrow> bool) \<Rightarrow> command \<Rightarrow> bool" where
  "produces P c \<longleftrightarrow> (\<forall>acts flags acts' flags'.
     run_action (to_lower (cmd_name c)) c acts flags = Some (Inr (acts', flags')) \<longrightarrow>
     list_all P acts \<longrightarrow> list_all P acts')"

definition run_good :: "(local_action \<Rightarrow> bool) \<Rightarrow> run_result \<Rightarrow> bool" where
  "run_good P r \<longleftrightarrow> (case r of None \<Rightarrow> False
     | Some (Inl e) \<Rightarrow> err_message e = Loc ActionLimit
     | Some (Inr (stopped, acts, flags)) \<Rightarrow> list_all P acts \<and> length acts \<le> ACTION_LIMIT)"

definition plain_names :: "string list" where
  "plain_names = [''if'', ''elsif'', ''else'', ''stop'']"

definition action_names :: "string list" where
  "action_names = [''vacation'', ''require'', ''keep'', ''discard'', ''fileinto'', ''redirect'',
     ''setflag'', ''addflag'', ''removeflag'']"

lemma validate_action_names:
  assumes "validate_action name c = Inr ()" "name \<notin> set plain_names"
  shows "name \<in> set action_names"
proof (rule ccontr)
  assume "name \<notin> set action_names"
  with assms(2) have "validate_action name c = Inl (error_at (cmd_span c) (Loc (CommandUnavailable name)))"
    by (simp add: validate_action_def Let_def action_names_def plain_names_def)
  with assms(1) show False by simp
qed

lemma one_string: "\<not> (length vals \<noteq> 1 \<or> length (hd vals) \<noteq> 1 \<or> hd (hd vals) = []) \<Longrightarrow> \<exists>x. vals = [[x]] \<and> x \<noteq> []"
  by (cases vals; cases "hd vals") auto

lemma validate_fileinto:
  "validate_action ''fileinto'' c = Inr () \<Longrightarrow> \<exists>x. strings (cmd_args c) = [[x]] \<and> x \<noteq> []"
  by (rule one_string) (simp add: validate_action_def Let_def rbind_eq_Inr guard_err_Inr)

lemma validate_redirect:
  "validate_action ''redirect'' c = Inr () \<Longrightarrow> tags (cmd_args c) [''copy''] (cmd_span c) = Inr () \<and>
     \<not> list_ex is_number (cmd_args c) \<and> (\<exists>x. strings (cmd_args c) = [[x]] \<and> x \<noteq> [])"
proof -
  assume "validate_action ''redirect'' c = Inr ()"
  then have v0: "rbind (tags (cmd_args c) [''copy''] (cmd_span c)) (\<lambda>_. guard_err
      (length (strings (cmd_args c)) \<noteq> 1 \<or> length (hd (strings (cmd_args c))) \<noteq> 1 \<or>
       hd (hd (strings (cmd_args c))) = [] \<or> list_ex is_number (cmd_args c))
      (error_at (cmd_span c) (Loc ActionNeedsString))) = Inr ()"
    by (simp add: validate_action_def Let_def)
  then have v: "tags (cmd_args c) [''copy''] (cmd_span c) = Inr ()"
    "\<not> (length (strings (cmd_args c)) \<noteq> 1 \<or> length (hd (strings (cmd_args c))) \<noteq> 1 \<or>
      hd (hd (strings (cmd_args c))) = [])" "\<not> list_ex is_number (cmd_args c)"
    by (simp_all add: rbind_eq_Inr guard_err_Inr)
  show ?thesis by (intro conjI v one_string [OF v(2)])
qed

definition flag_names :: "string list" where
  "flag_names = [''setflag'', ''addflag'', ''removeflag'']"

lemma flag_names_distinct:
  "name \<in> set flag_names \<Longrightarrow> name \<noteq> ''vacation'' \<and> name \<notin> set [''require'', ''if'', ''elsif'', ''else''] \<and>
     name \<noteq> ''keep'' \<and> name \<notin> set [''discard'', ''stop''] \<and> name \<notin> set [''fileinto'', ''redirect'']"
  by (auto simp: flag_names_def)

lemma validate_flag_action:
  assumes "validate_action name c = Inr ()" "name \<in> set flag_names"
  shows "\<exists>vs. strings (cmd_args c) = [vs] \<and> list_all flag_ok (flag_values vs)"
proof -
  have "rbind (tags (cmd_args c) [] (cmd_span c)) (\<lambda>_.
      rbind (guard_err (length (strings (cmd_args c)) \<noteq> 1) (error_at (cmd_span c) (Loc FlagActionNeedsList))) (\<lambda>_.
        check_flags (flag_values (hd (strings (cmd_args c)))) (cmd_span c))) = Inr ()"
    using assms(1) flag_names_distinct [OF assms(2)] assms(2) [unfolded flag_names_def]
    unfolding validate_action_def Let_def by presburger
  then have "length (strings (cmd_args c)) = 1" "list_all flag_ok (flag_values (hd (strings (cmd_args c))))"
    by (auto simp: rbind_eq_Inr guard_err_Inr check_flags_def list_all_iff list_ex_iff)
  then show ?thesis by (cases "strings (cmd_args c)") auto
qed

lemma run_flag_action:
  assumes "name \<in> set flag_names" "strings (cmd_args c) = [vs]"
  shows "run_action name c acts flags = Some (Inr (acts @ [Flags (flag_operation_of name) (flag_values vs)],
    change_flags (flag_operation_of name) (flag_values vs) flags))"
proof -
  have "run_action name c acts flags = map_option (\<lambda>vs. let op = flag_operation_of name; fs = flag_values vs
      in Inr (acts @ [Flags op fs], change_flags op fs flags)) (nth_opt (strings (cmd_args c)) 0)"
    using flag_names_distinct [OF assms(1)] assms(1) [unfolded flag_names_def]
    unfolding run_action_def Let_def by simp
  then show ?thesis by (simp add: assms(2) nth_opt_def Let_def)
qed

lemma run_simple_actions:
  "run_action ''require'' c acts flags = Some (Inr (acts, flags))"
  "run_action ''discard'' c acts flags = Some (Inr (acts @ [Discard], flags))"
  "run_action ''keep'' c acts flags = Some (Inr (acts @ (case tagged_values (cmd_args c) ''flags'' of
     None \<Rightarrow> [] | Some vs \<Rightarrow> [Flags SetFlags (flag_values vs)]) @ [Keep], flags))"
  "run_action ''vacation'' c acts flags = Some (rbind (vacation_of c) (\<lambda>v. Inr (acts @ [Vacation v], flags)))"
  "strings (cmd_args c) = [[x]] \<Longrightarrow> run_action ''fileinto'' c acts flags =
     Some (Inr (acts @ [FileInto x (tagged (cmd_args c) ''copy'')
       (map_option flag_values (tagged_values (cmd_args c) ''flags''))], flags))"
  "strings (cmd_args c) = [[x]] \<Longrightarrow> run_action ''redirect'' c acts flags =
     Some (Inr (acts @ [Redirect x (tagged (cmd_args c) ''copy'')], flags))"
  by (simp_all add: run_action_def Let_def nth_opt_def)

lemma validate_vacation: "validate_action ''vacation'' c = Inr () \<Longrightarrow> \<exists>v. vacation_of c = Inr v"
  by (auto simp: validate_action_def Let_def rbind_eq_Inr)

lemma action_name_cases:
  "name \<in> set action_names \<Longrightarrow> name = ''vacation'' \<or> name = ''require'' \<or> name = ''keep'' \<or>
     name = ''discard'' \<or> name = ''fileinto'' \<or> name = ''redirect'' \<or> name \<in> set flag_names"
  by (simp add: action_names_def flag_names_def)

lemma run_action_total:
  assumes "validate_action (to_lower (cmd_name c)) c = Inr ()" "to_lower (cmd_name c) \<notin> set plain_names"
  shows "\<exists>acts' flags'. run_action (to_lower (cmd_name c)) c acts flags = Some (Inr (acts', flags'))"
  using action_name_cases [OF validate_action_names [OF assms]]
proof (elim disjE)
  assume n: "to_lower (cmd_name c) = ''vacation''"
  show ?thesis using assms(1) validate_vacation [of c] run_simple_actions(4) [of c] unfolding n by auto
next
  assume n: "to_lower (cmd_name c) = ''fileinto''"
  show ?thesis using assms(1) validate_fileinto [of c] run_simple_actions(5) [of c] unfolding n by blast
next
  assume n: "to_lower (cmd_name c) = ''redirect''"
  show ?thesis using assms(1) validate_redirect [of c] run_simple_actions(6) [of c] unfolding n by blast
next
  assume n: "to_lower (cmd_name c) \<in> set flag_names"
  show ?thesis using validate_flag_action [OF assms(1) n] run_flag_action [OF n] by blast
qed (simp_all add: run_simple_actions)

lemma sub_tests_hd: "t \<in> set (sub_tests t)"
  by (cases t) simp

lemma guard_matches_total:
  assumes "chrono_ok ch" "command_typed ch (Command nm s args ts listed b)"
    "to_lower nm \<in> set [''if'', ''elsif'', ''else'']"
  shows "guard_matches ch m flags matched (to_lower nm) ts \<noteq> None"
proof (cases "matched \<or> to_lower nm = ''else''")
  case False
  with assms(2,3) have ne: "ts \<noteq> []" by (auto simp: command_typed_def)
  then obtain t us where ts: "ts = t # us" by (cases ts) auto
  have "\<forall>u \<in> set (sub_tests t). test_typed ch u" using assms(2) by (simp add: command_typed_def ts)
  from test_matches_total(1) [OF assms(1) this] False ts show ?thesis
    by (simp add: guard_matches_def nth_opt_def del: not_None_eq)
qed (auto simp: guard_matches_def)

lemma commands_induct [case_names Nil Cons Block]:
  assumes "P []"
    and "\<And>nm s args ts listed b cs. (\<And>bl. b = Some bl \<Longrightarrow> Q bl) \<Longrightarrow> P cs \<Longrightarrow> P (Command nm s args ts listed b # cs)"
    and "\<And>cs s. P cs \<Longrightarrow> Q (Block cs s)"
  shows "P cs" "Q bl"
proof -
  have "(\<forall>cs. P cs \<longrightarrow> P (c # cs))" and block: "Q bl" for c bl
  proof (induction c and bl)
    case (Command nm s args ts listed b)
    then show ?case by (auto intro!: assms(2))
  next
    case (Block cs s)
    have "P ds" if "set ds \<subseteq> set cs" for ds
      using that by (induction ds) (use assms(1) Block in auto)
    then show ?case by (intro assms(3)) simp
  qed
  then show "P cs" by (induction cs) (use assms(1) in auto)
  show "Q bl" by (rule block)
qed

lemma run_good_bind:
  assumes "run_good P r" "\<And>acts1 flags1. list_all P acts1 \<Longrightarrow> length acts1 \<le> ACTION_LIMIT \<Longrightarrow> run_good P (k acts1 flags1)"
  shows "run_good P (obind r (\<lambda>(stopped, acts1, flags1).
    if stopped then Some (Inr (True, acts1, flags1)) else k acts1 flags1))"
proof (cases r)
  case None
  with assms(1) show ?thesis by (simp add: run_good_def)
next
  case (Some x)
  show ?thesis
  proof (cases x)
    case (Inl e)
    with Some assms(1) show ?thesis by (simp add: run_good_def)
  next
    case (Inr y)
    obtain st acts1 flags1 where y: "y = (st, acts1, flags1)" by (cases y)
    with Some Inr assms(1) have "list_all P acts1" "length acts1 \<le> ACTION_LIMIT"
      by (simp_all add: run_good_def)
    with Some Inr y assms(2) [of acts1 flags1] show ?thesis
      by (cases st) (simp_all add: run_good_def)
  qed
qed

lemma run_action_good:
  assumes "command_typed ch c" "produces P c" "to_lower (cmd_name c) \<notin> set plain_names" "list_all P acts"
  shows "\<exists>acts1 flags1. run_action (to_lower (cmd_name c)) c acts flags = Some (Inr (acts1, flags1)) \<and> list_all P acts1"
proof -
  obtain acts1 flags1 where "run_action (to_lower (cmd_name c)) c acts flags = Some (Inr (acts1, flags1))"
    using run_action_total [of c acts flags] assms(1,3) by (auto simp: command_typed_def)
  with assms(2,4) show ?thesis unfolding produces_def by blast
qed

definition all_typed :: "('d, 'z) chrono \<Rightarrow> (local_action \<Rightarrow> bool) \<Rightarrow> command list \<Rightarrow> bool" where
  "all_typed ch P cs \<longleftrightarrow> (\<forall>c \<in> set cs. command_typed ch c \<and> produces P c)"

lemma run_good_step:
  assumes ch: "chrono_ok ch" and all: "all_typed ch P (reached (Command nm s args ts listed b # cs))"
    and acts: "list_all P acts" "length acts \<le> ACTION_LIMIT"
    and blk: "\<And>bl acts flags. b = Some bl \<Longrightarrow> all_typed ch P (reached_block bl) \<Longrightarrow> list_all P acts \<Longrightarrow>
      length acts \<le> ACTION_LIMIT \<Longrightarrow> run_good P (run_block ch m bl acts flags)"
    and rest: "\<And>matched acts flags. list_all P acts \<Longrightarrow> length acts \<le> ACTION_LIMIT \<Longrightarrow>
      run_good P (run ch m matched cs acts flags)"
  shows "run_good P (run ch m matched (Command nm s args ts listed b # cs) acts flags)"
proof -
  let ?c = "Command nm s args ts listed b"
  define name where "name = to_lower nm"
  have typed: "command_typed ch ?c \<and> produces P ?c" and typed_block: "\<And>bl. b = Some bl \<Longrightarrow> all_typed ch P (reached_block bl)"
    if "name \<noteq> ''require''"
    using all that by (auto simp: all_typed_def name_def)
  consider (branch) "name \<in> set [''if'', ''elsif'', ''else'']" | (stop) "name = ''stop''"
    | (action) "name \<notin> set plain_names" by (auto simp: plain_names_def)
  then show ?thesis
  proof cases
    case branch
    then have nr: "name \<noteq> ''require''" by auto
    define matched1 where "matched1 \<longleftrightarrow> name \<noteq> ''if'' \<and> matched"
    obtain g where g: "guard_matches ch m flags matched1 name ts = Some g"
      using guard_matches_total [OF ch conjunct1 [OF typed [OF nr]]] branch unfolding name_def by blast
    have eq: "run ch m matched (?c # cs) acts flags = (if g then (case b of
          None \<Rightarrow> run ch m True cs acts flags
        | Some bl \<Rightarrow> obind (run_block ch m bl acts flags) (\<lambda>(stopped, acts1, flags1).
            if stopped then Some (Inr (True, acts1, flags1)) else run ch m True cs acts1 flags1))
      else run ch m matched1 cs acts flags)"
      using branch g by (cases g) (simp_all add: Let_def flip: name_def matched1_def)
    show ?thesis
    proof (cases b)
      case None
      then show ?thesis unfolding eq using rest [OF acts] by simp
    next
      case (Some bl)
      from blk [OF Some typed_block [OF nr Some] acts] rest
      have "run_good P (obind (run_block ch m bl acts flags) (\<lambda>(stopped, acts1, flags1).
        if stopped then Some (Inr (True, acts1, flags1)) else run ch m True cs acts1 flags1))"
        by (rule run_good_bind)
      with Some show ?thesis unfolding eq using rest [OF acts] by simp
    qed
  next
    case stop
    then have "run ch m matched (?c # cs) acts flags = Some (Inr (True, acts, flags))"
      by (simp add: Let_def flip: name_def)
    with acts show ?thesis by (simp add: run_good_def)
  next
    case action
    then have eq: "run ch m matched (?c # cs) acts flags = obind (run_action name ?c acts flags) (\<lambda>(acts1, flags1).
      if length acts1 > ACTION_LIMIT then Some (Inl (error_at s (Loc ActionLimit)))
      else run ch m False cs acts1 flags1)"
      by (simp add: Let_def plain_names_def flip: name_def)
    obtain acts1 flags1 where ra: "run_action name ?c acts flags = Some (Inr (acts1, flags1))" "list_all P acts1"
    proof (cases "name = ''require''")
      case True
      then show thesis using that acts(1) run_simple_actions(1) [of ?c acts flags] by simp
    next
      case False
      from run_action_good [of ch ?c P acts flags] typed [OF False] action acts(1)
      show thesis using that unfolding name_def by auto
    qed
    then show ?thesis unfolding eq using rest [of acts1 False flags1]
      by (auto simp: run_good_def error_at_def)
  qed
qed

lemma all_typed_reached:
  "all_typed ch P (reached (Command nm s args ts listed b # cs)) \<Longrightarrow> all_typed ch P (reached cs)"
  by (auto simp: all_typed_def split: if_splits)

lemma run_good:
  assumes "chrono_ok ch"
  shows "\<forall>matched acts flags. all_typed ch P (reached cs) \<longrightarrow> list_all P acts \<longrightarrow> length acts \<le> ACTION_LIMIT \<longrightarrow>
      run_good P (run ch m matched cs acts flags)"
    and "\<forall>acts flags. all_typed ch P (reached_block bl) \<longrightarrow> list_all P acts \<longrightarrow> length acts \<le> ACTION_LIMIT \<longrightarrow>
      run_good P (run_block ch m bl acts flags)"
proof (induction cs and bl rule: commands_induct)
  case Nil
  show ?case by (simp add: run_good_def)
next
  case (Cons nm s args ts listed b cs)
  show ?case
  proof (intro allI impI)
    fix matched acts flags
    assume all: "all_typed ch P (reached (Command nm s args ts listed b # cs))"
      and acts: "list_all P acts" "length acts \<le> ACTION_LIMIT"
    show "run_good P (run ch m matched (Command nm s args ts listed b # cs) acts flags)"
      by (rule run_good_step [OF assms all acts]) (use Cons all_typed_reached [OF all] in blast)+
  qed
qed simp

section \<open>Redirects of validated commands\<close>

lemma map_filter_simps:
  "List.map_filter f [] = []"
  "List.map_filter f (x # xs) = (case f x of None \<Rightarrow> List.map_filter f xs | Some y \<Rightarrow> y # List.map_filter f xs)"
  by (simp_all add: List.map_filter_def split: option.split)

lemma strings_copy_only:
  assumes "tags args [''copy''] s = Inr ()"
  shows "strings args = map string_values (List.map_filter arg_strings args)"
proof -
  have "to_lower ''copy'' = ''copy''" by (simp add: ascii_lower_def is_upper_def)
  with assms show ?thesis unfolding strings_def
  proof (induction args)
    case (Cons a args)
    show ?case
    proof (cases "arg_tag a")
      case None
      with Cons show ?thesis by (simp add: map_filter_simps split: option.split)
    next
      case (Some t)
      with Cons.prems have t: "to_lower t = ''copy''" "tags args [''copy''] s = Inr ()"
        by (auto simp: eq_nocase_def split: if_splits)
      have "arg_strings a = None" using Some by (auto simp: arg_tag_def arg_strings_def split: argument_kind.splits)
      with Some t Cons.IH Cons.prems(2) show ?thesis by (simp add: map_filter_simps)
    qed
  qed (simp add: map_filter_simps)
qed

lemma first_strings: "List.map_filter first_string args =
    List.map_filter (\<lambda>vs. case vs of [] \<Rightarrow> None | s # _ \<Rightarrow> Some s) (List.map_filter arg_strings args)"
  by (induction args) (auto simp: map_filter_simps first_string_def split: option.split list.split)

lemma map_filter_rev: "List.map_filter f (rev xs) = rev (List.map_filter f xs)"
  by (simp add: List.map_filter_def rev_map rev_filter)

lemma redirect_string:
  assumes "validate_action ''redirect'' c = Inr ()" "strings (cmd_args c) = [[a]]"
  shows "\<exists>s. last_string (cmd_args c) = Some s \<and> str_value s = a"
proof -
  from validate_redirect [OF assms(1)] have "tags (cmd_args c) [''copy''] (cmd_span c) = Inr ()" by blast
  from strings_copy_only [OF this] assms(2) obtain s where
    "List.map_filter arg_strings (cmd_args c) = [[s]]" "str_value s = a"
    by (auto simp: string_values_def)
  then show ?thesis
    by (simp add: last_string_def map_filter_rev first_strings map_filter_simps)
qed

section \<open>What the actions look like\<close>

fun action_ok :: "local_action \<Rightarrow> bool" where
  "action_ok (Vacation v) \<longleftrightarrow> vac_seconds v < 2 ^ 31 \<and>
     (case vac_subject v of None \<Rightarrow> True | Some s \<Rightarrow> \<not> list_ex is_control (utf8_chars s))"
| "action_ok (FileInto mailbox copy fs) \<longleftrightarrow> mailbox \<noteq> [] \<and>
     (case fs of None \<Rightarrow> True | Some l \<Rightarrow> list_all flag_ok l)"
| "action_ok (Flags op fs) \<longleftrightarrow> list_all flag_ok fs"
| "action_ok (Redirect address copy) \<longleftrightarrow> address \<noteq> []"
| "action_ok _ \<longleftrightarrow> True"

definition vac_ok :: "vacation \<Rightarrow> bool" where
  "vac_ok v \<longleftrightarrow> action_ok (Vacation v)"

lemma days_bound: "min (max n 1) 31 * 86400 < (2 ^ 31 :: 64 word)"
proof -
  have "unat (min (max n 1) 31 :: 64 word) \<le> 31"
    using word_le_nat_alt [of "min (max n 1) 31" "31 :: 64 word"] by simp
  then have "unat (min (max n 1) 31 :: 64 word) * 86400 \<le> 31 * 86400" by simp
  then show ?thesis by (simp add: word_less_nat_alt unat_word_ariths)
qed

lemma vac_number_bound: "vac_number tag seen n = Some secs \<Longrightarrow> tag \<in> set [''days'', ''seconds''] \<Longrightarrow> secs < 2 ^ 31"
  using days_bound by (auto simp: vac_number_def not_le split: if_splits)

lemma vac_strings_ok: "vac_strings tag vs v = Some v1 \<Longrightarrow> vac_ok v \<Longrightarrow> vac_ok v1"
  by (auto simp: vac_strings_def vac_ok_def split: if_splits)

lemma vac_loop_ok: "vac_loop args seen v = Some v1 \<Longrightarrow> vac_ok v \<Longrightarrow> vac_ok v1"
proof (induction args seen v rule: vac_loop.induct)
  case (2 a args seen v)
  show ?case
  proof (cases "arg_tag a")
    case None
    with 2 show ?thesis by (auto simp: vac_ok_def split: option.splits if_splits)
  next
    case (Some written)
    define tag where "tag = to_lower written"
    have fresh: "tag \<notin> seen" using "2.prems"(1) Some by (auto simp: tag_def)
    consider (mime) "tag = ''mime''" | (num) "tag \<in> set [''days'', ''seconds'']" "tag \<noteq> ''mime''"
      | (str) "tag \<in> set [''subject'', ''from'', ''addresses'', ''handle'']" "tag \<noteq> ''mime''" "tag \<notin> set [''days'', ''seconds'']"
      | (bad) "tag \<noteq> ''mime''" "tag \<notin> set [''days'', ''seconds'']" "tag \<notin> set [''subject'', ''from'', ''addresses'', ''handle'']"
      by blast
    then show ?thesis
    proof cases
      case mime
      have "vac_loop args (insert tag seen) (v\<lparr>vac_mime := True\<rparr>) = Some v1"
        using "2.prems"(1) Some fresh mime by (simp add: Let_def flip: tag_def)
      moreover have "vac_ok (v\<lparr>vac_mime := True\<rparr>)" using "2.prems"(2) by (simp add: vac_ok_def)
      ultimately show ?thesis using "2.IH"(1) [OF Some tag_def fresh mime] by blast
    next
      case num
      from "2.prems"(1) Some fresh num obtain b rest n secs where r: "args = b # rest" "arg_kind b = Number n"
        "vac_number tag (insert tag seen) n = Some secs"
        "vac_loop rest (insert tag seen) (v\<lparr>vac_seconds := secs\<rparr>) = Some v1"
        by (auto simp: Let_def simp flip: tag_def split: list.splits argument_kind.splits option.splits)
      have "vac_ok (v\<lparr>vac_seconds := secs\<rparr>)"
        using "2.prems"(2) vac_number_bound [OF r(3) num(1)] by (simp add: vac_ok_def)
      with "2.IH"(2) [OF Some tag_def fresh num(2,1) r(1,2,3)] r(4) show ?thesis by blast
    next
      case str
      from "2.prems"(1) Some fresh str obtain b rest vs v2 where r: "args = b # rest" "arg_strings b = Some vs"
        "vac_strings tag (string_values vs) v = Some v2" "vac_loop rest (insert tag seen) v2 = Some v1"
        by (auto simp: Let_def simp flip: tag_def split: list.splits option.splits)
      from "2.IH"(3) [OF Some tag_def fresh str(2,3,1) r(1,2,3,4)] vac_strings_ok [OF r(3) "2.prems"(2)]
      show ?thesis by blast
    next
      case bad
      with "2.prems"(1) Some fresh show ?thesis by (simp add: Let_def flip: tag_def)
    qed
  qed
qed simp

lemma vacation_of_ok: "vacation_of c = Inr v \<Longrightarrow> vac_ok v"
  using vac_loop_ok [of "cmd_args c" "{}" default_vacation v]
  by (auto simp: vacation_of_def vac_ok_def default_vacation_def split: option.splits)

lemma flags_tag_ok:
  "validate_flags_tag c = Inr () \<Longrightarrow> tagged_values (cmd_args c) ''flags'' = Some vs \<Longrightarrow> list_all flag_ok (flag_values vs)"
  using untagged_values [of "cmd_args c" "''flags''"]
  by (auto simp: validate_flags_tag_def check_flags_def guard_err_Inr list_all_iff list_ex_iff split: if_splits)

lemma typed_action:
  assumes "command_typed ch c" "run_action (to_lower (cmd_name c)) c acts flags = Some (Inr (acts', flags'))"
    "to_lower (cmd_name c) \<notin> set plain_names"
  shows "\<exists>new. acts' = acts @ new \<and> list_all action_ok new \<and>
     (\<forall>a k. Redirect a k \<in> set new \<longrightarrow> to_lower (cmd_name c) = ''redirect'' \<and> strings (cmd_args c) = [[a]]) \<and>
     ((\<exists>v. Vacation v \<in> set new) \<longrightarrow> to_lower (cmd_name c) = ''vacation'')"
proof -
  from assms(1) have val: "validate_action (to_lower (cmd_name c)) c = Inr ()" "validate_flags_tag c = Inr ()"
    by (simp_all add: command_typed_def)
  note run = assms(2)
  show ?thesis
    using action_name_cases [OF validate_action_names [OF val(1) assms(3)]]
  proof (elim disjE)
    assume n: "to_lower (cmd_name c) = ''vacation''"
    obtain v where "vacation_of c = Inr v" using validate_vacation [of c] val(1) n by auto
    with run n show ?thesis using vacation_of_ok [of c v]
      by (auto simp: run_simple_actions vac_ok_def)
  next
    assume n: "to_lower (cmd_name c) = ''require''"
    with run show ?thesis by (simp add: run_simple_actions)
  next
    assume n: "to_lower (cmd_name c) = ''keep''"
    with run flags_tag_ok [OF val(2)] show ?thesis
      by (cases "tagged_values (cmd_args c) ''flags''") (auto simp: run_simple_actions)
  next
    assume n: "to_lower (cmd_name c) = ''discard''"
    with run show ?thesis by (auto simp: run_simple_actions)
  next
    assume n: "to_lower (cmd_name c) = ''fileinto''"
    obtain x where "strings (cmd_args c) = [[x]]" "x \<noteq> []" using validate_fileinto [of c] val(1) n by auto
    with run n flags_tag_ok [OF val(2)] show ?thesis
      by (cases "tagged_values (cmd_args c) ''flags''") (auto simp: run_simple_actions)
  next
    assume n: "to_lower (cmd_name c) = ''redirect''"
    obtain x where "strings (cmd_args c) = [[x]]" "x \<noteq> []" using validate_redirect [of c] val(1) n by auto
    with run n show ?thesis by (auto simp: run_simple_actions)
  next
    assume n: "to_lower (cmd_name c) \<in> set flag_names"
    obtain vs where "strings (cmd_args c) = [vs]" "list_all flag_ok (flag_values vs)"
      using validate_flag_action [OF val(1) n] by auto
    with run run_flag_action [OF n] show ?thesis by auto
  qed
qed

lemma run_plain_none:
  assumes "name \<in> set plain_names"
  shows "run_action name c acts flags \<noteq> Some (Inr x)"
proof -
  have "run_action ''if'' c acts flags \<noteq> Some (Inr x)" "run_action ''elsif'' c acts flags \<noteq> Some (Inr x)"
    "run_action ''else'' c acts flags \<noteq> Some (Inr x)" "run_action ''stop'' c acts flags \<noteq> Some (Inr x)"
    by (simp_all add: run_action_def Let_def)
  with assms show ?thesis by (auto simp: plain_names_def)
qed

lemma produces_typed:
  assumes "command_typed ch c"
    "\<And>a k. to_lower (cmd_name c) = ''redirect'' \<Longrightarrow> strings (cmd_args c) = [[a]] \<Longrightarrow> P (Redirect a k)"
    "\<And>v. to_lower (cmd_name c) = ''vacation'' \<Longrightarrow> P (Vacation v)"
    "\<And>x. (\<nexists>a k. x = Redirect a k) \<Longrightarrow> (\<nexists>v. x = Vacation v) \<Longrightarrow> P x"
  shows "produces P c"
  unfolding produces_def
proof (intro allI impI)
  fix acts flags acts' flags'
  assume run: "run_action (to_lower (cmd_name c)) c acts flags = Some (Inr (acts', flags'))" and old: "list_all P acts"
  have "to_lower (cmd_name c) \<notin> set plain_names" using run_plain_none run by blast
  from typed_action [OF assms(1) run this] obtain new where new: "acts' = acts @ new"
    "\<forall>a k. Redirect a k \<in> set new \<longrightarrow> to_lower (cmd_name c) = ''redirect'' \<and> strings (cmd_args c) = [[a]]"
    "(\<exists>v. Vacation v \<in> set new) \<longrightarrow> to_lower (cmd_name c) = ''vacation''" by (elim exE conjE)
  have "P x" if x: "x \<in> set new" for x
  proof (cases "(\<exists>a k. x = Redirect a k) \<or> (\<exists>v. x = Vacation v)")
    case True
    then show ?thesis
    proof (elim disjE exE)
      fix a k assume a: "x = Redirect a k"
      note n = new(2) [rule_format, OF x [unfolded a]]
      show ?thesis unfolding a by (rule assms(2) [OF conjunct1 [OF n] conjunct2 [OF n]])
    next
      fix v assume v: "x = Vacation v"
      have "to_lower (cmd_name c) = ''vacation''" using new(3) x unfolding v by blast
      then show ?thesis unfolding v by (rule assms(3))
    qed
  next
    case False
    then show ?thesis by (intro assms(4)) blast+
  qed
  with old show "list_all P acts'" unfolding new(1) by (auto simp: list_all_iff)
qed

lemma produces_ok: "command_typed ch c \<Longrightarrow> produces action_ok c"
  unfolding produces_def
proof (intro allI impI)
  fix acts flags acts' flags'
  assume c: "command_typed ch c" and old: "list_all action_ok acts"
    and run: "run_action (to_lower (cmd_name c)) c acts flags = Some (Inr (acts', flags'))"
  have "to_lower (cmd_name c) \<notin> set plain_names" using run_plain_none run by blast
  from typed_action [OF c run this] old show "list_all action_ok acts'" by (elim exE conjE) simp
qed

section \<open>The whole evaluation\<close>

definition outcome_ok :: "(local_action \<Rightarrow> bool) \<Rightarrow> (script_error + local_action list) option \<Rightarrow> bool" where
  "outcome_ok P r \<longleftrightarrow> (case r of None \<Rightarrow> False
     | Some (Inl e) \<Rightarrow> err_message e \<in> {Loc ActionLimit, Loc MultipleVacations}
     | Some (Inr acts) \<Rightarrow> list_all P acts \<and> length acts \<le> ACTION_LIMIT \<and> length (filter is_vacation acts) \<le> 1)"

lemma evaluate_local_outcome:
  assumes "chrono_ok ch" "validate ch source = Inr cs" "\<forall>c \<in> set (reached cs). command_typed ch c \<longrightarrow> produces P c"
  shows "outcome_ok P (evaluate_local ch source msg)"
proof -
  let ?m = "msg\<lparr>current_time := Some (case current_time msg of Some s \<Rightarrow> s | None \<Rightarrow> utc_now ch)\<rparr>"
  have "all_typed ch P (reached cs)"
    using validate_typed(2) [OF assms(2)] assms(3) by (simp add: all_typed_def)
  with run_good(1) [OF assms(1)]
  have good: "run_good P (run ch ?m False cs [] (msg_flags ?m))" by (simp add: ACTION_LIMIT_def)
  show ?thesis
  proof (cases "run ch ?m False cs [] (msg_flags ?m)")
    case None
    with good show ?thesis by (simp add: run_good_def)
  next
    case (Some r)
    with good assms(2) show ?thesis
      by (cases r) (auto simp: run_good_def evaluate_local_def Let_def outcome_ok_def error_at_def)
  qed
qed

section \<open>What a run may cost\<close>

text \<open>No command runs twice: a run yields at most two actions for each command of the script.\<close>

abbreviation vac_count :: "local_action list \<Rightarrow> nat" where
  "vac_count acts \<equiv> length (filter is_vacation acts)"

definition vac_cost :: "command \<Rightarrow> nat" where
  "vac_cost c = (if to_lower (cmd_name c) = ''vacation'' then 1 else 0)"

lemma typed_action_cost:
  assumes "command_typed ch c" "to_lower (cmd_name c) \<notin> set plain_names"
  shows "\<exists>acts' flags'. run_action (to_lower (cmd_name c)) c acts flags = Some (Inr (acts', flags')) \<and>
     length acts' \<le> length acts + 2 \<and> vac_count acts' \<le> vac_count acts + vac_cost c"
proof -
  from assms(1) have val: "validate_action (to_lower (cmd_name c)) c = Inr ()"
    by (simp add: command_typed_def)
  show ?thesis
    using action_name_cases [OF validate_action_names [OF val assms(2)]]
  proof (elim disjE)
    assume n: "to_lower (cmd_name c) = ''vacation''"
    obtain v where "vacation_of c = Inr v" using validate_vacation [of c] val n by auto
    with n show ?thesis by (simp add: run_simple_actions vac_cost_def)
  next
    assume n: "to_lower (cmd_name c) = ''keep''"
    then show ?thesis by (simp add: run_simple_actions vac_cost_def split: option.split)
  next
    assume n: "to_lower (cmd_name c) = ''fileinto''"
    obtain x where "strings (cmd_args c) = [[x]]" using validate_fileinto [of c] val n by auto
    with n show ?thesis by (simp add: run_simple_actions)
  next
    assume n: "to_lower (cmd_name c) = ''redirect''"
    obtain x where "strings (cmd_args c) = [[x]]" using validate_redirect [of c] val n by auto
    with n show ?thesis by (simp add: run_simple_actions)
  next
    assume n: "to_lower (cmd_name c) \<in> set flag_names"
    obtain vs where "strings (cmd_args c) = [vs]" using validate_flag_action [OF val n] by auto
    from run_flag_action [OF n this] show ?thesis by simp
  qed (simp_all add: run_simple_actions)
qed

definition cost :: "command list \<Rightarrow> nat" where "cost cs = 2 * length cs"
definition vacs :: "command list \<Rightarrow> nat" where "vacs cs = length (vacation_spans cs)"

lemma cost_simps [simp]:
  "cost [] = 0" "cost (c # cs) = 2 + cost cs" "cost (cs @ ds) = cost cs + cost ds"
  "vacs [] = 0" "vacs (c # cs) = vac_cost c + vacs cs" "vacs (cs @ ds) = vacs cs + vacs ds"
  by (simp_all add: cost_def vacs_def vacation_spans_def vac_cost_def)

definition within_cost :: "nat \<Rightarrow> nat \<Rightarrow> run_result \<Rightarrow> bool" where
  "within_cost n v r \<longleftrightarrow> (\<exists>stopped acts flags. r = Some (Inr (stopped, acts, flags)) \<and>
     length acts \<le> n \<and> vac_count acts \<le> v)"

lemma within_costI: "length acts \<le> n \<Longrightarrow> vac_count acts \<le> v \<Longrightarrow> within_cost n v (Some (Inr (st, acts, flags)))"
  by (simp add: within_cost_def)

lemma within_cost_mono: "within_cost n v r \<Longrightarrow> n \<le> n' \<Longrightarrow> v \<le> v' \<Longrightarrow> within_cost n' v' r"
  by (auto simp: within_cost_def)

lemma within_cost_bind:
  assumes "within_cost n v r" "n \<le> n'" "v \<le> v'"
    "\<And>acts1 flags1. length acts1 \<le> n \<Longrightarrow> vac_count acts1 \<le> v \<Longrightarrow> within_cost n' v' (k acts1 flags1)"
  shows "within_cost n' v' (obind r (\<lambda>(stopped, acts1, flags1).
    if stopped then Some (Inr (True, acts1, flags1)) else k acts1 flags1))"
proof -
  from assms(1) obtain st acts flags where r: "r = Some (Inr (st, acts, flags))" "length acts \<le> n" "vac_count acts \<le> v"
    by (auto simp: within_cost_def)
  show ?thesis
  proof (cases st)
    case True
    have "within_cost n' v' (Some (Inr (True, acts, flags)))"
      by (rule within_costI) (use r assms(2,3) in linarith)+
    with True r(1) show ?thesis by simp
  next
    case False
    with r assms(4) [OF r(2,3), of flags] show ?thesis by simp
  qed
qed

lemma run_cost_step:
  assumes ch: "chrono_ok ch" and all: "all_typed ch P (reached (Command nm s args ts listed b # cs))"
    and lim: "length acts + cost (reached (Command nm s args ts listed b # cs)) \<le> ACTION_LIMIT"
    and blk: "\<And>bl acts flags. b = Some bl \<Longrightarrow> all_typed ch P (reached_block bl) \<Longrightarrow>
      length acts + cost (reached_block bl) \<le> ACTION_LIMIT \<Longrightarrow>
      within_cost (length acts + cost (reached_block bl)) (vac_count acts + vacs (reached_block bl))
        (run_block ch m bl acts flags)"
    and rest: "\<And>matched acts flags. length acts + cost (reached cs) \<le> ACTION_LIMIT \<Longrightarrow>
      within_cost (length acts + cost (reached cs)) (vac_count acts + vacs (reached cs))
        (run ch m matched cs acts flags)"
  shows "within_cost (length acts + cost (reached (Command nm s args ts listed b # cs)))
    (vac_count acts + vacs (reached (Command nm s args ts listed b # cs)))
    (run ch m matched (Command nm s args ts listed b # cs) acts flags)"
proof -
  let ?c = "Command nm s args ts listed b"
  define name where "name = to_lower nm"
  define n where "n = length acts + cost (reached (?c # cs))"
  define v where "v = vac_count acts + vacs (reached (?c # cs))"
  have le: "length acts + cost (reached cs) \<le> n" "vac_count acts + vacs (reached cs) \<le> v" "n \<le> ACTION_LIMIT"
    using lim by (auto simp: n_def v_def)
  have more: "within_cost n v (run ch m mt cs acts1 flags1)"
    if "length acts1 + cost (reached cs) \<le> n" "vac_count acts1 + vacs (reached cs) \<le> v" for mt acts1 flags1
    using within_cost_mono [OF rest] that le(3) by (meson order.trans)
  have typed: "command_typed ch ?c" and typed_block: "\<And>bl. b = Some bl \<Longrightarrow> all_typed ch P (reached_block bl)"
    and room: "\<And>bl. b = Some bl \<Longrightarrow> n = length acts + cost (reached_block bl) + 2 + cost (reached cs)"
      "\<And>bl. b = Some bl \<Longrightarrow> v = vac_count acts + vac_cost ?c + vacs (reached_block bl) + vacs (reached cs)"
    if "name \<noteq> ''require''"
    using all that by (auto simp: all_typed_def name_def n_def v_def)
  consider (branch) "name \<in> set [''if'', ''elsif'', ''else'']" | (stop) "name = ''stop''"
    | (action) "name \<notin> set plain_names" by (auto simp: plain_names_def)
  then have "within_cost n v (run ch m matched (?c # cs) acts flags)" (is ?G)
  proof cases
    case branch
    then have nr: "name \<noteq> ''require''" by auto
    define matched1 where "matched1 \<longleftrightarrow> name \<noteq> ''if'' \<and> matched"
    obtain g where g: "guard_matches ch m flags matched1 name ts = Some g"
      using guard_matches_total [OF ch typed [OF nr]] branch unfolding name_def by blast
    have eq: "run ch m matched (?c # cs) acts flags = (if g then (case b of
          None \<Rightarrow> run ch m True cs acts flags
        | Some bl \<Rightarrow> obind (run_block ch m bl acts flags) (\<lambda>(stopped, acts1, flags1).
            if stopped then Some (Inr (True, acts1, flags1)) else run ch m True cs acts1 flags1))
      else run ch m matched1 cs acts flags)"
      using branch g by (cases g) (simp_all add: Let_def flip: name_def matched1_def)
    show ?G
    proof (cases b)
      case None
      then show ?G unfolding eq using more [OF le(1,2)] by simp
    next
      case (Some bl)
      note r = room [OF nr Some]
      have "within_cost n v (obind (run_block ch m bl acts flags) (\<lambda>(stopped, acts1, flags1).
        if stopped then Some (Inr (True, acts1, flags1)) else run ch m True cs acts1 flags1))"
        by (rule within_cost_bind [OF blk [OF Some typed_block [OF nr Some]]], (use r le(3) in linarith)+)
          (rule more, use r in linarith, use r in linarith)
      with Some show ?G unfolding eq using more [OF le(1,2)] by simp
    qed
  next
    case stop
    then have "run ch m matched (?c # cs) acts flags = Some (Inr (True, acts, flags))"
      by (simp add: Let_def flip: name_def)
    moreover have "within_cost n v (Some (Inr (True, acts, flags)))"
      by (rule within_costI) (use le in linarith)+
    ultimately show ?G by simp
  next
    case action
    then have eq: "run ch m matched (?c # cs) acts flags = obind (run_action name ?c acts flags) (\<lambda>(acts1, flags1).
      if length acts1 > ACTION_LIMIT then Some (Inl (error_at s (Loc ActionLimit)))
      else run ch m False cs acts1 flags1)"
      by (simp add: Let_def plain_names_def flip: name_def)
    obtain acts1 flags1 where ra: "run_action name ?c acts flags = Some (Inr (acts1, flags1))"
      "length acts1 + cost (reached cs) \<le> n" "vac_count acts1 + vacs (reached cs) \<le> v"
    proof (cases "name = ''require''")
      case True
      then show thesis using that le(1,2) run_simple_actions(1) [of ?c acts flags] by simp
    next
      case False
      from typed_action_cost [OF typed [OF False], of acts flags] action
      obtain acts1 flags1 where "run_action name ?c acts flags = Some (Inr (acts1, flags1))"
        "length acts1 \<le> length acts + 2" "vac_count acts1 \<le> vac_count acts + vac_cost ?c"
        unfolding name_def by auto
      moreover have "length acts + 2 + cost (reached cs) \<le> n" "vac_count acts + vac_cost ?c + vacs (reached cs) \<le> v"
        using False by (simp_all add: n_def v_def name_def)
      ultimately show thesis using that by (meson add_le_mono1 order.trans)
    qed
    then have "length acts1 \<le> ACTION_LIMIT" using le(3) by linarith
    with ra(1) more [OF ra(2,3)] show ?G unfolding eq by simp
  qed
  then show ?thesis by (simp only: n_def v_def)
qed

lemma run_cost:
  assumes "chrono_ok ch"
  shows "\<forall>matched acts flags. all_typed ch P (reached cs) \<longrightarrow> length acts + cost (reached cs) \<le> ACTION_LIMIT \<longrightarrow>
      within_cost (length acts + cost (reached cs)) (vac_count acts + vacs (reached cs)) (run ch m matched cs acts flags)"
    and "\<forall>acts flags. all_typed ch P (reached_block bl) \<longrightarrow> length acts + cost (reached_block bl) \<le> ACTION_LIMIT \<longrightarrow>
      within_cost (length acts + cost (reached_block bl)) (vac_count acts + vacs (reached_block bl))
        (run_block ch m bl acts flags)"
proof (induction cs and bl rule: commands_induct)
  case Nil
  show ?case by (simp add: within_costI)
next
  case (Cons nm s args ts listed b cs)
  show ?case
  proof (intro allI impI)
    fix matched flags and acts :: "local_action list"
    assume all: "all_typed ch P (reached (Command nm s args ts listed b # cs))"
      and lim: "length acts + cost (reached (Command nm s args ts listed b # cs)) \<le> ACTION_LIMIT"
    show "within_cost (length acts + cost (reached (Command nm s args ts listed b # cs)))
      (vac_count acts + vacs (reached (Command nm s args ts listed b # cs)))
      (run ch m matched (Command nm s args ts listed b # cs) acts flags)"
      by (rule run_cost_step [OF assms all lim]) (use Cons all_typed_reached [OF all] in blast)+
  qed
qed simp

end
