(* ===== verification/Sieve_Local_Thms.thy ===== *)
theory Sieve_Local_Thms
  imports Sieve_Local_Safe
begin

text \<open>
  The properties of the local runner (\<open>local.rs\<close>): soundness of its validation, the form of the
  actions, the link with the server policy, progress, and the exactness of the comparison of
  numbers as text.
\<close>

section \<open>Numbers compared as text\<close>

text \<open>The reference: the value of the leading digits, no digits being more than any number.\<close>

definition numeric_value :: "string \<Rightarrow> nat option" where
  "numeric_value s = (let ds = takeWhile is_digit s in if ds = [] then None else Some (dec_value ds))"

definition numeric_cmp :: "nat option \<Rightarrow> nat option \<Rightarrow> ordering" where
  "numeric_cmp l r = (case (l, r) of
       (None, None) \<Rightarrow> Equal | (None, Some _) \<Rightarrow> Greater | (Some _, None) \<Rightarrow> Less
     | (Some a, Some b) \<Rightarrow> cmp a b)"


lemma dec_value_trim: "dec_value (trim_start_bytes {CHR ''0''} s) = dec_value s"
  by (induction s) (simp_all add: dec_value_simps)

lemma trimmed_large:
  assumes "list_all is_digit (b # s)" "b \<noteq> CHR ''0''"
  shows "10 ^ length s \<le> dec_value (b # s)"
proof -
  have "byte b \<noteq> 48"
  proof
    assume "byte b = 48"
    then have "byte b = byte (CHR ''0'')" by simp
    then have "b = CHR ''0''" by (simp only: of_char_eq_iff)
    with assms(2) show False by simp
  qed
  with assms(1) have "1 \<le> byte b - 48" by (auto simp: is_digit_def)
  then have "1 * 10 ^ length s \<le> (byte b - 48) * 10 ^ length s" by (rule mult_right_mono) simp
  then show ?thesis unfolding dec_value_simps by linarith
qed

lemma char_less: "(b < c) = (byte b < byte c)"
  by (simp add: less_char_def)

lemma cmp_add: "cmp (k + a) (k + b :: nat) = cmp a b"
  by (simp add: cmp_def)

lemma cmp_Cons: "cmp (c # l) (c # r :: string) = cmp l r"
  by (simp add: cmp_def)

lemma digits_cmp:
  "length l = length r \<Longrightarrow> list_all is_digit l \<Longrightarrow> list_all is_digit r \<Longrightarrow> cmp l r = cmp (dec_value l) (dec_value r)"
proof (induction l r rule: list_induct2)
  case (Cons b l c r)
  let ?b = "byte b - 48" and ?c = "byte c - 48" and ?p = "10 ^ length r :: nat"
  have d: "48 \<le> byte b" "48 \<le> byte c" using Cons.prems by (simp_all add: is_digit_def)
  have small: "dec_value l < ?p" "dec_value r < ?p" "length l = length r"
    using dec_value_less [of l] dec_value_less [of r] Cons by simp_all
  have val: "dec_value (b # l) = ?b * ?p + dec_value l" "dec_value (c # r) = ?c * ?p + dec_value r"
    using small(3) by (simp_all add: dec_value_simps)
  consider "b = c" | "byte b < byte c" | "byte c < byte b"
    by (metis linorder_less_linear of_char_eq_iff)
  then show ?case
  proof cases
    case 1
    with Cons val show ?thesis by (simp add: cmp_add cmp_Cons)
  next
    case 2
    with d have "?b + 1 \<le> ?c" by linarith
    then have "(?b + 1) * ?p \<le> ?c * ?p" by (rule mult_right_mono) simp
    with small have "dec_value (b # l) < dec_value (c # r)" unfolding val by simp
    moreover have "b # l < c # r" using 2 by (simp add: char_less)
    ultimately show ?thesis by (auto simp: cmp_def)
  next
    case 3
    with d have "?c + 1 \<le> ?b" by linarith
    then have "(?c + 1) * ?p \<le> ?b * ?p" by (rule mult_right_mono) simp
    with small have "dec_value (c # r) < dec_value (b # l)" unfolding val by simp
    moreover have "c # r < b # l" using 3 by (simp add: char_less)
    ultimately show ?thesis by (auto simp: cmp_def dest: order.asym)
  qed
qed (simp add: cmp_def)

lemma shorter_less:
  assumes "length l < length r" "list_all is_digit l" "list_all is_digit r" "hd r \<noteq> CHR ''0''"
  shows "dec_value l < dec_value r"
proof -
  obtain b s where r: "r = b # s" using assms(1) by (cases r) auto
  have "dec_value l < 10 ^ length l" by (rule dec_value_less [OF assms(2)])
  also have "\<dots> \<le> 10 ^ length s" using assms(1) r by (intro power_increasing) simp_all
  also have "\<dots> \<le> dec_value r" unfolding r by (rule trimmed_large) (use assms r in auto)
  finally show ?thesis .
qed

lemma trimmed_cmp:
  assumes "list_all is_digit l" "list_all is_digit r"
    "l \<noteq> [] \<Longrightarrow> hd l \<noteq> CHR ''0''" "r \<noteq> [] \<Longrightarrow> hd r \<noteq> CHR ''0''"
  shows "then_with (cmp (length l) (length r)) (cmp l r) = cmp (dec_value l) (dec_value r)"
proof -
  consider "length l = length r" | "length l < length r" | "length r < length l" by linarith
  then show ?thesis
  proof cases
    case 1
    then show ?thesis using digits_cmp [OF 1 assms(1,2)] by (simp add: then_with_def cmp_def [of "length r"])
  next
    case 2
    then have "r \<noteq> []" by auto
    from shorter_less [OF 2 assms(1,2) assms(4) [OF this]] 2 show ?thesis by (simp add: then_with_def cmp_def)
  next
    case 3
    then have "l \<noteq> []" by auto
    from shorter_less [OF 3 assms(2,1) assms(3) [OF this]] 3 show ?thesis by (simp add: then_with_def cmp_def)
  qed
qed

lemma numeric_order_value: "numeric_order l r = numeric_cmp (numeric_value l) (numeric_value r)"
proof -
  have dig: "list_all is_digit (trim_start_bytes {CHR ''0''} (takeWhile is_digit s))" for s
    by (auto simp: list_all_iff dest: set_dropWhileD set_takeWhileD)
  have hd: "hd (trim_start_bytes {CHR ''0''} t) \<noteq> CHR ''0''" if "trim_start_bytes {CHR ''0''} t \<noteq> []" for t
    using hd_dropWhile [OF that] by simp
  show ?thesis
    using trimmed_cmp [OF dig dig hd hd, of l r]
    by (simp add: numeric_order_def numeric_cmp_def number_prefix_def numeric_value_def Let_def dec_value_trim [simplified])
qed

section \<open>Properties\<close>


text \<open>C36: what comes out of an evaluation is well formed: every flag of an action is a flag the
  server may set (a system flag or an atom without control characters), no mailbox or address is
  empty, a vacation interval is below 2^31 seconds and its subject has no control characters,
  there is at most one vacation reply, and at most 1024 actions in all.\<close>

theorem evaluated_actions_well_formed:
  assumes "chrono_ok ch" "evaluate_local ch source msg = Some (Inr acts)"
  shows "list_all action_ok acts \<and> length acts \<le> 1024 \<and> vac_count acts \<le> 1"
proof (cases "validate ch source")
  case (Inl e)
  with assms(2) show ?thesis by (simp add: evaluate_local_def)
next
  case (Inr cs)
  have "outcome_ok action_ok (evaluate_local ch source msg)"
    by (rule evaluate_local_outcome [OF assms(1) Inr]) (simp add: produces_ok)
  with assms(2) show ?thesis by (simp add: outcome_ok_def ACTION_LIMIT_def)
qed

text \<open>C37: the policy binds what runs. When the server policy accepted a script under which external
  forwarding is off, every redirect the local evaluation yields, on any message, goes to an
  address the policy counts as the account's own; when vacation replies are off, none is sent.\<close>

theorem policy_binds_execution:
  assumes "chrono_ok ch" "enforce source p edit = Inr a" "evaluate_local ch source msg = Some (Inr acts)"
  shows "(forward_external p \<or> (\<forall>address copy. Redirect address copy \<in> set acts \<longrightarrow>
      target_is_own (Some address) (own_domains p))) \<and>
    (vacation_allowed p \<or> vac_count acts = 0)"
proof -
  from assms(3) obtain cs where v: "validate ch source = Inr cs"
    by (cases "validate ch source") (auto simp: evaluate_local_def)
  from validate_typed(1) [OF v] obtain b where b: "check source = Inr (cs, b)" by blast
  let ?P = "\<lambda>x. case x of
      Redirect address copy \<Rightarrow> forward_external p \<or> target_is_own (Some address) (own_domains p)
    | Vacation _ \<Rightarrow> vacation_allowed p | _ \<Rightarrow> True"
  have "produces ?P c" if c: "c \<in> set (reached cs)" and typed: "command_typed ch c" for c
  proof (rule produces_typed [OF typed])
    fix address copy
    assume n: "to_lower (cmd_name c) = ''redirect''" and s: "strings (cmd_args c) = [[address]]"
    have "validate_action ''redirect'' c = Inr ()" using typed by (simp add: command_typed_def n)
    from redirect_string [OF this s] accepted_redirect_target [OF assms(2) _ b c n]
    show "?P (Redirect address copy)" by fastforce
  next
    fix v assume "to_lower (cmd_name c) = ''vacation''"
    then show "?P (Vacation v)" using accepted_vacations [OF assms(2) b] c by auto
  qed (auto split: local_action.split)
  then have "outcome_ok ?P (evaluate_local ch source msg)"
    by (intro evaluate_local_outcome [OF assms(1) v]) blast
  with assms(3) have all: "list_all ?P acts" by (simp add: outcome_ok_def)
  have "forward_external p \<or> target_is_own (Some address) (own_domains p)"
    if "Redirect address copy \<in> set acts" for address copy
    using all that by (fastforce simp: list_all_iff)
  moreover have "\<not> is_vacation x" if "x \<in> set acts" "\<not> vacation_allowed p" for x
    using all that by (cases x) (force simp: list_all_iff)+
  then have "vacation_allowed p \<or> filter is_vacation acts = []" by (auto simp: filter_empty_conv)
  ultimately show ?thesis by auto
qed


text \<open>Numbers are compared exactly, at any length. The order the \<open>i;ascii-numeric\<close> comparator
  computes on text, by digit count and then byte by byte after dropping leading zeros, is the
  order of the values of the leading digits, with text that has no leading digit above every
  number.\<close>

theorem numeric_order_exact:
  "numeric_order left right = numeric_cmp (numeric_value left) (numeric_value right)"
  by (rule numeric_order_value)

section \<open>A concrete run\<close>

text \<open>A calendar of seconds in UTC, enough to evaluate scripts that name no date.\<close>

definition sample_chrono :: "(int, int) chrono" where
  "sample_chrono = \<lparr>utc_now = 0, utc_at = Some, parse_rfc2822 = (\<lambda>_. None), offset_of = (\<lambda>_. 0),
     east_opt = Some, in_zone = (\<lambda>d z. d + z), format_date = (\<lambda>f d. f), rfc3339_secs = int_str,
     rfc2822_text = int_str, from_sunday = (\<lambda>d. nat ((d div 86400 + 4) mod 7)),
     days_since = (\<lambda>d y m k. Some (d div 86400 + 40587))\<rparr>"

definition sample_message :: message where
  "sample_message = \<lparr>current_time = None, headers = [(''From'', ''x@y.example'')], msg_body = [],
     msg_flags = [], msg_size = 10, envelope_from = None, envelope_to = None\<rparr>"

lemma sample_chrono_ok: "chrono_ok sample_chrono"
  by (simp add: chrono_ok_def sample_chrono_def)

lemma sample_run: "evaluate_local sample_chrono sample_checked sample_message =
    Some (Inr [Redirect ''a@b.example'' False, Vacation (default_vacation\<lparr>vac_reason := ''away''\<rparr>)])"
  by code_simp

lemma sample_valid: "\<exists>cs. validate sample_chrono sample_checked = Inr cs \<and> length (reached cs) \<le> 512 \<and>
    length (vacation_spans (reached cs)) \<le> 1"
proof -
  have "case validate sample_chrono sample_checked of Inl e \<Rightarrow> False
    | Inr cs \<Rightarrow> length (reached cs) \<le> 512 \<and> length (vacation_spans (reached cs)) \<le> 1"
    by code_simp
  then show ?thesis by (auto split: sum.splits)
qed


theorem evaluated_actions_well_formed_witness:
  "list_all action_ok [Redirect ''a@b.example'' False, Vacation (default_vacation\<lparr>vac_reason := ''away''\<rparr>)]"
  using evaluated_actions_well_formed [OF sample_chrono_ok sample_run] by (rule conjunct1)

theorem policy_binds_execution_witness:
  "\<exists>a. enforce sample_checked sample_policy Raw = Inr a \<and>
     (forward_external sample_policy \<or> target_is_own (Some ''a@b.example'') (own_domains sample_policy))"
proof -
  obtain a where a: "enforce sample_checked sample_policy Raw = Inr a" using sample_accepted by blast
  from policy_binds_execution [OF sample_chrono_ok a sample_run] a show ?thesis by auto
qed


text \<open>The fields of a time zone are read as signed numbers: a second sign inside one is taken, so
  \<open>+-5+9\<close> is a zone five hours less nine minutes west of Greenwich.\<close>

theorem zone_accepts_inner_signs:
  "zone ch ''+-5+9'' = east_opt ch (- 17460)"
  by (simp add: zone_def parse_i32_def parse_digits_def dec_value_def is_digit_def is_ascii_def)

end
