(* ===== verification/Rust_Net.thy ===== *)
theory Rust_Net
  imports Rust_Str
begin

text \<open>
  The part of Rust's \<open>std::net\<close> that the egress crate uses: IPv4 and IPv6 addresses as
  machine words with their octets and segments, the classification methods, and the
  reading and printing of address text as the standard library does it.
\<close>

unbundle bit_operations_syntax

section \<open>Addresses\<close>

type_synonym ipv4 = "32 word"
type_synonym ipv6 = "128 word"

datatype ip_addr = V4 ipv4 | V6 ipv6

definition octets :: "ipv4 \<Rightarrow> 8 word list" where
  "octets a = map (\<lambda>n. ucast (drop_bit n a)) [24, 16, 8, 0]"

definition of_octets :: "8 word list \<Rightarrow> ipv4" where
  "of_octets = foldl (\<lambda>acc b. push_bit 8 acc OR ucast b) 0"

definition segments :: "ipv6 \<Rightarrow> 16 word list" where
  "segments a = map (\<lambda>n. ucast (drop_bit n a)) [112, 96, 80, 64, 48, 32, 16, 0]"

definition of_segments :: "16 word list \<Rightarrow> ipv6" where
  "of_segments = foldl (\<lambda>acc s. push_bit 16 acc OR ucast s) 0"

lemma length_octets [simp]: "length (octets a) = 4"
  by (simp add: octets_def)

lemma length_segments [simp]: "length (segments a) = 8"
  by (simp add: segments_def)

lemma join_octet:
  "push_bit 8 (drop_bit (n + 8) a) OR ucast (ucast (drop_bit n a) :: 8 word) = drop_bit n (a :: ipv4)"
  by (rule bit_word_eqI) (auto simp: bit_simps)

lemma of_octets_octets [simp]: "of_octets (octets a) = a"
  using join_octet [of 24 a] join_octet [of 16 a] join_octet [of 8 a] join_octet [of 0 a]
  by (simp add: of_octets_def octets_def)

lemma join_segment:
  "push_bit 16 (drop_bit (n + 16) a) OR ucast (ucast (drop_bit n a) :: 16 word) = drop_bit n (a :: ipv6)"
  by (rule bit_word_eqI) (auto simp: bit_simps)

lemma of_segments_segments [simp]: "of_segments (segments a) = a"
  using join_segment [of 112 a] join_segment [of 96 a] join_segment [of 80 a] join_segment [of 64 a]
    join_segment [of 48 a] join_segment [of 32 a] join_segment [of 16 a] join_segment [of 0 a]
  by (simp add: of_segments_def segments_def)

lemma octets_of_octets [simp]: "octets (of_octets [a, b, c, d]) = [a, b, c, d]"
  unfolding of_octets_def octets_def
  by (simp, intro conjI; rule bit_word_eqI; auto simp: bit_simps dest: bit_imp_le_length)

lemma segments_of_segments [simp]:
  "segments (of_segments [a, b, c, d, e, f, g, h]) = [a, b, c, d, e, f, g, h]"
  unfolding of_segments_def segments_def
  by (simp, intro conjI; rule bit_word_eqI; auto simp: bit_simps dest: bit_imp_le_length)

section \<open>Classification\<close>

definition v4_loopback :: "ipv4 \<Rightarrow> bool" where
  "v4_loopback a \<longleftrightarrow> octets a ! 0 = 127"

definition v4_private :: "ipv4 \<Rightarrow> bool" where
  "v4_private a \<longleftrightarrow> octets a ! 0 = 10
     \<or> octets a ! 0 = 172 \<and> 16 \<le> octets a ! 1 \<and> octets a ! 1 \<le> 31
     \<or> octets a ! 0 = 192 \<and> octets a ! 1 = 168"

definition v4_link_local :: "ipv4 \<Rightarrow> bool" where
  "v4_link_local a \<longleftrightarrow> octets a ! 0 = 169 \<and> octets a ! 1 = 254"

definition v4_unspecified :: "ipv4 \<Rightarrow> bool" where
  "v4_unspecified a \<longleftrightarrow> a = 0"

definition v4_broadcast :: "ipv4 \<Rightarrow> bool" where
  "v4_broadcast a \<longleftrightarrow> a = 0xFFFFFFFF"

definition v4_multicast :: "ipv4 \<Rightarrow> bool" where
  "v4_multicast a \<longleftrightarrow> 224 \<le> octets a ! 0 \<and> octets a ! 0 \<le> 239"

definition v4_documentation :: "ipv4 \<Rightarrow> bool" where
  "v4_documentation a \<longleftrightarrow> take 3 (octets a) \<in> set [[192, 0, 2], [198, 51, 100], [203, 0, 113]]"

definition v6_loopback :: "ipv6 \<Rightarrow> bool" where
  "v6_loopback a \<longleftrightarrow> a = 1"

definition v6_unspecified :: "ipv6 \<Rightarrow> bool" where
  "v6_unspecified a \<longleftrightarrow> a = 0"

definition v6_multicast :: "ipv6 \<Rightarrow> bool" where
  "v6_multicast a \<longleftrightarrow> segments a ! 0 AND 0xFF00 = 0xFF00"

definition v6_unique_local :: "ipv6 \<Rightarrow> bool" where
  "v6_unique_local a \<longleftrightarrow> segments a ! 0 AND 0xFE00 = 0xFC00"

text \<open>\<open>Ipv6Addr::to_ipv4_mapped\<close> and \<open>to_ipv4\<close>, which also takes the compatible form.\<close>

definition low_v4 :: "ipv6 \<Rightarrow> ipv4" where
  "low_v4 a = ucast a"

definition to_ipv4_mapped :: "ipv6 \<Rightarrow> ipv4 option" where
  "to_ipv4_mapped a = (if take 6 (segments a) = [0, 0, 0, 0, 0, 0xFFFF] then Some (low_v4 a) else None)"

definition to_ipv4 :: "ipv6 \<Rightarrow> ipv4 option" where
  "to_ipv4 a = (if take 5 (segments a) = [0, 0, 0, 0, 0] \<and>
     (segments a ! 5 = 0 \<or> segments a ! 5 = 0xFFFF) then Some (low_v4 a) else None)"

fun ip_loopback :: "ip_addr \<Rightarrow> bool" where
  "ip_loopback (V4 a) = v4_loopback a"
| "ip_loopback (V6 a) = v6_loopback a"

fun is_ipv4 :: "ip_addr \<Rightarrow> bool" where
  "is_ipv4 (V4 a) = True"
| "is_ipv4 (V6 a) = False"

text \<open>\<open>IpAddr::to_canonical\<close>.\<close>

fun to_canonical :: "ip_addr \<Rightarrow> ip_addr" where
  "to_canonical (V4 a) = V4 a"
| "to_canonical (V6 a) = (case to_ipv4_mapped a of Some v \<Rightarrow> V4 v | None \<Rightarrow> V6 a)"

section \<open>Reading addresses\<close>

text \<open>
  A reader takes the rest of the input and returns a value with what is left; a
  reader that fails consumes nothing (\<open>Parser::read_atomically\<close>).
\<close>

definition to_digit :: "nat \<Rightarrow> char \<Rightarrow> nat option" where
  "to_digit radix b = (let d = (if is_digit b then byte b - 48
       else if is_lower b then byte b - 87 else if is_upper b then byte b - 55 else radix)
     in if d < radix then Some d else None)"

definition digits_value :: "nat \<Rightarrow> string \<Rightarrow> nat" where
  "digits_value radix = foldl (\<lambda>v b. v * radix + (case to_digit radix b of Some d \<Rightarrow> d | None \<Rightarrow> 0)) 0"

definition read_number :: "nat \<Rightarrow> nat \<Rightarrow> bool \<Rightarrow> nat \<Rightarrow> string \<Rightarrow> (nat \<times> string) option" where
  "read_number radix max_digits allow_zero_prefix bound s =
     (let ds = takeWhile (\<lambda>b. to_digit radix b \<noteq> None) s in
      if ds = [] \<or> max_digits < length ds \<or> bound < digits_value radix ds
         \<or> \<not> allow_zero_prefix \<and> hd s = CHR ''0'' \<and> 1 < length ds
      then None else Some (digits_value radix ds, drop (length ds) s))"

definition read_separator ::
  "char \<Rightarrow> nat \<Rightarrow> (string \<Rightarrow> ('a \<times> string) option) \<Rightarrow> string \<Rightarrow> ('a \<times> string) option" where
  "read_separator sep i rd s = (if 0 < i
     then (case s of b # r \<Rightarrow> if b = sep then rd r else None | [] \<Rightarrow> None) else rd s)"

fun read_octets :: "nat \<Rightarrow> nat \<Rightarrow> string \<Rightarrow> (8 word list \<times> string) option" where
  "read_octets i 0 s = Some ([], s)"
| "read_octets i (Suc n) s =
     (case read_separator (CHR ''.'') i (read_number 10 3 False 255) s of None \<Rightarrow> None
      | Some (b, r) \<Rightarrow> (case read_octets (Suc i) n r of None \<Rightarrow> None
         | Some (bs, t) \<Rightarrow> Some (word_of_nat b # bs, t)))"

definition read_ipv4 :: "string \<Rightarrow> (ipv4 \<times> string) option" where
  "read_ipv4 s = (case read_octets 0 4 s of None \<Rightarrow> None | Some (bs, t) \<Rightarrow> Some (of_octets bs, t))"

text \<open>The groups of one side of an IPv6 literal, and whether it ended in a dotted IPv4.\<close>

fun read_groups :: "nat \<Rightarrow> nat \<Rightarrow> string \<Rightarrow> 16 word list \<times> bool \<times> string" where
  "read_groups i 0 s = ([], False, s)"
| "read_groups i (Suc n) s =
     (case (if 0 < n then read_separator (CHR '':'') i read_ipv4 s else None) of
        Some (v, r) \<Rightarrow> ([ucast (drop_bit 16 v), ucast v], True, r)
      | None \<Rightarrow> (case read_separator (CHR '':'') i (read_number 16 4 True 65535) s of
          None \<Rightarrow> ([], False, s)
        | Some (g, r) \<Rightarrow> (let (gs, v4, t) = read_groups (Suc i) n r in (word_of_nat g # gs, v4, t))))"

definition read_ipv6 :: "string \<Rightarrow> (ipv6 \<times> string) option" where
  "read_ipv6 s = (let (head, v4, r) = read_groups 0 8 s in
     if length head = 8 then Some (of_segments head, r)
     else if v4 then None
     else case r of b # c # r2 \<Rightarrow>
         if b = CHR '':'' \<and> c = CHR '':'' then
           let (tail, v4', t) = read_groups 0 (8 - (length head + 1)) r2 in
           Some (of_segments (head @ replicate (8 - length head - length tail) 0 @ tail), t)
         else None
       | _ \<Rightarrow> None)"

definition read_ip :: "string \<Rightarrow> (ip_addr \<times> string) option" where
  "read_ip s = (case read_ipv4 s of Some (v, r) \<Rightarrow> Some (V4 v, r)
     | None \<Rightarrow> (case read_ipv6 s of Some (v, r) \<Rightarrow> Some (V6 v, r) | None \<Rightarrow> None))"

text \<open>\<open>parse::<IpAddr>\<close>, \<open>parse::<Ipv4Addr>\<close> and \<open>parse::<Ipv6Addr>\<close>.\<close>

definition whole :: "('a \<times> string) option \<Rightarrow> 'a option" where
  "whole r = (case r of Some (v, t) \<Rightarrow> if t = [] then Some v else None | None \<Rightarrow> None)"

definition parse_ip :: "string \<Rightarrow> ip_addr option" where
  "parse_ip s = whole (read_ip s)"

definition parse_ipv4 :: "string \<Rightarrow> ipv4 option" where
  "parse_ipv4 s = (if 15 < length s then None else whole (read_ipv4 s))"

definition parse_ipv6 :: "string \<Rightarrow> ipv6 option" where
  "parse_ipv6 s = whole (read_ipv6 s)"

section \<open>Printing addresses\<close>

definition hex_char :: "nat \<Rightarrow> char" where
  "hex_char d = (if d < 10 then char_of (48 + d) else char_of (87 + d))"

fun hex_str :: "nat \<Rightarrow> string" where
  "hex_str n = (if n < 16 then [hex_char n] else hex_str (n div 16) @ [hex_char (n mod 16)])"

declare hex_str.simps [simp del]

definition show_ipv4 :: "ipv4 \<Rightarrow> string" where
  "show_ipv4 a = join ''.'' (map (\<lambda>b. dec_str (unat b)) (octets a))"

text \<open>The longest run of zero segments, the first of them on a tie: start and length.\<close>

fun zero_run :: "nat \<Rightarrow> nat \<times> nat \<Rightarrow> nat \<times> nat \<Rightarrow> 16 word list \<Rightarrow> nat \<times> nat" where
  "zero_run i cur best [] = best"
| "zero_run i cur best (s # ss) =
     (if s = 0 then
        let cur' = ((if snd cur = 0 then i else fst cur), Suc (snd cur)) in
        zero_run (Suc i) cur' (if snd best < snd cur' then cur' else best) ss
      else zero_run (Suc i) (0, 0) best ss)"

definition show_groups :: "16 word list \<Rightarrow> string" where
  "show_groups ss = join '':'' (map (\<lambda>s. hex_str (unat s)) ss)"

definition show_ipv6 :: "ipv6 \<Rightarrow> string" where
  "show_ipv6 a = (case to_ipv4_mapped a of
       Some v \<Rightarrow> ''::ffff:'' @ show_ipv4 v
     | None \<Rightarrow> (let (start, len) = zero_run 0 (0, 0) (0, 0) (segments a) in
         if 1 < len then show_groups (take start (segments a)) @ ''::''
           @ show_groups (drop (start + len) (segments a))
         else show_groups (segments a)))"

fun show_ip :: "ip_addr \<Rightarrow> string" where
  "show_ip (V4 a) = show_ipv4 a"
| "show_ip (V6 a) = show_ipv6 a"

end
