(* ===== verification/Egress_Networks.thy ===== *)
theory Egress_Networks
  imports Egress_Policy
begin

text \<open>
  The reference address policy: tables of networks, the IPv4 addresses an IPv6 address
  carries, and the proof that the tests on octets and segments in \<open>Egress_Policy\<close>
  compute membership in those networks.
\<close>

unbundle bit_operations_syntax

section \<open>Networks\<close>

text \<open>A network is an address with a prefix length; an address is in it when the leading bits agree.\<close>

definition in_net4 :: "ipv4 \<times> nat \<Rightarrow> ipv4 \<Rightarrow> bool" where
  "in_net4 n a \<longleftrightarrow> drop_bit (32 - snd n) a = drop_bit (32 - snd n) (fst n)"

definition in_net6 :: "ipv6 \<times> nat \<Rightarrow> ipv6 \<Rightarrow> bool" where
  "in_net6 n a \<longleftrightarrow> drop_bit (128 - snd n) a = drop_bit (128 - snd n) (fst n)"

text \<open>Loopback, private, link-local, shared, documentation, benchmarking, multicast and reserved.\<close>

definition blocked4 :: "(ipv4 \<times> nat) list" where
  "blocked4 =
    [(0x7F000000, 8), (0x0A000000, 8), (0xAC100000, 12), (0xC0A80000, 16), (0xA9FE0000, 16),
     (0, 32), (0xFFFFFFFF, 32), (0xE0000000, 4), (0xC0000200, 24), (0xC6336400, 24),
     (0xCB007100, 24), (0x64400000, 10), (0xC6120000, 15), (0xF0000000, 4), (0xC0000000, 24)]"

definition blocked6 :: "(ipv6 \<times> nat) list" where
  "blocked6 = [(0, 128), (1, 128), (0xFF000000000000000000000000000000, 8),
     (0xFC000000000000000000000000000000, 7), (0xFE800000000000000000000000000000, 10),
     (0x20010DB8000000000000000000000000, 32)]"

text \<open>What no profile reaches: loopback, link-local, unspecified, multicast, and cloud metadata.\<close>

definition reserved4 :: "(ipv4 \<times> nat) list" where
  "reserved4 = [(0x7F000000, 8), (0xA9FE0000, 16), (0, 32), (0xE0000000, 4)]"

definition reserved6 :: "(ipv6 \<times> nat) list" where
  "reserved6 = [(0, 128), (1, 128), (0xFF000000000000000000000000000000, 8),
     (0xFE800000000000000000000000000000, 10), (0xFD000EC2000000000000000000000254, 128)]"

text \<open>
  The IPv4 addresses an IPv6 address carries: in its last 32 bits (IPv4-compatible,
  IPv4-mapped, NAT64), after the 6to4 prefix, as server and complemented client of a
  Teredo address, and else behind an ISATAP interface identifier.
\<close>

definition carried :: "ipv6 \<Rightarrow> ipv4 list" where
  "carried a =
     (if in_net6 (0, 96) a \<or> in_net6 (0xFFFF00000000, 96) a
         \<or> in_net6 (0x0064FF9B000000000000000000000000, 96) a then [ucast a]
      else if in_net6 (0x20020000000000000000000000000000, 16) a then [ucast (drop_bit 80 a)]
      else if in_net6 (0x20010000000000000000000000000000, 32) a
      then [ucast (drop_bit 64 a), NOT (ucast a)]
      else if take_bit 32 (drop_bit 32 a) \<in> {0x00005EFE, 0x02005EFE} then [ucast a]
      else [])"

definition outside4 :: "(ipv4 \<times> nat) list \<Rightarrow> ipv4 \<Rightarrow> bool" where
  "outside4 ns a \<longleftrightarrow> list_all (\<lambda>n. \<not> in_net4 n a) ns"

definition outside6 :: "(ipv6 \<times> nat) list \<Rightarrow> ipv6 \<Rightarrow> bool" where
  "outside6 ns a \<longleftrightarrow> list_all (\<lambda>n. \<not> in_net6 n a) ns"

text \<open>Outside the given networks, with everything the address carries.\<close>

fun keeps_out :: "(ipv4 \<times> nat) list \<Rightarrow> (ipv6 \<times> nat) list \<Rightarrow> ip_addr \<Rightarrow> bool" where
  "keeps_out ns4 ns6 (V4 a) \<longleftrightarrow> outside4 ns4 a"
| "keeps_out ns4 ns6 (V6 a) \<longleftrightarrow> outside6 ns6 a \<and> list_all (outside4 ns4) (carried a)"

section \<open>Leading bits\<close>

named_theorems net_simps \<open>segments, octets and masks as leading bits of the address\<close>

lemma and_high: "w AND NOT (mask n) = push_bit n (drop_bit n w)" for w :: "'a::len word"
  by (rule bit_word_eqI) (auto simp: bit_simps)

lemma masked_eq:
  fixes v w :: "'a::len word"
  assumes "push_bit n (drop_bit n v) = v"
  shows "w AND NOT (mask n) = v \<longleftrightarrow> drop_bit n w = drop_bit n v"
proof -
  have "drop_bit n (push_bit n (drop_bit n w)) = drop_bit n w"
    by (rule bit_word_eqI) (auto simp: bit_simps dest: bit_imp_le_length)
  with assms show ?thesis by (metis and_high)
qed

lemma unat_drop: "unat (drop_bit n w) = unat w div 2 ^ n" for w :: "'a::len word"
  by (simp add: unat_drop_bit_eq drop_bit_eq_div [of n "unat w"])

lemma unat_octet: "unat (ucast (drop_bit n a) :: 8 word) = unat (drop_bit n a) mod 256" for a :: ipv4
  by (simp add: unsigned_ucast_eq take_bit_eq_mod)

lemma word_eq_nat: "w = v \<longleftrightarrow> unat w = unat v" for v w :: "'a::len word"
  by (auto simp: word_unat_eq_iff)

lemma mask_numerals:
  "(0xC0 :: 8 word) = NOT (mask 6)" "(0xFE :: 8 word) = NOT (mask 1)"
  "(0xFF00 :: 16 word) = NOT (mask 8)" "(0xFE00 :: 16 word) = NOT (mask 9)"
  "(0xFFC0 :: 16 word) = NOT (mask 6)" "(0xFF :: 16 word) = mask 8" "(0xFFFF :: 16 word) = mask 16"
  by (simp_all add: mask_eq_decr_exp)

lemma ipv4_tail:
  fixes a :: ipv4
  defines "x \<equiv> unat a"
  shows "x < 4294967296" "unat (octets a ! 0) = x div 16777216"
    "unat (octets a ! 1) = x div 65536 mod 256" "unat (octets a ! 2) = x div 256 mod 256"
proof -
  show "x < 4294967296" unfolding x_def using unsigned_less [of a, where ?'a = nat] by simp
  then show "unat (octets a ! 0) = x div 16777216"
    by (simp add: octets_def unat_octet unat_drop x_def)
  show "unat (octets a ! 1) = x div 65536 mod 256" "unat (octets a ! 2) = x div 256 mod 256"
    by (simp_all add: octets_def unat_octet unat_drop x_def)
qed

lemma net4_nat: "in_net4 (n, p) a \<longleftrightarrow> unat a div 2 ^ (32 - p) = unat n div 2 ^ (32 - p)"
  by (simp add: in_net4_def word_eq_nat unat_drop)

lemma docs_eq: "v4_documentation a \<longleftrightarrow>
   octets a ! 0 = 192 \<and> octets a ! 1 = 0 \<and> octets a ! 2 = 2
 \<or> octets a ! 0 = 198 \<and> octets a ! 1 = 51 \<and> octets a ! 2 = 100
 \<or> octets a ! 0 = 203 \<and> octets a ! 1 = 0 \<and> octets a ! 2 = 113"
  by (simp add: v4_documentation_def octets_def)

text \<open>Membership in a network, octet by octet.\<close>

lemma div_join: "x div (m * n) = y div (m * n) \<and> x div m mod n = y div m mod n \<longleftrightarrow> x div m = y div m" for x y :: nat
  by (metis div_mult2_eq div_mult_mod_eq)

lemma octet_nats:
  "octets a ! 0 = c \<longleftrightarrow> unat a div 16777216 = unat c"
  "octets a ! Suc 0 = c \<longleftrightarrow> unat a div 65536 mod 256 = unat c"
  "octets a ! 2 = c \<longleftrightarrow> unat a div 256 mod 256 = unat c"
  using ipv4_tail [of a] by (simp_all add: word_eq_nat)

lemma in_net4_8: "in_net4 (n, 8) a \<longleftrightarrow> octets a ! 0 = octets n ! 0"
  using ipv4_tail [of n] by (simp add: octet_nats net4_nat)

lemma in_net4_16: "in_net4 (n, 16) a \<longleftrightarrow> octets a ! 0 = octets n ! 0 \<and> octets a ! 1 = octets n ! 1"
  using ipv4_tail [of n] div_join [of "unat a" 65536 256 "unat n"] by (simp add: octet_nats net4_nat)

lemma in_net4_24: "in_net4 (n, 24) a \<longleftrightarrow>
    octets a ! 0 = octets n ! 0 \<and> octets a ! 1 = octets n ! 1 \<and> octets a ! 2 = octets n ! 2"
  using ipv4_tail [of n] div_join [of "unat a" 65536 256 "unat n"] div_join [of "unat a" 256 256 "unat n"]
  by (simp add: octet_nats net4_nat conj_assoc [symmetric])

lemma octet_1_div:
  "unat (octets a ! Suc 0) div 16 = unat a div 1048576 mod 16"
  "unat (octets a ! Suc 0) div 64 = unat a div 4194304 mod 4"
  "unat (octets a ! Suc 0) div 2 = unat a div 131072 mod 128"
proof -
  have "y mod 256 div 16 = y div 16 mod 16" "y mod 256 div 64 = y div 64 mod 4"
    "y mod 256 div 2 = y div 2 mod 128" for y :: nat
    using mod_mult2_eq [of y 16 16] by (simp, use mod_mult2_eq [of y 64 4] in simp, use mod_mult2_eq [of y 2 128] in simp)
  then show "unat (octets a ! Suc 0) div 16 = unat a div 1048576 mod 16"
    "unat (octets a ! Suc 0) div 64 = unat a div 4194304 mod 4"
    "unat (octets a ! Suc 0) div 2 = unat a div 131072 mod 128"
    using ipv4_tail(3) [of a] by (simp_all add: div_mult2_eq [symmetric])
qed

lemma in_net4_10: "in_net4 (n, 10) a \<longleftrightarrow> octets a ! 0 = octets n ! 0 \<and>
    unat (octets a ! Suc 0) div 64 = unat (octets n ! Suc 0) div 64"
  using ipv4_tail(2) [of n] div_join [of "unat a" 4194304 4 "unat n"]
  by (simp add: octet_1_div octet_nats net4_nat)

lemma in_net4_12: "in_net4 (n, 12) a \<longleftrightarrow> octets a ! 0 = octets n ! 0 \<and>
    unat (octets a ! Suc 0) div 16 = unat (octets n ! Suc 0) div 16"
  using ipv4_tail(2) [of n] div_join [of "unat a" 1048576 16 "unat n"]
  by (simp add: octet_1_div octet_nats net4_nat)

lemma in_net4_15: "in_net4 (n, 15) a \<longleftrightarrow> octets a ! 0 = octets n ! 0 \<and>
    unat (octets a ! Suc 0) div 2 = unat (octets n ! Suc 0) div 2"
  using ipv4_tail(2) [of n] div_join [of "unat a" 131072 128 "unat n"]
  by (simp add: octet_1_div octet_nats net4_nat)

lemma in_net4_4: "in_net4 (n, 4) a \<longleftrightarrow> unat (octets a ! 0) div 16 = unat (octets n ! 0) div 16"
  using ipv4_tail [of n] ipv4_tail [of a] by (simp add: net4_nat div_mult2_eq [symmetric])

lemma div_between: "(x::nat) div numeral n = k \<longleftrightarrow> k * numeral n \<le> x \<and> x < Suc k * numeral n"
  using less_eq_div_iff_mult_less_eq [of "numeral n" k x] div_less_iff_less_mult [of "numeral n" x "Suc k"]
  by auto

lemma octet_masks:
  "octets a ! Suc 0 AND 0xC0 = 0x40 \<longleftrightarrow> unat (octets a ! Suc 0) div 64 = 1"
  "octets a ! Suc 0 AND 0xFE = 18 \<longleftrightarrow> unat (octets a ! Suc 0) div 2 = 9"
  unfolding mask_numerals by (subst masked_eq; simp add: word_eq_nat unat_drop)+

lemmas net4_simps = in_net4_8 in_net4_16 in_net4_24 in_net4_4
  in_net4_10 in_net4_12 in_net4_15

lemma v4_loopback_net: "v4_loopback a \<longleftrightarrow> in_net4 (0x7F000000, 8) a"
  by (simp add: v4_loopback_def net4_simps octets_def)

lemma v4_private_net: "v4_private a \<longleftrightarrow>
    in_net4 (0x0A000000, 8) a \<or> in_net4 (0xAC100000, 12) a \<or> in_net4 (0xC0A80000, 16) a"
proof -
  have "unat (octets a ! Suc 0) div 16 = Suc 0 \<longleftrightarrow> 16 \<le> octets a ! Suc 0 \<and> octets a ! Suc 0 \<le> 31"
    by (auto simp: div_between word_le_nat_alt)
  moreover have "octets (0x0A000000) ! 0 = 10" "octets (0xAC100000) ! 0 = 172" "unat (octets (0xAC100000) ! Suc 0) div 16 = Suc 0"
    "octets (0xC0A80000) ! 0 = 192" "octets (0xC0A80000) ! Suc 0 = 168"
    by (simp_all add: octets_def)
  ultimately show ?thesis by (simp add: v4_private_def net4_simps)
qed

lemma v4_link_local_net: "v4_link_local a \<longleftrightarrow> in_net4 (0xA9FE0000, 16) a"
proof -
  have "octets (0xA9FE0000) ! 0 = 169" "octets (0xA9FE0000) ! Suc 0 = 254" by (simp_all add: octets_def)
  then show ?thesis by (simp add: v4_link_local_def net4_simps)
qed

lemma v4_unspecified_net: "v4_unspecified a \<longleftrightarrow> in_net4 (0, 32) a"
  by (simp add: v4_unspecified_def in_net4_def)

lemma v4_broadcast_net: "v4_broadcast a \<longleftrightarrow> in_net4 (0xFFFFFFFF, 32) a"
  by (simp add: v4_broadcast_def in_net4_def)

lemma v4_multicast_net: "v4_multicast a \<longleftrightarrow> in_net4 (0xE0000000, 4) a"
proof -
  have "unat (octets a ! 0) div 16 = 14 \<longleftrightarrow> 224 \<le> octets a ! 0 \<and> octets a ! 0 \<le> 239"
    by (auto simp: div_between word_le_nat_alt)
  moreover have "unat (octets (0xE0000000) ! 0) = 224" by (simp add: octets_def)
  ultimately show ?thesis by (simp add: v4_multicast_def net4_simps)
qed

lemma v4_documentation_net: "v4_documentation a \<longleftrightarrow>
    in_net4 (0xC0000200, 24) a \<or> in_net4 (0xC6336400, 24) a \<or> in_net4 (0xCB007100, 24) a"
proof -
  have "octets (0xC0000200) ! 0 = 192" "octets (0xC0000200) ! Suc 0 = 0" "octets (0xC0000200) ! 2 = 2"
    "octets (0xC6336400) ! 0 = 198" "octets (0xC6336400) ! Suc 0 = 51" "octets (0xC6336400) ! 2 = 100"
    "octets (0xCB007100) ! 0 = 203" "octets (0xCB007100) ! Suc 0 = 0" "octets (0xCB007100) ! 2 = 113"
    by (simp_all add: octets_def)
  then show ?thesis by (simp add: docs_eq net4_simps)
qed

lemma cgnat_net: "octets a ! 0 = 100 \<and> octets a ! 1 AND 0xC0 = 0x40 \<longleftrightarrow> in_net4 (0x64400000, 10) a"
proof -
  have "octets (0x64400000) ! 0 = 100" "unat (octets (0x64400000) ! Suc 0) div 64 = Suc 0"
    by (simp_all add: octets_def)
  then show ?thesis by (simp add: net4_simps octet_masks)
qed

lemma benchmark_net: "octets a ! 0 = 198 \<and> octets a ! 1 AND 0xFE = 18 \<longleftrightarrow> in_net4 (0xC6120000, 15) a"
proof -
  have "octets (0xC6120000) ! 0 = 198" "unat (octets (0xC6120000) ! Suc 0) div 2 = 9"
    by (simp_all add: octets_def)
  then show ?thesis using octet_masks(2) [of a] by (simp add: net4_simps)
qed

lemma class_e_net: "240 \<le> octets a ! 0 \<longleftrightarrow> in_net4 (0xF0000000, 4) a"
proof -
  have "unat (octets a ! 0) < 256" using unsigned_less [of "octets a ! 0", where ?'a = nat] by simp
  then have "unat (octets a ! 0) div 16 = 15 \<longleftrightarrow> 240 \<le> octets a ! 0"
    by (auto simp: div_between word_le_nat_alt)
  moreover have "unat (octets (0xF0000000) ! 0) = 240" by (simp add: octets_def)
  ultimately show ?thesis by (simp add: net4_simps)
qed

lemma ietf_net: "octets a ! 0 = 192 \<and> octets a ! 1 = 0 \<and> octets a ! 2 = 0 \<longleftrightarrow> in_net4 (0xC0000000, 24) a"
proof -
  have "octets (0xC0000000) ! 0 = 192" "octets (0xC0000000) ! Suc 0 = 0" "octets (0xC0000000) ! 2 = 0"
    by (simp_all add: octets_def)
  then show ?thesis by (simp add: net4_simps)
qed

lemmas v4_nets = v4_loopback_net v4_private_net v4_link_local_net v4_unspecified_net v4_broadcast_net
  v4_multicast_net v4_documentation_net cgnat_net benchmark_net class_e_net ietf_net

section \<open>IPv6 networks, segment by segment\<close>

lemma drop_16_eq: "drop_bit k a = drop_bit k b \<longleftrightarrow> drop_bit (k + 16) a = drop_bit (k + 16) b \<and>
    (ucast (drop_bit k a) :: 16 word) = ucast (drop_bit k b)" for a b :: ipv6
proof
  assume "drop_bit k a = drop_bit k b"
  moreover have "drop_bit (k + 16) x = drop_bit 16 (drop_bit k x)" for x :: ipv6
    by (simp add: drop_bit_drop_bit add.commute)
  ultimately show "drop_bit (k + 16) a = drop_bit (k + 16) b \<and>
    (ucast (drop_bit k a) :: 16 word) = ucast (drop_bit k b)" by metis
next
  assume "drop_bit (k + 16) a = drop_bit (k + 16) b \<and> (ucast (drop_bit k a) :: 16 word) = ucast (drop_bit k b)"
  then show "drop_bit k a = drop_bit k b"
    using join_segment [of k a] join_segment [of k b] by metis
qed

lemma drop_128 [simp]: "drop_bit 128 a = 0" for a :: ipv6
  by (rule bit_word_eqI) (auto simp: bit_simps dest: bit_imp_le_length)

lemma in_net6_16: "in_net6 (n, 16) a \<longleftrightarrow> segments a ! 0 = segments n ! 0"
  using drop_16_eq [of 112 a n] by (simp add: in_net6_def segments_def)

lemma in_net6_32: "in_net6 (n, 32) a \<longleftrightarrow> segments a ! 0 = segments n ! 0 \<and> segments a ! 1 = segments n ! 1"
  using drop_16_eq [of 112 a n] drop_16_eq [of 96 a n] by (simp add: in_net6_def segments_def)

lemma in_net6_96: "in_net6 (n, 96) a \<longleftrightarrow> take 6 (segments a) = take 6 (segments n)"
  using drop_16_eq [of 112 a n] drop_16_eq [of 96 a n] drop_16_eq [of 80 a n] drop_16_eq [of 64 a n]
    drop_16_eq [of 48 a n] drop_16_eq [of 32 a n] by (simp add: in_net6_def segments_def)

lemma in_net6_first:
  assumes "p < 16"
  shows "in_net6 (n, p) a \<longleftrightarrow> drop_bit (16 - p) (segments a ! 0) = drop_bit (16 - p) (segments n ! 0)"
proof -
  have "drop_bit (128 - p) x = ucast (drop_bit (16 - p) (segments x ! 0))" for x :: ipv6
    using assms by (intro bit_word_eqI) (auto simp: segments_def bit_simps dest: bit_imp_le_length)
  moreover have "inj (ucast :: 16 word \<Rightarrow> ipv6)"
  proof (rule injI, rule bit_word_eqI)
    fix x y :: "16 word" and n
    assume "(ucast x :: ipv6) = ucast y" "n < LENGTH(16)"
    then show "bit x n \<longleftrightarrow> bit y n"
      using bit_ucast_iff [of x n, where 'a = 128] bit_ucast_iff [of y n, where 'a = 128] by simp
  qed
  ultimately show ?thesis by (simp add: in_net6_def inj_eq)
qed

lemma in_net6_128: "in_net6 (n, 128) a \<longleftrightarrow> a = n"
  by (simp add: in_net6_def)

lemma first_masks:
  "segments a ! 0 AND 0xFF00 = 0xFF00 \<longleftrightarrow> in_net6 (0xFF000000000000000000000000000000, 8) a"
  "segments a ! 0 AND 0xFE00 = 0xFC00 \<longleftrightarrow> in_net6 (0xFC000000000000000000000000000000, 7) a"
  "segments a ! 0 AND 0xFFC0 = 0xFE80 \<longleftrightarrow> in_net6 (0xFE800000000000000000000000000000, 10) a"
proof -
  have n: "segments 0xFF000000000000000000000000000000 ! 0 = 0xFF00"
    "segments 0xFC000000000000000000000000000000 ! 0 = 0xFC00"
    "segments 0xFE800000000000000000000000000000 ! 0 = 0xFE80"
    by (simp_all add: segments_def)
  have "segments a ! 0 AND NOT (mask 8) = 0xFF00 \<longleftrightarrow> in_net6 (0xFF000000000000000000000000000000, 8) a"
    "segments a ! 0 AND NOT (mask 9) = 0xFC00 \<longleftrightarrow> in_net6 (0xFC000000000000000000000000000000, 7) a"
    "segments a ! 0 AND NOT (mask 6) = 0xFE80 \<longleftrightarrow> in_net6 (0xFE800000000000000000000000000000, 10) a"
    by (subst masked_eq; simp add: in_net6_first n)+
  then show "segments a ! 0 AND 0xFF00 = 0xFF00 \<longleftrightarrow> in_net6 (0xFF000000000000000000000000000000, 8) a"
    "segments a ! 0 AND 0xFE00 = 0xFC00 \<longleftrightarrow> in_net6 (0xFC000000000000000000000000000000, 7) a"
    "segments a ! 0 AND 0xFFC0 = 0xFE80 \<longleftrightarrow> in_net6 (0xFE800000000000000000000000000000, 10) a"
    by (simp_all only: mask_numerals(3-5) [symmetric])
qed

lemma v6_nets:
  "v6_loopback a \<longleftrightarrow> in_net6 (1, 128) a"
  "v6_unspecified a \<longleftrightarrow> in_net6 (0, 128) a"
  "v6_multicast a \<longleftrightarrow> in_net6 (0xFF000000000000000000000000000000, 8) a"
  by (simp_all add: v6_loopback_def v6_unspecified_def v6_multicast_def in_net6_128 first_masks)

section \<open>The addresses carried\<close>

lemma v4_of_halves:
  assumes "\<And>n. n < 16 \<Longrightarrow> bit hi n = bit v (16 + n)" and "\<And>n. n < 16 \<Longrightarrow> bit lo n = bit v n"
  shows "v4_from_segments hi lo = v"
proof -
  have "ucast (drop_bit 8 hi) = (ucast (drop_bit 24 v) :: 8 word)" "ucast (hi AND 0xFF) = (ucast (drop_bit 16 v) :: 8 word)"
    "ucast (drop_bit 8 lo) = (ucast (drop_bit 8 v) :: 8 word)" "ucast (lo AND 0xFF) = (ucast v :: 8 word)"
    using assms by (auto intro!: bit_word_eqI simp: bit_simps mask_numerals(6))
  then have "v4_from_segments hi lo = of_octets (octets v)"
    by (simp add: v4_from_segments_def octets_def)
  then show ?thesis by simp
qed

lemma v4_of_segments:
  "v4_from_segments (ucast (drop_bit (k + 16) a)) (ucast (drop_bit k a)) = ucast (drop_bit k a)" for a :: ipv6
  by (rule v4_of_halves) (auto simp: bit_simps ac_simps)

lemma v4_of_complement:
  "v4_from_segments (ucast (drop_bit 16 a) XOR 0xFFFF) (ucast a XOR 0xFFFF) = NOT (ucast a)" for a :: ipv6
  by (rule v4_of_halves) (auto simp: bit_simps mask_numerals(7))

section \<open>The code computes the reference policy\<close>

lemma ipv4_allowed_nets: "ipv4_allowed a \<longleftrightarrow> outside4 blocked4 a"
  unfolding ipv4_allowed_def Let_def v4_nets outside4_def blocked4_def by auto

lemma on_prem_v4_nets: "on_prem_v4_allowed a \<longleftrightarrow> outside4 reserved4 a"
  unfolding on_prem_v4_allowed_def v4_nets outside4_def reserved4_def by auto

lemma reserved4_blocked: "outside4 blocked4 a \<Longrightarrow> outside4 reserved4 a"
  by (simp add: outside4_def blocked4_def reserved4_def)

lemma to_ipv4_net: "to_ipv4 a =
    (if in_net6 (0, 96) a \<or> in_net6 (0xFFFF00000000, 96) a then Some (ucast a) else None)"
  by (auto simp: to_ipv4_def in_net6_96 segments_def low_v4_def)

lemma isatap_bits: "take_bit 32 (drop_bit 32 a) \<in> {0x00005EFE, 0x02005EFE}
    \<longleftrightarrow> segments a ! 5 = 0x5EFE \<and> (segments a ! 4 = 0 \<or> segments a ! 4 = 0x200)" for a :: ipv6
proof -
  define y where "y = unat a div 2 ^ 32"
  have w: "unat (take_bit 32 (drop_bit 32 a)) = y mod 4294967296"
    by (simp add: unsigned_take_bit_eq unat_drop take_bit_eq_mod [of _ "x div y" for x y :: nat] y_def)
  have s: "unat (segments a ! 5) = y mod 65536" "unat (segments a ! 4) = y div 65536 mod 65536"
    by (simp_all add: segments_def unsigned_ucast_eq take_bit_eq_mod unat_drop y_def div_mult2_eq [symmetric])
  have m: "y mod 4294967296 = 65536 * (y div 65536 mod 65536) + y mod 65536"
    using mod_mult2_eq [of y 65536 65536] by simp
  have d: "65536 * p + q = n \<longleftrightarrow> p = n div 65536 \<and> q = n mod 65536" if "q < 65536" for p q n :: nat
    using that by auto
  have "y mod 4294967296 = n \<longleftrightarrow> y div 65536 mod 65536 = n div 65536 \<and> y mod 65536 = n mod 65536" for n
    unfolding m by (rule d) simp
  from this [of 24318] this [of 33578750] show ?thesis
    by (auto simp: word_eq_nat [of "take_bit 32 (drop_bit 32 a)"] word_eq_nat [of "segments a ! 5"]
      word_eq_nat [of "segments a ! 4"] w s)
qed

lemma embedded_carried:
  assumes "to_ipv4 a = None"
  shows "embedded_ipv4s a = carried a"
proof -
  have no: "\<not> in_net6 (0, 96) a" "\<not> in_net6 (0xFFFF00000000, 96) a"
    using assms by (auto simp: to_ipv4_net split: if_splits)
  have seg: "segments a ! Suc 0 = ucast (drop_bit 96 a)" "segments a ! 2 = ucast (drop_bit 80 a)"
    "segments a ! 3 = ucast (drop_bit 64 a)"
    "segments a ! 6 = ucast (drop_bit 16 a)" "segments a ! 7 = ucast a"
    by (simp_all add: segments_def)
  have nat64: "in_net6 (0x0064FF9B000000000000000000000000, 96) a \<longleftrightarrow> segments a ! 0 = 0x64 \<and> segments a ! 1 = 0xFF9B
    \<and> segments a ! 2 = 0 \<and> segments a ! 3 = 0 \<and> segments a ! 4 = 0 \<and> segments a ! 5 = 0"
  proof -
    have "segments 0x0064FF9B000000000000000000000000 = [0x64, 0xFF9B, 0, 0, 0, 0, 0, 0]"
      by (simp add: segments_def)
    then show ?thesis by (simp add: in_net6_96) (simp add: segments_def)
  qed
  have "segments 0x20020000000000000000000000000000 ! 0 = 0x2002"
    "segments 0x20010000000000000000000000000000 ! 0 = 0x2001"
    "segments 0x20010000000000000000000000000000 ! Suc 0 = 0" by (simp_all add: segments_def)
  then have "in_net6 (0x20020000000000000000000000000000, 16) a \<longleftrightarrow> segments a ! 0 = 0x2002"
    "in_net6 (0x20010000000000000000000000000000, 32) a \<longleftrightarrow> segments a ! 0 = 0x2001 \<and> segments a ! 1 = 0"
    by (simp_all add: in_net6_16 in_net6_32)
  then show ?thesis
    using v4_of_segments [of 0 a] v4_of_segments [of 64 a] v4_of_segments [of 80 a] v4_of_complement [of a]
    unfolding embedded_ipv4s_def Let_def carried_def isatap_bits nat64 using no
    by (simp add: seg)
qed

lemma to_ipv4_carried: "to_ipv4 a = Some v \<Longrightarrow> carried a = [v]"
  by (auto simp: to_ipv4_net carried_def split: if_splits)

lemma ipv4_forms_outside:
  assumes "to_ipv4 a = Some v" "a \<noteq> 0" "a \<noteq> 1"
  shows "outside6 blocked6 a" "outside6 reserved6 a"
proof -
  have z: "segments a ! 0 = 0" "segments a ! Suc 0 = 0"
    using assms(1) by (auto simp: to_ipv4_def segments_def split: if_splits)
  have n: "segments 0xFF000000000000000000000000000000 ! 0 = 0xFF00"
    "segments 0xFC000000000000000000000000000000 ! 0 = 0xFC00"
    "segments 0xFE800000000000000000000000000000 ! 0 = 0xFE80"
    "segments 0x20010DB8000000000000000000000000 ! 0 = 0x2001"
    "segments 0xFD000EC2000000000000000000000254 ! 0 = 0xFD00"
    by (simp_all add: segments_def)
  have "a \<noteq> 0xFD000EC2000000000000000000000254" using z n(5) by auto
  with assms(2,3) z n show "outside6 blocked6 a" "outside6 reserved6 a"
    by (simp_all add: outside6_def blocked6_def reserved6_def in_net6_128 in_net6_first in_net6_32)
qed

lemma ip_allowed_reference: "ip_allowed ip \<longleftrightarrow> keeps_out blocked4 blocked6 ip"
proof (cases ip)
  case (V4 a)
  then show ?thesis by (simp add: ipv4_allowed_nets)
next
  case (V6 a)
  have doc: "segments a ! 0 = 0x2001 \<and> segments a ! Suc 0 = 0x0DB8 \<longleftrightarrow>
      in_net6 (0x20010DB8000000000000000000000000, 32) a"
  proof -
    have "segments 0x20010DB8000000000000000000000000 ! 0 = 0x2001"
      "segments 0x20010DB8000000000000000000000000 ! Suc 0 = 0xDB8" by (simp_all add: segments_def)
    then show ?thesis by (simp add: in_net6_32)
  qed
  show ?thesis
  proof (cases "to_ipv4 a")
    case None
    then show ?thesis
      using V6 doc by (auto simp: ipv6_allowed_def Let_def v6_nets first_masks embedded_carried outside6_def
        blocked6_def ipv4_allowed_nets [abs_def])
  next
    case (Some v)
    show ?thesis
    proof (cases "a = 0 \<or> a = 1")
      case True
      then show ?thesis
        using V6 by (auto simp: v6_nets in_net6_128 outside6_def blocked6_def)
    next
      case False
      then have "\<not> (v6_loopback a \<or> v6_unspecified a \<or> v6_multicast a)"
        using ipv4_forms_outside(1) [OF Some] by (simp add: v6_nets outside6_def blocked6_def)
      then show ?thesis
        using V6 Some False ipv4_forms_outside(1) [OF Some] to_ipv4_carried [OF Some]
        by (simp add: ipv4_allowed_nets)
    qed
  qed
qed

lemma metadata6: "segments a = [0xFD00, 0x0EC2, 0, 0, 0, 0, 0, 0x0254] \<longleftrightarrow>
    in_net6 (0xFD000EC2000000000000000000000254, 128) a"
proof -
  have "segments 0xFD000EC2000000000000000000000254 = [0xFD00, 0x0EC2, 0, 0, 0, 0, 0, 0x0254]"
    by (simp add: segments_def)
  then show ?thesis using of_segments_segments by (metis in_net6_128)
qed

lemma strict_within_on_prem: "keeps_out blocked4 blocked6 ip \<Longrightarrow> keeps_out reserved4 reserved6 ip"
proof (cases ip)
  case (V6 a)
  assume k: "keeps_out blocked4 blocked6 ip"
  have "drop_bit 121 (0xFD000EC2000000000000000000000254 :: ipv6) = drop_bit 121 0xFC000000000000000000000000000000"
    by simp
  with k V6 have "outside6 reserved6 a"
    by (auto simp: outside6_def blocked6_def reserved6_def in_net6_128 in_net6_def)
  then show ?thesis using k V6 reserved4_blocked by (auto elim: list.pred_mono_strong)
qed (simp add: reserved4_blocked)

lemma on_prem_reference: "on_prem_allowed ip \<longleftrightarrow> keeps_out reserved4 reserved6 ip"
proof (cases "ip_allowed ip")
  case True
  then show ?thesis using strict_within_on_prem by (simp add: on_prem_allowed_def ip_allowed_reference)
next
  case strict: False
  show ?thesis
  proof (cases ip)
    case (V4 a)
    then show ?thesis using strict by (simp add: on_prem_allowed_def on_prem_v4_nets)
  next
    case (V6 a)
    show ?thesis
    proof (cases "to_ipv4 a")
      case None
      then show ?thesis
        using V6 strict by (auto simp: on_prem_allowed_def v6_nets first_masks metadata6 embedded_carried
          outside6_def reserved6_def on_prem_v4_nets [abs_def])
    next
      case (Some v)
      show ?thesis
      proof (cases "a = 0 \<or> a = 1")
        case True
        then show ?thesis
          using V6 strict by (auto simp: on_prem_allowed_def v6_nets in_net6_128 outside6_def reserved6_def)
      next
        case False
        note out = ipv4_forms_outside(2) [OF Some]
        from False out have "\<not> (v6_loopback a \<or> v6_unspecified a \<or> v6_multicast a)"
          "\<not> segments a ! 0 AND 0xFFC0 = 0xFE80" "segments a \<noteq> [0xFD00, 0x0EC2, 0, 0, 0, 0, 0, 0x0254]"
          by (simp_all add: v6_nets first_masks metadata6 outside6_def reserved6_def)
        then show ?thesis
          using V6 strict Some False out to_ipv4_carried [OF Some]
          by (simp add: on_prem_allowed_def on_prem_v4_nets)
      qed
    qed
  qed
qed

end
