(* ===== verification/Egress_Class.thy ===== *)
theory Egress_Class
  imports Rust_Str
begin

text \<open>
  Traffic classes (\<open>crates/mw-egress/src/class.rs\<close>): what an outbound request is for.
\<close>

datatype traffic_class = Plugins | PackageTracking | Push | RemoteContent | IcsFeeds | Keyservers
  | Webhooks | AdminDetect | Pki | DnsAuth | Unsubscribe | Siem | Analytics | Nextcloud | Oauth
  | UpdateCheck | SieveClass | GeoipDatabase

definition CLASS_UA :: string where "CLASS_UA = ''Mailwoman''"

definition PROXY_UA :: string where "PROXY_UA = ''Mailwoman-Image-Proxy''"

definition ALL_CLASSES :: "traffic_class list" where
  "ALL_CLASSES = [Plugins, PackageTracking, Push, RemoteContent, IcsFeeds, Keyservers,
     Webhooks, AdminDetect, Pki, DnsAuth, Unsubscribe, Siem, Analytics, Nextcloud, Oauth,
     UpdateCheck, SieveClass, GeoipDatabase]"

definition ROUTED_BY_DEFAULT :: "traffic_class list" where
  "ROUTED_BY_DEFAULT = [RemoteContent, IcsFeeds]"

fun class_str :: "traffic_class \<Rightarrow> string" where
  "class_str Plugins = ''plugins''"
| "class_str PackageTracking = ''package_tracking''"
| "class_str Push = ''push''"
| "class_str RemoteContent = ''remote_content''"
| "class_str IcsFeeds = ''ics_feeds''"
| "class_str Keyservers = ''keyservers''"
| "class_str Webhooks = ''webhooks''"
| "class_str AdminDetect = ''admin_detect''"
| "class_str Pki = ''pki''"
| "class_str DnsAuth = ''dns_auth''"
| "class_str Unsubscribe = ''unsubscribe''"
| "class_str Siem = ''siem''"
| "class_str Analytics = ''analytics''"
| "class_str Nextcloud = ''nextcloud''"
| "class_str Oauth = ''oauth''"
| "class_str UpdateCheck = ''update_check''"
| "class_str SieveClass = ''sieve''"
| "class_str GeoipDatabase = ''geoip''"

definition class_parse :: "string \<Rightarrow> traffic_class option" where
  "class_parse s = find (\<lambda>c. class_str c = s) ALL_CLASSES"

definition internal_allow_eligible :: "traffic_class \<Rightarrow> bool" where
  "internal_allow_eligible c = (case c of Plugins \<Rightarrow> True | Webhooks \<Rightarrow> True | Siem \<Rightarrow> True
     | Analytics \<Rightarrow> True | Nextcloud \<Rightarrow> True | _ \<Rightarrow> False)"

definition default_user_agent :: "traffic_class \<Rightarrow> string" where
  "default_user_agent c = (case c of RemoteContent \<Rightarrow> PROXY_UA | IcsFeeds \<Rightarrow> PROXY_UA | _ \<Rightarrow> CLASS_UA)"

lemma ALL_CLASSES_all: "c \<in> set ALL_CLASSES"
  by (cases c) (simp_all add: ALL_CLASSES_def)

lemma class_parse_str [simp]: "class_parse (class_str c) = Some c"
  by (cases c) (simp_all add: class_parse_def ALL_CLASSES_def)

lemma class_parse_SomeD: "class_parse s = Some c \<Longrightarrow> class_str c = s"
  by (auto simp: class_parse_def find_Some_iff)

lemma class_str_inj: "class_str c = class_str d \<longleftrightarrow> c = d"
  by (metis class_parse_str option.inject)

end
