(* ===== verification/Egress_Allow.thy ===== *)
theory Egress_Allow
  imports Egress_Networks Egress_Class
begin

text \<open>
  The allowlist of internal destinations (\<open>crates/mw-egress/src/allow.rs\<close>): parsing and
  printing of a destination, entries, and the decision \<open>permits\<close>. A port is a \<open>16 word\<close>
  and a prefix length an \<open>8 word\<close>. The shift amounts of \<open>mask_addr\<close> are those of a release
  build, where the subtraction wraps and the shift takes its amount modulo the width; for
  the prefix lengths that parsing admits nothing wraps.
\<close>

unbundle bit_operations_syntax

definition MIN_V4_PREFIX :: "8 word" where "MIN_V4_PREFIX = 8"
definition MIN_V6_PREFIX :: "8 word" where "MIN_V6_PREFIX = 16"

datatype allow_destination =
    Net ip_addr "8 word" "16 word option"
  | Host string "16 word option"

section \<open>Networks of an entry\<close>

fun full_prefix :: "ip_addr \<Rightarrow> 8 word" where
  "full_prefix (V4 a) = 32"
| "full_prefix (V6 a) = 128"

fun mask_addr :: "ip_addr \<Rightarrow> 8 word \<Rightarrow> ip_addr" where
  "mask_addr (V4 a) p = V4 (a AND (if p = 0 then 0
     else push_bit (unat (32 - ucast p :: 32 word) mod 32) (- 1)))"
| "mask_addr (V6 a) p = V6 (a AND (if p = 0 then 0
     else push_bit (unat (128 - ucast p :: 32 word) mod 128) (- 1)))"

definition never_msg :: string where
  "never_msg = ''loopback, link-local, multicast and metadata addresses can never be allowed''"

definition refuse_never_allowed :: "ip_addr \<Rightarrow> string + unit" where
  "refuse_never_allowed a = (if on_prem_allowed a then Inr () else Inl never_msg)"

section \<open>Parsing\<close>

definition parse_port :: "string \<Rightarrow> string + 16 word" where
  "parse_port p = (case parse_uint 65535 p of
       None \<Rightarrow> Inl ''the port must be a number from 1 to 65535''
     | Some n \<Rightarrow> if n = 0 then Inl ''the port must be a number from 1 to 65535''
         else Inr (word_of_nat n))"

definition ok_or :: "'a option \<Rightarrow> 'e \<Rightarrow> 'e + 'a" where
  "ok_or x e = (case x of Some v \<Rightarrow> Inr v | None \<Rightarrow> Inl e)"

definition split_ip_port :: "string \<Rightarrow> string + (ip_addr \<times> 16 word option) option" where
  "split_ip_port s =
    (case strip_prefix ''['' s of
       Some rest \<Rightarrow>
         rbind (ok_or (split_once (CHR '']'') rest) ''a bracketed IPv6 address needs its closing ]'') (\<lambda>(ip, after).
         rbind (ok_or (parse_ipv6 ip) ''the bracketed part must be an IPv6 address'') (\<lambda>ip.
         rbind (if after = [] then Inr None
                else rbind (ok_or (strip_prefix '':'' after) ''a port follows the ] after a colon'') (\<lambda>p.
                     rbind (parse_port p) (\<lambda>n. Inr (Some n)))) (\<lambda>port.
         Inr (Some (V6 ip, port)))))
     | None \<Rightarrow>
        (case parse_ip s of
           Some ip \<Rightarrow> Inr (Some (ip, None))
         | None \<Rightarrow>
            (case rsplit_once (CHR '':'') s of
               None \<Rightarrow> Inr None
             | Some (ip, port) \<Rightarrow>
                (case parse_ipv4 ip of
                   None \<Rightarrow> Inr None
                 | Some v \<Rightarrow> rbind (parse_port port) (\<lambda>n. Inr (Some (V4 v, Some n)))))))"

definition label_bad :: "string \<Rightarrow> bool" where
  "label_bad l \<longleftrightarrow> l = [] \<or> 63 < length l \<or> prefix ''-'' l \<or> suffix ''-'' l
     \<or> \<not> list_all (\<lambda>b. is_lower b \<or> is_digit b \<or> b = CHR ''-'') l"

definition validate_host_name :: "string \<Rightarrow> string + unit" where
  "validate_host_name name =
    (if name = [] \<or> 253 < length name then Inl ''enter a host name''
     else if name = ''localhost'' \<or> suffix ''.localhost'' name then Inl never_msg
     else if list_ex label_bad (split_on (CHR ''.'') name)
     then Inl ''a host name uses letters, digits, hyphens and dots only''
     else Inr ())"

definition trim_bytes :: "char set \<Rightarrow> string \<Rightarrow> string" where
  "trim_bytes C s = trim_end_bytes C (trim_start_bytes C s)"

definition dest_parse :: "string \<Rightarrow> string + allow_destination" where
  "dest_parse input = (let s = trim input in
     if s = [] then Inl ''enter an address, a network or a host name''
     else case split_once (CHR ''/'') s of
       Some (addr, plen) \<Rightarrow>
         rbind (ok_or (parse_ip (trim_bytes {CHR ''['', CHR '']''} addr)) ''the part before / must be an IP address'') (\<lambda>addr.
         rbind (ok_or (parse_uint 255 plen) ''the part after / must be a prefix length'') (\<lambda>n.
         let plen = word_of_nat n :: 8 word;
             (lo, hi) = (case addr of V4 _ \<Rightarrow> (MIN_V4_PREFIX, 32) | V6 _ \<Rightarrow> (MIN_V6_PREFIX, 128)) in
         if hi < plen then Inl ''the prefix length is too long for this address''
         else if plen < lo
         then Inl ''the network is too broad (use at least /8 for IPv4, /16 for IPv6)''
         else if mask_addr addr plen \<noteq> addr
         then Inl ''the address has bits set beyond the prefix length''
         else rbind (refuse_never_allowed addr) (\<lambda>_. Inr (Net addr plen None))))
     | None \<Rightarrow>
         rbind (split_ip_port s) (\<lambda>r. case r of
           Some (ip, port) \<Rightarrow>
             rbind (refuse_never_allowed ip) (\<lambda>_. Inr (Net ip (if is_ipv4 ip then 32 else 128) port))
         | None \<Rightarrow>
             rbind (case rsplit_once (CHR '':'') s of
                 Some (n, p) \<Rightarrow> rbind (parse_port p) (\<lambda>p. Inr (n, Some p))
               | None \<Rightarrow> Inr (s, None)) (\<lambda>(name, port).
             let name = to_lower (trim_end_bytes {CHR ''.''} name) in
             rbind (validate_host_name name) (\<lambda>_. Inr (Host name port)))))"

section \<open>Printing\<close>

fun dest_show :: "allow_destination \<Rightarrow> string" where
  "dest_show (Net addr p port) =
    (if port = None \<and> p = full_prefix addr then show_ip addr
     else case (addr, port) of
       (V4 a, Some q) \<Rightarrow> show_ipv4 a @ '':'' @ dec_str (unat q)
     | (V6 a, Some q) \<Rightarrow> ''['' @ show_ipv6 a @ '']:'' @ dec_str (unat q)
     | (_, None) \<Rightarrow> show_ip addr @ ''/'' @ dec_str (unat p))"
| "dest_show (Host name (Some q)) = name @ '':'' @ dec_str (unat q)"
| "dest_show (Host name None) = name"

section \<open>Entries and the list\<close>

fun dest_matches :: "allow_destination \<Rightarrow> string \<Rightarrow> 16 word \<Rightarrow> ip_addr \<Rightarrow> bool" where
  "dest_matches (Net addr p want) host port ip =
     (if want \<noteq> None \<and> want \<noteq> Some port then False
      else let ip = to_canonical ip in
        if is_ipv4 addr = is_ipv4 ip then mask_addr ip p = addr else False)"
| "dest_matches (Host name want) host port ip =
     (if want \<noteq> None \<and> want \<noteq> Some port then False
      else eq_nocase (trim_end_bytes {CHR ''.''} host) name)"

record allow_entry =
  entry_class :: traffic_class
  destination :: allow_destination

definition entry_new :: "traffic_class \<Rightarrow> allow_destination \<Rightarrow> string + allow_entry" where
  "entry_new c d = (if \<not> internal_allow_eligible c
     then Inl ''only the webhooks, siem, analytics and nextcloud classes may reach internal destinations''
     else Inr \<lparr>entry_class = c, destination = d\<rparr>)"

type_synonym allow_list = "allow_entry list"

definition permits :: "allow_list \<Rightarrow> traffic_class \<Rightarrow> string \<Rightarrow> 16 word \<Rightarrow> ip_addr \<Rightarrow> bool" where
  "permits entries c host port ip \<longleftrightarrow> internal_allow_eligible c \<and> on_prem_allowed ip
     \<and> list_ex (\<lambda>e. entry_class e = c \<and> dest_matches (destination e) host port ip) entries"

end
