(* ===== verification/Egress_Plan.thy ===== *)
theory Egress_Plan
  imports Egress_Allow "HOL-Library.Multiset"
begin

text \<open>
  The egress plan (\<open>crates/mw-egress/src/plan.rs\<close>, with the route type of
  \<open>proxy/mod.rs\<close>): the operator's routes by scope and class, the internal allowlist, how
  a request picks its route and what the direct path admits.
\<close>

section \<open>Routes\<close>

datatype proxy_scheme = HttpConnect | HttpsConnect | Socks5 | Socks5h

fun proxy_scheme_str :: "proxy_scheme \<Rightarrow> string" where
  "proxy_scheme_str HttpConnect = ''http-connect''"
| "proxy_scheme_str HttpsConnect = ''https-connect''"
| "proxy_scheme_str Socks5 = ''socks5''"
| "proxy_scheme_str Socks5h = ''socks5h''"

record proxy_auth =
  auth_username :: string
  auth_password :: string

record proxy_route =
  route_id :: string
  route_scheme :: proxy_scheme
  route_host :: string
  route_port :: "16 word"
  route_auth :: "proxy_auth option"
  allow_plaintext :: bool

definition credentials :: "proxy_route \<Rightarrow> (string \<times> string) option" where
  "credentials r = map_option (\<lambda>a. (auth_username a, auth_password a)) (route_auth r)"

section \<open>Scopes\<close>

datatype route_scope = Global | Domain string

definition scope_parse :: "string \<Rightarrow> route_scope option" where
  "scope_parse s =
    (if s = ''global'' then Some Global
     else case strip_prefix ''domain:'' s of
       None \<Rightarrow> None
     | Some name \<Rightarrow>
        let name = to_lower (trim_end_bytes {CHR ''.''} name) in
        if name = [] \<or> list_ex (\<lambda>c. is_ws c \<or> c = ''/'' \<or> c = '':'') (utf8_chars name) then None
        else Some (Domain name))"

fun scope_storage :: "route_scope \<Rightarrow> string" where
  "scope_storage Global = ''global''"
| "scope_storage (Domain d) = ''domain:'' @ d"

section \<open>The plan\<close>

record plan_route =
  pr_scope :: route_scope
  pr_classes :: "traffic_class list"
  pr_route :: proxy_route

datatype plan_error = Ambiguous traffic_class route_scope string string

definition plan_error_show :: "plan_error \<Rightarrow> string" where
  "plan_error_show e = (case e of Ambiguous c s first second \<Rightarrow>
     ''routes '' @ first @ '' and '' @ second @ '' both carry '' @ class_str c @ '' in scope '' @ scope_storage s)"

record egress_plan =
  plan_routes :: "plan_route list"
  plan_allow :: allow_list

definition plan_direct :: egress_plan where
  "plan_direct = \<lparr>plan_routes = [], plan_allow = []\<rparr>"

text \<open>The first class of \<open>a\<close> that \<open>b\<close> also lists, when the two share a scope.\<close>

definition clash :: "plan_route \<Rightarrow> plan_route \<Rightarrow> plan_error option" where
  "clash a b = (if pr_scope a \<noteq> pr_scope b then None
     else case find (\<lambda>c. c \<in> set (pr_classes b)) (pr_classes a) of
       Some c \<Rightarrow> Some (Ambiguous c (pr_scope a) (route_id (pr_route a)) (route_id (pr_route b)))
     | None \<Rightarrow> None)"

fun clash_with :: "plan_route \<Rightarrow> plan_route list \<Rightarrow> plan_error option" where
  "clash_with a [] = None"
| "clash_with a (b # bs) = (case clash a b of Some e \<Rightarrow> Some e | None \<Rightarrow> clash_with a bs)"

fun first_clash :: "plan_route list \<Rightarrow> plan_error option" where
  "first_clash [] = None"
| "first_clash (a # rs) = (case clash_with a rs of Some e \<Rightarrow> Some e | None \<Rightarrow> first_clash rs)"

definition plan_new :: "plan_route list \<Rightarrow> allow_list \<Rightarrow> plan_error + egress_plan" where
  "plan_new routes allow = (case first_clash routes of Some e \<Rightarrow> Inl e
     | None \<Rightarrow> Inr \<lparr>plan_routes = routes, plan_allow = allow\<rparr>)"

definition carries :: "traffic_class \<Rightarrow> plan_route \<Rightarrow> bool" where
  "carries c r \<longleftrightarrow> c \<in> set (pr_classes r)"

definition selected_route :: "egress_plan \<Rightarrow> traffic_class \<Rightarrow> string option \<Rightarrow> proxy_route option" where
  "selected_route p c domain =
    (let scoped = (case map_option (\<lambda>d. to_lower (trim_end_bytes {CHR ''.''} d)) domain of
           Some d \<Rightarrow> find (\<lambda>r. pr_scope r = Domain d) (filter (carries c) (plan_routes p))
         | None \<Rightarrow> None) in
     case scoped of
       Some r \<Rightarrow> Some (pr_route r)
     | None \<Rightarrow> map_option pr_route
         (find (\<lambda>r. pr_scope r = Global) (filter (carries c) (plan_routes p))))"

definition plan_admits :: "egress_plan \<Rightarrow> traffic_class \<Rightarrow> string \<Rightarrow> 16 word \<Rightarrow> ip_addr \<Rightarrow> bool" where
  "plan_admits p c host port ip \<longleftrightarrow> ip_allowed ip \<or> permits (plan_allow p) c host port ip"

section \<open>At most one route answers\<close>

lemma clash_None: "clash a b = None \<longleftrightarrow>
    \<not> (pr_scope a = pr_scope b \<and> (\<exists>c. carries c a \<and> carries c b))"
proof (cases "find (\<lambda>c. c \<in> set (pr_classes b)) (pr_classes a)")
  case None
  then have "\<forall>c\<in>set (pr_classes a). c \<notin> set (pr_classes b)" by (simp add: find_None_iff)
  with None show ?thesis by (simp add: clash_def carries_def)
next
  case (Some c)
  then have "c \<in> set (pr_classes a) \<and> c \<in> set (pr_classes b)" by (auto simp: find_Some_iff)
  with Some show ?thesis by (auto simp: clash_def carries_def)
qed

lemma clash_with_None: "clash_with a bs = None \<longleftrightarrow> (\<forall>b\<in>set bs. clash a b = None)"
  by (induction bs) (simp_all split: option.split)

lemma first_clash_None: "first_clash rs = None \<longleftrightarrow>
    sorted_wrt (\<lambda>a b. clash a b = None) rs"
  by (induction rs) (simp_all add: clash_with_None [symmetric] split: option.split)

lemma clash_sym: "clash a b = None \<longleftrightarrow> clash b a = None"
  by (auto simp: clash_None)

text \<open>The routes of one scope that carry a class.\<close>

definition answering :: "plan_route list \<Rightarrow> route_scope \<Rightarrow> traffic_class \<Rightarrow> plan_route list" where
  "answering rs s c = filter (\<lambda>r. pr_scope r = s \<and> carries c r) rs"

lemma answering_one: "first_clash rs = None \<Longrightarrow> length (answering rs s c) \<le> 1"
proof (induction rs)
  case (Cons r rs)
  then have "first_clash rs = None" and r: "\<forall>b\<in>set rs. clash r b = None"
    by (auto simp: clash_with_None split: option.splits)
  moreover have "answering rs s c = []" if "pr_scope r = s" "carries c r"
    using r that by (auto simp: answering_def filter_empty_conv clash_None)
  ultimately show ?case using Cons.IH by (auto simp: answering_def)
qed (simp add: answering_def)

lemma find_answering:
  "find (\<lambda>r. pr_scope r = s) (filter (carries c) rs) =
    (case answering rs s c of [] \<Rightarrow> None | r # _ \<Rightarrow> Some r)"
  by (induction rs) (auto simp: answering_def)

lemma mset_answering: "mset rs' = mset rs \<Longrightarrow> mset (answering rs' s c) = mset (answering rs s c)"
  by (simp add: answering_def mset_filter del: filter_mset_eq_conv)

lemma clash_free_perm:
  assumes "mset rs' = mset rs" "first_clash rs = None"
  shows "first_clash rs' = None"
proof -
  have count: "first_clash rs = None \<longleftrightarrow> (\<forall>s c. length (answering rs s c) \<le> 1)" for rs
  proof
    assume "\<forall>s c. length (answering rs s c) \<le> 1"
    then show "first_clash rs = None"
    proof (induction rs)
      case (Cons r rs)
      have one: "length (answering (r # rs) s c) \<le> 1" for s c using Cons.prems by blast
      have "length (answering rs s c) \<le> length (answering (r # rs) s c)" for s c
        by (simp add: answering_def)
      then have "length (answering rs s c) \<le> 1" for s c
        using one le_trans by blast
      then have ih: "first_clash rs = None" using Cons.IH by blast
      have "clash r b = None" if b: "b \<in> set rs" for b
      proof (rule ccontr)
        assume "clash r b \<noteq> None"
        then obtain c where c: "pr_scope r = pr_scope b" "carries c r" "carries c b"
          by (auto simp: clash_None)
        with b have "answering rs (pr_scope r) c \<noteq> []" by (auto simp: answering_def filter_empty_conv)
        then have "1 < length (answering (r # rs) (pr_scope r) c)"
          using c by (cases "answering rs (pr_scope r) c") (auto simp: answering_def)
        with one [of "pr_scope r" c] show False by simp
      qed
      then have "clash_with r rs = None" by (simp add: clash_with_None)
      with ih show ?case by simp
    qed simp
  qed (use answering_one in simp)
  have "length (answering rs' s c) = length (answering rs s c)" for s c
    using mset_answering [OF assms(1), of s c] by (metis size_mset)
  then show ?thesis using assms(2) count by simp
qed

lemma answering_perm:
  assumes "mset rs' = mset rs" "first_clash rs = None"
  shows "answering rs' s c = answering rs s c"
proof -
  have "mset (answering rs' s c) = mset (answering rs s c)"
    by (rule mset_answering [OF assms(1)])
  then show ?thesis
    using answering_one [OF assms(2), of s c] by (cases "answering rs s c") auto
qed

end
