(* ===== verification/Egress_Request.thy ===== *)
theory Egress_Request
  imports Egress_Plan
begin

text \<open>
  What one egress request is: the refusals, the options of a request with their checks
  (\<open>lib.rs\<close>, \<open>api.rs\<close>, \<open>plugin_http.rs\<close>), and the builders of \<open>plan.rs\<close>. URLs and header
  values belong to the crates \<open>url\<close> and \<open>http\<close>, certificates to \<open>rustls\<close>: what the code asks of
  them is the record \<open>web_lib\<close>, about which nothing is assumed.
\<close>

section \<open>Constants and refusals\<close>

definition MAX_IMAGE_BYTES :: nat where "MAX_IMAGE_BYTES = 8 * 1024 * 1024"
definition MAX_DOWNLOAD_BYTES :: nat where "MAX_DOWNLOAD_BYTES = 256 * 1024 * 1024"
definition MAX_REDIRECTS :: nat where "MAX_REDIRECTS = 4"

datatype refusal = BadRequest string | Blocked | Timeout | Status "16 word" | Upstream | TooLarge

definition is_upstream_failure :: "refusal \<Rightarrow> bool" where
  "is_upstream_failure r = (case r of Upstream \<Rightarrow> True | Status _ \<Rightarrow> True | _ \<Rightarrow> False)"

definition refusal_status :: "refusal \<Rightarrow> 16 word option" where
  "refusal_status r = (case r of Status c \<Rightarrow> Some c | _ \<Rightarrow> None)"

section \<open>URLs and the libraries\<close>

record url =
  u_scheme :: string
  u_username :: string
  u_password :: "string option"
  u_host :: "string option"
  u_port :: "16 word option"  \<comment> \<open>\<open>port_or_known_default\<close>\<close>
  u_path :: string
  u_query :: "string option"
  u_fragment :: "string option"

record web_lib =
  parse_url :: "string \<Rightarrow> url option"
  join_url :: "url \<Rightarrow> string \<Rightarrow> url option"
  same_origin :: "url \<Rightarrow> url \<Rightarrow> bool"
  header_value_ok :: "string \<Rightarrow> bool"
  root_ok :: "string \<Rightarrow> bool"
  cert_ok :: "string \<Rightarrow> bool"
  method_ok :: "string \<Rightarrow> bool"

section \<open>Options of a request\<close>

definition guard_bad :: "bool \<Rightarrow> string \<Rightarrow> refusal + unit" where
  "guard_bad c m = guard_err c (BadRequest m)"

definition visible :: "char \<Rightarrow> bool" where
  "visible b \<longleftrightarrow> 32 \<le> byte b \<and> byte b < 127"

record conditional =
  c_etag :: "string option"
  c_last_modified :: "string option"

definition conditional_safe :: "string \<Rightarrow> bool" where
  "conditional_safe v \<longleftrightarrow> length v \<le> 512 \<and> list_all visible v"

record download =
  redirect_hosts :: "string list"
  d_roots :: "string list"

definition download_redirect :: "download \<Rightarrow> url \<Rightarrow> url \<Rightarrow> bool" where
  "download_redirect d start nxt =
    (if u_scheme nxt \<noteq> ''https'' \<or> u_username nxt \<noteq> [] \<or> u_password nxt \<noteq> None then False
     else case (u_host start, u_host nxt) of
       (Some from, Some to) \<Rightarrow>
         (eq_nocase from to \<and> u_port start = u_port nxt)
         \<or> list_ex (\<lambda>h. eq_nocase h to \<and> u_port nxt = Some 443) (redirect_hosts d)
     | _ \<Rightarrow> False)"

definition roots_too_large :: "string list \<Rightarrow> bool" where
  "roots_too_large roots \<longleftrightarrow> 8 < length roots \<or> 65536 < sum_list (map length roots)"

definition download_validate :: "download \<Rightarrow> refusal + unit" where
  "download_validate d = guard_bad (roots_too_large (d_roots d) \<or> 16 < length (redirect_hosts d))
     ''invalid download options''"

definition web_push_validate :: "web_lib \<Rightarrow> string \<Rightarrow> refusal + unit" where
  "web_push_validate lib auth = guard_bad (\<not> prefix ''vapid '' auth \<or> 8192 < length auth
     \<or> \<not> header_value_ok lib auth) ''invalid Web Push authorization''"

datatype dav_method = DavGet | Propfind | MkCalendar | Mkcol | Move | DavPut | DavPost | Report | DavDelete

fun dav_method_str :: "dav_method \<Rightarrow> string" where
  "dav_method_str DavGet = ''GET''"
| "dav_method_str Propfind = ''PROPFIND''"
| "dav_method_str MkCalendar = ''MKCALENDAR''"
| "dav_method_str Mkcol = ''MKCOL''"
| "dav_method_str Move = ''MOVE''"
| "dav_method_str DavPut = ''PUT''"
| "dav_method_str DavPost = ''POST''"
| "dav_method_str Report = ''REPORT''"
| "dav_method_str DavDelete = ''DELETE''"

record authorized_dav =
  dav_roots :: "string list"
  dav_method :: dav_method
  dav_authorization :: string
  dav_depth :: "8 word option"
  dav_ocs :: bool
  dav_if_match :: "string option"
  dav_if_none_match :: "string option"
  dav_destination :: "string option"

definition opt_list :: "'a option \<Rightarrow> 'a list" where
  "opt_list x = (case x of Some v \<Rightarrow> [v] | None \<Rightarrow> [])"

definition dav_validate :: "web_lib \<Rightarrow> authorized_dav \<Rightarrow> refusal + unit" where
  "dav_validate lib d =
    rbind (guard_bad (roots_too_large (dav_roots d)) ''DAV CA bundle too large'') (\<lambda>_.
    rbind (guard_bad (\<not> list_all (root_ok lib) (dav_roots d)) ''invalid DAV CA'') (\<lambda>_.
    rbind (guard_bad (\<not> prefix ''Basic '' (dav_authorization d) \<or> 16384 < length (dav_authorization d)
        \<or> (case dav_depth d of Some n \<Rightarrow> 1 < n | None \<Rightarrow> False)) ''invalid DAV authorization or depth'') (\<lambda>_.
    rbind (guard_bad (list_ex (\<lambda>v. 16384 < length v \<or> \<not> header_value_ok lib v)
        (dav_authorization d # opt_list (dav_if_match d) @ opt_list (dav_if_none_match d)
          @ opt_list (dav_destination d))) ''invalid DAV header'') (\<lambda>_.
    let carries = dav_method d \<in> {Move, Mkcol, DavPut} in
    guard_bad ((dav_method d = Move \<and> dav_destination d = None)
        \<or> (\<not> carries \<and> dav_destination d \<noteq> None)) ''invalid DAV Destination use''))))"

definition dav_validate_target :: "web_lib \<Rightarrow> authorized_dav \<Rightarrow> url \<Rightarrow> refusal + unit" where
  "dav_validate_target lib d u = (case dav_destination d of
       None \<Rightarrow> Inr ()
     | Some dest \<Rightarrow>
        (case parse_url lib dest of
           None \<Rightarrow> Inl (BadRequest ''invalid DAV Destination'')
         | Some p \<Rightarrow> guard_bad (\<not> same_origin lib p u \<or> u_username p \<noteq> [] \<or> u_password p \<noteq> None
             \<or> u_query p \<noteq> None \<or> u_fragment p \<noteq> None) ''DAV Destination must stay on the origin''))"

datatype api_method = ApiGet | ApiPost | ApiDelete

fun api_method_str :: "api_method \<Rightarrow> string" where
  "api_method_str ApiGet = ''GET''"
| "api_method_str ApiPost = ''POST''"
| "api_method_str ApiDelete = ''DELETE''"

record authorized_api =
  api_method :: api_method
  api_key :: string

definition api_validate :: "authorized_api \<Rightarrow> refusal + unit" where
  "api_validate a = guard_bad (api_key a = [] \<or> 4096 < length (api_key a)
     \<or> \<not> list_all (\<lambda>b. 33 \<le> byte b \<and> byte b \<le> 126) (api_key a)) ''invalid package provider key''"

definition api_validate_target :: "authorized_api \<Rightarrow> url \<Rightarrow> refusal + unit" where
  "api_validate_target a u =
    rbind (api_validate a) (\<lambda>_.
    guard_bad (u_scheme u \<noteq> ''https'' \<or> u_host u \<noteq> Some ''api.aftership.com'' \<or> u_port u \<noteq> Some 443
      \<or> u_username u \<noteq> [] \<or> u_password u \<noteq> None \<or> u_fragment u \<noteq> None
      \<or> \<not> (u_path u = ''/tracking/2026-07'' \<or> prefix ''/tracking/2026-07/'' (u_path u)))
      ''package provider authority refused'')"

record plugin_http =
  plugin_method :: string
  plugin_headers :: "(string \<times> string) list"
  plugin_roots :: "string list"

definition PLUGIN_METHODS :: "string list" where
  "PLUGIN_METHODS = [''GET'', ''HEAD'', ''POST'', ''PUT'', ''PATCH'', ''DELETE'', ''OPTIONS'']"

definition PLUGIN_HEADERS :: "string list" where
  "PLUGIN_HEADERS = [''authorization'', ''content-type'', ''accept'', ''soapaction'', ''prefer'',
     ''consistencylevel'', ''if-match'', ''if-none-match'', ''range'']"

fun plugin_headers_ok :: "web_lib \<Rightarrow> string list \<Rightarrow> (string \<times> string) list \<Rightarrow> bool" where
  "plugin_headers_ok lib seen [] \<longleftrightarrow> True"
| "plugin_headers_ok lib seen ((name, v) # hs) \<longleftrightarrow> (let n = to_lower name in
     n \<in> set PLUGIN_HEADERS \<and> n \<notin> set seen \<and> length v \<le> 16384 \<and> header_value_ok lib v
     \<and> plugin_headers_ok lib (n # seen) hs)"

definition plugin_validate :: "web_lib \<Rightarrow> plugin_http \<Rightarrow> refusal + unit" where
  "plugin_validate lib p =
    rbind (guard_bad (roots_too_large (plugin_roots p)) ''plugin CA bundle too large'') (\<lambda>_.
    rbind (guard_bad (\<not> list_all (root_ok lib) (plugin_roots p)) ''invalid plugin CA'') (\<lambda>_.
    rbind (guard_bad (plugin_method p \<notin> set PLUGIN_METHODS) ''unsupported plugin HTTP method'') (\<lambda>_.
    rbind (guard_bad (16 < length (plugin_headers p)
        \<or> 32768 < sum_list (map (\<lambda>(k, v). length k + length v) (plugin_headers p)))
      ''plugin HTTP headers too large'') (\<lambda>_.
    guard_bad (\<not> plugin_headers_ok lib [] (plugin_headers p)) ''invalid plugin HTTP header''))))"

section \<open>What a request sends apart from its URL\<close>

record out_body =
  content_type :: string
  body_bytes :: string

record outgoing =
  o_capture :: bool  \<comment> \<open>whether response metadata is recorded\<close>
  o_plugin :: "plugin_http option"
  o_api :: "authorized_api option"
  o_push :: "string option"
  o_dav :: "authorized_dav option"
  o_limit :: nat
  o_accept :: string
  o_agent :: string
  o_body :: "out_body option"
  o_download :: "download option"
  o_conditional :: "conditional option"

definition plain_outgoing :: "string \<Rightarrow> string \<Rightarrow> outgoing" where
  "plain_outgoing accept agent = \<lparr>o_capture = False, o_plugin = None, o_api = None, o_push = None,
     o_dav = None, o_limit = MAX_IMAGE_BYTES, o_accept = accept, o_agent = agent, o_body = None,
     o_download = None, o_conditional = None\<rparr>"

definition hard_cap :: "outgoing \<Rightarrow> nat" where
  "hard_cap out = (if o_download out \<noteq> None then MAX_DOWNLOAD_BYTES else MAX_IMAGE_BYTES)"

definition body_cap :: "outgoing \<Rightarrow> nat" where
  "body_cap out = min (o_limit out) (hard_cap out)"

definition redirect_permitted :: "outgoing \<Rightarrow> url \<Rightarrow> url \<Rightarrow> bool" where
  "redirect_permitted out start nxt = (case o_download out of None \<Rightarrow> True
     | Some d \<Rightarrow> download_redirect d start nxt)"

section \<open>Time bounds\<close>

record fetch_timeouts =
  t_connect :: nat
  t_headers :: nat
  t_idle :: nat
  t_total :: nat
  max_redirects :: nat

definition REMOTE_IMAGE :: fetch_timeouts where
  "REMOTE_IMAGE = \<lparr>t_connect = 5, t_headers = 10, t_idle = 10, t_total = 20, max_redirects = 3\<rparr>"

datatype timeout_phase = PhaseConnect | PhaseHeaders | PhaseIdle | PhaseTotal

fun phase_str :: "timeout_phase \<Rightarrow> string" where
  "phase_str PhaseConnect = ''connect''"
| "phase_str PhaseHeaders = ''headers''"
| "phase_str PhaseIdle = ''idle''"
| "phase_str PhaseTotal = ''total''"

section \<open>Requests by class\<close>

record request =
  rq_capture :: bool
  rq_plugin :: "plugin_http option"
  rq_api :: "authorized_api option"
  rq_push :: "string option"
  rq_dav :: "authorized_dav option"
  rq_class :: traffic_class
  rq_domain :: "string option"
  rq_accept :: string
  rq_agent :: "string option"
  rq_body :: "out_body option"
  rq_limit :: nat
  rq_timeouts :: "fetch_timeouts option"
  rq_report :: bool  \<comment> \<open>whether the bound that fires is reported\<close>
  rq_download :: "download option"
  rq_conditional :: "conditional option"

definition request_get :: "traffic_class \<Rightarrow> request" where
  "request_get c = \<lparr>rq_capture = False, rq_plugin = None, rq_api = None, rq_push = None, rq_dav = None,
     rq_class = c, rq_domain = None, rq_accept = ''*/*'', rq_agent = None, rq_body = None,
     rq_limit = MAX_IMAGE_BYTES, rq_timeouts = None, rq_report = False, rq_download = None,
     rq_conditional = None\<rparr>"

definition request_download :: "traffic_class \<Rightarrow> download \<Rightarrow> refusal + request" where
  "request_download c d =
    rbind (guard_bad (c \<noteq> GeoipDatabase) ''invalid download traffic class'') (\<lambda>_.
    rbind (download_validate d) (\<lambda>_.
    Inr ((request_get c)\<lparr>rq_download := Some d, rq_limit := MAX_DOWNLOAD_BYTES\<rparr>)))"

definition request_post :: "traffic_class \<Rightarrow> string \<Rightarrow> string \<Rightarrow> request" where
  "request_post c ct bytes = (request_get c)\<lparr>rq_body := Some \<lparr>content_type = ct, body_bytes = bytes\<rparr>\<rparr>"

definition body_over :: "out_body option \<Rightarrow> nat \<Rightarrow> bool" where
  "body_over b n = (case b of Some b \<Rightarrow> n < length (body_bytes b) | None \<Rightarrow> False)"

definition request_plugin ::
  "web_lib \<Rightarrow> traffic_class \<Rightarrow> plugin_http \<Rightarrow> out_body option \<Rightarrow> refusal + request" where
  "request_plugin lib c p b =
    rbind (guard_bad (c \<notin> {Plugins, Oauth}) ''invalid plugin traffic class'') (\<lambda>_.
    rbind (plugin_validate lib p) (\<lambda>_.
    rbind (guard_err (body_over b MAX_IMAGE_BYTES) TooLarge) (\<lambda>_.
    Inr ((request_get c)\<lparr>rq_plugin := Some p, rq_body := b\<rparr>))))"

definition with_limit :: "nat \<Rightarrow> request \<Rightarrow> request" where
  "with_limit n r = r\<lparr>rq_limit := min n (if rq_api r \<noteq> None then 1024 * 1024
     else if rq_download r \<noteq> None then MAX_DOWNLOAD_BYTES else MAX_IMAGE_BYTES)\<rparr>"

definition for_domain :: "string \<Rightarrow> request \<Rightarrow> request" where
  "for_domain d r = r\<lparr>rq_domain := Some d\<rparr>"

definition conditional_get :: "string option \<Rightarrow> string option \<Rightarrow> request \<Rightarrow> request" where
  "conditional_get etag modified r = r\<lparr>rq_conditional := Some \<lparr>c_etag = etag, c_last_modified = modified\<rparr>\<rparr>"

definition accepting :: "string \<Rightarrow> request \<Rightarrow> request" where
  "accepting a r = r\<lparr>rq_accept := a\<rparr>"

definition capture_response :: "request \<Rightarrow> request" where
  "capture_response r = r\<lparr>rq_capture := True\<rparr>"

definition with_timeouts :: "fetch_timeouts \<Rightarrow> request \<Rightarrow> request" where
  "with_timeouts l r = r\<lparr>rq_timeouts := Some l\<rparr>"

definition with_report :: "request \<Rightarrow> request" where
  "with_report r = r\<lparr>rq_report := True\<rparr>"

definition with_agent :: "string \<Rightarrow> request \<Rightarrow> request" where
  "with_agent a r = r\<lparr>rq_agent := Some a\<rparr>"

definition request_web_push :: "web_lib \<Rightarrow> string \<Rightarrow> string \<Rightarrow> refusal + request" where
  "request_web_push lib auth bytes =
    rbind (web_push_validate lib auth) (\<lambda>_.
    rbind (guard_err (65536 < length bytes) TooLarge) (\<lambda>_.
    Inr ((with_limit 8192 (request_post Push ''application/octet-stream'' bytes))\<lparr>rq_push := Some auth\<rparr>)))"

definition request_package ::
  "api_method \<Rightarrow> string \<Rightarrow> out_body option \<Rightarrow> refusal + request" where
  "request_package m key b = (let auth = \<lparr>api_method = m, api_key = key\<rparr> in
    rbind (api_validate auth) (\<lambda>_.
    rbind (guard_bad (body_over b (1024 * 1024)
        \<or> (case b of Some x \<Rightarrow> content_type x \<noteq> ''application/json'' | None \<Rightarrow> False))
      ''invalid package API body'') (\<lambda>_.
    rbind (guard_bad (m \<noteq> ApiPost \<and> b \<noteq> None) ''package API body requires POST'') (\<lambda>_.
    Inr ((with_limit (1024 * 1024) ((request_get PackageTracking)\<lparr>rq_accept := ''application/json''\<rparr>))
      \<lparr>rq_api := Some auth, rq_body := b\<rparr>)))))"

definition request_dav :: "web_lib \<Rightarrow> authorized_dav \<Rightarrow> out_body option \<Rightarrow> refusal + request" where
  "request_dav lib auth b =
    rbind (dav_validate lib auth) (\<lambda>_.
    rbind (guard_err (body_over b MAX_IMAGE_BYTES) TooLarge) (\<lambda>_.
    Inr ((request_get Nextcloud)\<lparr>rq_dav := Some auth, rq_body := b\<rparr>)))"

definition outgoing_of :: "request \<Rightarrow> outgoing" where
  "outgoing_of r = \<lparr>o_capture = rq_capture r, o_plugin = rq_plugin r, o_api = rq_api r, o_push = rq_push r,
     o_dav = rq_dav r, o_limit = rq_limit r, o_accept = rq_accept r,
     o_agent = (case rq_agent r of Some a \<Rightarrow> a | None \<Rightarrow> default_user_agent (rq_class r)),
     o_body = rq_body r, o_download = rq_download r, o_conditional = rq_conditional r\<rparr>"

end
