(* ===== verification/Egress_Wire.thy ===== *)
theory Egress_Wire
  imports Egress_Request
begin

text \<open>
  The byte-level handshakes with an egress proxy: SOCKS5 (\<open>proxy/socks5.rs\<close>), HTTP
  \<open>CONNECT\<close> (\<open>proxy/connect.rs\<close>) and the name checks of a remote-DNS route
  (\<open>proxy/remote_dns.rs\<close>). A connection is a \<open>pipe\<close>: the bytes the peer will send, how its
  side ends, the bytes written so far and how many more a write accepts. Every behaviour
  of the peer is some pipe, and the lemmas hold for all of them.
\<close>

unbundle bit_operations_syntax

section \<open>Refusals of the proxied path\<close>

datatype proxy_refusal =
    Origin refusal
  | RouteInvalid string
  | ProxyUnreachable string
  | ProxyRejected string
  | ProxyAuthRejected string
  | OriginTls string
  | ProxyTls string
  | OriginHttp string
  | PlaintextRefused

fun refusal_of :: "proxy_refusal \<Rightarrow> refusal" where
  "refusal_of (Origin r) = r"
| "refusal_of (RouteInvalid m) = BadRequest ''egress route is not usable''"
| "refusal_of PlaintextRefused = BadRequest ''plaintext http is not permitted through this egress route''"
| "refusal_of _ = Upstream"

section \<open>Pipes\<close>

record pipe =
  inbox :: string          \<comment> \<open>bytes still to be read\<close>
  broken :: bool           \<comment> \<open>reading past them fails instead of reporting the end\<close>
  outbox :: string         \<comment> \<open>bytes written\<close>
  room_left :: "nat option"  \<comment> \<open>how many more bytes a write takes before it fails\<close>

type_synonym 'a piped = "pipe \<Rightarrow> (proxy_refusal + 'a) \<times> pipe"

definition pbind :: "'a piped \<Rightarrow> ('a \<Rightarrow> 'b piped) \<Rightarrow> 'b piped" where
  "pbind m f p = (case m p of (Inl e, p') \<Rightarrow> (Inl e, p') | (Inr x, p') \<Rightarrow> f x p')"

definition plift :: "proxy_refusal + 'a \<Rightarrow> 'a piped" where
  "plift r p = (r, p)"

text \<open>\<open>write_all\<close>, whose error is replaced by \<open>e\<close>.\<close>

definition write_all :: "string \<Rightarrow> proxy_refusal \<Rightarrow> unit piped" where
  "write_all bs e p = (case room_left p of
       None \<Rightarrow> (Inr (), p\<lparr>outbox := outbox p @ bs\<rparr>)
     | Some n \<Rightarrow> (if length bs \<le> n then Inr () else Inl e,
         p\<lparr>outbox := outbox p @ take n bs, room_left := Some (n - length bs)\<rparr>))"

text \<open>\<open>read_exact\<close> of \<open>n\<close> bytes; it fails at the end of the input.\<close>

definition read_exact :: "nat \<Rightarrow> proxy_refusal \<Rightarrow> string piped" where
  "read_exact n e p = (if n \<le> length (inbox p)
     then (Inr (take n (inbox p)), p\<lparr>inbox := drop n (inbox p)\<rparr>)
     else (Inl e, p\<lparr>inbox := []\<rparr>))"

section \<open>SOCKS5\<close>

definition VER :: nat where "VER = 5"
definition CMD_CONNECT :: nat where "CMD_CONNECT = 1"
definition ATYP_IPV4 :: nat where "ATYP_IPV4 = 1"
definition ATYP_DOMAINNAME :: nat where "ATYP_DOMAINNAME = 3"
definition ATYP_IPV6 :: nat where "ATYP_IPV6 = 4"
definition AUTH_NONE :: nat where "AUTH_NONE = 0"
definition AUTH_USERPASS :: nat where "AUTH_USERPASS = 2"
definition AUTH_UNACCEPTABLE :: nat where "AUTH_UNACCEPTABLE = 255"

abbreviation bytes_of :: "nat list \<Rightarrow> string" where
  "bytes_of ns \<equiv> map char_of ns"

type_synonym sock = "ip_addr \<times> 16 word"

definition port_bytes :: "16 word \<Rightarrow> string" where
  "port_bytes q = bytes_of [unat q div 256, unat q mod 256]"

fun addr_bytes :: "ip_addr \<Rightarrow> string" where
  "addr_bytes (V4 a) = map (\<lambda>b. char_of (unat b)) (octets a)"
| "addr_bytes (V6 a) = concat (map (\<lambda>s. bytes_of [unat s div 256, unat s mod 256]) (segments a))"

fun encode_connect_request :: "sock \<Rightarrow> string" where
  "encode_connect_request (ip, q) = bytes_of [VER, CMD_CONNECT, 0]
     @ bytes_of [if is_ipv4 ip then ATYP_IPV4 else ATYP_IPV6] @ addr_bytes ip @ port_bytes q"

definition encode_greeting :: "bool \<Rightarrow> string" where
  "encode_greeting offer_userpass = (if offer_userpass then bytes_of [VER, 2, AUTH_NONE, AUTH_USERPASS]
     else bytes_of [VER, 1, AUTH_NONE])"

definition encode_userpass :: "string \<Rightarrow> string \<Rightarrow> proxy_refusal + string" where
  "encode_userpass u p = (if 255 < length u \<or> 255 < length p
     then Inl (RouteInvalid ''SOCKS5 username/password must each be at most 255 bytes'')
     else Inr (bytes_of [1, length u] @ u @ bytes_of [length p] @ p))"

definition reply_reason :: "nat \<Rightarrow> string" where
  "reply_reason rep = (if rep = 1 then ''general SOCKS server failure''
     else if rep = 2 then ''connection not allowed by ruleset''
     else if rep = 3 then ''network unreachable''
     else if rep = 4 then ''host unreachable''
     else if rep = 5 then ''connection refused''
     else if rep = 6 then ''TTL expired''
     else if rep = 7 then ''command not supported''
     else if rep = 8 then ''address type not supported''
     else ''unknown SOCKS5 reply code'')"

definition discard_bound_address :: "nat \<Rightarrow> unit piped" where
  "discard_bound_address atyp =
    pbind (if atyp = ATYP_IPV4 then plift (Inr 4)
           else if atyp = ATYP_IPV6 then plift (Inr 16)
           else if atyp = 3 then
             pbind (read_exact 1 (ProxyRejected ''truncated SOCKS5 reply'')) (\<lambda>n. plift (Inr (byte (n ! 0))))
           else plift (Inl (ProxyRejected ''SOCKS5 reply carried an unknown address type''))) (\<lambda>len.
    pbind (read_exact (len + 2) (ProxyRejected ''truncated SOCKS5 reply'')) (\<lambda>_. plift (Inr ())))"

definition read_connect_reply :: "unit piped" where
  "read_connect_reply =
    pbind (read_exact 4 (ProxyRejected ''no SOCKS5 CONNECT reply'')) (\<lambda>head.
    if byte (head ! 0) \<noteq> VER then plift (Inl (ProxyRejected ''SOCKS5 reply had the wrong version''))
    else pbind (discard_bound_address (byte (head ! 3))) (\<lambda>_.
    if byte (head ! 1) \<noteq> 0
    then plift (Inl (ProxyRejected (''SOCKS5 CONNECT refused: '' @ reply_reason (byte (head ! 1)))))
    else plift (Inr ())))"

definition socks5_auth :: "(string \<times> string) option \<Rightarrow> unit piped" where
  "socks5_auth creds = (case creds of
       None \<Rightarrow> plift (Inl (ProxyAuthRejected
         ''the proxy requires a username and password but the route has none''))
     | Some (u, p) \<Rightarrow>
         pbind (plift (encode_userpass u p)) (\<lambda>bs.
         pbind (write_all bs (ProxyRejected ''SOCKS5 auth could not be sent'')) (\<lambda>_.
         pbind (read_exact 2 (ProxyRejected ''no SOCKS5 auth reply'')) (\<lambda>ack.
         if byte (ack ! 1) \<noteq> 0
         then plift (Inl (ProxyAuthRejected ''the proxy rejected the route's username and password''))
         else plift (Inr ())))))"

definition socks5_handshake_with :: "string \<Rightarrow> (string \<times> string) option \<Rightarrow> unit piped" where
  "socks5_handshake_with request creds =
    pbind (write_all (encode_greeting (creds \<noteq> None)) (ProxyUnreachable ''SOCKS5 greeting could not be sent'')) (\<lambda>_.
    pbind (read_exact 2 (ProxyUnreachable ''no SOCKS5 method selection'')) (\<lambda>sel.
    if byte (sel ! 0) \<noteq> VER
    then plift (Inl (ProxyRejected ''SOCKS5 method selection had the wrong version''))
    else pbind (let m = byte (sel ! 1) in
        if m = AUTH_NONE then plift (Inr ())
        else if m = AUTH_USERPASS then socks5_auth creds
        else if m = AUTH_UNACCEPTABLE then plift (Inl (ProxyAuthRejected
          ''the proxy accepted none of the authentication methods offered''))
        else plift (Inl (ProxyRejected
          ''SOCKS5 proxy selected an auth method we do not implement''))) (\<lambda>_.
    pbind (write_all request (ProxyRejected ''SOCKS5 CONNECT could not be sent'')) (\<lambda>_.
    read_connect_reply))))"

definition socks5_handshake :: "sock \<Rightarrow> (string \<times> string) option \<Rightarrow> unit piped" where
  "socks5_handshake dst creds = socks5_handshake_with (encode_connect_request dst) creds"

section \<open>HTTP CONNECT\<close>

definition MAX_RESPONSE_HEAD :: nat where "MAX_RESPONSE_HEAD = 8 * 1024"

definition CRLF :: string where "CRLF = [CR, LF]"

text \<open>\<open>SocketAddr\<close> printed.\<close>

fun authority :: "sock \<Rightarrow> string" where
  "authority (V4 a, q) = show_ipv4 a @ '':'' @ dec_str (unat q)"
| "authority (V6 a, q) = ''['' @ show_ipv6 a @ '']:'' @ dec_str (unat q)"

definition B64 :: string where
  "B64 = ''ABCDEFGHIJKLMNOPQRSTUVWXYZabcdefghijklmnopqrstuvwxyz0123456789+/''"

definition b64_chunk :: "nat list \<Rightarrow> string" where
  "b64_chunk chunk = (let
     b0 = word_of_nat (chunk ! 0) :: 32 word;
     b1 = word_of_nat (if 1 < length chunk then chunk ! 1 else 0) :: 32 word;
     b2 = word_of_nat (if 2 < length chunk then chunk ! 2 else 0) :: 32 word;
     n = push_bit 16 b0 OR push_bit 8 b1 OR b2 in
     [B64 ! unat (drop_bit 18 n AND 0x3F), B64 ! unat (drop_bit 12 n AND 0x3F),
      if 1 < length chunk then B64 ! unat (drop_bit 6 n AND 0x3F) else CHR ''='',
      if 2 < length chunk then B64 ! unat (n AND 0x3F) else CHR ''=''])"

fun chunks3 :: "'a list \<Rightarrow> 'a list list" where
  "chunks3 (a # b # c # r) = [a, b, c] # chunks3 r"
| "chunks3 [] = []"
| "chunks3 xs = [xs]"

definition basic_credentials :: "string \<Rightarrow> string \<Rightarrow> string" where
  "basic_credentials user pass = concat (map b64_chunk (chunks3 (map byte (user @ '':'' @ pass))))"

definition encode_request :: "sock \<Rightarrow> (string \<times> string) option \<Rightarrow> string" where
  "encode_request dst creds = (let auth = authority dst in
     ''CONNECT '' @ auth @ '' HTTP/1.1'' @ CRLF @ ''Host: '' @ auth @ CRLF
     @ (case creds of Some (u, p) \<Rightarrow> ''Proxy-Authorization: Basic '' @ basic_credentials u p @ CRLF | None \<Rightarrow> [])
     @ ''Proxy-Connection: keep-alive'' @ CRLF @ CRLF)"

definition check_status :: "string \<Rightarrow> proxy_refusal + unit" where
  "check_status head = (let
     line = from_utf8_lossy (hd (split_on LF head));
     parts = split_whitespace line;
     version = (case parts of v # _ \<Rightarrow> v | [] \<Rightarrow> []) in
     if \<not> prefix ''HTTP/1.'' version then Inl (ProxyRejected ''CONNECT response was not HTTP/1.x'')
     else case (case drop 1 parts of s # _ \<Rightarrow> parse_uint 65535 s | [] \<Rightarrow> None) of
       None \<Rightarrow> Inl (ProxyRejected ''CONNECT response had no status'')
     | Some status \<Rightarrow>
         if 200 \<le> status \<and> status \<le> 299 then Inr ()
         else if status = 407 then Inl (ProxyAuthRejected ''the proxy requires authentication (HTTP 407)'')
         else Inl (ProxyRejected (''proxy refused CONNECT with status '' @ dec_str status)))"

text \<open>The loop that reads the head byte by byte, over the bytes to come.\<close>

fun head_loop :: "bool \<Rightarrow> string \<Rightarrow> string \<Rightarrow> (proxy_refusal + string) \<times> string" where
  "head_loop br head [] = (Inl (ProxyUnreachable (if br then ''CONNECT response could not be read''
     else ''proxy closed the connection before answering CONNECT'')), [])"
| "head_loop br head (b # r) = (let head' = head @ [b] in
     if suffix (CRLF @ CRLF) head' then (Inr head', r)
     else if MAX_RESPONSE_HEAD < length head'
     then (Inl (ProxyRejected ''CONNECT response head exceeded the cap''), r)
     else head_loop br head' r)"

definition read_head :: "string piped" where
  "read_head p = (let (res, rest) = head_loop (broken p) [] (inbox p) in (res, p\<lparr>inbox := rest\<rparr>))"

definition connect_handshake :: "sock \<Rightarrow> (string \<times> string) option \<Rightarrow> unit piped" where
  "connect_handshake dst creds =
    pbind (write_all (encode_request dst creds) (ProxyUnreachable ''CONNECT request could not be sent'')) (\<lambda>_.
    pbind read_head (\<lambda>head.
    plift (check_status head)))"

section \<open>Remote-DNS names\<close>

text \<open>The entries of \<open>data/remote_dns_denylist.txt\<close>; its comment and blank lines are skipped.\<close>

definition DENYLIST :: string where
  "DENYLIST = join [LF]
    [''localhost'', ''*.localhost'', ''*.local'', ''*.localdomain'', ''*.internal'', ''*.intranet'',
     ''*.lan'', ''*.home'', ''*.home.arpa'', ''*.corp'', ''*.private'', ''*.arpa'', ''*.svc'',
     ''*.cluster.local'', ''*.consul'', ''metadata.google.internal'', ''metadata.goog'',
     ''instance-data'', ''instance-data.ec2.internal'']"

datatype pattern = Exact string | Suffix string

definition denylist_of :: "string \<Rightarrow> pattern list" where
  "denylist_of text = map (\<lambda>l. let l = to_lower l in
       case strip_prefix ''*.'' l of Some sfx \<Rightarrow> Suffix (''.'' @ sfx) | None \<Rightarrow> Exact l)
     (filter (\<lambda>l. l \<noteq> [] \<and> \<not> prefix ''#'' l) (map trim (str_lines text)))"

definition denylist :: "pattern list" where
  "denylist = denylist_of DENYLIST"

definition denied :: "string \<Rightarrow> bool" where
  "denied name \<longleftrightarrow> list_ex (\<lambda>p. case p of Exact n \<Rightarrow> name = n | Suffix s \<Rightarrow> suffix s name) denylist"

definition remote_name :: "string \<Rightarrow> refusal + string" where
  "remote_name host = (let name = to_lower (trim_end_bytes {CHR ''.''} host) in
     if name = [] \<or> 255 < length name \<or> prefix ''['' name \<or> parse_ip name \<noteq> None
        \<or> CHR ''.'' \<notin> set name
        \<or> \<not> list_all (\<lambda>b. is_alnum b \<or> b = CHR ''-'' \<or> b = CHR ''.'' \<or> b = CHR ''_'') name
        \<or> denied name
     then Inl Blocked else Inr name)"

datatype remote_dest = RemoteAddr sock | RemoteName string "16 word"

text \<open>The checks on a URL that every path makes before it looks at the host.\<close>

definition url_guards :: "url \<Rightarrow> refusal + string \<times> 16 word" where
  "url_guards u =
    rbind (guard_bad (u_scheme u \<noteq> ''http'' \<and> u_scheme u \<noteq> ''https'') ''only http/https URLs are proxied'') (\<lambda>_.
    rbind (guard_bad (u_username u \<noteq> [] \<or> u_password u \<noteq> None) ''credentials in URL are not allowed'') (\<lambda>_.
    rbind (ok_or (case u_host u of Some h \<Rightarrow> if h = [] then None else Some h | None \<Rightarrow> None)
      (BadRequest ''URL has no host'')) (\<lambda>host.
    rbind (ok_or (u_port u) (BadRequest ''URL has no port'')) (\<lambda>port.
    Inr (host, port)))))"

definition unbracket :: "string \<Rightarrow> string option" where
  "unbracket host = (case strip_prefix ''['' host of Some h \<Rightarrow> strip_suffix '']'' h | None \<Rightarrow> None)"

definition remote_destination :: "url \<Rightarrow> refusal + remote_dest \<times> string" where
  "remote_destination u =
    rbind (url_guards u) (\<lambda>(host, port).
    rbind (case (case unbracket host of Some v6 \<Rightarrow> parse_ip v6 | None \<Rightarrow> parse_ip host) of
        Some ip \<Rightarrow> if ip_allowed ip then Inr (RemoteAddr (ip, port)) else Inl Blocked
      | None \<Rightarrow> rbind (remote_name host) (\<lambda>n. Inr (RemoteName n port))) (\<lambda>dest.
    Inr (dest, host)))"

definition encode_connect_by_name :: "string \<Rightarrow> 16 word \<Rightarrow> string" where
  "encode_connect_by_name name port =
     bytes_of [VER, CMD_CONNECT, 0, ATYP_DOMAINNAME, length name mod 256] @ name @ port_bytes port"

fun remote_handshake :: "remote_dest \<Rightarrow> (string \<times> string) option \<Rightarrow> unit piped" where
  "remote_handshake (RemoteAddr a) creds = socks5_handshake a creds"
| "remote_handshake (RemoteName n port) creds = socks5_handshake_with (encode_connect_by_name n port) creds"

end
