(* ===== verification/Egress_Send.thy ===== *)
theory Egress_Send
  imports Egress_Wire
begin

text \<open>
  The direct path (\<open>lib.rs\<close>): validating and resolving a URL under an address gate, the
  hardened client, one hop with its request, response and size cap, and the redirect
  loops. The outside world (resolver, HTTP client, clock) is the record \<open>outside\<close>, whose
  functions read and change an arbitrary world; every lookup and every request the code
  makes is recorded in \<open>events\<close>.
\<close>

section \<open>The outside world\<close>

record http_request =
  h_method :: string
  h_url :: url
  h_headers :: "(string \<times> string) list"
  h_body :: "string option"

record client_conf =
  follow_redirects :: bool
  use_proxy :: bool
  pin :: "(string \<times> sock) option"
  trusted_roots :: "string list"
  client_timeout :: "nat option"
  connect_timeout :: "nat option"

text \<open>
  What the body reader meets: bytes, a silence longer than the idle bound, the end of
  the total time, or a failure of the transport (and whether it is a timeout).
\<close>

datatype chunk = Bytes string | Silence | Deadline | Broken bool

record http_response =
  r_status :: "16 word"
  r_location :: "string option"
  r_etag :: "string option"
  r_last_modified :: "string option"
  r_cache_control :: "string option"
  r_content_type :: "string option"
  r_content_length :: "nat option"
  r_chunks :: "chunk list"

datatype send_failure = SendFailure bool bool  \<comment> \<open>\<open>is_timeout\<close>, \<open>is_connect\<close>\<close>

text \<open>A request inside a tunnel: it names the path of its URL, not the URL.\<close>

record origin_request =
  q_method :: string
  q_target :: string
  q_headers :: "(string \<times> string) list"
  q_body :: "string option"

record 'w outside =
  resolver :: "string \<Rightarrow> 'w \<Rightarrow> ip_addr list option \<times> 'w"
  client_builds :: "client_conf \<Rightarrow> bool"
  transmit :: "client_conf \<Rightarrow> http_request \<Rightarrow> 'w \<Rightarrow> (send_failure + http_response) \<times> 'w"
  headers_late :: "'w \<Rightarrow> bool"
  total_over :: "'w \<Rightarrow> bool"
  elapsed_us :: "'w \<Rightarrow> nat"
  dial :: "sock \<Rightarrow> 'w \<Rightarrow> pipe option \<times> 'w"
  server_name_ok :: "string \<Rightarrow> bool"
  proxy_tls :: "string \<Rightarrow> pipe \<Rightarrow> 'w \<Rightarrow> (string + pipe) \<times> 'w"
  origin_tls :: "string \<Rightarrow> string list \<Rightarrow> pipe \<Rightarrow> 'w \<Rightarrow> (string + pipe) \<times> 'w"
  http_start :: "pipe \<Rightarrow> 'w \<Rightarrow> (string + unit) \<times> 'w"
  build_error :: "origin_request \<Rightarrow> string option"
  exchange :: "origin_request \<Rightarrow> 'w \<Rightarrow> (string + http_response) \<times> 'w"
  connect_late :: "'w \<Rightarrow> bool"
  hop_late :: "'w \<Rightarrow> bool"

text \<open>Where a proxy is asked to connect.\<close>

datatype tunnel_dest = Addr sock | Remote remote_dest

text \<open>
  What the code does to the outside: a lookup, a request of the HTTP client, a connection,
  the negotiation with a proxy (whether over TLS, for which destination, the bytes written,
  whether the proxy accepted) and a request inside a tunnel (whether over TLS).
\<close>

datatype event =
    Looked string "16 word"
  | Sent client_conf http_request
  | Dialled sock
  | Negotiated proxy_route bool tunnel_dest string bool
  | Tunnelled proxy_route bool origin_request

record response_head =
  head_status :: "16 word"
  head_etag :: "string option"

record captured =
  cap_head :: "response_head option"
  cap_progress :: "(nat \<times> nat option) option"
  cap_cache :: "(string option \<times> string option) option"

record counter =
  n_allowed :: "64 word"
  n_refused :: "64 word"
  n_failed :: "64 word"
  n_total_us :: "64 word"

record 'w net =
  installed :: "egress_plan option"
  counters :: "traffic_class \<Rightarrow> counter"
  world :: 'w
  events :: "event list"
  captured :: captured
  fired :: "timeout_phase option"

type_synonym ('w, 'a) io = "'w net \<Rightarrow> (refusal + 'a) \<times> 'w net"

definition io_bind ::
  "('s \<Rightarrow> ('e + 'a) \<times> 's) \<Rightarrow> ('a \<Rightarrow> 's \<Rightarrow> ('e + 'b) \<times> 's) \<Rightarrow> 's \<Rightarrow> ('e + 'b) \<times> 's" where
  "io_bind m f s = (case m s of (Inl e, s') \<Rightarrow> (Inl e, s') | (Inr x, s') \<Rightarrow> f x s')"

definition io_lift :: "'e + 'a \<Rightarrow> 's \<Rightarrow> ('e + 'a) \<times> 's" where
  "io_lift r s = (r, s)"

lemma io_lift_Inr: "io_lift r s = (Inr x, s1) \<longleftrightarrow> r = Inr x \<and> s1 = s"
  by (auto simp: io_lift_def)

lemma io_bind_Inr: "io_bind f g s = (Inr y, s2) \<longleftrightarrow> (\<exists>x s1. f s = (Inr x, s1) \<and> g x s1 = (Inr y, s2))"
  by (auto simp: io_bind_def split: prod.splits sum.splits)

definition note_event :: "event \<Rightarrow> 'w net \<Rightarrow> 'w net" where
  "note_event e s = s\<lparr>events := events s @ [e]\<rparr>"

section \<open>Time bounds\<close>

text \<open>The bounds of a timed fetch, and whether the caller asked for a report.\<close>

type_synonym timed = "(fetch_timeouts \<times> bool) option"

definition report_phase :: "timed \<Rightarrow> timeout_phase \<Rightarrow> 'w net \<Rightarrow> 'w net" where
  "report_phase t ph s = (case t of Some (_, True) \<Rightarrow>
       (if fired s = None then s\<lparr>fired := Some ph\<rparr> else s) | _ \<Rightarrow> s)"

definition fire :: "timed \<Rightarrow> timeout_phase \<Rightarrow> ('w, 'a) io" where
  "fire t ph s = (Inl Timeout, report_phase t ph s)"

text \<open>
  A timed fetch is dropped at the first suspension point past its total time; nothing in
  it catches an error, so stopping there with the outer result is the same.
\<close>

definition await_point :: "('w, 'm) outside_scheme \<Rightarrow> timed \<Rightarrow> ('w, unit) io" where
  "await_point out t s = (if t \<noteq> None \<and> total_over out (world s) then fire t PhaseTotal s else (Inr (), s))"

section \<open>Resolving under a gate\<close>

type_synonym gate = "string \<Rightarrow> 16 word \<Rightarrow> ip_addr \<Rightarrow> bool"

record target =
  tg_url :: url
  tg_host :: string
  tg_addr :: sock

definition literal_ip :: "string \<Rightarrow> ip_addr option" where
  "literal_ip host = (case unbracket host of
       Some v6 \<Rightarrow> map_option V6 (parse_ipv6 v6)
     | None \<Rightarrow> map_option V4 (parse_ipv4 host))"

text \<open>\<open>tokio::net::lookup_host\<close>: the addresses of the host, each with the port asked for.\<close>

definition lookup_host :: "('w, 'm) outside_scheme \<Rightarrow> string \<Rightarrow> 16 word \<Rightarrow> 'w \<Rightarrow> sock list option \<times> 'w" where
  "lookup_host out host port w = (case resolver out host w of (r, w') \<Rightarrow>
     (map_option (map (\<lambda>ip. (ip, port))) r, w'))"

definition lookup :: "('w, 'm) outside_scheme \<Rightarrow> timed \<Rightarrow> string \<Rightarrow> 16 word \<Rightarrow> ('w, sock list) io" where
  "lookup out t host port s = (case lookup_host out host port (world s) of (r, w) \<Rightarrow>
     io_bind (await_point out t) (\<lambda>_. io_lift (ok_or r Blocked))
       (note_event (Looked host port) (s\<lparr>world := w\<rparr>)))"

definition resolve_gated_policy ::
  "('w, 'm) outside_scheme \<Rightarrow> timed \<Rightarrow> gate \<Rightarrow> bool \<Rightarrow> url \<Rightarrow> ('w, target) io" where
  "resolve_gated_policy out t gate every u =
    io_bind (io_lift (url_guards u)) (\<lambda>(host, port).
    io_bind (case literal_ip host of
        Some ip \<Rightarrow> io_lift (Inr [(ip, port)])
      | None \<Rightarrow> lookup out t host port) (\<lambda>resolved.
    if every \<and> list_ex (\<lambda>a. \<not> gate host port (fst a)) resolved then io_lift (Inl Blocked)
    else case find (\<lambda>a. gate host port (fst a)) resolved of
        None \<Rightarrow> io_lift (Inl Blocked)
      | Some a \<Rightarrow> io_lift (Inr \<lparr>tg_url = u, tg_host = host, tg_addr = a\<rparr>)))"

text \<open>The entry points: a policy on addresses alone, or a gate, over the first or every address.\<close>

definition validate_and_resolve_with ::
  "('w, 'm) outside_scheme \<Rightarrow> (ip_addr \<Rightarrow> bool) \<Rightarrow> url \<Rightarrow> ('w, target) io" where
  "validate_and_resolve_with env policy u = resolve_gated_policy env None (\<lambda>_ _ ip. policy ip) False u"

definition validate_and_resolve :: "('w, 'm) outside_scheme \<Rightarrow> url \<Rightarrow> ('w, target) io" where
  "validate_and_resolve env u = validate_and_resolve_with env ip_allowed u"

definition plan_resolve ::
  "('w, 'm) outside_scheme \<Rightarrow> egress_plan \<Rightarrow> traffic_class \<Rightarrow> url \<Rightarrow> ('w, target) io" where
  "plan_resolve env p c u = resolve_gated_policy env None (plan_admits p c) False u"

section \<open>The request of a hop\<close>

definition FETCH_TIMEOUT :: nat where "FETCH_TIMEOUT = 10"

text \<open>\<open>reqwest::Client::builder()\<close>: it follows redirects and reads the proxy variables.\<close>

definition client_builder :: client_conf where
  "client_builder = \<lparr>follow_redirects = True, use_proxy = True, pin = None, trusted_roots = [],
     client_timeout = None, connect_timeout = None\<rparr>"

definition harden_client :: "client_conf \<Rightarrow> string \<Rightarrow> sock \<Rightarrow> client_conf" where
  "harden_client base host addr = base\<lparr>follow_redirects := False, client_timeout := Some FETCH_TIMEOUT,
     pin := Some (host, addr), use_proxy := False\<rparr>"

definition add_roots :: "web_lib \<Rightarrow> string list \<Rightarrow> string \<Rightarrow> client_conf \<Rightarrow> refusal + client_conf" where
  "add_roots lib roots m c = (if list_all (cert_ok lib) roots
     then Inr (c\<lparr>trusted_roots := trusted_roots c @ roots\<rparr>) else Inl (BadRequest m))"

definition client_for :: "web_lib \<Rightarrow> timed \<Rightarrow> target \<Rightarrow> outgoing \<Rightarrow> refusal + client_conf" where
  "client_for lib t tg out =
    rbind (case o_plugin out of None \<Rightarrow> Inr client_builder
      | Some p \<Rightarrow> rbind (plugin_validate lib p) (\<lambda>_. add_roots lib (plugin_roots p) ''invalid plugin CA'' client_builder)) (\<lambda>b.
    rbind (case o_dav out of None \<Rightarrow> Inr b
      | Some d \<Rightarrow> rbind (dav_validate lib d) (\<lambda>_. add_roots lib (dav_roots d) ''invalid DAV CA'' b)) (\<lambda>b.
    rbind (case o_download out of None \<Rightarrow> Inr b
      | Some d \<Rightarrow> rbind (download_validate d) (\<lambda>_. add_roots lib (d_roots d) ''invalid download CA'' b)) (\<lambda>b.
    let c = harden_client b (tg_host tg) (tg_addr tg) in
    Inr (case t of None \<Rightarrow> c
      | Some (l, _) \<Rightarrow> c\<lparr>connect_timeout := Some (t_connect l), client_timeout := Some (t_total l)\<rparr>))))"

definition body_headers :: "outgoing \<Rightarrow> (string \<times> string) list" where
  "body_headers out = (case o_body out of Some b \<Rightarrow> [(''content-type'', content_type b)] | None \<Rightarrow> [])"

definition opt_header :: "string \<Rightarrow> string option \<Rightarrow> (string \<times> string) list" where
  "opt_header n v = (case v of Some v \<Rightarrow> [(n, v)] | None \<Rightarrow> [])"

definition dav_headers :: "authorized_dav \<Rightarrow> (string \<times> string) list" where
  "dav_headers d = (''authorization'', dav_authorization d)
     # opt_header ''Depth'' (map_option (\<lambda>n. dec_str (unat n)) (dav_depth d))
     @ (if dav_ocs d then [(''OCS-APIRequest'', ''true'')] else [])
     @ opt_header ''If-None-Match'' (dav_if_none_match d)
     @ opt_header ''if-match'' (dav_if_match d)
     @ opt_header ''Destination'' (dav_destination d)"

definition mk_request ::
  "web_lib \<Rightarrow> string \<Rightarrow> string \<Rightarrow> url \<Rightarrow> (string \<times> string) list \<Rightarrow> outgoing \<Rightarrow> refusal + http_request" where
  "mk_request lib m bad u hs out = (if \<not> method_ok lib m then Inl (BadRequest bad)
     else Inr \<lparr>h_method = m, h_url = u, h_headers = hs, h_body = map_option body_bytes (o_body out)\<rparr>)"

definition base_request :: "web_lib \<Rightarrow> url \<Rightarrow> outgoing \<Rightarrow> refusal + http_request" where
  "base_request lib u out =
    (case o_plugin out of
       Some p \<Rightarrow>
         rbind (plugin_validate lib p) (\<lambda>_.
         rbind (guard_bad (o_api out \<noteq> None \<or> o_dav out \<noteq> None \<or> o_push out \<noteq> None)
           ''mixed authorization refused'') (\<lambda>_.
         mk_request lib (plugin_method p) ''invalid plugin method'' u (plugin_headers p) out))
     | None \<Rightarrow>
    (case o_api out of
       Some a \<Rightarrow>
         rbind (api_validate_target a u) (\<lambda>_.
         rbind (guard_bad (o_dav out \<noteq> None \<or> o_push out \<noteq> None) ''mixed authorization refused'') (\<lambda>_.
         mk_request lib (api_method_str (api_method a)) ''invalid API method'' u
           ((''as-api-key'', api_key a) # body_headers out) out))
     | None \<Rightarrow>
    (case o_dav out of
       Some d \<Rightarrow>
         rbind (dav_validate lib d) (\<lambda>_.
         rbind (dav_validate_target lib d u) (\<lambda>_.
         mk_request lib (dav_method_str (dav_method d)) ''invalid DAV method'' u
           (dav_headers d @ body_headers out) out))
     | None \<Rightarrow> Inr \<lparr>h_method = (if o_body out = None then ''GET'' else ''POST''), h_url = u,
         h_headers = body_headers out, h_body = map_option body_bytes (o_body out)\<rparr>)))"

definition push_headers :: "web_lib \<Rightarrow> url \<Rightarrow> outgoing \<Rightarrow> refusal + (string \<times> string) list" where
  "push_headers lib u out = (case o_push out of None \<Rightarrow> Inr []
     | Some auth \<Rightarrow>
        rbind (web_push_validate lib auth) (\<lambda>_.
        rbind (guard_bad (o_body out = None \<or> o_dav out \<noteq> None \<or> u_scheme u \<noteq> ''https'')
          ''invalid Web Push request'') (\<lambda>_.
        Inr [(''authorization'', auth), (''TTL'', ''2419200''), (''content-encoding'', ''aes128gcm'')])))"

definition conditional_headers :: "outgoing \<Rightarrow> (string \<times> string) list" where
  "conditional_headers out = (case o_conditional out of
       Some c \<Rightarrow> (if o_body out = None then
         opt_header ''if-none-match'' (case c_etag c of Some v \<Rightarrow> if conditional_safe v then Some v else None | None \<Rightarrow> None)
         @ opt_header ''if-modified-since'' (case c_last_modified c of Some v \<Rightarrow> if conditional_safe v then Some v else None | None \<Rightarrow> None)
         else [])
     | None \<Rightarrow> [])"

definition hop_request :: "web_lib \<Rightarrow> url \<Rightarrow> outgoing \<Rightarrow> refusal + http_request" where
  "hop_request lib u out =
    rbind (base_request lib u out) (\<lambda>r.
    rbind (push_headers lib u out) (\<lambda>push.
    Inr (r\<lparr>h_headers := h_headers r @ push @ conditional_headers out
      @ [(''user-agent'', o_agent out), (''accept'', o_accept out), (''accept-encoding'', ''identity'')]\<rparr>)))"

section \<open>The response of a hop\<close>

datatype hop = HopBody string | HopRedirect string

definition declared_media_type :: "string option \<Rightarrow> string option" where
  "declared_media_type v = (case v of None \<Rightarrow> None
     | Some v \<Rightarrow> (let essence = to_lower (trim (hd (split_on (CHR '';'') v))) in
         if essence = [] then None else Some essence))"

definition record_head :: "outgoing \<Rightarrow> 16 word \<Rightarrow> string option \<Rightarrow> 'w net \<Rightarrow> 'w net" where
  "record_head out st etag s = (if o_capture out then s\<lparr>captured := (captured s)\<lparr>cap_head := Some
     \<lparr>head_status = st, head_etag = (case etag of Some tag \<Rightarrow>
        if length tag \<le> 4096 \<and> \<not> list_ex (\<lambda>b. byte b < 32 \<or> byte b = 127) tag then Some tag else None
      | None \<Rightarrow> None)\<rparr>\<rparr>\<rparr> else s)"

definition keep_header :: "string option \<Rightarrow> string option" where
  "keep_header v = (case v of Some v \<Rightarrow> if length v \<le> 512 \<and> list_all visible v then Some v else None
     | None \<Rightarrow> None)"

definition record_cache_headers :: "outgoing \<Rightarrow> string option \<Rightarrow> string option \<Rightarrow> 'w net \<Rightarrow> 'w net" where
  "record_cache_headers out lm cc s = (if o_capture out
     then s\<lparr>captured := (captured s)\<lparr>cap_cache := Some (keep_header lm, keep_header cc)\<rparr>\<rparr> else s)"

definition record_progress :: "outgoing \<Rightarrow> nat \<Rightarrow> nat option \<Rightarrow> 'w net \<Rightarrow> 'w net" where
  "record_progress out n whole_len s = (if o_capture out
     then s\<lparr>captured := (captured s)\<lparr>cap_progress := Some (n, whole_len)\<rparr>\<rparr> else s)"

text \<open>\<open>read_capped\<close> and \<open>read_capped_idle\<close>: only a timed read watches the clock.\<close>

fun read_capped :: "outgoing \<Rightarrow> timed \<Rightarrow> nat \<Rightarrow> nat option \<Rightarrow> string \<Rightarrow> chunk list \<Rightarrow> ('w, string) io" where
  "read_capped out t limit whole_len buf [] s = (Inr buf, s)"
| "read_capped out t limit whole_len buf (c # cs) s = (case c of
       Silence \<Rightarrow> if t = None then read_capped out t limit whole_len buf cs s else fire t PhaseIdle s
     | Deadline \<Rightarrow> if t = None then read_capped out t limit whole_len buf cs s else fire t PhaseTotal s
     | Broken late \<Rightarrow> if t \<noteq> None \<and> late then fire t PhaseTotal s else (Inl Upstream, s)
     | Bytes bs \<Rightarrow>
         if limit < length buf + length bs then (Inl TooLarge, s)
         else read_capped out t limit whole_len (buf @ bs) cs (record_progress out (length buf + length bs) whole_len s))"

definition take_body :: "outgoing \<Rightarrow> timed \<Rightarrow> http_response \<Rightarrow> ('w, hop \<times> string option) io" where
  "take_body out t r s =
    (if (case r_content_length r of Some n \<Rightarrow> body_cap out < n | None \<Rightarrow> False) then (Inl TooLarge, s)
     else io_bind (read_capped out t (body_cap out) (r_content_length r) [] (r_chunks r))
       (\<lambda>body. io_lift (Inr (HopBody body, declared_media_type (r_content_type r))))
       (record_progress out 0 (r_content_length r) s))"

definition take_response :: "outgoing \<Rightarrow> timed \<Rightarrow> http_response \<Rightarrow> ('w, hop \<times> string option) io" where
  "take_response out t r s = (let
     s1 = record_cache_headers out (r_last_modified r) (r_cache_control r)
            (record_head out (r_status r) (r_etag r) s);
     st = unat (r_status r) in
     if st = 304 \<and> o_conditional out \<noteq> None then (Inl (Status 304), s1)
     else if 300 \<le> st \<and> st \<le> 399 \<and> o_plugin out = None then
       (case r_location r of None \<Rightarrow> (Inl Upstream, s1) | Some loc \<Rightarrow> (Inr (HopRedirect loc, None), s1))
     else if \<not> (200 \<le> st \<and> st \<le> 299) \<and> o_plugin out = None then (Inl (Status (r_status r)), s1)
     else take_body out t r s1)"

definition send_hop_timed ::
  "('w, 'm) outside_scheme \<Rightarrow> web_lib \<Rightarrow> timed \<Rightarrow> target \<Rightarrow> outgoing \<Rightarrow> ('w, hop \<times> string option) io" where
  "send_hop_timed env lib t tg out =
    io_bind (io_lift (client_for lib t tg out)) (\<lambda>c.
    io_bind (io_lift (guard_err (\<not> client_builds env c) Upstream)) (\<lambda>_.
    io_bind (io_lift (hop_request lib (tg_url tg) out)) (\<lambda>rq s.
      case transmit env c rq (world s) of (res, w) \<Rightarrow>
        let s' = note_event (Sent c rq) (s\<lparr>world := w\<rparr>) in
        if t \<noteq> None \<and> headers_late env w then fire t PhaseHeaders s'
        else io_bind (await_point env t) (\<lambda>_ s2.
          case res of
            Inl (SendFailure late connecting) \<Rightarrow>
              if late then (if t = None then (Inl Timeout, s2)
                else fire t (if connecting then PhaseConnect else PhaseTotal) s2)
              else (Inl Upstream, s2)
          | Inr r \<Rightarrow> take_response out t r s2) s')))"

definition send_hop ::
  "('w, 'm) outside_scheme \<Rightarrow> web_lib \<Rightarrow> target \<Rightarrow> outgoing \<Rightarrow> ('w, hop) io" where
  "send_hop env lib tg out = io_bind (send_hop_timed env lib None tg out) (\<lambda>(h, _). io_lift (Inr h))"

definition fetch_hop_as ::
  "('w, 'm) outside_scheme \<Rightarrow> web_lib \<Rightarrow> target \<Rightarrow> string \<Rightarrow> string \<Rightarrow> ('w, hop) io" where
  "fetch_hop_as env lib tg accept agent = send_hop env lib tg (plain_outgoing accept agent)"

definition fetch_hop :: "('w, 'm) outside_scheme \<Rightarrow> web_lib \<Rightarrow> target \<Rightarrow> string \<Rightarrow> ('w, hop) io" where
  "fetch_hop env lib tg accept = fetch_hop_as env lib tg accept PROXY_UA"

section \<open>Following redirects\<close>

text \<open>The loops run at most \<open>n\<close> more hops.\<close>

fun fetch_loop ::
  "('w, 'm) outside_scheme \<Rightarrow> web_lib \<Rightarrow> gate \<Rightarrow> outgoing \<Rightarrow> nat \<Rightarrow> url \<Rightarrow> ('w, string) io" where
  "fetch_loop env lib gate out 0 u = io_lift (Inl Upstream)"
| "fetch_loop env lib gate out (Suc n) u =
    io_bind (resolve_gated_policy env None gate False u) (\<lambda>tg.
    io_bind (send_hop_timed env lib None tg out) (\<lambda>(h, _). case h of
      HopBody b \<Rightarrow> io_lift (Inr b)
    | HopRedirect loc \<Rightarrow>
        io_bind (io_lift (ok_or (join_url lib u loc) Upstream)) (\<lambda>nxt.
        fetch_loop env lib gate out n nxt)))"

definition fetch_remote_with ::
  "('w, 'm) outside_scheme \<Rightarrow> web_lib \<Rightarrow> (ip_addr \<Rightarrow> bool) \<Rightarrow> string \<Rightarrow> string \<Rightarrow> url \<Rightarrow> ('w, string) io" where
  "fetch_remote_with env lib policy accept agent start =
     fetch_loop env lib (\<lambda>_ _ ip. policy ip) (plain_outgoing accept agent) (Suc MAX_REDIRECTS) start"

definition fetch_remote_accepting ::
  "('w, 'm) outside_scheme \<Rightarrow> web_lib \<Rightarrow> url \<Rightarrow> string \<Rightarrow> ('w, string) io" where
  "fetch_remote_accepting env lib start accept = fetch_remote_with env lib ip_allowed accept PROXY_UA start"

definition fetch_remote :: "('w, 'm) outside_scheme \<Rightarrow> web_lib \<Rightarrow> url \<Rightarrow> ('w, string) io" where
  "fetch_remote env lib start = fetch_remote_accepting env lib start ''image/*''"

definition fetch_url_hardened_with ::
  "('w, 'm) outside_scheme \<Rightarrow> web_lib \<Rightarrow> (ip_addr \<Rightarrow> bool) \<Rightarrow> string \<Rightarrow> string \<Rightarrow> string \<Rightarrow> ('w, string) io" where
  "fetch_url_hardened_with env lib policy accept agent text =
    io_bind (io_lift (ok_or (parse_url lib text) (BadRequest ''malformed URL''))) (\<lambda>u.
    fetch_remote_with env lib policy accept agent u)"

definition refusal_text :: "refusal \<Rightarrow> string" where
  "refusal_text r = (case r of
     BadRequest m \<Rightarrow> m
   | Blocked \<Rightarrow> ''target address is not permitted''
   | Timeout \<Rightarrow> ''upstream timed out''
   | Status code \<Rightarrow> ''upstream fetch failed: HTTP '' @ dec_str (unat code)
   | Upstream \<Rightarrow> ''upstream fetch failed''
   | TooLarge \<Rightarrow> ''upstream response too large'')"

definition fetch_url_hardened ::
  "('w, 'm) outside_scheme \<Rightarrow> web_lib \<Rightarrow> string \<Rightarrow> string \<Rightarrow> 'w net \<Rightarrow> (string + string) \<times> 'w net" where
  "fetch_url_hardened env lib text accept s =
    (case fetch_url_hardened_with env lib ip_allowed accept PROXY_UA text s of
       (Inl r, s') \<Rightarrow> (Inl (refusal_text r), s') | (Inr b, s') \<Rightarrow> (Inr b, s'))"

definition keeps_credentials :: "outgoing \<Rightarrow> bool" where
  "keeps_credentials out \<longleftrightarrow> o_body out \<noteq> None \<or> o_dav out \<noteq> None \<or> o_api out \<noteq> None"

fun direct_hops ::
  "('w, 'm) outside_scheme \<Rightarrow> web_lib \<Rightarrow> gate \<Rightarrow> timed \<Rightarrow> outgoing \<Rightarrow> url \<Rightarrow> nat \<Rightarrow> url
     \<Rightarrow> ('w, string \<times> string option) io" where
  "direct_hops env lib gate t out first 0 u = io_lift (Inl Upstream)"
| "direct_hops env lib gate t out first (Suc n) u =
    io_bind (resolve_gated_policy env t gate (o_plugin out \<noteq> None) u) (\<lambda>tg.
    io_bind (send_hop_timed env lib t tg out) (\<lambda>(h, ct). case h of
      HopBody b \<Rightarrow> io_lift (Inr (b, ct))
    | HopRedirect loc \<Rightarrow>
        if keeps_credentials out then io_lift (Inl Upstream)
        else io_bind (io_lift (ok_or (join_url lib u loc) Upstream)) (\<lambda>nxt.
          if \<not> redirect_permitted out first nxt
          then io_lift (Inl (BadRequest ''redirect to an unlisted host refused''))
          else direct_hops env lib gate t out first n nxt)))"

definition hop_count :: "timed \<Rightarrow> nat" where
  "hop_count t = Suc (case t of None \<Rightarrow> MAX_REDIRECTS | Some (l, _) \<Rightarrow> max_redirects l)"

definition send_direct ::
  "('w, 'm) outside_scheme \<Rightarrow> web_lib \<Rightarrow> gate \<Rightarrow> timed \<Rightarrow> outgoing \<Rightarrow> url \<Rightarrow> ('w, string \<times> string option) io" where
  "send_direct env lib gate t out start = direct_hops env lib gate t out start (hop_count t) start"

end
