(* ===== verification/Egress_Proxy.thy ===== *)
theory Egress_Proxy
  imports Egress_Send
begin

text \<open>
  The proxied path (\<open>proxy/mod.rs\<close>, \<open>proxy/http.rs\<close> and the origin TLS of
  \<open>proxy/stream.rs\<close>) and the class-aware send of \<open>plan.rs\<close> over both paths, with its
  counters and the pinned ManageSieve stream. Tasks and cancellation are not modelled: an
  operation still pending when a clock runs out is one that failed in a world whose clock
  is late.
\<close>

section \<open>Clocks of a tunnelled hop\<close>

type_synonym ('w, 'a) pio = "'w net \<Rightarrow> (proxy_refusal + 'a) \<times> 'w net"

definition expired :: "timed \<Rightarrow> timeout_phase \<Rightarrow> ('w, 'a) pio" where
  "expired t ph s = (Inl (Origin Timeout), report_phase t ph s)"

text \<open>
  \<open>hop_budget\<close> with \<open>budget_elapsed\<close>: a hop has ten seconds, or what the total deadline
  leaves; the connect and header clocks exist only under time bounds and are polled first.
\<close>

definition hop_wait :: "('w, 'm) outside_scheme \<Rightarrow> timed \<Rightarrow> ('w, 'a) pio \<Rightarrow> ('w, 'a) pio" where
  "hop_wait env t m s = (case m s of
       (Inr x, s') \<Rightarrow> (Inr x, s')
     | (Inl e, s') \<Rightarrow> if hop_late env (world s') then expired t PhaseTotal s' else (Inl e, s'))"

definition connect_wait :: "('w, 'm) outside_scheme \<Rightarrow> timed \<Rightarrow> ('w, 'a) pio \<Rightarrow> ('w, 'a) pio" where
  "connect_wait env t m s = (case m s of
       (Inr x, s') \<Rightarrow> (Inr x, s')
     | (Inl e, s') \<Rightarrow> if t \<noteq> None \<and> connect_late env (world s') then expired t PhaseConnect s'
         else if hop_late env (world s') then expired t PhaseTotal s' else (Inl e, s'))"

section \<open>The tunnel\<close>

text \<open>A proxy's side of a connection, and whether it is inside TLS to the proxy.\<close>

type_synonym proxy_conn = "bool \<times> pipe"

text \<open>A tunnel, and whether it is inside TLS to the origin.\<close>

type_synonym tunnel_stream = "bool \<times> pipe"

definition strip_brackets :: "string \<Rightarrow> string" where
  "strip_brackets host = (case unbracket host of Some h \<Rightarrow> h | None \<Rightarrow> host)"

definition connect_proxy :: "('w, 'm) outside_scheme \<Rightarrow> timed \<Rightarrow> proxy_route \<Rightarrow> ('w, pipe) pio" where
  "connect_proxy env t r = connect_wait env t (\<lambda>s. case lookup_host env (route_host r) (route_port r) (world s) of (res, w) \<Rightarrow>
     let s = note_event (Looked (route_host r) (route_port r)) (s\<lparr>world := w\<rparr>) in
     case res of
       None \<Rightarrow> (Inl (ProxyUnreachable ''egress proxy host does not resolve''), s)
     | Some [] \<Rightarrow> (Inl (ProxyUnreachable ''egress proxy host resolved to no address''), s)
     | Some (a # _) \<Rightarrow> (case dial env a (world s) of (res, w) \<Rightarrow>
         (ok_or res (ProxyUnreachable ''could not connect to the egress proxy''),
          note_event (Dialled a) (s\<lparr>world := w\<rparr>))))"

definition tls_to_proxy :: "('w, 'm) outside_scheme \<Rightarrow> timed \<Rightarrow> proxy_route \<Rightarrow> pipe \<Rightarrow> ('w, proxy_conn) pio" where
  "tls_to_proxy env t r p =
    (if route_scheme r \<noteq> HttpsConnect then io_lift (Inr (False, p))
     else if \<not> server_name_ok env (strip_brackets (route_host r))
     then io_lift (Inl (RouteInvalid ''the proxy host is not a valid TLS server name''))
     else connect_wait env t (\<lambda>s. case proxy_tls env (strip_brackets (route_host r)) p (world s) of
         (Inl e, w) \<Rightarrow> (Inl (ProxyTls e), s\<lparr>world := w\<rparr>)
       | (Inr q, w) \<Rightarrow> (Inr (True, q), s\<lparr>world := w\<rparr>)))"

text \<open>Which handshake a route and a destination take, if they match.\<close>

fun handshake_for :: "proxy_scheme \<Rightarrow> tunnel_dest \<Rightarrow> (string \<times> string) option \<Rightarrow> (unit piped) option" where
  "handshake_for HttpConnect (Addr a) creds = Some (connect_handshake a creds)"
| "handshake_for HttpsConnect (Addr a) creds = Some (connect_handshake a creds)"
| "handshake_for Socks5 (Addr a) creds = Some (socks5_handshake a creds)"
| "handshake_for Socks5h (Remote d) creds = Some (remote_handshake d creds)"
| "handshake_for _ _ creds = None"

definition negotiate ::
  "('w, 'm) outside_scheme \<Rightarrow> timed \<Rightarrow> proxy_route \<Rightarrow> tunnel_dest \<Rightarrow> proxy_conn \<Rightarrow> ('w, pipe) pio" where
  "negotiate env t r dst c = (case handshake_for (route_scheme r) dst (credentials r) of
       None \<Rightarrow> io_lift (Inl (RouteInvalid ''the destination does not match the route kind''))
     | Some h \<Rightarrow> connect_wait env t (\<lambda>s. case h ((snd c)\<lparr>outbox := []\<rparr>) of (res, p) \<Rightarrow>
         (map_sum id (\<lambda>_. p) res, note_event (Negotiated r (fst c) dst (outbox p) (\<not> isl res)) s)))"

definition open_tunnel ::
  "('w, 'm) outside_scheme \<Rightarrow> timed \<Rightarrow> proxy_route \<Rightarrow> tunnel_dest \<Rightarrow> ('w, pipe) pio" where
  "open_tunnel env t r dst =
    io_bind (connect_proxy env t r) (\<lambda>p.
    io_bind (tls_to_proxy env t r p) (\<lambda>c.
    negotiate env t r dst c))"

definition open_pinned_stream :: "('w, 'm) outside_scheme \<Rightarrow> proxy_route \<Rightarrow> sock \<Rightarrow> ('w, pipe) pio" where
  "open_pinned_stream env r a = (if route_scheme r = Socks5h
     then io_lift (Inl (RouteInvalid ''remote DNS is unavailable for pinned mail transport''))
     else open_tunnel env None r (Addr a))"

section \<open>TLS to the origin\<close>

definition lift_origin :: "refusal + 'a \<Rightarrow> proxy_refusal + 'a" where
  "lift_origin r = map_sum Origin id r"

definition wrap_tls_with_roots ::
  "('w, 'm) outside_scheme \<Rightarrow> web_lib \<Rightarrow> timed \<Rightarrow> pipe \<Rightarrow> string \<Rightarrow> string list \<Rightarrow> ('w, tunnel_stream) pio" where
  "wrap_tls_with_roots env lib t p host roots =
    (if \<not> list_all (root_ok lib) roots then io_lift (Inl (Origin (BadRequest ''invalid DAV CA'')))
     else if \<not> server_name_ok env (strip_brackets host)
     then io_lift (Inl (Origin (BadRequest ''origin host is not a valid TLS server name'')))
     else connect_wait env t (\<lambda>s. case origin_tls env (strip_brackets host) roots p (world s) of
         (Inl e, w) \<Rightarrow> (Inl (OriginTls e), s\<lparr>world := w\<rparr>)
       | (Inr q, w) \<Rightarrow> (Inr (True, q), s\<lparr>world := w\<rparr>)))"

definition wrap_origin ::
  "('w, 'm) outside_scheme \<Rightarrow> web_lib \<Rightarrow> timed \<Rightarrow> outgoing \<Rightarrow> url \<Rightarrow> string \<Rightarrow> pipe \<Rightarrow> ('w, tunnel_stream) pio" where
  "wrap_origin env lib t out u host p =
    (if u_scheme u \<noteq> ''https'' then io_lift (Inr (False, p))
     else case o_dav out of
       Some d \<Rightarrow> io_bind (io_lift (lift_origin (dav_validate lib d)))
         (\<lambda>_. wrap_tls_with_roots env lib t p host (dav_roots d))
     | None \<Rightarrow> (case o_plugin out of
         Some g \<Rightarrow> io_bind (io_lift (lift_origin (plugin_validate lib g)))
           (\<lambda>_. wrap_tls_with_roots env lib t p host (plugin_roots g))
       | None \<Rightarrow> (case o_download out of
           Some d \<Rightarrow> if d_roots d = [] then wrap_tls_with_roots env lib t p host []
             else io_bind (io_lift (lift_origin (download_validate d)))
               (\<lambda>_. wrap_tls_with_roots env lib t p host (d_roots d))
         | None \<Rightarrow> wrap_tls_with_roots env lib t p host [])))"

section \<open>The request inside the tunnel\<close>

definition default_port :: "string \<Rightarrow> 16 word option" where
  "default_port scheme = (if scheme = ''http'' then Some 80 else if scheme = ''https'' then Some 443 else None)"

definition host_header :: "url \<Rightarrow> refusal + string" where
  "host_header u = rbind (ok_or (u_host u) (BadRequest ''URL has no host'')) (\<lambda>h.
     Inr (case u_port u of
         Some q \<Rightarrow> if Some q = default_port (u_scheme u) then h else h @ '':'' @ dec_str (unat q)
       | None \<Rightarrow> h))"

definition request_target :: "url \<Rightarrow> string" where
  "request_target u = (case u_query u of Some q \<Rightarrow> u_path u @ ''?'' @ q | None \<Rightarrow> u_path u)"

definition method_part :: "web_lib \<Rightarrow> url \<Rightarrow> outgoing \<Rightarrow> refusal + string \<times> (string \<times> string) list" where
  "method_part lib u out = (case o_plugin out of
     Some g \<Rightarrow>
       rbind (plugin_validate lib g) (\<lambda>_.
       rbind (guard_bad (o_api out \<noteq> None \<or> o_dav out \<noteq> None \<or> o_push out \<noteq> None)
         ''mixed authorization refused'') (\<lambda>_.
       Inr (plugin_method g, plugin_headers g)))
   | None \<Rightarrow> (case o_api out of
     Some a \<Rightarrow>
       rbind (api_validate_target a u) (\<lambda>_.
       rbind (guard_bad (o_dav out \<noteq> None \<or> o_push out \<noteq> None) ''mixed authorization refused'') (\<lambda>_.
       Inr (api_method_str (api_method a), (''as-api-key'', api_key a) # body_headers out)))
   | None \<Rightarrow> (case o_dav out of
     Some d \<Rightarrow>
       rbind (dav_validate lib d) (\<lambda>_.
       rbind (dav_validate_target lib d u) (\<lambda>_.
       Inr (dav_method_str (dav_method d), dav_headers d @ body_headers out)))
   | None \<Rightarrow> Inr (if o_body out = None then ''GET'' else ''POST'', body_headers out))))"

definition tunnel_request :: "web_lib \<Rightarrow> url \<Rightarrow> outgoing \<Rightarrow> refusal + origin_request" where
  "tunnel_request lib u out =
    rbind (host_header u) (\<lambda>host.
    rbind (push_headers lib u out) (\<lambda>push.
    rbind (method_part lib u out) (\<lambda>(m, hs).
    Inr \<lparr>q_method = m, q_target = request_target u,
      q_headers = (''host'', host) # (''user-agent'', o_agent out) # (''accept'', o_accept out)
        # (''accept-encoding'', ''identity'') # push @ hs,
      q_body = map_option body_bytes (o_body out)\<rparr>)))"

text \<open>The body frames, under the idle clock of a timed fetch and the clock of the hop.\<close>

fun read_frames :: "outgoing \<Rightarrow> timed \<Rightarrow> nat option \<Rightarrow> string \<Rightarrow> chunk list \<Rightarrow> ('w, string) pio" where
  "read_frames out t len buf [] s = (Inr buf, s)"
| "read_frames out t len buf (c # cs) s = (case c of
       Silence \<Rightarrow> if t = None then read_frames out t len buf cs s else expired t PhaseIdle s
     | Deadline \<Rightarrow> expired t PhaseTotal s
     | Broken _ \<Rightarrow> (Inl (Origin Upstream), s)
     | Bytes bs \<Rightarrow>
         if body_cap out < length buf + length bs then (Inl (Origin TooLarge), s)
         else read_frames out t len (buf @ bs) cs (record_progress out (length buf + length bs) len s))"

definition tunnel_response :: "outgoing \<Rightarrow> timed \<Rightarrow> http_response \<Rightarrow> ('w, hop \<times> string option) pio" where
  "tunnel_response out t r s = (let s1 = record_head out (r_status r) (r_etag r) s; st = unat (r_status r) in
     if 300 \<le> st \<and> st \<le> 399 \<and> o_plugin out = None then
       (case r_location r of None \<Rightarrow> (Inl (Origin Upstream), s1) | Some loc \<Rightarrow> (Inr (HopRedirect loc, None), s1))
     else if \<not> (200 \<le> st \<and> st \<le> 299) \<and> o_plugin out = None then (Inl (Origin (Status (r_status r))), s1)
     else if (case r_content_length r of Some n \<Rightarrow> body_cap out < n | None \<Rightarrow> False)
     then (Inl (Origin TooLarge), s1)
     else io_bind (read_frames out t (r_content_length r) [] (r_chunks r))
       (\<lambda>body. io_lift (Inr (HopBody body, declared_media_type (r_content_type r))))
       (record_progress out 0 (r_content_length r) s1))"

definition start_http :: "('w, 'm) outside_scheme \<Rightarrow> pipe \<Rightarrow> ('w, unit) pio" where
  "start_http env p s = (case http_start env p (world s) of
       (Inl e, w) \<Rightarrow> (Inl (OriginHttp (''HTTP/1.1 handshake failed: '' @ e)), s\<lparr>world := w\<rparr>)
     | (Inr _, w) \<Rightarrow> (Inr (), s\<lparr>world := w\<rparr>))"

definition send_in_tunnel ::
  "('w, 'm) outside_scheme \<Rightarrow> proxy_route \<Rightarrow> timed \<Rightarrow> bool \<Rightarrow> origin_request \<Rightarrow> ('w, http_response) pio" where
  "send_in_tunnel env route t tls q s = (case build_error env q of
       Some e \<Rightarrow> (Inl (OriginHttp (''request could not be built: '' @ e)), s)
     | None \<Rightarrow> (case exchange env q (world s) of (res, w) \<Rightarrow>
         let s = note_event (Tunnelled route tls q) (s\<lparr>world := w\<rparr>) in
         (case res of
           Inr r \<Rightarrow> (Inr r, s)
         | Inl e \<Rightarrow> if t \<noteq> None \<and> headers_late env w then expired t PhaseHeaders s
             else if hop_late env w then expired t PhaseTotal s
             else (Inl (OriginHttp (''request failed: '' @ e)), s))))"

definition exchange_typed ::
  "('w, 'm) outside_scheme \<Rightarrow> web_lib \<Rightarrow> proxy_route \<Rightarrow> timed \<Rightarrow> url \<Rightarrow> outgoing \<Rightarrow> tunnel_stream \<Rightarrow> ('w, hop \<times> string option) pio" where
  "exchange_typed env lib route t u out c =
    io_bind (hop_wait env t (start_http env (snd c))) (\<lambda>_.
    io_bind (io_lift (lift_origin (tunnel_request lib u out))) (\<lambda>q.
    io_bind (send_in_tunnel env route t (fst c) q) (\<lambda>r.
    tunnel_response out t r)))"

section \<open>One hop\<close>

text \<open>A hop's outcome and whether the proxy accepted its tunnel.\<close>

type_synonym ('w, 'a) measured = "'w net \<Rightarrow> bool \<times> ((proxy_refusal + 'a) \<times> 'w net)"

definition hop_with ::
  "('w, 'm) outside_scheme \<Rightarrow> web_lib \<Rightarrow> timed \<Rightarrow> proxy_route \<Rightarrow> tunnel_dest \<Rightarrow> url \<Rightarrow> string \<Rightarrow> outgoing
     \<Rightarrow> ('w, hop \<times> string option) measured" where
  "hop_with env lib t route dst u host out s =
    (case (case o_api out of Some a \<Rightarrow> api_validate_target a u | None \<Rightarrow> Inr ()) of
       Inl e \<Rightarrow> (False, (Inl (Origin e), s))
     | Inr _ \<Rightarrow>
        if u_scheme u \<noteq> ''https'' \<and> \<not> allow_plaintext route then (False, (Inl PlaintextRefused, s))
        else case open_tunnel env t route dst s of
          (Inl e, s1) \<Rightarrow> (False, (Inl e, s1))
        | (Inr p, s1) \<Rightarrow> (True,
            io_bind (wrap_origin env lib t out u host p) (\<lambda>q.
            exchange_typed env lib route t u out q) s1))"

definition remote_dns_hop ::
  "('w, 'm) outside_scheme \<Rightarrow> web_lib \<Rightarrow> timed \<Rightarrow> proxy_route \<Rightarrow> url \<Rightarrow> outgoing
     \<Rightarrow> ('w, hop \<times> string option) measured" where
  "remote_dns_hop env lib t route u out s = (case remote_destination u of
       Inl e \<Rightarrow> (False, (Inl (Origin e), s))
     | Inr (d, host) \<Rightarrow> hop_with env lib t route (Remote d) u host out s)"

definition tunnel_send_hop_gated ::
  "('w, 'm) outside_scheme \<Rightarrow> web_lib \<Rightarrow> timed \<Rightarrow> gate \<Rightarrow> proxy_route \<Rightarrow> target \<Rightarrow> outgoing
     \<Rightarrow> ('w, hop \<times> string option) measured" where
  "tunnel_send_hop_gated env lib t gate route tg out s =
    (if \<not> gate (tg_host tg) (snd (tg_addr tg)) (fst (tg_addr tg)) then (False, (Inl (Origin Blocked), s))
     else if u_scheme (tg_url tg) \<noteq> ''http'' \<and> u_scheme (tg_url tg) \<noteq> ''https''
     then (False, (Inl (Origin (BadRequest ''only http/https URLs are proxied'')), s))
     else if route_scheme route = Socks5h
     then (False, (Inl (RouteInvalid ''a remote-DNS route is used by name, not with a resolved target''), s))
     else hop_with env lib t route (Addr (tg_addr tg)) (tg_url tg) (tg_host tg) out s)"

definition strict_gate :: gate where
  "strict_gate host port ip = ip_allowed ip"

definition tunnel_send_hop ::
  "('w, 'm) outside_scheme \<Rightarrow> web_lib \<Rightarrow> proxy_route \<Rightarrow> target \<Rightarrow> outgoing
     \<Rightarrow> ('w, hop \<times> string option) measured" where
  "tunnel_send_hop env lib route tg out = tunnel_send_hop_gated env lib None strict_gate route tg out"

definition tunnel_fetch_hop ::
  "('w, 'm) outside_scheme \<Rightarrow> web_lib \<Rightarrow> proxy_route \<Rightarrow> target \<Rightarrow> string
     \<Rightarrow> ('w, hop \<times> string option) measured" where
  "tunnel_fetch_hop env lib route tg accept = tunnel_send_hop env lib route tg (plain_outgoing accept PROXY_UA)"

section \<open>A proxied fetch\<close>

record 'o fetched =
  traversed_proxy :: bool
  fetched_type :: "string option"
  outcome :: 'o

type_synonym proxy_fetch = "(proxy_refusal + string) fetched"
type_synonym routed_fetch = "(refusal + string) fetched"

definition refused :: "bool \<Rightarrow> 'e \<Rightarrow> ('e + string) fetched" where
  "refused tr e = \<lparr>traversed_proxy = tr, fetched_type = None, outcome = Inl e\<rparr>"

definition proxied_hop ::
  "('w, 'm) outside_scheme \<Rightarrow> web_lib \<Rightarrow> timed \<Rightarrow> gate \<Rightarrow> proxy_route \<Rightarrow> outgoing \<Rightarrow> url
     \<Rightarrow> ('w, hop \<times> string option) measured" where
  "proxied_hop env lib t gate route out u s =
    (if route_scheme route = Socks5h then remote_dns_hop env lib t route u out s
     else case resolve_gated_policy env None gate (o_plugin out \<noteq> None) u s of
         (Inl r, s1) \<Rightarrow> (False, (Inl (Origin r), s1))
       | (Inr tg, s1) \<Rightarrow> tunnel_send_hop_gated env lib t gate route tg out s1)"

fun proxy_hops ::
  "('w, 'm) outside_scheme \<Rightarrow> web_lib \<Rightarrow> timed \<Rightarrow> gate \<Rightarrow> proxy_route \<Rightarrow> outgoing \<Rightarrow> url \<Rightarrow> nat \<Rightarrow> bool \<Rightarrow> url
     \<Rightarrow> 'w net \<Rightarrow> proxy_fetch \<times> 'w net" where
  "proxy_hops env lib t gate route out first 0 tr u s = (refused tr (Origin Upstream), s)"
| "proxy_hops env lib t gate route out first (Suc n) tr u s =
    (case proxied_hop env lib t gate route out u s of (via, res, s1) \<Rightarrow>
       let tr = (tr \<or> via) in
       case res of
         Inl e \<Rightarrow> (refused tr e, s1)
       | Inr (HopBody b, ct) \<Rightarrow> (\<lparr>traversed_proxy = tr, fetched_type = ct, outcome = Inr b\<rparr>, s1)
       | Inr (HopRedirect loc, _) \<Rightarrow>
           if keeps_credentials out then (refused tr (Origin Upstream), s1)
           else (case join_url lib u loc of
             None \<Rightarrow> (refused tr (Origin Upstream), s1)
           | Some nxt \<Rightarrow>
               if \<not> redirect_permitted out first nxt
               then (refused tr (Origin (BadRequest ''redirect to an unlisted host refused'')), s1)
               else proxy_hops env lib t gate route out first n tr nxt s1))"

definition send_via_proxy_gated_with ::
  "('w, 'm) outside_scheme \<Rightarrow> web_lib \<Rightarrow> timed \<Rightarrow> gate \<Rightarrow> proxy_route \<Rightarrow> outgoing \<Rightarrow> url
     \<Rightarrow> 'w net \<Rightarrow> proxy_fetch \<times> 'w net" where
  "send_via_proxy_gated_with env lib t gate route out u s =
    (if o_plugin out \<noteq> None \<and> route_scheme route = Socks5h
     then (refused False (Origin (BadRequest ''plugin requests require local DNS verification'')), s)
     else case (case o_api out of
           None \<Rightarrow> Inr ()
         | Some a \<Rightarrow> rbind (api_validate_target a u) (\<lambda>_.
             guard_bad (route_scheme route = Socks5h) ''package API requires local DNS verification'')) of
         Inl e \<Rightarrow> (refused False (Origin e), s)
       | Inr _ \<Rightarrow> proxy_hops env lib t gate route out u (hop_count t) False u s)"

definition send_via_proxy ::
  "('w, 'm) outside_scheme \<Rightarrow> web_lib \<Rightarrow> proxy_route \<Rightarrow> outgoing \<Rightarrow> url \<Rightarrow> 'w net \<Rightarrow> proxy_fetch \<times> 'w net" where
  "send_via_proxy env lib route out u = send_via_proxy_gated_with env lib None strict_gate route out u"

definition fetch_via_proxy ::
  "('w, 'm) outside_scheme \<Rightarrow> web_lib \<Rightarrow> proxy_route \<Rightarrow> string \<Rightarrow> url \<Rightarrow> 'w net \<Rightarrow> proxy_fetch \<times> 'w net" where
  "fetch_via_proxy env lib route accept u = send_via_proxy env lib route (plain_outgoing accept PROXY_UA) u"

definition send_via_proxy_timed ::
  "('w, 'm) outside_scheme \<Rightarrow> web_lib \<Rightarrow> timed \<Rightarrow> gate option \<Rightarrow> proxy_route \<Rightarrow> outgoing \<Rightarrow> url
     \<Rightarrow> 'w net \<Rightarrow> proxy_fetch \<times> 'w net" where
  "send_via_proxy_timed env lib t gate route out u = send_via_proxy_gated_with env lib t
     (case gate of Some g \<Rightarrow> g | None \<Rightarrow> strict_gate) route out u"

definition routed :: "proxy_fetch \<Rightarrow> routed_fetch" where
  "routed f = \<lparr>traversed_proxy = traversed_proxy f, fetched_type = fetched_type f,
     outcome = map_sum refusal_of id (outcome f)\<rparr>"

definition fetch_remote_routed ::
  "('w, 'm) outside_scheme \<Rightarrow> web_lib \<Rightarrow> string \<Rightarrow> (ip_addr \<Rightarrow> bool) \<Rightarrow> proxy_route option \<Rightarrow> url
     \<Rightarrow> 'w net \<Rightarrow> routed_fetch \<times> 'w net" where
  "fetch_remote_routed env lib accept policy route u s = (case route of
       None \<Rightarrow> (case fetch_remote_with env lib policy accept PROXY_UA u s of (res, s') \<Rightarrow>
         (\<lparr>traversed_proxy = False, fetched_type = None, outcome = res\<rparr>, s'))
     | Some r \<Rightarrow> (case fetch_via_proxy env lib r accept u s of (f, s') \<Rightarrow> (routed f, s')))"

section \<open>Counters\<close>

definition record_outcome ::
  "('w, 'm) outside_scheme \<Rightarrow> traffic_class \<Rightarrow> refusal + string \<Rightarrow> 'w net \<Rightarrow> 'w net" where
  "record_outcome env c res s = (let
     k = counters s c;
     k1 = (case res of
         Inr _ \<Rightarrow> k\<lparr>n_allowed := n_allowed k + 1\<rparr>
       | Inl (BadRequest _) \<Rightarrow> k\<lparr>n_refused := n_refused k + 1\<rparr>
       | Inl Blocked \<Rightarrow> k\<lparr>n_refused := n_refused k + 1\<rparr>
       | Inl _ \<Rightarrow> k\<lparr>n_failed := n_failed k + 1\<rparr>);
     us = word_of_nat (min (elapsed_us env (world s)) (2 ^ 64 - 1)) in
     s\<lparr>counters := (counters s)(c := k1\<lparr>n_total_us := n_total_us k1 + us\<rparr>)\<rparr>)"

definition counts :: "'w net \<Rightarrow> (traffic_class \<times> counter \<times> 64 word) list" where
  "counts s = map (\<lambda>c. (c, counters s c, n_total_us (counters s c) div 1000)) ALL_CLASSES"

section \<open>Sending by class\<close>

definition install :: "egress_plan \<Rightarrow> 'w net \<Rightarrow> 'w net" where
  "install p s = s\<lparr>installed := Some p\<rparr>"

text \<open>The checks of \<open>send_with\<close> before anything is sent.\<close>

definition send_checks :: "egress_plan \<Rightarrow> url \<Rightarrow> request \<Rightarrow> refusal + unit" where
  "send_checks p u r =
    rbind (case rq_api r of Some a \<Rightarrow> api_validate_target a u | None \<Rightarrow> Inr ()) (\<lambda>_.
    rbind (guard_bad (rq_class r \<in> {Push, PackageTracking, GeoipDatabase} \<and> u_scheme u \<noteq> ''https'')
      ''this traffic class requires HTTPS'') (\<lambda>_.
    guard_bad (rq_class r \<in> {Push, PackageTracking, Plugins, Oauth}
        \<and> (case selected_route p (rq_class r) (rq_domain r) of
             Some route \<Rightarrow> route_scheme route = Socks5h | None \<Rightarrow> False))
      ''this traffic class requires locally verified destination addresses''))"

definition timed_of :: "request \<Rightarrow> timed" where
  "timed_of r = map_option (\<lambda>l. (l, rq_report r)) (rq_timeouts r)"

definition send_routed ::
  "('w, 'm) outside_scheme \<Rightarrow> web_lib \<Rightarrow> egress_plan \<Rightarrow> proxy_route \<Rightarrow> url \<Rightarrow> request
     \<Rightarrow> 'w net \<Rightarrow> proxy_fetch \<times> 'w net" where
  "send_routed env lib p route u r = (let gate = plan_admits p (rq_class r); out = outgoing_of r in
     if timed_of r \<noteq> None
     then send_via_proxy_timed env lib (timed_of r) (if rq_plugin r \<noteq> None then Some gate else None) route out u
     else if rq_plugin r \<noteq> None then send_via_proxy_gated_with env lib None gate route out u
     else send_via_proxy env lib route out u)"

definition send_unchecked ::
  "('w, 'm) outside_scheme \<Rightarrow> web_lib \<Rightarrow> egress_plan \<Rightarrow> url \<Rightarrow> request \<Rightarrow> 'w net \<Rightarrow> routed_fetch \<times> 'w net" where
  "send_unchecked env lib p u r s =
    (case selected_route p (rq_class r) (rq_domain r) of
       Some route \<Rightarrow> (case send_routed env lib p route u r s of (f, s') \<Rightarrow> (routed f, s'))
     | None \<Rightarrow> (case send_direct env lib (plan_admits p (rq_class r)) (timed_of r) (outgoing_of r) u s of
         (Inl e, s') \<Rightarrow> (refused False e, s')
       | (Inr (b, ct), s') \<Rightarrow> (\<lparr>traversed_proxy = False, fetched_type = ct, outcome = Inr b\<rparr>, s')))"

definition send_with ::
  "('w, 'm) outside_scheme \<Rightarrow> web_lib \<Rightarrow> egress_plan \<Rightarrow> url \<Rightarrow> request \<Rightarrow> 'w net \<Rightarrow> routed_fetch \<times> 'w net" where
  "send_with env lib p u r s = (case (case send_checks p u r of
         Inl e \<Rightarrow> (refused False e, s)
       | Inr _ \<Rightarrow> send_unchecked env lib p u r s) of
     (f, s') \<Rightarrow> (f, record_outcome env (rq_class r) (outcome f) s'))"

definition send ::
  "('w, 'm) outside_scheme \<Rightarrow> web_lib \<Rightarrow> url \<Rightarrow> request \<Rightarrow> 'w net \<Rightarrow> routed_fetch \<times> 'w net" where
  "send env lib u r s = (case installed s of
       Some p \<Rightarrow> send_with env lib p u r s
     | None \<Rightarrow> let f = refused False (BadRequest ''egress configuration is not loaded'') in
         (f, record_outcome env (rq_class r) (outcome f) s))"

definition fetch_class ::
  "('w, 'm) outside_scheme \<Rightarrow> web_lib \<Rightarrow> traffic_class \<Rightarrow> string option \<Rightarrow> url \<Rightarrow> string
     \<Rightarrow> 'w net \<Rightarrow> routed_fetch \<times> 'w net" where
  "fetch_class env lib c domain u accept =
     send env lib u ((request_get c)\<lparr>rq_accept := accept, rq_domain := domain\<rparr>)"

section \<open>A pinned stream\<close>

definition connect_sieve_with ::
  "('w, 'm) outside_scheme \<Rightarrow> egress_plan \<Rightarrow> string option \<Rightarrow> string \<Rightarrow> 16 word \<Rightarrow> bool \<Rightarrow> bool \<Rightarrow> ('w, pipe) pio" where
  "connect_sieve_with env p domain host port allow_private encrypted = (let
     route = selected_route p SieveClass domain in
     if (case route of Some r \<Rightarrow> \<not> encrypted \<and> \<not> allow_plaintext r | None \<Rightarrow> False)
     then io_lift (Inl PlaintextRefused)
     else if (case route of Some r \<Rightarrow> route_scheme r = Socks5h | None \<Rightarrow> False)
     then io_lift (Inl (RouteInvalid ''remote DNS is unavailable for pinned mail transport''))
     else io_bind (hop_wait env None (\<lambda>s. case lookup_host env host port (world s) of (res, w) \<Rightarrow>
         (ok_or res (Origin Blocked), note_event (Looked host port) (s\<lparr>world := w\<rparr>)))) (\<lambda>addresses.
       case addresses of
         [] \<Rightarrow> io_lift (Inl (Origin Blocked))
       | a # _ \<Rightarrow>
           if \<not> list_all (\<lambda>a. operator_mail_ip_allowed (fst a) allow_private) addresses
           then io_lift (Inl (Origin Blocked))
           else case route of
               Some r \<Rightarrow> open_pinned_stream env r a
             | None \<Rightarrow> hop_wait env None (\<lambda>s. case dial env a (world s) of (res, w) \<Rightarrow>
                 (ok_or res (Origin Upstream), note_event (Dialled a) (s\<lparr>world := w\<rparr>)))))"

end
