(* ===== verification/Egress_Safe.thy ===== *)
theory Egress_Safe
  imports Egress_Proxy Egress_Networks
begin

text \<open>
  What one send does to the outside. \<open>adds P n s s'\<close>: from \<open>s\<close> to \<open>s'\<close> the code appended
  events that all satisfy \<open>P\<close>, at most \<open>n\<close> of them requests. The locale \<open>gated\<close> states what an
  address gate promises, and proves it of every request of the direct path once.
\<close>

section \<open>Appended events\<close>

fun is_request :: "event \<Rightarrow> bool" where
  "is_request (Sent c q) = True"
| "is_request (Tunnelled r tls q) = True"
| "is_request _ = False"

definition adds :: "(event \<Rightarrow> bool) \<Rightarrow> nat \<Rightarrow> 'w net \<Rightarrow> 'w net \<Rightarrow> bool" where
  "adds P n s s' \<longleftrightarrow> (\<exists>es. events s' = events s @ es \<and> list_all P es \<and> length (filter is_request es) \<le> n)"

named_theorems adds_intro \<open>what each operation appends\<close>

lemma adds_same: "events s' = events s \<Longrightarrow> adds P n s s'"
  by (auto simp: adds_def)

lemma adds_trans: "adds P m s s1 \<Longrightarrow> adds P n s1 s2 \<Longrightarrow> m + n \<le> k \<Longrightarrow> adds P k s s2"
  by (fastforce simp: adds_def)

lemma adds_mono: "adds P m s s' \<Longrightarrow> m \<le> n \<Longrightarrow> adds P n s s'"
  by (auto simp: adds_def)

lemma adds_note: "P e \<Longrightarrow> (if is_request e then 1 else 0) \<le> n \<Longrightarrow> events s1 = events s \<Longrightarrow>
    adds P n s (note_event e s1)"
  by (auto simp: adds_def note_event_def split: if_splits)

lemma adds_weaken: "adds P n s s' \<Longrightarrow> (\<And>e. P e \<Longrightarrow> Q e) \<Longrightarrow> adds Q n s s'"
  by (auto simp: adds_def list_all_iff)

lemma adds_bind:
  assumes "adds P m s (snd (f s))"
    and "\<And>x s1. f s = (Inr x, s1) \<Longrightarrow> adds P n s1 (snd (g x s1))"
    and "m + n \<le> k"
  shows "adds P k s (snd (io_bind f g s))"
proof (cases "f s")
  case (Pair r s1)
  show ?thesis
  proof (cases r)
    case (Inl e)
    then show ?thesis using assms(1,3) Pair by (auto simp: io_bind_def intro: adds_mono)
  next
    case (Inr x)
    then show ?thesis using assms(1,3) assms(2) [of x s1] Pair by (auto simp: io_bind_def intro: adds_trans)
  qed
qed

lemma adds_lift [adds_intro]: "adds P n s (snd (io_lift r s))"
  by (simp add: io_lift_def adds_same)

lemma events_report [simp]: "events (report_phase t ph s) = events s"
  by (simp add: report_phase_def split: option.split prod.split bool.split)

lemma events_fire [simp]: "events (snd (fire t ph s)) = events s"
  by (simp add: fire_def)

lemma events_expired [simp]: "events (snd (expired t ph s)) = events s"
  by (simp add: expired_def)

lemma events_await [simp]: "events (snd (await_point env t s)) = events s"
  by (simp add: await_point_def)

lemma events_capture [simp]:
  "events (record_head out st tag s) = events s"
  "events (record_cache_headers out lm cc s) = events s"
  "events (record_progress out k w s) = events s"
  by (simp_all add: record_head_def record_cache_headers_def record_progress_def)

section \<open>Reading a response\<close>

lemma read_capped_facts:
  "events (snd (read_capped out t limit sz buf cs s)) = events s"
  "read_capped out t limit sz buf cs s = (Inr b, s') \<Longrightarrow> length buf \<le> limit \<Longrightarrow> length b \<le> limit"
proof (induction out t limit sz buf cs s rule: read_capped.induct)
  case (2 out t limit sz buf c cs s)
  { case 1 show ?case using 2 by (cases c) (auto simp: Let_def fire_def) }
  { case 2 then show ?case using "2.IH" by (cases c) (auto simp: fire_def split: if_splits) }
qed auto

lemma read_frames_facts:
  "events (snd (read_frames out t sz buf cs s)) = events s"
  "read_frames out t sz buf cs s = (Inr b, s') \<Longrightarrow> length buf \<le> body_cap out \<Longrightarrow> length b \<le> body_cap out"
proof (induction out t sz buf cs s rule: read_frames.induct)
  case (2 out t sz buf c cs s)
  { case 1 show ?case using 2 by (cases c) (auto simp: expired_def) }
  { case 2 then show ?case using "2.IH" by (cases c) (auto simp: expired_def split: if_splits) }
qed auto

text \<open>A hop that answers with a body answers with one under the cap.\<close>

definition hop_small :: "outgoing \<Rightarrow> hop \<Rightarrow> bool" where
  "hop_small out h \<longleftrightarrow> (case h of HopBody b \<Rightarrow> length b \<le> body_cap out | HopRedirect _ \<Rightarrow> True)"

lemma take_body_events: "events (snd (take_body out t r s)) = events s"
  using read_capped_facts(1) [of out t "body_cap out" "r_content_length r" "[]" "r_chunks r"
      "record_progress out 0 (r_content_length r) s"]
  by (auto simp: take_body_def io_bind_def io_lift_def split: prod.split sum.split)

lemma take_body_small: "take_body out t r s = (Inr (h, ct), s') \<Longrightarrow> hop_small out h"
  by (auto simp: take_body_def io_bind_Inr io_lift_Inr hop_small_def split: if_splits
      dest!: read_capped_facts(2))

lemma take_response_events: "events (snd (take_response out t r s)) = events s"
  unfolding take_response_def Let_def by (auto simp: take_body_events split: option.split)

lemma take_response_small: "take_response out t r s = (Inr (h, ct), s') \<Longrightarrow> hop_small out h"
  unfolding take_response_def Let_def
  by (auto simp: hop_small_def [of _ "HopRedirect _"] split: option.splits if_splits dest: take_body_small)

lemma tunnel_response_events: "events (snd (tunnel_response out t r s)) = events s"
proof -
  have "events (snd (read_frames out t n [] cs (record_progress out 0 n (record_head out st tag s)))) = events s"
    for n cs st tag by (simp add: read_frames_facts(1))
  then show ?thesis unfolding tunnel_response_def Let_def
    by (auto simp: io_bind_def io_lift_def split: option.split prod.split sum.split) (metis snd_conv)+
qed

lemma tunnel_response_small: "tunnel_response out t r s = (Inr (h, ct), s') \<Longrightarrow> hop_small out h"
  unfolding tunnel_response_def Let_def
  by (auto simp: io_bind_Inr io_lift_Inr hop_small_def split: option.splits if_splits
      dest!: read_frames_facts(2))

section \<open>The direct path\<close>

text \<open>A request of the direct path goes to one address, without redirects or a proxy.\<close>

fun pinned_to :: "(ip_addr \<Rightarrow> 16 word \<Rightarrow> bool) \<Rightarrow> event \<Rightarrow> bool" where
  "pinned_to safe (Sent c q) \<longleftrightarrow> \<not> follow_redirects c \<and> \<not> use_proxy c
     \<and> (case pin c of Some (_, ip, port) \<Rightarrow> safe ip port | None \<Rightarrow> False)"
| "pinned_to safe (Looked h p) \<longleftrightarrow> True"
| "pinned_to safe _ \<longleftrightarrow> False"

lemma lookup_adds: "adds (pinned_to safe) 0 s (snd (lookup env t host port s))"
  by (auto simp: lookup_def lookup_host_def io_bind_def io_lift_def note_event_def await_point_def fire_def adds_def
      split: prod.splits sum.splits if_splits)

lemma resolve_adds: "adds (pinned_to safe) 0 s (snd (resolve_gated_policy env t gate every u s))"
  unfolding resolve_gated_policy_def
  by (intro adds_bind [where m = 0 and n = 0]; (auto simp: lookup_adds adds_lift adds_same io_lift_def Let_def
      split: option.split prod.split intro!: adds_bind [where m = 0 and n = 0]))

lemma lookup_port: "lookup env t host port s = (Inr xs, s') \<Longrightarrow> \<forall>a\<in>set xs. snd a = port"
  by (auto simp: lookup_def lookup_host_def io_bind_Inr io_lift_Inr ok_or_def
      split: prod.splits option.splits)

lemma resolve_gate:
  assumes "resolve_gated_policy env t gate every u s = (Inr tg, s')"
  shows "\<exists>host. gate host (snd (tg_addr tg)) (fst (tg_addr tg))"
proof -
  from assms obtain host port as s1 where
    r: "(case literal_ip host of Some ip \<Rightarrow> io_lift (Inr [(ip, port)]) | None \<Rightarrow> lookup env t host port) s = (Inr as, s1)"
    and f: "(if every \<and> list_ex (\<lambda>a. \<not> gate host port (fst a)) as then io_lift (Inl Blocked)
      else case find (\<lambda>a. gate host port (fst a)) as of
        None \<Rightarrow> io_lift (Inl Blocked)
      | Some a \<Rightarrow> io_lift (Inr \<lparr>tg_url = u, tg_host = host, tg_addr = a\<rparr>)) s1 = (Inr tg, s')"
    by (auto simp: resolve_gated_policy_def io_bind_Inr io_lift_Inr split: prod.splits)
  from r have as: "\<forall>a\<in>set as. snd a = port"
    by (auto simp: io_lift_Inr split: option.splits dest: lookup_port)
  from f obtain a where a: "find (\<lambda>a. gate host port (fst a)) as = Some a" "tg_addr tg = a"
    by (auto simp: io_lift_Inr split: if_splits option.splits)
  with as show ?thesis by (auto simp: find_Some_iff)
qed

lemma client_for_facts:
  assumes "client_for lib t tg out = Inr c"
  shows "\<not> follow_redirects c" "\<not> use_proxy c" "pin c = Some (tg_host tg, tg_addr tg)"
  using assms unfolding client_for_def
  by (auto simp: rbind_def harden_client_def Let_def split: sum.splits option.splits prod.splits)


lemma send_hop_adds:
  fixes s :: "'w net"
  assumes "safe (fst (tg_addr tg)) (snd (tg_addr tg))"
  shows "adds (pinned_to safe) 1 s (snd (send_hop_timed env lib t tg out s))"
    and "send_hop_timed env lib t tg out s = (Inr (h, ct), s') \<Longrightarrow> hop_small out h"
proof -
  let ?rest = "\<lambda>w. \<lambda>res (u :: unit) s2. (case res of
            Inl (SendFailure late connecting) \<Rightarrow>
              if late then (if t = None then (Inl Timeout, s2)
                else fire t (if connecting then PhaseConnect else PhaseTotal) s2)
              else (Inl Upstream, s2)
          | Inr r \<Rightarrow> take_response out t r s2)"
  have rest: "adds P 0 s2 (snd (?rest w res u s2))" for P w res u s2
    by (rule adds_same) (auto simp: take_response_events split: sum.split send_failure.split)
  have inner: "adds (pinned_to safe) 1 s1 (snd (case transmit env c rq (world s1) of (res, w) \<Rightarrow>
        let s' = note_event (Sent c rq) (s1\<lparr>world := w\<rparr>) in
        if t \<noteq> None \<and> headers_late env w then fire t PhaseHeaders s'
        else io_bind (await_point env t) (?rest w res) s'))"
    if c: "client_for lib t tg out = Inr c" for c rq and s1 :: "'w net"
  proof -
    obtain res w where tr: "transmit env c rq (world s1) = (res, w)" by fastforce
    have sent: "pinned_to safe (Sent c rq)"
      by (simp add: client_for_facts [OF c] assms split: prod.split) (metis assms fst_conv snd_conv)
    let ?s' = "note_event (Sent c rq) (s1\<lparr>world := w\<rparr>)"
    have n: "adds (pinned_to safe) 1 s1 ?s'" by (rule adds_note, rule sent) simp_all
    have "adds (pinned_to safe) 0 ?s' (snd (io_bind (await_point env t) (?rest w res) ?s'))"
      by (rule adds_bind [where m = 0 and n = 0]) (auto simp: adds_same rest)
    note answered = adds_trans [OF n this, of 1]
    have "adds (pinned_to safe) 0 ?s' (snd (fire t PhaseHeaders ?s' :: (refusal + hop \<times> string option) \<times> 'w net))"
      by (rule adds_same) simp
    note late = adds_trans [OF n this, of 1]
    show ?thesis unfolding tr using answered late by (simp add: Let_def del: not_None_eq)
  qed
  show "adds (pinned_to safe) 1 s (snd (send_hop_timed env lib t tg out s))"
    unfolding send_hop_timed_def
    by (rule adds_bind [where m = 0 and n = 1], rule adds_lift,
        rule adds_bind [where m = 0 and n = 1], rule adds_lift,
        rule adds_bind [where m = 0 and n = 1], rule adds_lift, rule inner)
      (auto simp: io_lift_Inr)
  show "hop_small out h" if "send_hop_timed env lib t tg out s = (Inr (h, ct), s')"
  proof -
    from that obtain c rq where "(case transmit env c rq (world s) of (res, w) \<Rightarrow>
        let s' = note_event (Sent c rq) (s\<lparr>world := w\<rparr>) in
        if t \<noteq> None \<and> headers_late env w then fire t PhaseHeaders s'
        else io_bind (await_point env t) (?rest w res) s') = (Inr (h, ct), s')"
      by (simp only: send_hop_timed_def io_bind_Inr io_lift_Inr) blast
    moreover obtain res w where "transmit env c rq (world s) = (res, w)" by fastforce
    ultimately obtain s2 where "?rest w res () s2 = (Inr (h, ct), s')"
      by (auto simp: Let_def io_bind_Inr fire_def split: if_splits)
    then show ?thesis
      by (auto simp: fire_def split: sum.splits send_failure.splits if_splits dest: take_response_small)
  qed
qed


text \<open>
  A gate that admits only safe addresses: then every request of the redirect loop goes to
  a safe one, and there are at most as many requests as hops.
\<close>

locale gated =
  fixes gate :: gate and safe :: "ip_addr \<Rightarrow> 16 word \<Rightarrow> bool"
  assumes gate_safe: "gate host port ip \<Longrightarrow> safe ip port"
begin

lemma hop_adds:
  fixes s :: "'w net"
  assumes "resolve_gated_policy env t gate every u s0 = (Inr tg, s)"
  shows "adds (pinned_to safe) 1 s (snd (send_hop_timed env lib t tg out s))"
proof -
  from resolve_gate [OF assms] have "safe (fst (tg_addr tg)) (snd (tg_addr tg))" by (auto intro: gate_safe)
  then show ?thesis by (rule send_hop_adds(1))
qed

lemma hops_adds:
  fixes s :: "'w net"
  shows "adds (pinned_to safe) n s (snd (direct_hops env lib gate t out first n u s))"
proof (induction n arbitrary: u s)
  case (Suc n)
  show ?case
    unfolding direct_hops.simps
    by (rule adds_bind [where m = 0 and n = "Suc n"], rule resolve_adds,
        rule adds_bind [where m = 1 and n = n], erule hop_adds)
      (auto simp: adds_lift Suc.IH split: prod.split hop.split intro!: adds_bind [where m = 0 and n = n])
qed (simp add: adds_lift)

lemma direct_adds:
  fixes s :: "'w net"
  shows "adds (pinned_to safe) (hop_count t) s (snd (send_direct env lib gate t out u s))"
  unfolding send_direct_def by (rule hops_adds)

end

lemma direct_hops_small:
  "direct_hops env lib gate t out first n u s = (Inr (b, ct), s') \<Longrightarrow> length b \<le> body_cap out"
proof (induction n arbitrary: u s)
  case (Suc n)
  then obtain tg s1 h ct' s2 where h: "send_hop_timed env lib t tg out s1 = (Inr (h, ct'), s2)"
    and r: "(case h of HopBody b \<Rightarrow> io_lift (Inr (b, ct'))
    | HopRedirect loc \<Rightarrow>
        if keeps_credentials out then io_lift (Inl Upstream)
        else io_bind (io_lift (ok_or (join_url lib u loc) Upstream)) (\<lambda>nxt.
          if \<not> redirect_permitted out first nxt
          then io_lift (Inl (BadRequest ''redirect to an unlisted host refused''))
          else direct_hops env lib gate t out first n nxt)) s2 = (Inr (b, ct), s')"
    by (auto simp: io_bind_Inr)
  show ?case
  proof (cases h)
    case (HopBody x)
    then show ?thesis using r send_hop_adds(2) [OF _ h] by (auto simp: io_lift_Inr hop_small_def)
  next
    case (HopRedirect loc)
    then show ?thesis using r Suc.IH by (auto simp: io_lift_Inr io_bind_Inr split: if_splits)
  qed
qed (simp add: io_lift_def)

end
