(* ===== verification/Egress_Safe_Proxy.thy ===== *)
theory Egress_Safe_Proxy
  imports Egress_Safe
begin

text \<open>
  What one proxied send does to the outside: whom it asks the proxy for, what it sends
  inside a tunnel, and that the reported \<open>traversed_proxy\<close> is true exactly when a proxy
  accepted a tunnel. The locale \<open>gated\<close> of the direct path is continued here.
\<close>

section \<open>Events of a route\<close>

text \<open>
  An event of a send over one route: the proxy is asked for an admissible destination only,
  with its credentials inside TLS on a TLS route, and a request in a tunnel that is not
  TLS to the origin needs the route's permission.
\<close>

fun through :: "proxy_route \<Rightarrow> (tunnel_dest \<Rightarrow> bool) \<Rightarrow> event \<Rightarrow> bool" where
  "through route ok (Negotiated r tls d w acc) \<longleftrightarrow>
     r = route \<and> (tls \<longleftrightarrow> route_scheme route = HttpsConnect) \<and> ok d"
| "through route ok (Tunnelled r tls q) \<longleftrightarrow> r = route \<and> (tls \<or> allow_plaintext route)"
| "through route ok (Sent c q) \<longleftrightarrow> False"
| "through route ok (Looked h p) \<longleftrightarrow> True"
| "through route ok (Dialled a) \<longleftrightarrow> snd a = route_port route"

fun accepted :: "event \<Rightarrow> bool" where
  "accepted (Negotiated r tls d w acc) = acc"
| "accepted _ = False"

text \<open>As \<open>adds\<close>, and a tunnel was accepted among the new events exactly if \<open>tr\<close>.\<close>

definition goes :: "(event \<Rightarrow> bool) \<Rightarrow> nat \<Rightarrow> bool \<Rightarrow> 'w net \<Rightarrow> 'w net \<Rightarrow> bool" where
  "goes P n tr s s' \<longleftrightarrow> (\<exists>es. events s' = events s @ es \<and> list_all P es
     \<and> length (filter is_request es) \<le> n \<and> (tr \<longleftrightarrow> list_ex accepted es))"

lemma goes_trans: "goes P m a s s1 \<Longrightarrow> goes P n b s1 s2 \<Longrightarrow> m + n \<le> k \<Longrightarrow> c = (a \<or> b) \<Longrightarrow> goes P k c s s2"
  unfolding goes_def
  by (elim exE conjE, rule_tac x = "es @ esa" in exI) auto

lemma goes_mono: "goes P m a s s' \<Longrightarrow> m \<le> n \<Longrightarrow> goes P n a s s'"
  by (auto simp: goes_def)

lemma goes_quiet:
  assumes "adds (\<lambda>e. P e \<and> \<not> accepted e) n s s'"
  shows "goes P n False s s'"
  using assms by (auto simp: adds_def goes_def list_all_iff list_ex_iff)

lemma goes_same: "goes P n False s s"
  by (simp add: goes_quiet adds_same)

lemma waits:
  "connect_wait env t m s = (Inr x, s1) \<longleftrightarrow> m s = (Inr x, s1)"
  "hop_wait env t m s = (Inr x, s1) \<longleftrightarrow> m s = (Inr x, s1)"
  "events (snd (connect_wait env t m s)) = events (snd (m s))"
  "events (snd (hop_wait env t m s)) = events (snd (m s))"
  by (auto simp: connect_wait_def hop_wait_def expired_def split: prod.split sum.split)

lemma adds_events: "events s1 = events s2 \<Longrightarrow> adds P n s s1 = adds P n s s2"
  by (simp add: adds_def)

lemma adds_waits: "adds P n s (snd (connect_wait env t m s)) = adds P n s (snd (m s))"
  "adds P n s (snd (hop_wait env t m s)) = adds P n s (snd (m s))"
  by (rule adds_events, rule waits)+

abbreviation quiet :: "proxy_route \<Rightarrow> (tunnel_dest \<Rightarrow> bool) \<Rightarrow> event \<Rightarrow> bool" where
  "quiet route ok e \<equiv> through route ok e \<and> \<not> accepted e"

lemma connect_proxy_adds: "adds (quiet r ok) 0 s (snd (connect_proxy env t r s))"
  unfolding connect_proxy_def adds_waits
  by (auto simp: lookup_host_def note_event_def Let_def adds_def split: prod.splits option.splits list.splits)

lemma tls_to_proxy_adds: "adds P 0 s (snd (tls_to_proxy env t r p s))"
  by (auto simp: tls_to_proxy_def adds_waits adds_lift split: prod.splits sum.splits intro: adds_same)

lemma tls_to_proxy_flag:
  "tls_to_proxy env t r p s = (Inr c, s1) \<Longrightarrow> fst c \<longleftrightarrow> route_scheme r = HttpsConnect"
  by (auto simp: tls_to_proxy_def waits io_lift_Inr split: prod.splits sum.splits if_splits)

lemma negotiate_goes:
  assumes "ok dst" "fst c \<longleftrightarrow> route_scheme r = HttpsConnect"
  shows "goes (through r ok) 0 (\<not> isl (fst (negotiate env t r dst c s))) s (snd (negotiate env t r dst c s))"
proof (cases "handshake_for (route_scheme r) dst (credentials r)")
  case None
  then show ?thesis by (simp add: negotiate_def io_lift_def goes_same)
next
  case (Some h)
  obtain res p where h: "h ((snd c)\<lparr>outbox := []\<rparr>) = (res, p)" by fastforce
  let ?s1 = "note_event (Negotiated r (fst c) dst (outbox p) (\<not> isl res)) s"
  have "events (snd (negotiate env t r dst c s)) = events ?s1"
    by (simp add: negotiate_def Some waits h)
  moreover have "isl (fst (negotiate env t r dst c s)) \<longleftrightarrow> isl res"
    by (cases res) (auto simp: negotiate_def Some h connect_wait_def expired_def)
  ultimately show ?thesis using assms by (auto simp: goes_def note_event_def)
qed

lemma open_tunnel_goes:
  assumes "ok dst"
  shows "goes (through r ok) 0 (\<not> isl (fst (open_tunnel env t r dst s))) s (snd (open_tunnel env t r dst s))"
proof -
  obtain a s1 where a: "connect_proxy env t r s = (a, s1)" by fastforce
  have q1: "goes (through r ok) 0 False s s1"
    using connect_proxy_adds [of r ok s env t] a by (auto intro: goes_quiet)
  show ?thesis
  proof (cases a)
    case (Inl e)
    then show ?thesis using a q1 by (simp add: open_tunnel_def io_bind_def)
  next
    case (Inr p)
    obtain b s2 where b: "tls_to_proxy env t r p s1 = (b, s2)" by fastforce
    have "goes (through r ok) 0 False s1 s2"
      using tls_to_proxy_adds [of _ s1 env t r p] b by (auto intro: goes_quiet)
    with q1 have q2: "goes (through r ok) 0 False s s2" by (rule goes_trans) simp_all
    show ?thesis
    proof (cases b)
      case (Inl e)
      then show ?thesis using a b Inr q2 by (simp add: open_tunnel_def io_bind_def)
    next
      case c: (Inr c)
      then have "fst c \<longleftrightarrow> route_scheme r = HttpsConnect" using b tls_to_proxy_flag by blast
      with assms have "goes (through r ok) 0 (\<not> isl (fst (negotiate env t r dst c s2))) s2 (snd (negotiate env t r dst c s2))"
        by (intro negotiate_goes)
      with q2 show ?thesis
        using a b Inr c by (simp add: open_tunnel_def io_bind_def goes_trans [of _ 0 False _ _ 0])
    qed
  qed
qed


lemma wrap_tls_adds: "adds P 0 s (snd (wrap_tls_with_roots env lib t p host roots s))"
  by (auto simp: wrap_tls_with_roots_def adds_waits adds_lift split: prod.splits sum.splits intro: adds_same)

lemma wrap_tls_flag: "wrap_tls_with_roots env lib t p host roots s = (Inr c, s1) \<Longrightarrow> fst c"
  by (auto simp: wrap_tls_with_roots_def waits io_lift_Inr split: prod.splits sum.splits if_splits)

lemma wrap_origin_adds: "adds P 0 s (snd (wrap_origin env lib t out u host p s))"
  unfolding wrap_origin_def
  by (auto simp: adds_lift wrap_tls_adds split: option.split intro!: adds_bind [where m = 0 and n = 0])

lemma wrap_origin_flag:
  "wrap_origin env lib t out u host p s = (Inr c, s1) \<Longrightarrow> fst c \<longleftrightarrow> u_scheme u = ''https''"
  unfolding wrap_origin_def
  by (auto simp: io_bind_Inr io_lift_Inr split: option.splits if_splits dest: wrap_tls_flag)

lemma send_in_tunnel_adds:
  assumes "tls \<or> allow_plaintext route"
  shows "adds (quiet route ok) 1 s (snd (send_in_tunnel env route t tls q s))"
  using assms unfolding send_in_tunnel_def
  by (auto simp: Let_def adds_same expired_def adds_def note_event_def split: option.split prod.split sum.split)

lemma start_http_adds: "adds P 0 s (snd (start_http env p s))"
  by (auto simp: start_http_def split: prod.split sum.split intro: adds_same)

lemma exchange_adds:
  assumes "fst c \<or> allow_plaintext route"
  shows "adds (quiet route ok) 1 s (snd (exchange_typed env lib route t u out c s))"
  unfolding exchange_typed_def
  by (rule adds_bind [where m = 0 and n = 1], simp only: adds_waits, rule start_http_adds,
      rule adds_bind [where m = 0 and n = 1], rule adds_lift,
      rule adds_bind [where m = 1 and n = 0], rule send_in_tunnel_adds [OF assms])
    (auto intro: adds_same tunnel_response_events)

lemma exchange_small: "exchange_typed env lib route t u out c s = (Inr (h, ct), s') \<Longrightarrow> hop_small out h"
  by (auto simp: exchange_typed_def io_bind_Inr dest: tunnel_response_small)

lemma hop_with_facts:
  assumes "ok dst"
  shows "goes (through route ok) 1 (fst (hop_with env lib t route dst u host out s)) s
      (snd (snd (hop_with env lib t route dst u host out s)))"
    and "hop_with env lib t route dst u host out s = (v, Inr (h, ct), s') \<Longrightarrow> hop_small out h"
proof -
  obtain r s1 where ot: "open_tunnel env t route dst s = (r, s1)" by fastforce
  let ?g = "u_scheme u \<noteq> ''https'' \<and> \<not> allow_plaintext route"
  have o: "goes (through route ok) 1 (\<not> isl r) s s1"
    using open_tunnel_goes [of ok dst route env t s] assms ot by (auto intro: goes_mono)
  have rest: "goes (through route ok) 1 False s1 (snd (io_bind (wrap_origin env lib t out u host p) (\<lambda>q.
            exchange_typed env lib route t u out q) s1))" if "\<not> ?g" for p
    by (rule goes_quiet, rule adds_bind [where m = 0 and n = 1], rule wrap_origin_adds, rule exchange_adds)
      (use that in \<open>auto dest: wrap_origin_flag\<close>)
  show "goes (through route ok) 1 (fst (hop_with env lib t route dst u host out s)) s
      (snd (snd (hop_with env lib t route dst u host out s)))"
  proof (cases r)
    case (Inl e)
    then show ?thesis using o by (auto simp: hop_with_def ot goes_same split: option.split sum.split)
  next
    case (Inr p)
    have "goes (through route ok) 0 True s s1"
      using open_tunnel_goes [of ok dst route env t s] assms ot Inr by simp
    from goes_trans [OF this rest, of 1 True] Inr show ?thesis
      by (auto simp: hop_with_def ot goes_same split: option.split sum.split)
  qed
  show "hop_small out h" if "hop_with env lib t route dst u host out s = (v, Inr (h, ct), s')"
    using that by (auto simp: hop_with_def io_bind_Inr split: option.splits sum.splits if_splits prod.splits
        dest: exchange_small)
qed

text \<open>What a proxy may be asked for: a safe address, or on a remote-DNS route a public name.\<close>

definition public_name :: "string \<Rightarrow> bool" where
  "public_name n \<longleftrightarrow> CHR ''.'' \<in> set n \<and> length n \<le> 255 \<and> parse_ip n = None \<and> \<not> denied n"

fun tunnel_ok :: "proxy_route \<Rightarrow> (ip_addr \<Rightarrow> 16 word \<Rightarrow> bool) \<Rightarrow> tunnel_dest \<Rightarrow> bool" where
  "tunnel_ok route safe (Addr a) \<longleftrightarrow> route_scheme route \<noteq> Socks5h \<and> safe (fst a) (snd a)"
| "tunnel_ok route safe (Remote (RemoteAddr a)) \<longleftrightarrow> route_scheme route = Socks5h \<and> ip_allowed (fst a)"
| "tunnel_ok route safe (Remote (RemoteName n q)) \<longleftrightarrow> route_scheme route = Socks5h \<and> public_name n"

lemma remote_name_public: "remote_name h = Inr n \<Longrightarrow> public_name n"
proof -
  assume a: "remote_name h = Inr n"
  have "\<not> c \<and> x = y" if "(if c then Inl Blocked else Inr x) = (Inr y :: refusal + string)" for c x y
    using that by (simp split: if_splits)
  from this [OF a [unfolded remote_name_def Let_def]] show "public_name n"
    unfolding public_name_def by (metis leI)
qed

lemma remote_destination_ok:
  "remote_destination u = Inr (d, host) \<Longrightarrow> route_scheme route = Socks5h \<Longrightarrow> tunnel_ok route safe (Remote d)"
  by (auto simp: remote_destination_def rbind_def split: sum.splits option.splits if_splits prod.splits
      dest: remote_name_public)

context gated
begin

lemma resolve_quiet: "goes (through route ok) 0 False s (snd (resolve_gated_policy env t gate' every u s))"
proof (rule goes_quiet, rule adds_weaken [OF resolve_adds [of "\<lambda>_ _. False"]])
  show "quiet route ok e" if "pinned_to (\<lambda>_ _. False) e" for e
    using that by (cases e) (auto split: option.splits)
qed

lemma gated_hop_facts:
  shows "goes (through route (tunnel_ok route safe)) 1
      (fst (tunnel_send_hop_gated env lib t gate route tg out s)) s
      (snd (snd (tunnel_send_hop_gated env lib t gate route tg out s)))"
    and "tunnel_send_hop_gated env lib t gate route tg out s = (v, Inr (h, ct), s') \<Longrightarrow> hop_small out h"
proof -
  have ok: "tunnel_ok route safe (Addr (tg_addr tg))"
    if "gate (tg_host tg) (snd (tg_addr tg)) (fst (tg_addr tg))" "route_scheme route \<noteq> Socks5h"
    using that by (auto intro: gate_safe)
  show "goes (through route (tunnel_ok route safe)) 1
      (fst (tunnel_send_hop_gated env lib t gate route tg out s)) s
      (snd (snd (tunnel_send_hop_gated env lib t gate route tg out s)))"
    unfolding tunnel_send_hop_gated_def
    by (auto simp: goes_same intro!: hop_with_facts(1) [where ok = "tunnel_ok route safe", OF ok, unfolded One_nat_def])
  show "hop_small out h" if "tunnel_send_hop_gated env lib t gate route tg out s = (v, Inr (h, ct), s')"
    using that hop_with_facts(2) [where ok = "\<lambda>_. True"] unfolding tunnel_send_hop_gated_def by (auto split: if_splits)
qed

lemma proxied_hop_facts:
  shows "goes (through route (tunnel_ok route safe)) 1
      (fst (proxied_hop env lib t gate route out u s)) s (snd (snd (proxied_hop env lib t gate route out u s)))"
    and "proxied_hop env lib t gate route out u s = (v, Inr (h, ct), s') \<Longrightarrow> hop_small out h"
proof -
  obtain r s1 where r: "resolve_gated_policy env None gate (o_plugin out \<noteq> None) u s = (r, s1)" by fastforce
  have q: "goes (through route ok) 0 False s s1" for ok
    using resolve_quiet [of route ok s env None gate "o_plugin out \<noteq> None" u] r by simp
  show "goes (through route (tunnel_ok route safe)) 1
      (fst (proxied_hop env lib t gate route out u s)) s (snd (snd (proxied_hop env lib t gate route out u s)))"
  proof (cases "route_scheme route = Socks5h")
    case True
    show ?thesis using hop_with_facts(1) [where ok = "tunnel_ok route safe", OF remote_destination_ok [OF _ True]]
      by (auto simp: proxied_hop_def remote_dns_hop_def True goes_same split: sum.split)
  next
    case False
    show ?thesis
      using r False by (auto simp: proxied_hop_def goes_mono [OF q] split: sum.split
          intro: goes_trans [OF q gated_hop_facts(1)])
  qed
  show "hop_small out h" if "proxied_hop env lib t gate route out u s = (v, Inr (h, ct), s')"
    using that gated_hop_facts(2) hop_with_facts(2) [where ok = "\<lambda>_. True"]
    by (auto simp: proxied_hop_def remote_dns_hop_def split: if_splits sum.splits prod.splits)
qed

lemma proxy_hops_facts:
  "\<exists>v. goes (through route (tunnel_ok route safe)) n v s (snd (proxy_hops env lib t gate route out first n tr u s))
     \<and> traversed_proxy (fst (proxy_hops env lib t gate route out first n tr u s)) = (tr \<or> v)
     \<and> (case outcome (fst (proxy_hops env lib t gate route out first n tr u s)) of
          Inr b \<Rightarrow> length b \<le> body_cap out | Inl _ \<Rightarrow> True)"
proof (induction n arbitrary: tr u s)
  case 0
  show ?case by (rule exI [of _ False]) (simp add: goes_same refused_def)
next
  case (Suc n)
  obtain via res s1 where h: "proxied_hop env lib t gate route out u s = (via, res, s1)"
    by (metis prod_cases3)
  have g: "goes (through route (tunnel_ok route safe)) (Suc n) via s s1"
    and g1: "goes (through route (tunnel_ok route safe)) 1 via s s1"
    using proxied_hop_facts(1) [of route env lib t out u s] h by (auto intro: goes_mono)
  have small: "hop_small out k" if "res = Inr (k, ct)" for k ct
    using proxied_hop_facts(2) h that by blast
  show ?case
  proof (cases "\<exists>loc ct nxt. res = Inr (HopRedirect loc, ct) \<and> \<not> keeps_credentials out
      \<and> join_url lib u loc = Some nxt \<and> redirect_permitted out first nxt")
    case True
    then obtain nxt where nxt: "proxy_hops env lib t gate route out first (Suc n) tr u s
        = proxy_hops env lib t gate route out first n (tr \<or> via) nxt s1" by (auto simp: h Let_def)
    obtain v where "goes (through route (tunnel_ok route safe)) n v s1
        (snd (proxy_hops env lib t gate route out first n (tr \<or> via) nxt s1))"
      and v: "traversed_proxy (fst (proxy_hops env lib t gate route out first n (tr \<or> via) nxt s1)) = ((tr \<or> via) \<or> v)"
        "case outcome (fst (proxy_hops env lib t gate route out first n (tr \<or> via) nxt s1)) of
          Inr b \<Rightarrow> length b \<le> body_cap out | Inl _ \<Rightarrow> True"
      using Suc.IH by blast
    then have "goes (through route (tunnel_ok route safe)) (Suc n) (via \<or> v) s
        (snd (proxy_hops env lib t gate route out first n (tr \<or> via) nxt s1))"
      by (intro goes_trans [OF g1, of n]) simp_all
    with v show ?thesis unfolding nxt by (intro exI [of _ "via \<or> v"]) simp
  next
    case False
    then have "snd (proxy_hops env lib t gate route out first (Suc n) tr u s) = s1
      \<and> traversed_proxy (fst (proxy_hops env lib t gate route out first (Suc n) tr u s)) = (tr \<or> via)
      \<and> (case outcome (fst (proxy_hops env lib t gate route out first (Suc n) tr u s)) of
          Inr b \<Rightarrow> length b \<le> body_cap out | Inl _ \<Rightarrow> True)"
      using small by (auto simp: h Let_def refused_def hop_small_def split: sum.split hop.split option.split)
    with g show ?thesis by (intro exI [of _ via]) simp
  qed
qed

end

section \<open>A whole fetch\<close>

text \<open>What a fetch of either path appends, reports and returns.\<close>

definition fetch_ok :: "(event \<Rightarrow> bool) \<Rightarrow> nat \<Rightarrow> nat \<Rightarrow> ('e + string) fetched \<times> 'w net \<Rightarrow> 'w net \<Rightarrow> bool" where
  "fetch_ok P n cap res s \<longleftrightarrow> goes P n (traversed_proxy (fst res)) s (snd res)
     \<and> (case outcome (fst res) of Inr b \<Rightarrow> length b \<le> cap | Inl _ \<Rightarrow> True)"

lemma refused_ok: "fetch_ok P n cap (refused False e, s) s"
  by (simp add: fetch_ok_def refused_def goes_same)

context gated
begin

lemma via_proxy_ok:
  "fetch_ok (through route (tunnel_ok route safe)) (hop_count t) (body_cap out)
     (send_via_proxy_gated_with env lib t gate route out u s) s"
proof -
  have "fetch_ok (through route (tunnel_ok route safe)) (hop_count t) (body_cap out)
     (proxy_hops env lib t gate route out u (hop_count t) False u s) s"
    using proxy_hops_facts [of route "hop_count t" s env lib t out u False u] by (auto simp: fetch_ok_def)
  then show ?thesis
    by (auto simp: send_via_proxy_gated_with_def refused_ok simp del: not_None_eq split: sum.split)
qed

lemma direct_ok:
  "fetch_ok (pinned_to safe) (hop_count t) (body_cap out)
     (case send_direct env lib gate t out u s of
       (Inl e, s') \<Rightarrow> (refused False e, s')
     | (Inr (b, ct), s') \<Rightarrow> (\<lparr>traversed_proxy = False, fetched_type = ct, outcome = Inr b\<rparr>, s')) s"
proof -
  obtain res s' where d: "send_direct env lib gate t out u s = (res, s')" by fastforce
  have "adds (\<lambda>e. pinned_to safe e \<and> \<not> accepted e) (hop_count t) s s'"
  proof (rule adds_weaken)
    show "adds (pinned_to safe) (hop_count t) s s'" using direct_adds [of t s env lib out u] d by simp
    show "pinned_to safe e \<and> \<not> accepted e" if "pinned_to safe e" for e using that by (cases e) auto
  qed
  then have "goes (pinned_to safe) (hop_count t) False s s'" by (rule goes_quiet)
  moreover have "length b \<le> body_cap out" if "res = Inr (b, ct)" for b ct
    using direct_hops_small d that unfolding send_direct_def by blast
  ultimately show ?thesis by (auto simp: d fetch_ok_def refused_def split: sum.split)
qed

end

end
