(* ===== verification/Rust_Net_Text.thy ===== *)
theory Rust_Net_Text
  imports Rust_Net
begin

text \<open>
  Reading back printed addresses: \<open>parse_ip (show_ip a) = Some a\<close>, with what the readers do
  on text that goes on after an address.
\<close>

unbundle bit_operations_syntax

section \<open>Numbers\<close>

definition stops :: "nat \<Rightarrow> string \<Rightarrow> bool" where
  "stops radix t \<longleftrightarrow> t = [] \<or> to_digit radix (hd t) = None"

lemma stops_simps [simp]: "stops r []" "stops r (b # t) \<longleftrightarrow> to_digit r b = None"
  by (simp_all add: stops_def)

lemma takeWhile_stop:
  assumes "list_all (\<lambda>b. to_digit r b \<noteq> None) ds" "stops r t"
  shows "takeWhile (\<lambda>b. to_digit r b \<noteq> None) (ds @ t) = ds"
  using assms by (cases t) (simp_all add: takeWhile_append list_all_iff stops_def)

lemma read_number_append:
  assumes "list_all (\<lambda>b. to_digit r b \<noteq> None) ds" "stops r t" "ds \<noteq> []" "length ds \<le> m"
    "digits_value r ds \<le> bound" "allow \<or> hd ds \<noteq> CHR ''0'' \<or> length ds = 1"
  shows "read_number r m allow bound (ds @ t) = Some (digits_value r ds, t)"
  using assms by (auto simp: read_number_def takeWhile_stop Let_def hd_append simp del: not_None_eq)

lemma digits_value_snoc: "digits_value r (s @ [b]) = digits_value r s * r + (case to_digit r b of Some d \<Rightarrow> d | None \<Rightarrow> 0)"
  by (simp add: digits_value_def)

lemma digits_value_Nil [simp]: "digits_value r [] = 0"
  by (simp add: digits_value_def)

lemma to_digit_dec [simp]: "d < 10 \<Longrightarrow> 10 \<le> r \<Longrightarrow> to_digit r (digit_char d) = Some d"
  by (simp add: to_digit_def)

lemma to_digit_hex [simp]: "d < 16 \<Longrightarrow> to_digit 16 (hex_char d) = Some d"
  by (auto simp: to_digit_def hex_char_def is_digit_def is_lower_def of_char_of)

lemma dec_str_value: "10 \<le> r \<Longrightarrow> list_all (\<lambda>b. to_digit r b \<noteq> None) (dec_str n)"
proof (induction n rule: dec_str.induct)
  case (1 n)
  then show ?case by (subst dec_str.simps) simp
qed

lemma digits_value_dec: "digits_value 10 (dec_str n) = n"
proof (induction n rule: dec_str.induct)
  case (1 n)
  show ?case
    using 1 by (subst dec_str.simps) (auto simp: digits_value_snoc digits_value_snoc [of _ "[]", simplified])
qed

lemma hex_str_value: "list_all (\<lambda>b. to_digit 16 b \<noteq> None) (hex_str n)"
proof (induction n rule: hex_str.induct)
  case (1 n)
  then show ?case by (subst hex_str.simps) simp
qed

lemma digits_value_hex: "digits_value 16 (hex_str n) = n"
proof (induction n rule: hex_str.induct)
  case (1 n)
  show ?case
    using 1 by (subst hex_str.simps) (auto simp: digits_value_snoc digits_value_snoc [of _ "[]", simplified])
qed

lemma hex_str_nonempty [simp]: "hex_str n \<noteq> []"
  by (subst hex_str.simps) simp

lemma dec_str_hd: "hd (dec_str n) = CHR ''0'' \<Longrightarrow> n = 0"
proof (induction n rule: dec_str.induct)
  case (1 n)
  have z: "digit_char d = CHR ''0'' \<longleftrightarrow> d = 0" if "d < 10" for d
  proof -
    have "digit_char d = CHR ''0'' \<longleftrightarrow> byte (digit_char d) = byte (CHR ''0'')" by (simp only: of_char_eq_iff)
    also have "\<dots> \<longleftrightarrow> d = 0" using digit_char_byte [OF that] by simp
    finally show ?thesis .
  qed
  show ?case
  proof (cases "n < 10")
    case True
    then show ?thesis using 1(2) z by (simp add: dec_str.simps [of n])
  next
    case False
    then have "n div 10 = 0" using 1 by (simp add: dec_str.simps [of n])
    then show ?thesis using False by simp
  qed
qed

lemma dec_str_length: "n < 10 ^ k \<Longrightarrow> 0 < k \<Longrightarrow> length (dec_str n) \<le> k"
proof (induction k arbitrary: n)
  case (Suc k)
  show ?case
  proof (cases "n < 10")
    case False
    with Suc.prems have "n div 10 < 10 ^ k" "0 < k" by (auto intro: less_mult_imp_div_less gr0I)
    then show ?thesis using Suc.IH False by (simp add: dec_str.simps [of n])
  qed (simp add: dec_str.simps [of n])
qed simp

lemma hex_str_length: "n < 16 ^ k \<Longrightarrow> 0 < k \<Longrightarrow> length (hex_str n) \<le> k"
proof (induction k arbitrary: n)
  case (Suc k)
  show ?case
  proof (cases "n < 16")
    case False
    with Suc.prems have "n div 16 < 16 ^ k" "0 < k" by (auto intro: less_mult_imp_div_less gr0I)
    then show ?thesis using Suc.IH False by (simp add: hex_str.simps [of n])
  qed (simp add: hex_str.simps [of n])
qed simp

lemma read_dec:
  assumes "n < 256" "stops 10 t"
  shows "read_number 10 3 False 255 (dec_str n @ t) = Some (n, t)"
proof -
  have "hd (dec_str n) \<noteq> CHR ''0'' \<or> length (dec_str n) = 1"
    using dec_str_hd [of n] by (cases "n = 0") (auto simp: dec_str.simps [of 0])
  then show ?thesis
    using read_number_append [OF dec_str_value [of 10 n] assms(2), of 3 255 False]
      dec_str_length [of n 3] assms(1) by (simp add: digits_value_dec)
qed

lemma read_hex:
  assumes "n < 65536" "stops 16 t"
  shows "read_number 16 4 True 65535 (hex_str n @ t) = Some (n, t)"
  using read_number_append [OF hex_str_value [of n] assms(2), of 4 65535 True]
    hex_str_length [of n 4] assms(1) by (simp add: digits_value_hex)

section \<open>Dotted addresses\<close>

lemma to_digit_punct [simp]:
  "to_digit 10 (CHR ''.'') = None" "to_digit 10 (CHR '':'') = None" "to_digit 16 (CHR '':'') = None"
  "to_digit 16 (CHR ''.'') = None" "to_digit 10 (CHR '']'') = None" "to_digit 16 (CHR '']'') = None"
  "to_digit 10 (CHR ''/'') = None" "to_digit 16 (CHR ''/'') = None"
  by (simp_all add: to_digit_def is_digit_def is_lower_def is_upper_def)

lemma read_number_none: "stops r s \<Longrightarrow> read_number r m allow bound s = None"
  by (cases s) (simp_all add: read_number_def stops_def)

lemma unat_octet_less: "unat (b :: 8 word) < 256"
  using unsigned_less [of b, where ?'a = nat] by simp

lemma unat_segment_less: "unat (b :: 16 word) < 65536"
  using unsigned_less [of b, where ?'a = nat] by simp

lemma read_octets_first:
  assumes "stops 10 t"
  shows "read_octets 0 (Suc n) (dec_str (unat b) @ t) =
    (case read_octets 1 n t of None \<Rightarrow> None | Some (bs, u) \<Rightarrow> Some (b # bs, u))"
  using read_dec [OF unat_octet_less [of b] assms] by (simp add: read_separator_def split: option.split)

lemma read_octets_next:
  assumes "stops 10 t" "0 < i"
  shows "read_octets i (Suc n) (CHR ''.'' # dec_str (unat b) @ t) =
    (case read_octets (Suc i) n t of None \<Rightarrow> None | Some (bs, u) \<Rightarrow> Some (b # bs, u))"
  using read_dec [OF unat_octet_less [of b] assms(1)] assms(2) by (simp add: read_separator_def split: option.split)

lemma read_show_ipv4:
  assumes "stops 10 t"
  shows "read_ipv4 (show_ipv4 a @ t) = Some (a, t)"
proof -
  obtain p q r u where o: "octets a = [p, q, r, u]"
    by (simp add: octets_def)
  have four: "(4::nat) = Suc (Suc (Suc (Suc 0)))" by simp
  have "read_octets 0 4 (dec_str (unat p) @ CHR ''.'' # dec_str (unat q) @ CHR ''.'' # dec_str (unat r)
      @ CHR ''.'' # dec_str (unat u) @ t) = Some ([p, q, r, u], t)"
    unfolding four by (simp add: read_octets_first read_octets_next assms del: read_octets.simps(2))
  then show ?thesis
    using of_octets_octets [of a] by (simp add: show_ipv4_def read_ipv4_def o)
qed

lemma hd_dropWhile_not:
  assumes "CHR ''.'' \<notin> set u" "t = [] \<or> \<not> P (hd t) \<and> hd t \<noteq> CHR ''.''"
  shows "dropWhile P (u @ t) = [] \<or> hd (dropWhile P (u @ t)) \<noteq> CHR ''.''"
proof (cases "\<exists>x\<in>set u. \<not> P x")
  case True
  then have d: "dropWhile P (u @ t) = dropWhile P u @ t" "dropWhile P u \<noteq> []"
    by (auto simp: dropWhile_append1 dropWhile_eq_Nil_conv)
  then have "hd (dropWhile P u) \<in> set u" by (metis hd_in_set set_dropWhileD)
  with d assms(1) show ?thesis by auto
next
  case False
  then have "dropWhile P (u @ t) = dropWhile P t" by (simp add: dropWhile_append)
  moreover have "dropWhile P t = t" using assms(2) by (cases t) auto
  ultimately show ?thesis using assms(2) by auto
qed

lemma read_ipv4_none:
  assumes "CHR ''.'' \<notin> set u" "t = [] \<or> to_digit 10 (hd t) = None \<and> hd t \<noteq> CHR ''.''"
  shows "read_ipv4 (u @ t) = None"
proof -
  have "read_separator (CHR ''.'') (Suc 0) rd r = None"
    if "read_number 10 3 False 255 (u @ t) = Some (n, r)" for n r and rd :: "string \<Rightarrow> (nat \<times> string) option"
  proof -
    have "r = dropWhile (\<lambda>b. to_digit 10 b \<noteq> None) (u @ t)"
      using that by (auto simp: read_number_def Let_def dropWhile_eq_drop split: if_splits)
    moreover have "t = [] \<or> \<not> to_digit 10 (hd t) \<noteq> None \<and> hd t \<noteq> CHR ''.''"
      using assms(2) by simp
    note hd_dropWhile_not [where P = "\<lambda>b. to_digit 10 b \<noteq> None", OF assms(1) this]
    ultimately have "r = [] \<or> hd r \<noteq> CHR ''.''" by (simp only:)
    then show ?thesis by (cases r) (simp_all add: read_separator_def)
  qed
  then have "read_octets 0 (Suc (Suc 0 + n)) (u @ t) = None" for n
    by (auto simp: read_separator_def [of _ 0] split: option.split)
  moreover have "(4::nat) = Suc (Suc 0 + 2)" by simp
  ultimately have "read_octets 0 4 (u @ t) = None" by metis
  then show ?thesis by (simp add: read_ipv4_def del: read_octets.simps)
qed

section \<open>Groups\<close>

abbreviation groups_text :: "16 word list \<Rightarrow> string" where
  "groups_text gs \<equiv> concat (map (\<lambda>g. CHR '':'' # hex_str (unat g)) gs)"

lemma show_groups_Cons: "show_groups (g # gs) = hex_str (unat g) @ groups_text gs"
  by (induction gs arbitrary: g) (simp_all add: show_groups_def)

definition group_end :: "string \<Rightarrow> bool" where
  "group_end t \<longleftrightarrow> t = [] \<or> (\<exists>r. t = CHR '':'' # CHR '':'' # r)"

lemma hex_str_no_dot: "CHR ''.'' \<notin> set (hex_str n)"
  using hex_str_value [of n] by (auto simp: list_all_iff dest!: bspec)

lemma text_then_end: "group_end t \<Longrightarrow> groups_text gs @ t = [] \<or> hd (groups_text gs @ t) = CHR '':''"
  by (cases gs) (auto simp: group_end_def)

lemma colon_stops: "t = [] \<or> hd t = CHR '':'' \<Longrightarrow> stops 16 t \<and> stops 10 t"
  by (auto simp: stops_def)

lemma read_ipv4_hex: "t = [] \<or> hd t = CHR '':'' \<Longrightarrow> read_ipv4 (hex_str n @ t) = None"
  by (rule read_ipv4_none) (auto simp: hex_str_no_dot)

lemma read_groups_end:
  assumes "group_end t"
  shows "read_groups i n t = ([], False, t)"
proof (cases n)
  case (Suc m)
  have "read_ipv4 [] = None" "read_ipv4 (CHR '':'' # r) = None" for r
    using read_ipv4_none [of "[]" "[]"] read_ipv4_none [of "[]" "CHR '':'' # r"] by simp_all
  then show ?thesis
    using assms Suc by (auto simp: group_end_def read_separator_def read_number_none)
qed simp

lemma read_groups_text:
  assumes "length gs \<le> n" "group_end t" "0 < i"
  shows "read_groups i n (groups_text gs @ t) = (gs, False, t)"
  using assms
proof (induction gs arbitrary: i n)
  case Nil
  then show ?case by (simp add: read_groups_end)
next
  case (Cons g gs)
  then obtain m where n: "n = Suc m" by (cases n) auto
  let ?r = "groups_text gs @ t"
  have "read_ipv4 (hex_str (unat g) @ ?r) = None"
    using text_then_end [OF Cons.prems(2)] by (rule read_ipv4_hex)
  moreover have "read_number 16 4 True 65535 (hex_str (unat g) @ ?r) = Some (unat g, ?r)"
    using colon_stops [OF text_then_end [OF Cons.prems(2)]] by (simp add: read_hex unat_segment_less)
  ultimately show ?case
    using Cons.IH [of m "Suc i"] Cons.prems n by (auto simp: read_separator_def)
qed

lemma read_groups_show:
  assumes "length gs \<le> n" "group_end t"
  shows "read_groups 0 n (show_groups gs @ t) = (gs, False, t)"
proof (cases gs)
  case Nil
  then show ?thesis using assms by (simp add: read_groups_end show_groups_def)
next
  case (Cons g gs')
  with assms obtain m where n: "n = Suc m" by (cases n) auto
  let ?r = "groups_text gs' @ t"
  have "read_ipv4 (hex_str (unat g) @ ?r) = None"
    using text_then_end [OF assms(2)] by (rule read_ipv4_hex)
  moreover have "read_number 16 4 True 65535 (hex_str (unat g) @ ?r) = Some (unat g, ?r)"
    using colon_stops [OF text_then_end [OF assms(2)]] by (simp add: read_hex unat_segment_less)
  ultimately show ?thesis
    using assms Cons n read_groups_text [of gs' m t 1]
    by (auto simp: show_groups_Cons read_separator_def)
qed

section \<open>The longest zero run\<close>

definition zeros_at :: "16 word list \<Rightarrow> nat \<times> nat \<Rightarrow> bool" where
  "zeros_at xs r \<longleftrightarrow> fst r + snd r \<le> length xs \<and> (\<forall>k < snd r. xs ! (fst r + k) = 0)"

lemma zero_run_zeros:
  assumes "zeros_at (ys @ ss) best" "zeros_at (ys @ ss) cur" "snd cur = 0 \<or> fst cur + snd cur = length ys"
  shows "zeros_at (ys @ ss) (zero_run (length ys) cur best ss)"
  using assms
proof (induction ss arbitrary: ys cur best)
  case (Cons s ss)
  let ?cur = "((if snd cur = 0 then length ys else fst cur), Suc (snd cur))"
  have run: "zeros_at (ys @ s # ss) ?cur" "fst ?cur + snd ?cur = length (ys @ [s])" if "s = 0"
    using Cons.prems that by (auto simp: zeros_at_def less_Suc_eq nth_append)
  have none: "zeros_at (ys @ s # ss) (0, 0)" by (simp add: zeros_at_def)
  show ?case
    using Cons.IH [of "ys @ [s]" "if snd best < snd ?cur then ?cur else best" ?cur]
      Cons.IH [of "ys @ [s]" best "(0, 0)"] Cons.prems run none
    by (auto simp: Let_def)
qed simp

lemma zeros_split:
  assumes "zeros_at xs (st, n)"
  shows "take st xs @ replicate n 0 @ drop (st + n) xs = xs"
proof -
  have "replicate n 0 = take n (drop st xs)"
    using assms by (intro nth_equalityI) (auto simp: zeros_at_def)
  then show ?thesis by (metis add.commute append_take_drop_id drop_drop)
qed

section \<open>IPv6 literals\<close>

lemma mapped_segments:
  assumes "to_ipv4_mapped a = Some v"
  shows "[0, 0, 0, 0, 0, 0xFFFF] @ [ucast (drop_bit 16 v), ucast v] = segments a"
proof -
  have "ucast (drop_bit 16 v) = (ucast (drop_bit 16 a) :: 16 word)" "ucast v = (ucast a :: 16 word)"
    using assms by (auto simp: to_ipv4_mapped_def low_v4_def split: if_splits intro!: bit_word_eqI)
      (auto simp: bit_simps)
  then show ?thesis
    using assms by (auto simp: to_ipv4_mapped_def segments_def split: if_splits)
qed

lemma read_show_ipv6: "read_ipv6 (show_ipv6 a) = Some (a, [])"
proof (cases "to_ipv4_mapped a")
  case (Some v)
  let ?r = "CHR '':'' # show_ipv4 v"
  let ?l = "[ucast (drop_bit 16 v), ucast v] :: 16 word list"
  have h: "read_groups 0 8 (''::ffff'' @ ?r) = ([], False, ''::ffff'' @ ?r)"
    by (rule read_groups_end) (simp add: group_end_def)
  have "read_groups 1 (Suc 5) ?r = (?l, True, [])"
    using read_show_ipv4 [of "[]" v]
    by (subst read_groups.simps) (simp add: read_separator_def del: read_groups.simps)
  moreover have "read_ipv4 (hex_str 65535 @ ?r) = None" by (rule read_ipv4_hex) simp
  moreover have "read_number 16 4 True 65535 (hex_str 65535 @ ?r) = Some (65535, ?r)"
    by (rule read_hex) simp_all
  ultimately have "read_groups 0 (Suc (Suc 5)) (hex_str 65535 @ ?r) = (0xFFFF # ?l, True, [])"
    by (subst read_groups.simps) (simp add: read_separator_def del: read_groups.simps)
  moreover have "hex_str 65535 = ''ffff''" by (simp add: hex_str.simps hex_char_def, code_simp)
  ultimately have t: "read_groups 0 7 (''ffff'' @ ?r) = (0xFFFF # ?l, True, [])" by simp
  have "replicate 5 (0 :: 16 word) = [0, 0, 0, 0, 0]" by (simp add: numeral_eq_Suc)
  then have "read_ipv6 (''::ffff'' @ ?r) = Some (of_segments ([0, 0, 0, 0, 0, 0xFFFF] @ ?l), [])"
    using h t by (simp add: read_ipv6_def)
  then have "read_ipv6 (''::ffff:'' @ show_ipv4 v) = Some (a, [])"
    using of_segments_segments [of a] mapped_segments [OF Some] by simp
  then show ?thesis using Some by (simp add: show_ipv6_def)
next
  case None
  let ?xs = "segments a"
  obtain st n where z: "zero_run 0 (0, 0) (0, 0) ?xs = (st, n)" by fastforce
  have za: "zeros_at ?xs (st, n)"
    using zero_run_zeros [of "[]" ?xs "(0, 0)" "(0, 0)"] z by (simp add: zeros_at_def)
  then have len: "st + n \<le> 8" by (simp add: zeros_at_def)
  show ?thesis
  proof (cases "1 < n")
    case True
    let ?t = "show_groups (drop (st + n) ?xs)"
    have "read_groups 0 8 (show_groups (take st ?xs) @ ''::'' @ ?t) = (take st ?xs, False, ''::'' @ ?t)"
      using len by (intro read_groups_show) (auto simp: group_end_def)
    moreover have "read_groups 0 (8 - Suc st) (?t @ []) = (drop (st + n) ?xs, False, [])"
      using len True by (intro read_groups_show) (auto simp: group_end_def)
    moreover have "8 - st - (8 - (st + n)) = n" using len by simp
    ultimately show ?thesis
      using None z True len zeros_split [OF za]
      by (simp add: show_ipv6_def read_ipv6_def)
  next
    case False
    have "read_groups 0 8 (show_groups ?xs @ []) = (?xs, False, [])"
      by (intro read_groups_show) (auto simp: group_end_def)
    then show ?thesis using None z False by (simp add: show_ipv6_def read_ipv6_def)
  qed
qed

lemma read_ipv4_show_ipv6: "read_ipv4 (show_ipv6 a) = None"
proof -
  have "read_ipv4 (show_groups gs @ t) = None" if "group_end t" for gs t
  proof (cases gs)
    case Nil
    then show ?thesis
      using that read_ipv4_none [of "[]" t] by (auto simp: show_groups_def group_end_def)
  next
    case (Cons g gs')
    show ?thesis
      using read_ipv4_hex [OF text_then_end [OF that, of gs'], of "unat g"] Cons by (simp add: show_groups_Cons)
  qed
  from this [of "''::'' @ r" for r] this [of "[]"] show ?thesis
    using read_ipv4_none [of "[]" "''::ffff:'' @ r" for r]
    by (auto simp: show_ipv6_def group_end_def Let_def split: option.split prod.split)
qed

lemma parse_show_ip: "parse_ip (show_ip ip) = Some ip"
  using read_show_ipv4 [of "[]"]
  by (cases ip) (simp_all add: parse_ip_def read_ip_def whole_def read_show_ipv6 read_ipv4_show_ipv6)

section \<open>The characters of address text\<close>

definition addr_char :: "char \<Rightarrow> bool" where
  "addr_char b \<longleftrightarrow> is_digit b \<or> is_lower b \<or> b = CHR '':'' \<or> b = CHR ''.''"

lemma addr_punct [simp]: "addr_char (CHR '':'')" "addr_char (CHR ''.'')" "addr_char (CHR ''f'')"
  by (simp_all add: addr_char_def is_lower_def)

lemma hex_char_addr: "d < 16 \<Longrightarrow> addr_char (hex_char d)"
  by (auto simp: hex_char_def addr_char_def is_digit_def is_lower_def of_char_of)

lemma hex_str_addr: "list_all addr_char (hex_str n)"
proof (induction n rule: hex_str.induct)
  case (1 n)
  then show ?case by (subst hex_str.simps) (simp add: hex_char_addr)
qed

lemma dec_str_addr: "list_all addr_char (dec_str n)"
  using dec_str_digits [of n] by (auto simp: list_all_iff addr_char_def)

lemma show_groups_addr: "list_all addr_char (show_groups gs)"
proof (cases gs)
  case Nil
  then show ?thesis by (simp add: show_groups_def)
next
  case (Cons g gs')
  have "list_all addr_char (groups_text gs')"
    by (induction gs') (simp_all add: hex_str_addr)
  then show ?thesis using Cons by (simp add: show_groups_Cons hex_str_addr)
qed

lemma show_ipv4_eq: "\<exists>p q r u. show_ipv4 a = dec_str (unat (p :: 8 word)) @ ''.'' @ dec_str (unat (q :: 8 word))
    @ ''.'' @ dec_str (unat (r :: 8 word)) @ ''.'' @ dec_str (unat (u :: 8 word))"
  by (rule exI [of _ "octets a ! 0"], rule exI [of _ "octets a ! 1"], rule exI [of _ "octets a ! 2"],
      rule exI [of _ "octets a ! 3"]) (simp add: show_ipv4_def octets_def)

lemma show_ipv4_addr: "list_all addr_char (show_ipv4 a)"
  using show_ipv4_eq [of a] by (auto simp: dec_str_addr)

lemma show_ipv6_addr: "list_all addr_char (show_ipv6 a)"
  by (auto simp: show_ipv6_def show_ipv4_addr show_groups_addr split: option.split prod.split)

lemma show_ip_addr: "list_all addr_char (show_ip a)"
  by (cases a) (simp_all add: show_ipv4_addr show_ipv6_addr)

lemma show_ipv4_no_colon: "CHR '':'' \<notin> set (show_ipv4 a)"
proof -
  have "CHR '':'' \<notin> set (dec_str n)" for n
    using dec_str_digits [of n] by (auto simp: list_all_iff is_digit_def)
  then show ?thesis using show_ipv4_eq [of a] by auto
qed

lemma show_ipv4_length: "length (show_ipv4 a) \<le> 15"
proof -
  have "length (dec_str (unat (b :: 8 word))) \<le> 3" for b
    using dec_str_length [of "unat b" 3] unat_octet_less [of b] by simp
  note d = this
  obtain p q r u :: "8 word" where s: "show_ipv4 a = dec_str (unat p) @ ''.'' @ dec_str (unat q)
    @ ''.'' @ dec_str (unat r) @ ''.'' @ dec_str (unat u)" using show_ipv4_eq [of a] by blast
  show ?thesis using d [of p] d [of q] d [of r] d [of u] by (simp add: s)
qed

lemma parse_show_ipv4: "parse_ipv4 (show_ipv4 a) = Some a"
  using read_show_ipv4 [of "[]" a] show_ipv4_length [of a] by (simp add: parse_ipv4_def whole_def)

lemma parse_show_ipv6: "parse_ipv6 (show_ipv6 a) = Some a"
  by (simp add: parse_ipv6_def read_show_ipv6 whole_def)

section \<open>Colons\<close>

text \<open>A text with exactly one colon is no address.\<close>

abbreviation colons :: "string \<Rightarrow> nat" where
  "colons s \<equiv> length (filter (\<lambda>b. b = CHR '':'') s)"

lemma read_number_colons:
  assumes "read_number r m allow bound s = Some (n, t)" "r = 10 \<or> r = 16"
  shows "colons t = colons s"
proof -
  let ?P = "\<lambda>b. to_digit r b \<noteq> None"
  have t: "t = dropWhile ?P s"
    using assms(1) by (auto simp: read_number_def Let_def dropWhile_eq_drop split: if_splits)
  have "filter (\<lambda>b. b = CHR '':'') (takeWhile ?P s) = []"
    using assms(2) by (auto simp: filter_empty_conv dest!: set_takeWhileD)
  moreover have "colons s = colons (takeWhile ?P s) + colons (dropWhile ?P s)"
    by (metis filter_append length_append takeWhile_dropWhile_id)
  ultimately show ?thesis by (simp add: t del: not_None_eq)
qed

lemma read_octets_colons: "read_octets i n s = Some (bs, t) \<Longrightarrow> colons t = colons s"
proof (induction i n s arbitrary: bs t rule: read_octets.induct)
  case (2 i n s)
  then obtain b r bs' where "read_separator (CHR ''.'') i (read_number 10 3 False 255) s = Some (b, r)"
    "read_octets (Suc i) n r = Some (bs', t)"
    by (auto split: option.splits)
  moreover from this(1) have "colons r = colons s"
    using read_number_colons [of 10] by (auto simp: read_separator_def split: if_splits list.splits)
  ultimately show ?case using 2(1) by fastforce
qed simp

lemma read_ipv4_colons: "read_ipv4 s = Some (v, t) \<Longrightarrow> colons t = colons s"
  using read_octets_colons by (auto simp: read_ipv4_def split: option.splits)

lemma read_separator_colons:
  assumes "read_separator (CHR '':'') i rd s = Some (v, t)" "\<And>s v t. rd s = Some (v, t) \<Longrightarrow> colons t = colons s"
  shows "colons s = colons t + (if 0 < i then 1 else 0)"
  using assms by (auto simp: read_separator_def split: if_splits list.splits)

lemma read_groups_colons:
  "read_groups i n s = (gs, v4, t) \<Longrightarrow>
    colons t + length gs \<le> colons s + (if v4 then 1 else 0) + (if i = 0 \<and> gs \<noteq> [] then 1 else 0)"
proof (induction i n s arbitrary: gs v4 t rule: read_groups.induct)
  case (2 i n s)
  consider (v4) v r where "read_separator (CHR '':'') i read_ipv4 s = Some (v, r)" "0 < n"
      "gs = [ucast (drop_bit 16 v), ucast v]" "v4" "t = r"
    | (stop) "gs = []" "\<not> v4" "t = s"
    | (group) g r gs' where "read_separator (CHR '':'') i (read_number 16 4 True 65535) s = Some (g, r)"
      "read_groups (Suc i) n r = (gs', v4, t)" "gs = word_of_nat g # gs'"
      "(if 0 < n then read_separator (CHR '':'') i read_ipv4 s else None) = None"
    using 2(2) by (auto split: option.splits if_splits prod.splits)
  then show ?case
  proof cases
    case v4
    then show ?thesis using read_separator_colons [OF v4(1)] read_ipv4_colons by auto
  next
    case group
    have "colons s = colons r + (if 0 < i then 1 else 0)"
      by (rule read_separator_colons [OF group(1)]) (rule read_number_colons, auto)
    moreover have "colons t + length gs' \<le> colons r + (if v4 then 1 else 0)"
      using 2(1) [OF group(4) group(1)] group(2) by auto
    ultimately show ?thesis using group(3) by auto
  qed simp
qed simp

lemma read_ipv6_colons:
  assumes "read_ipv6 s = Some (a, t)"
  shows "2 \<le> colons s"
proof -
  obtain head v4 r where h: "read_groups 0 8 s = (head, v4, r)" by (metis surj_pair)
  have c: "colons r + length head \<le> colons s + (if v4 then 1 else 0) + (if head \<noteq> [] then 1 else 0)"
    using read_groups_colons [OF h] by simp
  show ?thesis
  proof (cases "length head = 8")
    case True
    with c show ?thesis by (auto split: if_splits)
  next
    case False
    then obtain r2 where "r = CHR '':'' # CHR '':'' # r2" "\<not> v4"
      using assms h by (auto simp: read_ipv6_def split: if_splits list.splits)
    with c show ?thesis by (cases head) auto
  qed
qed

lemma parse_ip_one_colon: "colons s = 1 \<Longrightarrow> parse_ip s = None"
  using read_ipv4_colons read_ipv6_colons
  by (fastforce simp: parse_ip_def read_ip_def whole_def split: option.splits if_splits)

lemma show_ip_nonempty [simp]: "show_ip a \<noteq> []"
proof
  assume "show_ip a = []"
  with parse_show_ip [of a] have "parse_ip [] = Some a" by simp
  then show False
    using read_ipv6_colons [of "[]"] read_ipv4_none [of "[]" "[]"]
    by (auto simp: parse_ip_def read_ip_def whole_def split: option.splits)
qed

end
