(* ===== verification/Egress_Allow_Text.thy ===== *)
theory Egress_Allow_Text
  imports Egress_Allow Rust_Net_Text
begin

text \<open>
  Destinations of the allowlist as text: what parsing guarantees of a destination, and
  that the printed form of a well-formed destination reads back to it.
\<close>

unbundle bit_operations_syntax

section \<open>Well-formed destinations\<close>

fun dest_wf :: "allow_destination \<Rightarrow> bool" where
  "dest_wf (Net a p port) \<longleftrightarrow> on_prem_allowed a \<and> mask_addr a p = a
     \<and> (if is_ipv4 a then MIN_V4_PREFIX else MIN_V6_PREFIX) \<le> p \<and> p \<le> full_prefix a
     \<and> port \<noteq> Some 0 \<and> (port \<noteq> None \<longrightarrow> p = full_prefix a)"
| "dest_wf (Host name port) \<longleftrightarrow> validate_host_name name = Inr () \<and> port \<noteq> Some 0"

lemma mask_full [simp]: "mask_addr a (full_prefix a) = a"
  by (cases a) simp_all

lemma parse_port_ok: "parse_port p = Inr n \<Longrightarrow> n \<noteq> 0"
proof -
  assume p: "parse_port p = Inr n"
  then obtain m where m: "parse_uint 65535 p = Some m" "m \<noteq> 0" "n = word_of_nat m"
    by (auto simp: parse_port_def split: option.splits if_splits)
  then have "m \<le> 65535" by (auto simp: parse_uint_def parse_digits_def split: list.splits if_splits)
  with m have "unat n = m" by (simp add: unat_of_nat)
  with m show ?thesis by auto
qed

lemma parse_port_show [simp]: "q \<noteq> 0 \<Longrightarrow> parse_port (dec_str (unat q)) = Inr q"
proof -
  assume q: "q \<noteq> 0"
  have "unat q \<le> 65535" using unat_segment_less [of q] by simp
  then have "parse_uint 65535 (dec_str (unat q)) = Some (unat q)" by simp
  moreover have "unat q \<noteq> 0" using q by (simp add: unsigned_eq_0_iff)
  ultimately show ?thesis by (simp add: parse_port_def)
qed

lemma ok_or_Inr [simp]: "ok_or x e = Inr v \<longleftrightarrow> x = Some v"
  by (cases x) (simp_all add: ok_or_def)

lemma ok_or_Some [simp]: "ok_or (Some x) e = Inr x"
  by (simp add: ok_or_def)

lemma split_ip_port_ok:
  assumes "split_ip_port s = Inr (Some (ip, port))"
  shows "port \<noteq> Some 0"
  using assms unfolding split_ip_port_def
  by (auto simp: rbind_eq_Inr dest!: parse_port_ok split: option.splits if_splits)

lemma is_ipv4_full: "(if is_ipv4 ip then 32 else 128) = full_prefix ip"
  by (cases ip) simp_all

lemma dest_parse_wf: "dest_parse s = Inr d \<Longrightarrow> dest_wf d"
proof -
  assume p: "dest_parse s = Inr d"
  let ?s = "trim s"
  have ne: "?s \<noteq> []" using p by (auto simp: dest_parse_def)
  have refuse: "refuse_never_allowed a = Inr u \<longleftrightarrow> on_prem_allowed a" for a and u :: unit
    by (simp add: refuse_never_allowed_def)
  show ?thesis
  proof (cases "split_once (CHR ''/'') ?s")
    case (Some r)
    then obtain addr plen where "split_once (CHR ''/'') ?s = Some (addr, plen)" by (cases r) auto
    then show ?thesis
      using p ne by (auto simp: dest_parse_def Let_def rbind_eq_Inr refuse not_less split: if_splits ip_addr.splits)
  next
    case None
    then obtain r where r: "split_ip_port ?s = Inr r"
      using p ne by (auto simp: dest_parse_def Let_def rbind_eq_Inr)
    show ?thesis
    proof (cases r)
      case (Some x)
      then obtain ip port where x: "split_ip_port ?s = Inr (Some (ip, port))" using r by (cases x) auto
      then have "d = Net ip (full_prefix ip) port" "on_prem_allowed ip"
        using p ne None by (auto simp: dest_parse_def Let_def rbind_eq_Inr refuse is_ipv4_full)
      then show ?thesis
        using split_ip_port_ok [OF x] by (cases ip) (simp_all add: MIN_V4_PREFIX_def MIN_V6_PREFIX_def)
    next
      case no: None
      then show ?thesis
        using p ne None r by (auto simp: dest_parse_def Let_def rbind_eq_Inr dest!: parse_port_ok split: option.splits)
    qed
  qed
qed

section \<open>Reading a printed destination\<close>

lemma trim_graph:
  assumes "list_all (\<lambda>b. 32 < byte b \<and> byte b < 128) s"
  shows "trim s = s"
proof -
  have ascii: "list_all is_ascii s" using assms by (auto simp: list_all_iff is_ascii_def)
  have ws: "\<not> is_ws [b]" if "32 < byte b" "byte b < 128" for b
    using that by (auto simp: is_ws_def ws_chars_def)
  have "drop_ws (map (\<lambda>b. [b]) t) = map (\<lambda>b. [b]) t" if "list_all (\<lambda>b. 32 < byte b \<and> byte b < 128) t" for t
    using that ws by (cases t) (simp_all add: drop_ws_def)
  from this [of s] this [of "rev s"] assms show ?thesis
    by (simp add: trim_def utf8_chars_ascii [OF ascii] rev_map [symmetric] concat_map_singleton)
qed

lemma addr_graph: "addr_char b \<Longrightarrow> 32 < byte b \<and> byte b < 128"
  by (auto simp: addr_char_def is_digit_def is_lower_def)

lemma addr_not: "list_all addr_char s \<Longrightarrow> CHR ''/'' \<notin> set s \<and> CHR ''['' \<notin> set s \<and> CHR '']'' \<notin> set s"
proof -
  have "\<not> addr_char (CHR ''/'')" "\<not> addr_char (CHR ''['')" "\<not> addr_char (CHR '']'')"
    by (simp_all add: addr_char_def is_digit_def is_lower_def)
  then show "list_all addr_char s \<Longrightarrow> ?thesis" by (auto simp: list_all_iff)
qed

lemma split_once_none: "split_once c s = None \<longleftrightarrow> c \<notin> set s"
  by (simp add: split_once_def)

lemma strip_bracket: "list_all addr_char s \<Longrightarrow> strip_prefix ''['' (s @ t) = None \<or> s = []"
  by (cases s) (auto simp: strip_prefix_def addr_char_def is_digit_def is_lower_def)

lemma split_ip_show:
  shows "split_ip_port (show_ip a) = Inr (Some (a, None))"
proof -
  have "strip_prefix ''['' (show_ip a) = None"
    using strip_bracket [OF show_ip_addr [of a], of "[]"] by simp
  then show ?thesis by (simp add: split_ip_port_def parse_show_ip)
qed

lemma split_ip_port_v4:
  assumes "q \<noteq> 0"
  shows "split_ip_port (show_ipv4 a @ '':'' @ dec_str (unat q)) = Inr (Some (V4 a, Some q))"
proof -
  let ?s = "show_ipv4 a @ '':'' @ dec_str (unat q)"
  have "strip_prefix ''['' ?s = None"
    using strip_bracket [OF show_ipv4_addr [of a], of "'':'' @ dec_str (unat q)"] show_ip_nonempty [of "V4 a"] by simp
  moreover have "parse_ip ?s = None"
    using read_show_ipv4 [of "'':'' @ dec_str (unat q)" a] by (simp add: parse_ip_def read_ip_def whole_def)
  moreover have "CHR '':'' \<notin> set (dec_str (unat q))"
    using dec_str_digits [of "unat q"] by (auto simp: list_all_iff is_digit_def)
  then have "rsplit_once (CHR '':'') ?s = Some (show_ipv4 a, dec_str (unat q))" by simp
  ultimately show ?thesis
    using assms by (simp add: split_ip_port_def parse_show_ipv4)
qed

lemma split_ip_port_v6:
  assumes "q \<noteq> 0"
  shows "split_ip_port (''['' @ show_ipv6 a @ '']:'' @ dec_str (unat q)) = Inr (Some (V6 a, Some q))"
proof -
  have "CHR '']'' \<notin> set (show_ipv6 a)" using addr_not [OF show_ipv6_addr [of a]] by simp
  then have "split_once (CHR '']'') (show_ipv6 a @ '']:'' @ dec_str (unat q)) = Some (show_ipv6 a, '':'' @ dec_str (unat q))"
    using split_once_append [of "CHR '']''" "show_ipv6 a" "'':'' @ dec_str (unat q)"] by simp
  then show ?thesis
    using assms strip_prefix_append [of "''[''"] strip_prefix_append [of "'':''" "dec_str (unat q)"]
    by (simp add: split_ip_port_def parse_show_ipv6 ok_or_def)
qed

lemma trim_bytes_id: "set s \<inter> C = {} \<Longrightarrow> trim_bytes C s = s"
proof -
  assume d: "set s \<inter> C = {}"
  then have "trim_start_bytes C s = s" by (cases s) auto
  then show "trim_bytes C s = s" using trim_end_bytes_id [OF d] by (simp add: trim_bytes_def)
qed

lemma dest_show_net:
  assumes "dest_wf (Net a p port)"
  shows "dest_parse (dest_show (Net a p port)) = Inr (Net a p port)"
proof -
  have refuse: "refuse_never_allowed a = Inr ()" using assms by (simp add: refuse_never_allowed_def)
  have graph: "list_all (\<lambda>b. 32 < byte b \<and> byte b < 128) (show_ip x)" for x
    using show_ip_addr [of x] by (auto simp: list_all_iff dest!: addr_graph)
  have dgraph: "list_all (\<lambda>b. 32 < byte b \<and> byte b < 128) (dec_str n)" for n
    using dec_str_addr [of n] by (auto simp: list_all_iff dest!: addr_graph)
  note g6 = graph [of "V6 x" for x, simplified] and g4 = graph [of "V4 x" for x, simplified]
  have ns: "CHR ''/'' \<notin> set (show_ip x)" for x using addr_not [OF show_ip_addr [of x]] by simp
  have nd: "CHR ''/'' \<notin> set (dec_str n)" for n using addr_not [OF dec_str_addr [of n]] by simp
  note s6 = ns [of "V6 x" for x, simplified] and s4 = ns [of "V4 x" for x, simplified]
  show ?thesis
  proof (cases port)
    case None
    show ?thesis
    proof (cases "p = full_prefix a")
      case True
      have "dest_parse (show_ip a) = Inr (Net a p None)"
        using ns [of a] refuse True
        by (simp add: dest_parse_def trim_graph [OF graph] split_once_none [THEN iffD2] split_ip_show is_ipv4_full)
      then show ?thesis using None True by simp
    next
      case False
      let ?s = "show_ip a @ ''/'' @ dec_str (unat p)"
      have tr: "trim ?s = ?s" by (rule trim_graph) (simp add: graph dgraph)
      have sp: "split_once (CHR ''/'') ?s = Some (show_ip a, dec_str (unat p))" using ns by simp
      have "set (show_ip x) \<inter> {CHR ''['', CHR '']''} = {}" for x using addr_not [OF show_ip_addr [of x]] by auto
      then have tb: "trim_bytes {CHR ''['', CHR '']''} (show_ip x) = show_ip x" for x
        by (rule trim_bytes_id)
      have wn: "word_of_nat (unat p) = p" by simp
      have pv: "parse_uint 255 (dec_str (unat p)) = Some (unat p)"
        using unat_octet_less [of p] by simp
      have "dest_parse ?s = Inr (Net a p None)"
        using assms refuse unfolding dest_parse_def Let_def tr sp
        by (cases "is_ipv4 a"; cases a) (simp_all add: tb pv wn parse_show_ip not_less del: show_ip.simps mask_addr.simps)
      then show ?thesis using None False by (cases a) simp_all
    qed
  next
    case (Some q)
    then have q: "q \<noteq> 0" and full: "p = full_prefix a" using assms by auto
    show ?thesis
    proof (cases a)
      case (V4 v)
      let ?s = "show_ipv4 v @ '':'' @ dec_str (unat q)"
      have tr: "trim ?s = ?s" by (rule trim_graph) (simp add: g4 dgraph)
      have "CHR ''/'' \<notin> set ?s" using s4 nd by simp
      then have "dest_parse ?s = Inr (Net a p port)"
        using split_ip_port_v4 [OF q, of v] refuse full Some V4 unfolding dest_parse_def Let_def tr
        by (simp add: split_once_none [THEN iffD2])
      then show ?thesis using Some V4 by simp
    next
      case (V6 v)
      let ?s = "''['' @ show_ipv6 v @ '']:'' @ dec_str (unat q)"
      have tr: "trim ?s = ?s" by (rule trim_graph) (simp add: g6 dgraph)
      have "CHR ''/'' \<notin> set ?s" using s6 nd by simp
      then have "dest_parse ?s = Inr (Net a p port)"
        using split_ip_port_v6 [OF q, of v] refuse full Some V6 unfolding dest_parse_def Let_def tr
        by (simp add: split_once_none [THEN iffD2])
      then show ?thesis using Some V6 by simp
    qed
  qed
qed

section \<open>Host names\<close>

definition host_char :: "char \<Rightarrow> bool" where
  "host_char b \<longleftrightarrow> is_lower b \<or> is_digit b \<or> b = CHR ''-'' \<or> b = CHR ''.''"

lemma split_on_chars: "b \<in> set s \<Longrightarrow> b = c \<or> (\<exists>l\<in>set (split_on c s). b \<in> set l)"
  by (induction c s rule: split_on.induct) (auto split: list.splits)

lemma split_on_last: "s \<noteq> [] \<Longrightarrow> last s = c \<Longrightarrow> \<exists>w ws. split_on c s = w # ws @ [[]]"
proof (induction c s rule: split_on.induct)
  case (2 c b s)
  show ?case
  proof (cases "s = []")
    case False
    then obtain w ws where "split_on c s = w # ws @ [[]]" using 2 by auto
    then show ?thesis by auto
  qed (use 2 in simp)
qed simp

lemma guards_passed:
  "(if a then Inl x else if b then Inl y else if c then Inl z else r) = Inr u \<Longrightarrow>
    \<not> a \<and> \<not> b \<and> \<not> c \<and> r = Inr u"
  by (auto split: if_splits)

lemma host_name_chars:
  assumes "validate_host_name n = Inr ()"
  shows "list_all host_char n" "n \<noteq> []" "last n \<noteq> CHR ''.''"
proof -
  have g: "\<not> (n = [] \<or> 253 < length n)" "\<not> list_ex label_bad (split_on (CHR ''.'') n)"
    using guards_passed [OF assms [unfolded validate_host_name_def]] by blast+
  then have ok: "\<not> label_bad l" if "l \<in> set (split_on (CHR ''.'') n)" for l
    using that by (auto simp: list_ex_iff)
  show ne: "n \<noteq> []" using g(1) by simp
  have "host_char b" if b: "b \<in> set n" for b
  proof (cases "b = CHR ''.''")
    case True
    then show ?thesis by (simp add: host_char_def)
  next
    case False
    then obtain l where l: "l \<in> set (split_on (CHR ''.'') n)" "b \<in> set l"
      using split_on_chars [OF b] by blast
    from ok [OF l(1)] have "list_all (\<lambda>b. is_lower b \<or> is_digit b \<or> b = CHR ''-'') l"
      unfolding label_bad_def by blast
    with l(2) show ?thesis unfolding host_char_def list_all_iff by blast
  qed
  then show "list_all host_char n" by (simp add: list_all_iff)
  show "last n \<noteq> CHR ''.''"
  proof
    assume "last n = CHR ''.''"
    then obtain w ws where "split_on (CHR ''.'') n = w # ws @ [[]]" using split_on_last [OF ne] by blast
    then have "\<not> label_bad []" using ok [of "[]"] by simp
    then show False by (simp add: label_bad_def)
  qed
qed

lemma host_char_facts:
  assumes "list_all host_char n"
  shows "list_all (\<lambda>b. 32 < byte b \<and> byte b < 128) n" "CHR ''/'' \<notin> set n" "CHR ''['' \<notin> set n"
    "CHR '':'' \<notin> set n" "to_lower n = n"
proof -
  have no: "\<not> host_char (CHR ''/'')" "\<not> host_char (CHR ''['')" "\<not> host_char (CHR '':'')"
    by (simp_all add: host_char_def is_lower_def is_digit_def)
  have not_in: "c \<notin> set n" if "\<not> host_char c" for c
    using assms that unfolding list_all_iff by blast
  show "CHR ''/'' \<notin> set n" "CHR ''['' \<notin> set n" "CHR '':'' \<notin> set n"
    by (rule not_in, rule no)+
  have "32 < byte b \<and> byte b < 128" if "host_char b" for b
    using that by (auto simp: host_char_def is_lower_def is_digit_def)
  then show "list_all (\<lambda>b. 32 < byte b \<and> byte b < 128) n"
    using assms by (simp add: list_all_iff)
  have "ascii_lower b = b" if "host_char b" for b
  proof -
    have "\<not> is_upper b" using that by (auto simp: host_char_def is_lower_def is_digit_def is_upper_def)
    then show ?thesis by (simp add: ascii_lower_def)
  qed
  then show "to_lower n = n" using assms by (intro map_idI) (simp add: list_all_iff)
qed

lemma dest_show_host:
  assumes "dest_wf (Host n port)" "parse_ip n = None"
  shows "dest_parse (dest_show (Host n port)) = Inr (Host n port)"
proof -
  have v: "validate_host_name n = Inr ()" using assms(1) by simp
  note h = host_name_chars [OF v] and f = host_char_facts [OF host_name_chars(1) [OF v]]
  have te: "trim_end_bytes {CHR ''.''} n = n"
    using h(2,3) by (cases n rule: rev_cases) (simp_all add: trim_end_bytes_def)
  have nb: "strip_prefix ''['' (n @ t) = None" for t
    using h(2) f(3) by (cases n) (auto simp: strip_prefix_def)
  show ?thesis
  proof (cases port)
    case None
    have "split_ip_port n = Inr None"
      using nb [of "[]"] assms(2) f(4) by (simp add: split_ip_port_def rsplit_once_def split_once_none [THEN iffD2])
    then have "dest_parse n = Inr (Host n None)"
      using v te f h(2) unfolding dest_parse_def Let_def trim_graph [OF f(1)]
      by (simp add: rsplit_once_def split_once_none [THEN iffD2])
    then show ?thesis using None by simp
  next
    case (Some q)
    then have q: "q \<noteq> 0" using assms(1) by simp
    let ?s = "n @ '':'' @ dec_str (unat q)"
    have dg: "list_all (\<lambda>b. 32 < byte b \<and> byte b < 128) (dec_str (unat q))"
      using dec_str_addr [of "unat q"] by (auto simp: list_all_iff dest!: addr_graph)
    have dc: "CHR '':'' \<notin> set (dec_str (unat q))" "CHR ''/'' \<notin> set (dec_str (unat q))"
      using dec_str_digits [of "unat q"] by (auto simp: list_all_iff is_digit_def)
    have "colons ?s = 1" using dc f(4) by (simp add: filter_empty_conv) (metis (mono_tags) filter_False)
    then have "parse_ip ?s = None" by (rule parse_ip_one_colon)
    moreover have "parse_ipv4 n = None"
      using assms(2) by (auto simp: parse_ip_def parse_ipv4_def read_ip_def whole_def split: option.splits if_splits)
    moreover have rs: "rsplit_once (CHR '':'') ?s = Some (n, dec_str (unat q))" using dc by simp
    ultimately have "split_ip_port ?s = Inr None"
      using nb by (simp add: split_ip_port_def)
    moreover have "trim ?s = ?s" by (rule trim_graph) (simp add: f dg)
    moreover have "CHR ''/'' \<notin> set ?s" using f dc by simp
    ultimately have "dest_parse ?s = Inr (Host n (Some q))"
      using rs q v te f(5) by (simp add: dest_parse_def split_once_none [THEN iffD2])
    then show ?thesis using Some by simp
  qed
qed

end
