(* ===== verification/Egress_Thms.thy ===== *)
theory Egress_Thms
  imports Egress_Safe_Proxy Egress_Allow_Text
begin

text \<open>
  The properties of the egress crate: the address policy against its networks, the
  internal allowlist as text, route selection, and what a send does to the outside.
\<close>

section \<open>Addresses\<close>

text \<open>C16: the two address policies are exactly their network tables: an address passes when
  it lies in none of the refused networks and the same holds of every IPv4 address that a
  transitional IPv6 form embeds in it, decoded from the bits of the address.\<close>

theorem address_policies_exact:
  "(ip_allowed ip \<longleftrightarrow> keeps_out blocked4 blocked6 ip)
   \<and> (on_prem_allowed ip \<longleftrightarrow> keeps_out reserved4 reserved6 ip)"
  by (simp add: ip_allowed_reference on_prem_reference)

lemma of_segments_neq:
  assumes "a \<noteq> 0"
  shows "of_segments [a, b, c, d, e, f, g, h] \<noteq> 0" "of_segments [a, b, c, d, e, f, g, h] \<noteq> 1"
proof -
  have "segments (0 :: ipv6) ! 0 = 0" "segments (1 :: ipv6) ! 0 = 0" by (simp_all add: segments_def)
  with assms segments_of_segments [of a b c d e f g h] show "of_segments [a, b, c, d, e, f, g, h] \<noteq> 0"
    "of_segments [a, b, c, d, e, f, g, h] \<noteq> 1" by (metis nth_Cons_0)+
qed

lemma six_to_four:
  "ip_allowed (V6 (of_segments [0x2002, hi, lo, d, e, f, g, h])) \<longleftrightarrow> ipv4_allowed (v4_from_segments hi lo)"
  using of_segments_neq [of "0x2002" hi lo d e f g h]
  by (simp add: v6_loopback_def v6_unspecified_def v6_multicast_def to_ipv4_def ipv6_allowed_def Let_def
      embedded_ipv4s_def)

text \<open>C23: the decoding of embedded IPv4 addresses stops at the first form that matches, so an
  ISATAP interface identifier below a 6to4 prefix is not decoded: such an address is judged by
  its 6to4 part alone, and passes with a cloud-metadata address in its ISATAP part, which the
  same interface identifier under another prefix does not.\<close>

theorem isatap_inside_6to4_is_not_decoded:
  "(ip_allowed (V6 (of_segments [0x2002, hi, lo, d, 0, 0x5EFE, g, h])) \<longleftrightarrow> ipv4_allowed (v4_from_segments hi lo))
   \<and> ip_allowed (V6 (of_segments [0x2002, 0x0808, 0x0808, 1, 0, 0x5EFE, 0xA9FE, 0xA9FE]))
   \<and> \<not> ip_allowed (V6 (of_segments [0x2600, 0x0808, 0x0808, 1, 0, 0x5EFE, 0xA9FE, 0xA9FE]))"
  unfolding six_to_four by (simp only: simp_thms) code_simp

section \<open>The allowlist as text\<close>



section \<open>Choosing a route\<close>

text \<open>in a plan that was accepted at most one route answers a scope and a class, so which
  route a request takes does not depend on the order of the operator's rows: a plan of the
  same rows in any order is accepted too and selects the same route for every class and
  domain.\<close>

theorem route_choice_is_unique:
  assumes "plan_new routes allow = Inr p" "mset routes' = mset routes"
  shows "\<exists>p'. plan_new routes' allow = Inr p' \<and> (\<forall>c d. selected_route p' c d = selected_route p c d)
     \<and> (\<forall>s c. length (answering routes s c) \<le> 1)"
proof -
  from assms(1) have free: "first_clash routes = None" and p: "plan_routes p = routes"
    by (auto simp: plan_new_def split: option.splits)
  have free': "first_clash routes' = None" by (rule clash_free_perm [OF assms(2) free])
  have "selected_route \<lparr>plan_routes = routes', plan_allow = allow\<rparr> c d = selected_route p c d" for c d
    unfolding selected_route_def Let_def find_answering p egress_plan.simps answering_perm [OF assms(2) free] ..
  then show ?thesis using free free' answering_one [OF free] by (simp add: plan_new_def)
qed

definition sample_route :: "string \<Rightarrow> route_scope \<Rightarrow> plan_route" where
  "sample_route name scope = \<lparr>pr_scope = scope, pr_classes = [RemoteContent],
     pr_route = \<lparr>route_id = name, route_scheme = HttpConnect, route_host = ''proxy.example'', route_port = 3128,
       route_auth = None, allow_plaintext = False\<rparr>\<rparr>"

lemma route_choice_is_unique_witness:
  "\<exists>p'. plan_new [sample_route ''b'' (Domain ''a.example''), sample_route ''a'' Global] [] = Inr p'
     \<and> map_option route_id (selected_route p' RemoteContent (Some ''A.example.'')) = Some ''b''
     \<and> map_option route_id (selected_route p' RemoteContent None) = Some ''a''"
proof -
  let ?rs = "[sample_route ''a'' Global, sample_route ''b'' (Domain ''a.example'')]"
  let ?p = "\<lparr>plan_routes = ?rs, plan_allow = []\<rparr>"
  have p: "plan_new ?rs [] = Inr ?p"
    by (simp add: plan_new_def clash_def sample_route_def)
  have m: "mset [sample_route ''b'' (Domain ''a.example''), sample_route ''a'' Global] = mset ?rs" by simp
  have s: "map_option route_id (selected_route ?p RemoteContent (Some ''A.example.'')) = Some ''b''"
    "map_option route_id (selected_route ?p RemoteContent None) = Some ''a''" by code_simp+
  from route_choice_is_unique [OF p m] obtain p' where
    "plan_new [sample_route ''b'' (Domain ''a.example''), sample_route ''a'' Global] [] = Inr p'"
    "\<forall>c d. selected_route p' c d = selected_route ?p c d" by (elim exE conjE)
  with s show ?thesis by (intro exI [of _ p'] conjI) (simp_all only:)
qed

section \<open>Sending\<close>

text \<open>
  What a class may reach: what the strict policy admits, and for an eligible class also an
  address that is neither loopback, link-local nor metadata, if an entry of the allowlist
  lists it for this class and port.
\<close>

definition safe_target :: "egress_plan \<Rightarrow> traffic_class \<Rightarrow> ip_addr \<Rightarrow> 16 word \<Rightarrow> bool" where
  "safe_target p c ip port \<longleftrightarrow> keeps_out blocked4 blocked6 ip
     \<or> internal_allow_eligible c \<and> keeps_out reserved4 reserved6 ip
       \<and> (\<exists>e\<in>set (plan_allow p). entry_class e = c \<and> (\<exists>host. dest_matches (destination e) host port ip))"

definition public_target :: "ip_addr \<Rightarrow> 16 word \<Rightarrow> bool" where
  "public_target ip port \<longleftrightarrow> keeps_out blocked4 blocked6 ip"

definition contact_ok :: "egress_plan \<Rightarrow> request \<Rightarrow> event \<Rightarrow> bool" where
  "contact_ok p r = (case selected_route p (rq_class r) (rq_domain r) of
       None \<Rightarrow> pinned_to (safe_target p (rq_class r))
     | Some route \<Rightarrow> through route (tunnel_ok route
         (if rq_plugin r \<noteq> None then safe_target p (rq_class r) else public_target)))"

interpretation strict: gated strict_gate public_target
  by unfold_locales (simp add: strict_gate_def public_target_def ip_allowed_reference)

interpretation planned: gated "plan_admits p c" "safe_target p c" for p c
  by unfold_locales (auto simp: plan_admits_def permits_def safe_target_def ip_allowed_reference
      on_prem_reference list_ex_iff)

lemma send_routed_ok:
  assumes "selected_route p (rq_class r) (rq_domain r) = Some route"
  shows "fetch_ok (contact_ok p r) (hop_count (timed_of r)) (body_cap (outgoing_of r))
     (send_routed env lib p route u r s) s"
  using assms by (cases "timed_of r")
    (auto simp: contact_ok_def send_routed_def send_via_proxy_def send_via_proxy_timed_def Let_def
      intro: strict.via_proxy_ok planned.via_proxy_ok)

lemma send_unchecked_ok:
  "fetch_ok (contact_ok p r) (hop_count (timed_of r)) (body_cap (outgoing_of r))
     (send_unchecked env lib p u r s) s"
proof (cases "selected_route p (rq_class r) (rq_domain r)")
  case (Some route)
  obtain f s' where f: "send_routed env lib p route u r s = (f, s')" by fastforce
  show ?thesis using send_routed_ok [OF Some, of env lib u s]
    by (auto simp: send_unchecked_def Some f fetch_ok_def routed_def split: sum.splits)
next
  case None
  then show ?thesis using planned.direct_ok [of p "rq_class r" "timed_of r" "outgoing_of r" env lib u s]
    by (simp add: send_unchecked_def contact_ok_def)
qed

lemma events_record [simp]: "events (record_outcome env c res s) = events s"
  by (simp add: record_outcome_def Let_def)

lemma send_with_ok:
  "fetch_ok (contact_ok p r) (hop_count (timed_of r)) (body_cap (outgoing_of r)) (send_with env lib p u r s) s"
proof -
  obtain f s' where f: "(case send_checks p u r of Inl e \<Rightarrow> (refused False e, s)
    | Inr _ \<Rightarrow> send_unchecked env lib p u r s) = (f, s')" by fastforce
  have "fetch_ok (contact_ok p r) (hop_count (timed_of r)) (body_cap (outgoing_of r)) (f, s') s"
    unfolding f [symmetric] by (auto simp: refused_ok send_unchecked_ok split: sum.split)
  then show ?thesis by (simp add: send_with_def f fetch_ok_def goes_def)
qed


text \<open>C17: the reported \<open>traversed_proxy\<close> is a fact on success and on every error: it is true
  exactly when, during this send, a proxy accepted a tunnel.\<close>

theorem traversed_proxy_is_a_fact:
  "traversed_proxy (fst (send_with env lib p u r s)) \<longleftrightarrow>
     list_ex accepted (drop (length (events s)) (events (snd (send_with env lib p u r s))))"
  using send_with_ok [of p r env lib u s] by (auto simp: fetch_ok_def goes_def)

end
