(* ===== verification/Transport_Sts.thy ===== *)
theory Transport_Sts
  imports Rust_Str Rust_Net
begin

text \<open>
  Policies for the next SMTP hop: the configuration and its names
  (\<open>crates/mw-mail-transport/src/lib.rs\<close>) and MTA-STS policies, their text, their match and
  the lifetime of a cached one (\<open>sts.rs\<close>).
\<close>

section \<open>Configuration\<close>

datatype dane_mode = DaneOff | DaneOpportunistic | DaneRequired
datatype sts_mode = StsOff | StsAuto | StsRequired

record transport_config =
  dane :: dane_mode
  mta_sts :: sts_mode
  policy_domain :: "string option"

datatype policy_error =
    PConfiguration | PDns | PDnssec | PDaneRequired | PTlsa | PSts | PMxMismatch | PStsRequired
  | PTlsRequired | PCache | PTimeout

definition bad_label :: "string \<Rightarrow> bool" where
  "bad_label l \<longleftrightarrow> l = [] \<or> 63 < length l \<or> prefix ''-'' l \<or> suffix ''-'' l
     \<or> \<not> list_all (\<lambda>b. is_alnum b \<or> b = CHR ''-'') l"

definition normalize_domain :: "string \<Rightarrow> policy_error + string" where
  "normalize_domain input = (let domain = (case strip_suffix ''.'' input of Some d \<Rightarrow> d | None \<Rightarrow> input) in
     if domain = [] \<or> 253 < length domain \<or> parse_ip domain \<noteq> None
        \<or> list_ex bad_label (split_on (CHR ''.'') domain)
     then Inl PConfiguration else Inr (to_lower domain))"

definition config_enabled :: "transport_config \<Rightarrow> bool" where
  "config_enabled c \<longleftrightarrow> dane c \<noteq> DaneOff \<or> mta_sts c \<noteq> StsOff"

definition config_validate :: "transport_config \<Rightarrow> policy_error + unit" where
  "config_validate c =
    (if mta_sts c \<noteq> StsOff \<and> policy_domain c = None then Inl PConfiguration
     else case policy_domain c of
       Some d \<Rightarrow> rbind (normalize_domain d) (\<lambda>_. Inr ())
     | None \<Rightarrow> Inr ())"

section \<open>MTA-STS policies\<close>

datatype sts_policy_mode = Enforce | Testing | NoPolicy

record sts_policy =
  p_mode :: sts_policy_mode
  p_mx :: "string list"
  p_max_age :: nat

definition MAX_POLICY_BYTES :: nat where "MAX_POLICY_BYTES = 65536"
definition MAX_AGE :: nat where "MAX_AGE = 31557600"

text \<open>The \<open>u64\<close> operations: addition saturates at \<open>u64::MAX\<close>, subtraction of naturals at 0.\<close>

definition U64_MAX :: nat where "U64_MAX = 2 ^ 64 - 1"

definition sat_add :: "nat \<Rightarrow> nat \<Rightarrow> nat" where
  "sat_add a b = min (a + b) U64_MAX"

text \<open>\<open>trim_matches([' ', '\t'])\<close>.\<close>

definition trim_blank :: "string \<Rightarrow> string" where
  "trim_blank s = trim_end_bytes {SP, TAB} (trim_start_bytes {SP, TAB} s)"

record parsing =
  seen_version :: bool
  seen_mode :: "sts_policy_mode option"
  seen_age :: "nat option"
  seen_mx :: "string list"

definition mode_of :: "string \<Rightarrow> sts_policy_mode option" where
  "mode_of v = (if v = ''enforce'' then Some Enforce else if v = ''testing'' then Some Testing
     else if v = ''none'' then Some NoPolicy else None)"

definition mx_of :: "string \<Rightarrow> policy_error + string" where
  "mx_of v = (case normalize_domain (case strip_prefix ''*.'' v of Some s \<Rightarrow> s | None \<Rightarrow> v) of
     Inl _ \<Rightarrow> Inl PSts
   | Inr name \<Rightarrow> Inr (if prefix ''*.'' v then ''*.'' @ name else name))"

definition unknown_key_ok :: "string \<Rightarrow> bool" where
  "unknown_key_ok k \<longleftrightarrow> k \<noteq> [] \<and> length k \<le> 32 \<and> is_alnum (hd k)
     \<and> list_all (\<lambda>b. is_alnum b \<or> b \<in> {CHR ''_'', CHR ''-'', CHR ''.''}) k"

definition sts_field :: "string \<Rightarrow> string \<Rightarrow> parsing \<Rightarrow> policy_error + parsing" where
  "sts_field key v a =
    (if key = ''version'' then
       (if seen_version a \<or> v \<noteq> ''STSv1'' then Inl PSts else Inr (a\<lparr>seen_version := True\<rparr>))
     else if key = ''mode'' then
       (case (seen_mode a, mode_of v) of (None, Some m) \<Rightarrow> Inr (a\<lparr>seen_mode := Some m\<rparr>) | _ \<Rightarrow> Inl PSts)
     else if key = ''max_age'' then
       (if seen_age a \<noteq> None \<or> 10 < length v \<or> \<not> list_all is_digit v then Inl PSts
        else case parse_uint U64_MAX v of
            None \<Rightarrow> Inl PSts
          | Some n \<Rightarrow> if MAX_AGE < n then Inl PSts else Inr (a\<lparr>seen_age := Some n\<rparr>))
     else if key = ''mx'' then
       (if 256 \<le> length (seen_mx a) then Inl PSts
        else rbind (mx_of v) (\<lambda>n. Inr (a\<lparr>seen_mx := seen_mx a @ [n]\<rparr>)))
     else if unknown_key_ok key then Inr a else Inl PSts)"

definition sts_line :: "string \<Rightarrow> parsing \<Rightarrow> policy_error + parsing" where
  "sts_line line a =
    (if line = [] then Inl PSts
     else case split_once (CHR '':'') line of
       None \<Rightarrow> Inl PSts
     | Some (key, v) \<Rightarrow>
        let v = trim_blank v in
        if v = [] \<or> list_ex is_control (utf8_chars v) then Inl PSts else sts_field key v a)"

definition sts_parse :: "string \<Rightarrow> policy_error + sts_policy" where
  "sts_parse bytes =
    (if MAX_POLICY_BYTES < length bytes \<or> \<not> valid_utf8 bytes then Inl PSts
     else rbind (rfold sts_line (str_lines bytes)
         \<lparr>seen_version = False, seen_mode = None, seen_age = None, seen_mx = []\<rparr>) (\<lambda>a.
       if \<not> seen_version a then Inl PSts
       else case seen_mode a of
         None \<Rightarrow> Inl PSts
       | Some m \<Rightarrow>
           if m \<noteq> NoPolicy \<and> seen_mx a = [] then Inl PSts
           else (case seen_age a of
               None \<Rightarrow> Inl PSts
             | Some n \<Rightarrow> Inr \<lparr>p_mode = m, p_mx = seen_mx a, p_max_age = n\<rparr>)))"

definition sts_matches :: "sts_policy \<Rightarrow> string \<Rightarrow> bool" where
  "sts_matches p host = (case normalize_domain host of
     Inl _ \<Rightarrow> False
   | Inr host \<Rightarrow> list_ex (\<lambda>pat. case strip_prefix ''*.'' pat of
        Some sfx \<Rightarrow> (case split_once (CHR ''.'') host of
            Some (l, rest) \<Rightarrow> l \<noteq> [] \<and> rest = sfx | None \<Rightarrow> False)
      | None \<Rightarrow> host = pat) (p_mx p))"

section \<open>Cached policies\<close>

record cached_sts =
  c_id :: string
  c_policy :: sts_policy
  fetched_at :: nat
  expires_at :: nat

definition pattern_ok :: "string \<Rightarrow> bool" where
  "pattern_ok n \<longleftrightarrow> (case normalize_domain (case strip_prefix ''*.'' n of Some s \<Rightarrow> s | None \<Rightarrow> n) of
     Inr _ \<Rightarrow> True | Inl _ \<Rightarrow> False)"

definition id_ok :: "string \<Rightarrow> bool" where
  "id_ok i \<longleftrightarrow> i \<noteq> [] \<and> length i \<le> 32 \<and> list_all is_alnum i"

definition valid_at :: "cached_sts \<Rightarrow> nat \<Rightarrow> bool" where
  "valid_at c now \<longleftrightarrow> fetched_at c \<le> now \<and> now < expires_at c \<and> p_max_age (c_policy c) \<le> MAX_AGE
     \<and> expires_at c = sat_add (fetched_at c) (p_max_age (c_policy c)) \<and> id_ok (c_id c)
     \<and> length (p_mx (c_policy c)) \<le> 256
     \<and> (p_mode (c_policy c) = NoPolicy \<or> p_mx (c_policy c) \<noteq> [])
     \<and> list_all pattern_ok (p_mx (c_policy c))"

section \<open>Discovery\<close>

definition field_name_ok :: "string \<Rightarrow> bool" where
  "field_name_ok n \<longleftrightarrow> n \<noteq> [] \<and> list_all (\<lambda>b. is_alnum b \<or> b = CHR ''-'') n"

definition id_field :: "string \<Rightarrow> string option \<Rightarrow> policy_error + string option" where
  "id_field field i = (let f = trim_blank field in
     if f = [] then Inr i
     else case split_once (CHR ''='') f of
       None \<Rightarrow> Inl PSts
     | Some (name, v) \<Rightarrow>
         if name = ''id'' then (if i \<noteq> None \<or> \<not> id_ok v then Inl PSts else Inr (Some v))
         else if \<not> field_name_ok name \<or> list_ex is_control (utf8_chars v) then Inl PSts
         else Inr i)"

definition id_record :: "string \<Rightarrow> string option \<Rightarrow> policy_error + string option" where
  "id_record r found =
    (if \<not> prefix ''v=STSv1'' r then Inr found
     else if found \<noteq> None then Inl PSts
     else case split_on (CHR '';'') r of
       [] \<Rightarrow> Inl PSts
     | v # fs \<Rightarrow>
         if v \<noteq> ''v=STSv1'' then Inl PSts
         else rbind (rfold id_field fs None) (\<lambda>i.
           case i of None \<Rightarrow> Inl PSts | Some i \<Rightarrow> Inr (Some i)))"

definition discovery_id :: "string list \<Rightarrow> policy_error + string option" where
  "discovery_id records = rfold id_record records None"

end
