(* ===== verification/Transport_Dane.thy ===== *)
theory Transport_Dane
  imports Transport_Sts Egress_Send
begin

text \<open>
  DANE for the next SMTP hop: which TLSA records apply (\<open>crates/mw-mail-transport/src/dns.rs\<close>)
  and what certificate they accept (\<open>tlsa.rs\<close>). The DNSSEC-validating resolver is an argument
  of the definitions; hashes and certificate chains are the record \<open>pki\<close>.
\<close>

section \<open>TLSA records\<close>

record tlsa =
  cert_usage :: nat
  selector :: nat
  matching :: nat
  cert_data :: string

definition usable :: "tlsa \<Rightarrow> bool" where
  "usable t \<longleftrightarrow> cert_usage t \<in> {2, 3} \<and> selector t \<in> {0, 1}
     \<and> (if matching t = 0 then cert_data t \<noteq> [] \<and> length (cert_data t) \<le> 16384
        else if matching t = 1 then length (cert_data t) = 32
        else if matching t = 2 then length (cert_data t) = 64
        else False)"

record ('n, 'time) pki =
  spki :: "string \<Rightarrow> string option"
  sha256 :: "string \<Rightarrow> string"
  sha512 :: "string \<Rightarrow> string"
  name_of :: "string \<Rightarrow> 'n option"
  trusted :: "string \<Rightarrow> bool"
  anchor_builds :: "string \<Rightarrow> bool"
  chain_ok :: "string \<Rightarrow> string \<Rightarrow> string list \<Rightarrow> 'n \<Rightarrow> string \<Rightarrow> 'time \<Rightarrow> bool"
  webpki_ok :: "string \<Rightarrow> string list \<Rightarrow> 'n \<Rightarrow> string \<Rightarrow> 'time \<Rightarrow> bool"

definition tlsa_matches :: "('n, 'time, 'm) pki_scheme \<Rightarrow> tlsa \<Rightarrow> string \<Rightarrow> bool" where
  "tlsa_matches k t cert =
    (if \<not> usable t then False
     else case (if selector t = 0 then Some cert else if selector t = 1 then spki k cert else None) of
       None \<Rightarrow> False
     | Some sel \<Rightarrow>
         if matching t = 0 then sel = cert_data t
         else if matching t = 1 then sha256 k sel = cert_data t
         else if matching t = 2 then sha512 k sel = cert_data t
         else False)"

text \<open>\<open>DaneVerifier::new\<close> keeps the usable records, dropping SHA-256 where SHA-512 is published.\<close>

definition verifier_records :: "tlsa list \<Rightarrow> tlsa list" where
  "verifier_records ts = filter (\<lambda>r. usable r \<and> (matching r \<noteq> 1
     \<or> \<not> list_ex (\<lambda>x. usable x \<and> cert_usage x = cert_usage r \<and> selector x = selector r \<and> matching x = 2) ts)) ts"

definition anchors :: "('n, 'time, 'm) pki_scheme \<Rightarrow> tlsa \<Rightarrow> string list \<Rightarrow> string list" where
  "anchors k r chain = filter (tlsa_matches k r) chain
     @ (if selector r = 0 \<and> matching r = 0 then [cert_data r] else [])"

definition verify_dane ::
  "('n, 'time, 'm) pki_scheme \<Rightarrow> tlsa list \<Rightarrow> string option \<Rightarrow> string \<Rightarrow> string list \<Rightarrow> 'n \<Rightarrow> string \<Rightarrow> 'time \<Rightarrow> bool" where
  "verify_dane k rs dane_name ee chain server ocsp now =
    (if list_ex (\<lambda>t. cert_usage t = 3 \<and> tlsa_matches k t ee) rs then True
     else let name = (case dane_name of
           Some n \<Rightarrow> (case name_of k (trim_end_bytes {CHR ''.''} n) of Some x \<Rightarrow> x | None \<Rightarrow> server)
         | None \<Rightarrow> server) in
       list_ex (\<lambda>r. list_ex (\<lambda>a. trusted k a \<and> anchor_builds k a \<and> chain_ok k a ee chain name ocsp now)
           (anchors k r chain))
         (filter (\<lambda>t. cert_usage t = 2 \<and> usable t) rs))"

definition verify_server_cert ::
  "('n, 'time, 'm) pki_scheme \<Rightarrow> tlsa list \<Rightarrow> string option \<Rightarrow> string \<Rightarrow> string list \<Rightarrow> 'n \<Rightarrow> string \<Rightarrow> 'time \<Rightarrow> bool" where
  "verify_server_cert k rs dane_name ee chain server ocsp now =
    (if rs = [] then webpki_ok k ee chain server ocsp now
     else verify_dane k rs dane_name ee chain server ocsp now)"

section \<open>Lookups\<close>

datatype rr_type = TypeA | TypeAAAA | TypeTLSA | TypeTXT
datatype proof_state = Secure | Insecure | Bogus | Indeterminate
datatype rdata = DataA | DataAAAA | DataCname string | DataTlsa tlsa | DataTxt "string list" | DataOther
datatype rcode = NoError | NXDomain | OtherCode

record dns_record =
  rr_name :: string
  rr_proof :: proof_state
  rr_data :: rdata

record dns_response =
  rcode :: rcode
  answers :: "dns_record list"

text \<open>
  The resolver: whether a text is a name, whether two names are equal, and the validated
  answer to a question (\<open>None\<close>: none came; \<open>Inl\<close>: validation or transport failed).
\<close>

record 'w dns =
  name_ok :: "string \<Rightarrow> bool"
  same_name :: "string \<Rightarrow> string \<Rightarrow> bool"
  ask :: "string \<Rightarrow> rr_type \<Rightarrow> 'w \<Rightarrow> (unit + dns_response) option \<times> 'w"

type_synonym ('w, 'a) dio = "'w \<Rightarrow> (policy_error + 'a) \<times> 'w"

definition query :: "'w dns \<Rightarrow> string \<Rightarrow> rr_type \<Rightarrow> ('w, dns_response) dio" where
  "query d name t w = (if \<not> name_ok d name then (Inl PDns, w)
     else case ask d name t w of
       (None, w') \<Rightarrow> (Inl PDns, w')
     | (Some (Inl _), w') \<Rightarrow> (Inl PDnssec, w')
     | (Some (Inr r), w') \<Rightarrow> (Inr r, w'))"

definition txt_records :: "'w dns \<Rightarrow> string \<Rightarrow> ('w, string list) dio" where
  "txt_records d name = io_bind (query d name TypeTXT) (\<lambda>r.
     if rcode r = OtherCode then io_lift (Inl PDns)
     else io_lift (rfold (\<lambda>a acc. case rr_data a of
         DataTxt parts \<Rightarrow> (if valid_utf8 (concat parts) then Inr (acc @ [concat parts]) else Inl PDns)
       | _ \<Rightarrow> Inr acc) (answers r) []))"

text \<open>
  What a validated answer says of a name: an alias, the records of the type asked for (under
  \<open>wanted\<close>), or that its records are unsigned.
\<close>

datatype 'a reading = Unsigned | Alias string | Holds 'a

fun is_cname :: "rdata \<Rightarrow> bool" where "is_cname (DataCname n) = True" | "is_cname _ = False"

definition owned :: "'w dns \<Rightarrow> string \<Rightarrow> (rdata \<Rightarrow> bool) \<Rightarrow> dns_response \<Rightarrow> dns_record list" where
  "owned d name wanted r = filter (\<lambda>a. same_name d (rr_name a) name
     \<and> (wanted (rr_data a) \<or> is_cname (rr_data a))) (answers r)"

fun alias_of :: "dns_record list \<Rightarrow> string option" where
  "alias_of [] = None"
| "alias_of (a # as) = (case rr_data a of DataCname n \<Rightarrow> Some n | _ \<Rightarrow> alias_of as)"

definition reading_of :: "dns_record list \<Rightarrow> policy_error + dns_record list reading" where
  "reading_of rs = (if list_ex (\<lambda>a. rr_proof a \<in> {Bogus, Indeterminate}) rs then Inl PDnssec
     else if list_ex (\<lambda>a. rr_proof a = Insecure) rs then Inr Unsigned
     else case alias_of rs of Some n \<Rightarrow> Inr (Alias n) | None \<Rightarrow> Inr (Holds rs))"

fun is_A :: "rdata \<Rightarrow> bool" where "is_A DataA = True" | "is_A _ = False"
fun is_AAAA :: "rdata \<Rightarrow> bool" where "is_AAAA DataAAAA = True" | "is_AAAA _ = False"
fun tlsa_of :: "rdata \<Rightarrow> tlsa option" where "tlsa_of (DataTlsa t) = Some t" | "tlsa_of _ = None"

text \<open>The loops follow at most 8 names; \<open>n\<close> counts the turns that are left.\<close>

fun address_base_loop :: "'w dns \<Rightarrow> nat \<Rightarrow> string \<Rightarrow> ('w, string option) dio" where
  "address_base_loop d 0 name = io_lift (Inl PDnssec)"
| "address_base_loop d (Suc n) name =
    io_bind (query d name TypeA) (\<lambda>r.
    if rcode r = OtherCode then io_lift (Inl PDns)
    else if \<not> name_ok d name then io_lift (Inl PDns)
    else io_bind (io_lift (reading_of (owned d name is_A r))) (\<lambda>q. case q of
        Unsigned \<Rightarrow> io_lift (Inr None)
      | Alias a \<Rightarrow> address_base_loop d n a
      | Holds rs \<Rightarrow>
          if list_ex (\<lambda>a. is_A (rr_data a)) rs then io_lift (Inr (Some name))
          else io_bind (query d name TypeAAAA) (\<lambda>r.
            io_bind (io_lift (reading_of (owned d name is_AAAA r))) (\<lambda>q. case q of
              Unsigned \<Rightarrow> io_lift (Inr None)
            | Alias a \<Rightarrow> address_base_loop d n a
            | Holds rs \<Rightarrow> io_lift (if list_ex (\<lambda>a. is_AAAA (rr_data a)) rs then Inr (Some name)
                else Inl PDns)))))"

definition address_base :: "'w dns \<Rightarrow> string \<Rightarrow> ('w, string option) dio" where
  "address_base d host = address_base_loop d 8 host"

fun tlsa_loop :: "'w dns \<Rightarrow> nat \<Rightarrow> string \<Rightarrow> ('w, tlsa list) dio" where
  "tlsa_loop d 0 name = io_lift (Inl PDnssec)"
| "tlsa_loop d (Suc n) name =
    io_bind (query d name TypeTLSA) (\<lambda>r.
    if rcode r = OtherCode then io_lift (Inl PDns)
    else if \<not> name_ok d name then io_lift (Inl PDns)
    else io_bind (io_lift (reading_of (owned d name (\<lambda>x. tlsa_of x \<noteq> None) r))) (\<lambda>q. case q of
        Unsigned \<Rightarrow> io_lift (Inr [])
      | Alias a \<Rightarrow> tlsa_loop d n a
      | Holds rs \<Rightarrow>
          if rs = [] \<and> answers r \<noteq> [] then io_lift (Inl PDnssec)
          else io_lift (Inr (List.map_filter (\<lambda>a. tlsa_of (rr_data a)) rs))))"

definition tlsa_at :: "'w dns \<Rightarrow> string \<Rightarrow> ('w, tlsa list) dio" where
  "tlsa_at d owner = tlsa_loop d 8 owner"

record dane_records =
  d_records :: "tlsa list"
  d_base :: "string option"

definition tlsa_owner :: "16 word \<Rightarrow> string \<Rightarrow> string" where
  "tlsa_owner port base = ''_'' @ dec_str (unat port) @ ''._tcp.'' @ base"

definition find_dane :: "'w dns \<Rightarrow> string \<Rightarrow> 16 word \<Rightarrow> ('w, dane_records) dio" where
  "find_dane d host port =
    io_bind (address_base d host) (\<lambda>base. case base of
      None \<Rightarrow> io_lift (Inr \<lparr>d_records = [], d_base = None\<rparr>)
    | Some base \<Rightarrow>
        io_bind (tlsa_at d (tlsa_owner port base)) (\<lambda>rs.
        if rs \<noteq> [] \<or> eq_nocase (trim_end_bytes {CHR ''.''} base) host
        then io_lift (Inr \<lparr>d_records = rs, d_base = Some base\<rparr>)
        else io_bind (tlsa_at d (tlsa_owner port host)) (\<lambda>rs.
          io_lift (Inr \<lparr>d_records = rs, d_base = Some host\<rparr>))))"

end
