(* ===== verification/Transport_Service.thy ===== *)
theory Transport_Service
  imports Transport_Dane Egress_Proxy "HOL-Library.AList"
begin

text \<open>
  The decision for the next SMTP hop (\<open>crates/mw-mail-transport/src/service.rs\<close>): DANE
  first, else MTA-STS with its cached policies and their refresh. What the service asks of
  the network, the cache and the clock is the record \<open>policy_io\<close>; each answer may change the
  world in any way, so the work of other processes between two steps is included. The calls of
  one process run one after another on its table of refresh states. The deadline of
  \<open>prepare\<close> may pass during each awaited call: what the call did stays done, and nothing
  after it runs.
\<close>

section \<open>State\<close>

record policy_context =
  doh_url :: string
  egress_domain :: "string option"
  cache_namespace :: string

record transport_decision =
  d_tlsa :: "tlsa list"
  sts_enforce :: bool
  dane_tls :: bool
  dane_name :: "string option"

definition no_decision :: transport_decision where
  "no_decision = \<lparr>d_tlsa = [], sts_enforce = False, dane_tls = False, dane_name = None\<rparr>"

definition requires_tls :: "transport_decision \<Rightarrow> bool" where
  "requires_tls d \<longleftrightarrow> sts_enforce d \<or> dane_tls d"

definition has_dane :: "transport_decision \<Rightarrow> bool" where
  "has_dane d \<longleftrightarrow> d_tlsa d \<noteq> []"

record refresh_state =
  last_attempt :: nat
  last_id :: "string option"
  last_warning :: "nat option"

definition fresh_state :: refresh_state where
  "fresh_state = \<lparr>last_attempt = 0, last_id = None, last_warning = None\<rparr>"

text \<open>The refresh states of this process by cache key.\<close>

record 'w pnet =
  outer :: 'w
  refreshes :: "(string \<times> refresh_state) list"

type_synonym ('w, 'a) sio = "'w pnet \<Rightarrow> (policy_error + 'a) \<times> 'w pnet"

record 'w policy_io =
  io_txt :: "string \<Rightarrow> 'w \<Rightarrow> (policy_error + string list) \<times> 'w"
  io_fetch :: "string \<Rightarrow> 'w \<Rightarrow> (policy_error + sts_policy) \<times> 'w"
  io_dane :: "string \<Rightarrow> 16 word \<Rightarrow> 'w \<Rightarrow> (policy_error + dane_records) \<times> 'w"
  io_load :: "string \<Rightarrow> 'w \<Rightarrow> (policy_error + cached_sts option) \<times> 'w"
  io_store :: "string \<Rightarrow> cached_sts \<Rightarrow> 'w \<Rightarrow> (policy_error + unit) \<times> 'w"
  io_permit :: "'w \<Rightarrow> (policy_error + unit) \<times> 'w"
  in_use :: "'w \<Rightarrow> string \<Rightarrow> bool"
  unix_time :: "'w \<Rightarrow> nat option"
  overdue :: "'w \<Rightarrow> bool"
  digest :: "string \<Rightarrow> string"

definition await :: "('w, 'm) policy_io_scheme \<Rightarrow> ('w \<Rightarrow> 'a \<times> 'w) \<Rightarrow> ('w, 'a) sio" where
  "await io f s = (case f (outer s) of (r, w) \<Rightarrow>
     (if overdue io w then Inl PTimeout else Inr r, s\<lparr>outer := w\<rparr>))"

definition outside_call :: "('w, 'm) policy_io_scheme \<Rightarrow> ('w \<Rightarrow> (policy_error + 'a) \<times> 'w) \<Rightarrow> ('w, 'a) sio" where
  "outside_call io f = io_bind (await io f) io_lift"

section \<open>The cache\<close>

text \<open>
  What \<open>StsCache\<close> asks of an implementation: a store replaces the entry of its own slot or
  leaves it, never by an older fetch, and keeps every other entry until it expires; nothing
  else than what is in the slot is loaded. \<open>clock\<close> is the time of a store.
\<close>

locale policy_cache =
  fixes load :: "'l \<Rightarrow> string \<Rightarrow> 't \<Rightarrow> policy_error + cached_sts option"
    and store :: "'e \<Rightarrow> string \<Rightarrow> cached_sts \<Rightarrow> 't \<Rightarrow> (policy_error + unit) \<times> 't"
    and entry :: "'t \<Rightarrow> string \<Rightarrow> cached_sts option"
    and slot :: "string \<Rightarrow> string"
    and clock :: "'e \<Rightarrow> nat"
    and good :: "'t \<Rightarrow> bool"
  assumes load_entry: "good t \<Longrightarrow> load l k t = Inr x \<Longrightarrow> x = entry t (slot k)"
    and store_good: "good t \<Longrightarrow> good (snd (store e k v t))"
    and store_other: "good t \<Longrightarrow> q \<noteq> slot k \<Longrightarrow> entry t q = Some c \<Longrightarrow> clock e < expires_at c
      \<Longrightarrow> entry (snd (store e k v t)) q = Some c"
    and store_newer: "good t \<Longrightarrow> entry t (slot k) = Some c \<Longrightarrow> fetched_at v \<le> fetched_at c
      \<Longrightarrow> entry (snd (store e k v t)) (slot k) = Some c"
    and store_own: "good t \<Longrightarrow> entry (snd (store e k v t)) (slot k) \<in> {entry t (slot k), Some v}"
    and store_done: "good t \<Longrightarrow> fst (store e k v t) = Inr () \<Longrightarrow>
      \<exists>c. entry (snd (store e k v t)) (slot k) = Some c \<and> (c = v \<or> fetched_at v \<le> fetched_at c)"
begin

lemma store_keeps:
  assumes "good t" "entry t q = Some c" "clock e < expires_at c" "slot k = q \<longrightarrow> fetched_at v \<le> fetched_at c"
  shows "entry (snd (store e k v t)) q = Some c"
  using assms store_other store_newer by (cases "slot k = q") auto

text \<open>
  While the clock is before \<open>M\<close> and what is published for a slot lasts until \<open>M\<close> (or is
  no newer than the entry), the entry stays or is replaced by one fetched later.
\<close>

lemma run_newer:
  assumes "good t" "entry t q = Some c" "M \<le> expires_at c"
    "\<forall>(e, k, v) \<in> set ops. clock e < M \<and> (slot k = q \<longrightarrow> M \<le> expires_at v \<or> fetched_at v \<le> fetched_at c)"
  shows "\<exists>c'. entry (foldl (\<lambda>t (e, k, v). snd (store e k v t)) t ops) q = Some c' \<and> (c' = c
    \<or> fetched_at c < fetched_at c' \<and> (\<exists>e k. (e, k, c') \<in> set ops \<and> slot k = q))"
  using assms
proof (induction ops arbitrary: t c)
  case (Cons a ops)
  obtain e k v where a: "a = (e, k, v)" by (cases a)
  let ?t = "snd (store e k v t)" and ?pub = "\<lambda>ops. {v. \<exists>e k. (e, k, v) \<in> set ops \<and> slot k = q}"
  have good: "good ?t" by (rule store_good [OF Cons.prems(1)])
  have sub: "?pub ops \<subseteq> ?pub (a # ops)" by auto
  obtain c1 where c1: "entry ?t q = Some c1" "M \<le> expires_at c1"
    "c1 = c \<or> fetched_at c < fetched_at c1 \<and> c1 \<in> ?pub (a # ops)"
  proof (cases "slot k = q \<and> fetched_at c < fetched_at v")
    case True
    then have "entry ?t q \<in> {Some c, Some v}"
      using store_own [OF Cons.prems(1), of e k v] Cons.prems(2) by auto
    moreover have "v \<in> ?pub (a # ops)" "M \<le> expires_at v"
      using True Cons.prems(4) a by auto
    ultimately show ?thesis using True Cons.prems(3) that by auto
  next
    case False
    then have "entry ?t q = Some c"
      using Cons.prems a by (intro store_keeps) auto
    then show ?thesis using that Cons.prems(3) by auto
  qed
  have "\<forall>(e, k, v) \<in> set ops. clock e < M \<and> (slot k = q \<longrightarrow> M \<le> expires_at v \<or> fetched_at v \<le> fetched_at c1)"
    using Cons.prems(4) c1(3) by fastforce
  from Cons.IH [OF good c1(1,2) this] obtain c' where
    "entry (foldl (\<lambda>t (e, k, v). snd (store e k v t)) ?t ops) q = Some c'"
    "c' = c1 \<or> fetched_at c1 < fetched_at c' \<and> c' \<in> ?pub ops"
    by auto
  then show ?case using c1(3) sub a by (intro exI [of _ c']) auto
qed auto

end

section \<open>Refresh states\<close>

definition LOCK_LIMIT :: nat where "LOCK_LIMIT = 1024"

definition refresh_lock :: "('w, 'm) policy_io_scheme \<Rightarrow> string \<Rightarrow> ('w, refresh_state) sio" where
  "refresh_lock io key s = (case map_of (refreshes s) key of
       Some st \<Rightarrow> (Inr st, s)
     | None \<Rightarrow>
        let kept = (if LOCK_LIMIT \<le> length (refreshes s)
          then filter (\<lambda>(k, _). in_use io (outer s) k) (refreshes s) else refreshes s) in
        if LOCK_LIMIT \<le> length kept then (Inl PCache, s\<lparr>refreshes := kept\<rparr>)
        else (Inr fresh_state, s\<lparr>refreshes := kept @ [(key, fresh_state)]\<rparr>))"

definition put_state :: "string \<Rightarrow> refresh_state \<Rightarrow> ('w, unit) sio" where
  "put_state key st s = (Inr (), s\<lparr>refreshes := AList.update key st (refreshes s)\<rparr>)"

section \<open>The MTA-STS policy in force\<close>

definition hex2 :: "char \<Rightarrow> string" where
  "hex2 b = [hex_char (byte b div 16), hex_char (byte b mod 16)]"

definition cache_key :: "('w, 'm) policy_io_scheme \<Rightarrow> policy_context \<Rightarrow> string \<Rightarrow> string" where
  "cache_key io c domain = concat (map hex2 (digest io (cache_namespace c @ [CHR 0x00]
     @ (case egress_domain c of Some d \<Rightarrow> d | None \<Rightarrow> []) @ [CHR 0x00] @ domain)))"

text \<open>A day after its fetch, the id of a policy that was valid is asked for again.\<close>

definition refresh_id :: "cached_sts option \<Rightarrow> nat \<Rightarrow> string option" where
  "refresh_id cached now = (case cached of
       Some p \<Rightarrow> if fetched_at p \<le> now \<and> valid_at p (fetched_at p) \<and> 86400 \<le> now - fetched_at p
         then Some (c_id p) else None
     | None \<Rightarrow> None)"

definition live :: "cached_sts option \<Rightarrow> nat \<Rightarrow> cached_sts option" where
  "live cached now = (case cached of Some p \<Rightarrow> if valid_at p now then Some p else None | None \<Rightarrow> None)"

definition current_id :: "policy_error + string list \<Rightarrow> string option \<Rightarrow> string option" where
  "current_id records refresh = (case rbind records discovery_id of
       Inr (Some i) \<Rightarrow> Some i | _ \<Rightarrow> refresh)"

text \<open>After an HTTPS fetch: storing the policy and reading back what the cache decided.\<close>

definition adopt :: "('w, 'm) policy_io_scheme \<Rightarrow> string \<Rightarrow> cached_sts \<Rightarrow> nat \<Rightarrow> ('w, sts_policy option) sio" where
  "adopt io key v now =
    io_bind (outside_call io (io_store io key v)) (\<lambda>_.
    io_bind (outside_call io (io_load io key)) (\<lambda>auth. case auth of
      None \<Rightarrow> io_lift (Inl PCache)
    | Some a \<Rightarrow> if a \<noteq> v \<and> \<not> valid_at a now then io_lift (Inl PCache)
        else io_lift (Inr (Some (c_policy a)))))"

definition after_failure :: "string \<Rightarrow> refresh_state \<Rightarrow> cached_sts option \<Rightarrow> nat \<Rightarrow> ('w, sts_policy option) sio" where
  "after_failure key st cached now =
    (let warn = (case cached of Some p \<Rightarrow> p_mode (c_policy p) = Enforce | None \<Rightarrow> False)
         \<and> (case last_warning st of Some l \<Rightarrow> 300 \<le> now - l | None \<Rightarrow> True) in
     io_bind (put_state key (if warn then st\<lparr>last_warning := Some now\<rparr> else st)) (\<lambda>_.
     io_lift (Inr (map_option c_policy cached))))"

text \<open>With the id of the current policy: nothing to do, too early to retry, or a fetch.\<close>

definition sts_refresh ::
  "('w, 'm) policy_io_scheme \<Rightarrow> string \<Rightarrow> string \<Rightarrow> refresh_state \<Rightarrow> cached_sts option \<Rightarrow> nat \<Rightarrow> string \<Rightarrow> ('w, sts_policy option) sio" where
  "sts_refresh io key domain st cached now i =
    (if (case cached of Some v \<Rightarrow> c_id v = i \<and> now - fetched_at v < 86400 | None \<Rightarrow> False)
     then io_lift (Inr (map_option c_policy cached))
     else if last_id st = Some i \<and> now - last_attempt st < 300
     then io_lift (Inr (map_option c_policy cached))
     else
       let st = st\<lparr>last_attempt := now, last_id := Some i\<rparr> in
       io_bind (put_state key st) (\<lambda>_.
       io_bind (await io (io_fetch io domain)) (\<lambda>fetched. case fetched of
           Inr policy \<Rightarrow> adopt io key \<lparr>c_id = i, c_policy = policy, fetched_at = now,
               expires_at = sat_add now (p_max_age policy)\<rparr> now
         | Inl _ \<Rightarrow> after_failure key st cached now)))"

text \<open>What \<open>sts\<close> does with the entry it loaded and the refresh state it holds.\<close>

definition sts_loaded ::
  "('w, 'm) policy_io_scheme \<Rightarrow> string \<Rightarrow> string \<Rightarrow> refresh_state \<Rightarrow> cached_sts option \<Rightarrow> nat \<Rightarrow> ('w, sts_policy option) sio" where
  "sts_loaded io key domain st loaded now =
    (if (case loaded of Some p \<Rightarrow> now < expires_at p \<and> \<not> valid_at p now | None \<Rightarrow> False)
     then io_lift (Inl PCache)
     else io_bind (await io (io_txt io (''_mta-sts.'' @ domain))) (\<lambda>records.
       case current_id records (refresh_id loaded now) of
         None \<Rightarrow> io_lift (Inr (map_option c_policy (live loaded now)))
       | Some i \<Rightarrow> sts_refresh io key domain st (live loaded now) now i))"

definition sts :: "('w, 'm) policy_io_scheme \<Rightarrow> transport_config \<Rightarrow> policy_context \<Rightarrow> nat \<Rightarrow> ('w, sts_policy option) sio" where
  "sts io cfg c now =
    io_bind (io_lift (rbind (ok_or (policy_domain cfg) PConfiguration) normalize_domain)) (\<lambda>domain.
    let key = cache_key io c domain in
    io_bind (refresh_lock io key) (\<lambda>st.
    io_bind (outside_call io (io_load io key)) (\<lambda>loaded.
    sts_loaded io key domain st loaded now)))"

section \<open>Preparing a connection\<close>

definition dane_step ::
  "('w, 'm) policy_io_scheme \<Rightarrow> transport_config \<Rightarrow> string \<Rightarrow> 16 word \<Rightarrow> ('w, transport_decision) sio" where
  "dane_step io cfg host port =
    (if dane cfg = DaneOff then io_lift (Inr no_decision)
     else io_bind (outside_call io (io_dane io host port)) (\<lambda>found.
       let d = no_decision\<lparr>dane_tls := d_records found \<noteq> [], dane_name := d_base found,
             d_tlsa := filter usable (d_records found)\<rparr> in
       if d_tlsa d = [] \<and> dane cfg = DaneRequired then io_lift (Inl PDaneRequired) else io_lift (Inr d)))"

definition prepare_inner ::
  "('w, 'm) policy_io_scheme \<Rightarrow> transport_config \<Rightarrow> policy_context \<Rightarrow> string \<Rightarrow> 16 word \<Rightarrow> nat \<Rightarrow> ('w, transport_decision) sio" where
  "prepare_inner io cfg c host port now =
    io_bind (dane_step io cfg host port) (\<lambda>d.
    if mta_sts cfg = StsOff \<or> has_dane d then io_lift (Inr d)
    else io_bind (sts io cfg c now) (\<lambda>policy.
      if (case policy of Some p \<Rightarrow> p_mode p = Enforce | None \<Rightarrow> False)
      then (if \<not> sts_matches (the policy) host then io_lift (Inl PMxMismatch)
        else io_lift (Inr (d\<lparr>sts_enforce := True\<rparr>)))
      else if mta_sts cfg = StsRequired then io_lift (Inl PStsRequired)
      else io_lift (Inr d)))"

text \<open>The clock is read once, after one of the eight permits has been obtained.\<close>

definition prepare ::
  "('w, 'm) policy_io_scheme \<Rightarrow> transport_config \<Rightarrow> policy_context \<Rightarrow> string \<Rightarrow> 16 word \<Rightarrow> ('w, transport_decision) sio" where
  "prepare io cfg c host port =
    (if \<not> config_enabled cfg then io_lift (Inr no_decision)
     else io_bind (io_lift (normalize_domain host)) (\<lambda>host.
       io_bind (outside_call io (io_permit io)) (\<lambda>_ s.
         case unix_time io (outer s) of
           None \<Rightarrow> (Inl PConfiguration, s)
         | Some now \<Rightarrow> prepare_inner io cfg c host port now s)))"

definition policy_new :: "web_lib \<Rightarrow> transport_config \<Rightarrow> policy_context \<Rightarrow> policy_error + unit" where
  "policy_new lib cfg c =
    rbind (config_validate cfg) (\<lambda>_. case parse_url lib (doh_url c) of
      None \<Rightarrow> Inl PConfiguration
    | Some u \<Rightarrow> guard_err (u_scheme u \<noteq> ''https'' \<or> u_host u = None \<or> u_username u \<noteq> [] \<or> u_password u \<noteq> None
        \<or> u_fragment u \<noteq> None \<or> 1024 < length (cache_namespace c)) PConfiguration)"

section \<open>The routed fetch\<close>

definition POLICY_TIMEOUTS :: fetch_timeouts where
  "POLICY_TIMEOUTS = \<lparr>t_connect = 5, t_headers = 8, t_idle = 5, t_total = 12, max_redirects = 0\<rparr>"

definition media_is :: "string \<Rightarrow> string option \<Rightarrow> bool" where
  "media_is m ct = (case ct of
       Some v \<Rightarrow> eq_nocase (trim (hd (split_on (CHR '';'') v))) m | None \<Rightarrow> False)"

definition policy_request :: "policy_context \<Rightarrow> request" where
  "policy_request c = (let r = capture_response (with_timeouts POLICY_TIMEOUTS
       (with_limit MAX_POLICY_BYTES (accepting ''text/plain'' (request_get DnsAuth)))) in
     case egress_domain c of Some d \<Rightarrow> for_domain d r | None \<Rightarrow> r)"

definition fetch_policy ::
  "('w, 'm) outside_scheme \<Rightarrow> web_lib \<Rightarrow> policy_context \<Rightarrow> string \<Rightarrow> 'w net \<Rightarrow> (policy_error + sts_policy) \<times> 'w net" where
  "fetch_policy env lib c d s = (case normalize_domain d of
       Inl e \<Rightarrow> (Inl e, s)
     | Inr domain \<Rightarrow> (case parse_url lib (''https://mta-sts.'' @ domain @ ''/.well-known/mta-sts.txt'') of
         None \<Rightarrow> (Inl PSts, s)
       | Some u \<Rightarrow>
           (case send env lib u (policy_request c)
               (s\<lparr>captured := \<lparr>cap_head = None, cap_progress = None, cap_cache = None\<rparr>\<rparr>) of
             (f, s') \<Rightarrow> (if map_option head_status (cap_head (captured s')) \<noteq> Some 200
                 \<or> \<not> media_is ''text/plain'' (fetched_type f) then Inl PSts
               else case outcome f of Inl _ \<Rightarrow> Inl PSts | Inr body \<Rightarrow> sts_parse body, s'))))"

section \<open>DNS over HTTPS\<close>

text \<open>
  The transport under the validator. \<open>to_wire\<close> and \<open>from_wire\<close> are the DNS library's
  encoder and decoder; the first component of the state is the budget of 96 questions.
\<close>

record 'q dns_message =
  m_id :: "16 word"
  m_queries :: "'q list"
  m_response :: bool
  m_truncated :: bool

definition DNS_BUDGET :: nat where "DNS_BUDGET = 96"

definition dns_request :: "policy_context \<Rightarrow> string \<Rightarrow> request" where
  "dns_request c wire = (let r = with_timeouts POLICY_TIMEOUTS (capture_response (with_limit 65535
       (accepting ''application/dns-message''
         (request_post DnsAuth ''application/dns-message'' wire)))) in
     case egress_domain c of Some d \<Rightarrow> for_domain d r | None \<Rightarrow> r)"

definition answers_question :: "('q, 'm) dns_message_scheme \<Rightarrow> ('q, 'm) dns_message_scheme \<Rightarrow> bool" where
  "answers_question req r \<longleftrightarrow> m_id r = m_id req \<and> m_queries r = m_queries req \<and> m_response r
     \<and> \<not> m_truncated r"

definition doh_send ::
  "('w, 'o) outside_scheme \<Rightarrow> web_lib \<Rightarrow> policy_context
     \<Rightarrow> (('q, 'm) dns_message_scheme \<Rightarrow> string option) \<Rightarrow> (string \<Rightarrow> ('q, 'm) dns_message_scheme option)
     \<Rightarrow> ('q, 'm) dns_message_scheme \<Rightarrow> nat \<times> 'w net
     \<Rightarrow> ('q, 'm) dns_message_scheme option \<times> nat \<times> 'w net" where
  "doh_send env lib c to_wire from_wire req st = (case st of (left, s) \<Rightarrow>
     if left = 0 then (None, left, s)
     else case (to_wire req, parse_url lib (doh_url c)) of
       (Some wire, Some u) \<Rightarrow>
         (case send env lib u (dns_request c wire)
             (s\<lparr>captured := \<lparr>cap_head = None, cap_progress = None, cap_cache = None\<rparr>\<rparr>) of
           (f, s') \<Rightarrow>
             (if map_option head_status (cap_head (captured s')) \<noteq> Some 200
                \<or> \<not> media_is ''application/dns-message'' (fetched_type f) then None
              else case outcome f of
                Inl _ \<Rightarrow> None
              | Inr body \<Rightarrow> (case from_wire body of
                  None \<Rightarrow> None
                | Some r \<Rightarrow> if answers_question req r then Some r else None), left - 1, s'))
     | _ \<Rightarrow> (None, left - 1, s))"

end
