(* ===== verification/Transport_Facts.thy ===== *)
theory Transport_Facts
  imports Transport_Service Rust_Net_Text
begin

text \<open>
  Facts about the names and the policies of the next SMTP hop: normalized domains are fixed
  by normalization, and a fetched policy is accepted from the cache until it expires.
\<close>

section \<open>Normalized domains\<close>

lemma to_digit_lower [simp]: "to_digit 10 (ascii_lower b) = to_digit 10 b"
  by (auto simp: to_digit_def ascii_lower_def is_upper_def is_lower_def is_digit_def of_char_of)

lemma ascii_lower_eq: "\<not> is_lower c \<Longrightarrow> \<not> is_upper c \<Longrightarrow> ascii_lower b = c \<longleftrightarrow> b = c"
  by (auto simp: ascii_lower_def is_lower_def is_upper_def of_char_of)

lemma ascii_lower_marks [simp]:
  "ascii_lower b = CHR ''.'' \<longleftrightarrow> b = CHR ''.''"
  "ascii_lower b = CHR ''-'' \<longleftrightarrow> b = CHR ''-''"
  "ascii_lower b = CHR '':'' \<longleftrightarrow> b = CHR '':''"
  "ascii_lower b = CHR ''0'' \<longleftrightarrow> b = CHR ''0''"
  by (simp_all add: ascii_lower_eq is_lower_def is_upper_def)

lemma read_number_lower:
  "read_number 10 m z n (to_lower s) = map_option (apsnd to_lower) (read_number 10 m z n s)"
proof -
  let ?P = "\<lambda>b. to_digit 10 b \<noteq> None"
  have t: "takeWhile ?P (to_lower s) = to_lower (takeWhile ?P s)"
    by (simp add: takeWhile_map comp_def)
  have "foldl (\<lambda>v b. v * 10 + (case to_digit 10 b of Some d \<Rightarrow> d | None \<Rightarrow> 0)) a (to_lower ds) =
        foldl (\<lambda>v b. v * 10 + (case to_digit 10 b of Some d \<Rightarrow> d | None \<Rightarrow> 0)) a ds" for a ds
    by (induction ds arbitrary: a) auto
  then have v: "digits_value 10 (to_lower ds) = digits_value 10 ds" for ds
    by (simp add: digits_value_def)
  have h: "hd (to_lower s) = CHR ''0'' \<longleftrightarrow> hd s = CHR ''0''" if "takeWhile ?P s \<noteq> []"
    using that by (cases s) simp_all
  show ?thesis
    by (cases "takeWhile ?P s = []") (auto simp: read_number_def Let_def t v h drop_map simp del: not_None_eq)
qed

lemma read_octets_lower:
  "read_octets i n (to_lower s) = map_option (apsnd to_lower) (read_octets i n s)"
proof (induction n arbitrary: i s)
  case (Suc n)
  have "read_separator (CHR ''.'') i (read_number 10 3 False 255) (to_lower s) =
    map_option (apsnd to_lower) (read_separator (CHR ''.'') i (read_number 10 3 False 255) s)"
    using read_number_lower [of 3 False 255 s]
    by (cases s) (auto simp: read_separator_def read_number_lower)
  then show ?case using Suc by (auto split: option.splits)
qed simp

lemma read_ipv4_lower: "read_ipv4 (to_lower s) = map_option (apsnd to_lower) (read_ipv4 s)"
  by (auto simp: read_ipv4_def read_octets_lower split: option.splits)

lemma read_ipv6_no_colon:
  assumes "CHR '':'' \<notin> set t"
  shows "read_ipv6 t = None"
proof (rule ccontr)
  assume "read_ipv6 t \<noteq> None"
  then obtain a r where "read_ipv6 t = Some (a, r)" by auto
  then have "2 \<le> colons t" by (rule read_ipv6_colons)
  moreover have "colons t = 0" using assms by (induction t) auto
  ultimately show False by simp
qed

lemma parse_ip_lower:
  assumes "CHR '':'' \<notin> set s"
  shows "parse_ip (to_lower s) = None \<longleftrightarrow> parse_ip s = None"
proof -
  have "CHR '':'' \<notin> set (to_lower s)"
    using assms by (simp add: image_iff) (metis ascii_lower_marks(3))
  with assms show ?thesis
    by (auto simp: parse_ip_def read_ip_def whole_def read_ipv6_no_colon read_ipv4_lower split: option.splits if_splits)
qed

lemma split_on_members: "b \<in> set s \<Longrightarrow> b = c \<or> (\<exists>w \<in> set (split_on c s). b \<in> set w)"
  by (induction s) (auto split: list.splits)

lemma split_on_not_Nil [simp]: "split_on c s \<noteq> []"
  by (induction s) (auto split: list.splits)

lemma split_on_snoc [simp]: "split_on c (s @ [c]) = split_on c s @ [[]]"
  by (induction s) (auto split: list.split simp: append_eq_Cons_conv)

lemma split_on_lower: "split_on (CHR ''.'') (to_lower s) = map to_lower (split_on (CHR ''.'') s)"
  by (induction s) (auto split: list.splits)

lemma ascii_lower_classes [simp]:
  "\<not> is_upper (ascii_lower b)" "is_lower (ascii_lower b) \<longleftrightarrow> is_lower b \<or> is_upper b"
  "is_digit (ascii_lower b) \<longleftrightarrow> is_digit b"
  by (auto simp: ascii_lower_def is_lower_def is_upper_def is_digit_def of_char_of)

lemma bad_label_lower [simp]: "bad_label (to_lower l) = bad_label l"
proof -
  have "prefix ''-'' (to_lower l) = prefix ''-'' l"
    by (cases l) (auto simp: eq_commute [of "CHR ''-''"])
  moreover have "suffix ''-'' (to_lower l) = suffix ''-'' l"
    by (cases l rule: rev_cases) (auto simp: suffix_def)
  moreover have "list_all (\<lambda>b. is_alnum b \<or> b = CHR ''-'') (to_lower l) =
    list_all (\<lambda>b. is_alnum b \<or> b = CHR ''-'') l"
    by (auto simp: list_all_iff)
  ultimately show ?thesis by (simp add: bad_label_def)
qed

lemma label_chars: "\<not> bad_label l \<Longrightarrow> b \<in> set l \<Longrightarrow> is_alnum b \<or> b = CHR ''-''"
  by (auto simp: bad_label_def list_all_iff)

lemma bad_label_Nil [simp]: "bad_label []"
  by (simp add: bad_label_def)

lemma normalize_domain_fixed:
  assumes "normalize_domain input = Inr d"
  shows "normalize_domain d = Inr d" "\<forall>b \<in> set d. is_alnum b \<or> b = CHR ''-'' \<or> b = CHR ''.''" "d \<noteq> []"
proof -
  obtain e where e: "d = to_lower e" "e \<noteq> []" "length e \<le> 253" "parse_ip e = None"
    "\<not> list_ex bad_label (split_on (CHR ''.'') e)"
    using assms by (auto simp: normalize_domain_def Let_def split: option.splits if_splits)
  have ok: "\<not> bad_label l" if "l \<in> set (split_on (CHR ''.'') e)" for l
    using e(5) that by (auto simp: list_ex_iff)
  have cs: "is_alnum b \<or> b = CHR ''-'' \<or> b = CHR ''.''" if "b \<in> set e" for b
    using split_on_members [OF that, of "CHR ''.''"] ok label_chars by blast
  then show "\<forall>b \<in> set d. is_alnum b \<or> b = CHR ''-'' \<or> b = CHR ''.''" by (fastforce simp: e(1))
  have "CHR '':'' \<notin> set e"
    using cs [of "CHR '':''"] by (auto simp: is_lower_def is_upper_def is_digit_def)
  then have ip: "parse_ip d = None" using e(4) by (simp add: e(1) parse_ip_lower)
  have bad: "\<not> list_ex bad_label (split_on (CHR ''.'') d)"
    using ok by (auto simp: e(1) split_on_lower list_ex_iff)
  have "\<not> suffix ''.'' d"
  proof
    assume "suffix ''.'' d"
    then obtain f where "d = f @ [CHR ''.'']" by (auto simp: suffix_def)
    then show False using bad by simp
  qed
  then have "strip_suffix ''.'' d = None" by (simp add: strip_suffix_def)
  then show "normalize_domain d = Inr d"
    using e(2,3) ip bad by (auto simp: normalize_domain_def e(1))
  show "d \<noteq> []" using e by simp
qed

lemma normalize_name:
  assumes "d \<noteq> []" "\<not> is_digit (hd d)" "CHR '':'' \<notin> set d" "strip_suffix ''.'' d = None" "length d \<le> 253"
    "\<not> list_ex bad_label (split_on (CHR ''.'') d)"
  shows "normalize_domain d = Inr (to_lower d)"
proof -
  have "read_ipv4 d = None"
  proof -
    have "to_digit 10 (hd d) = None"
      using assms(2) by (auto simp: to_digit_def is_digit_def is_lower_def is_upper_def Let_def)
    then have "read_number 10 3 False 255 d = None"
      by (intro read_number_none) (simp add: stops_def)
    then have "read_octets 0 (Suc 3) d = None"
      by (simp only: read_octets.simps read_separator_def) simp
    moreover have "Suc 3 = 4" by simp
    ultimately show ?thesis by (simp only: read_ipv4_def option.case)
  qed
  then have "parse_ip d = None"
    using assms(3) by (simp add: parse_ip_def read_ip_def whole_def read_ipv6_no_colon)
  then show ?thesis using assms by (simp add: normalize_domain_def)
qed

section \<open>Accepted policies\<close>

lemma mx_of_ok:
  assumes "mx_of v = Inr n"
  shows "pattern_ok n"
proof -
  obtain d where d: "normalize_domain (case strip_prefix ''*.'' v of Some s \<Rightarrow> s | None \<Rightarrow> v) = Inr d"
    "n = (if prefix ''*.'' v then ''*.'' @ d else d)"
    using assms by (auto simp: mx_of_def split: sum.splits)
  have "strip_prefix ''*.'' d = None"
  proof -
    have "\<not> is_alnum (CHR ''*'')"
      by (simp add: is_lower_def is_upper_def is_digit_def)
    then have "hd d \<noteq> CHR ''*''"
      using normalize_domain_fixed(2,3) [OF d(1)] by (cases d) auto
    then show ?thesis using normalize_domain_fixed(3) [OF d(1)]
      by (auto simp: strip_prefix_def prefix_def)
  qed
  then show ?thesis
    using normalize_domain_fixed(1) [OF d(1)] strip_prefix_append [of "''*.''" d]
    by (auto simp: pattern_ok_def d(2) simp del: strip_prefix_append)
qed

definition parsing_ok :: "parsing \<Rightarrow> bool" where
  "parsing_ok a \<longleftrightarrow> length (seen_mx a) \<le> 256 \<and> list_all pattern_ok (seen_mx a)
     \<and> (\<forall>n. seen_age a = Some n \<longrightarrow> n \<le> MAX_AGE)"

lemma sts_field_ok:
  assumes "sts_field key v a = Inr a'" "parsing_ok a"
  shows "parsing_ok a'"
  using assms mx_of_ok
  by (auto simp: sts_field_def parsing_ok_def rbind_def split: if_splits option.splits prod.splits sum.splits)

lemma sts_line_ok: "sts_line l a = Inr a' \<Longrightarrow> parsing_ok a \<Longrightarrow> parsing_ok a'"
  by (auto simp: sts_line_def Let_def split: if_splits option.splits prod.splits intro: sts_field_ok)

lemma sts_lines_ok: "rfold sts_line ls a = Inr a' \<Longrightarrow> parsing_ok a \<Longrightarrow> parsing_ok a'"
  by (induction ls arbitrary: a) (auto simp: rbind_def split: sum.splits intro: sts_line_ok)

lemma sts_parse_ok:
  assumes "sts_parse b = Inr p"
  shows "p_max_age p \<le> MAX_AGE" "length (p_mx p) \<le> 256" "list_all pattern_ok (p_mx p)"
    "p_mode p = NoPolicy \<or> p_mx p \<noteq> []"
proof -
  let ?a = "\<lparr>seen_version = False, seen_mode = None, seen_age = None, seen_mx = []\<rparr>"
  obtain a m n where a: "rfold sts_line (str_lines b) ?a = Inr a" "seen_age a = Some n"
    "m = NoPolicy \<or> seen_mx a \<noteq> []" "p = \<lparr>p_mode = m, p_mx = seen_mx a, p_max_age = n\<rparr>"
    using assms by (auto simp: sts_parse_def rbind_def split: if_splits option.splits sum.splits)
  have "parsing_ok a" by (rule sts_lines_ok [OF a(1)]) (simp add: parsing_ok_def)
  then show "p_max_age p \<le> MAX_AGE" "length (p_mx p) \<le> 256" "list_all pattern_ok (p_mx p)"
    "p_mode p = NoPolicy \<or> p_mx p \<noteq> []"
    using a by (auto simp: parsing_ok_def)
qed

end
