(* ===== verification/Store_Policy_Cache.thy ===== *)
theory Store_Policy_Cache
  imports Transport_Service
begin

text \<open>
  The durable cache of MTA-STS policies: its rows in the \<open>settings\<close> table
  (\<open>crates/mw-store/src/smtp_policy_cache.rs\<close>) and the cache interface the server puts over
  them (\<open>crates/mw-server/src/smtp_transport_policy.rs\<close>). A value is a JSON text of type
  \<open>'j\<close>; reading and writing JSON is the record \<open>json_lib\<close>.
\<close>

section \<open>Rows\<close>

text \<open>
  \<open>j_times\<close> reads a JSON value's \<open>fetchedAt\<close> and \<open>expiresAt\<close> where they are
  unsigned integers; it is \<open>None\<close> for a text that is no JSON.
\<close>

record 'j json_lib =
  j_len :: "'j \<Rightarrow> nat"
  j_times :: "'j \<Rightarrow> (nat option \<times> nat option) option"
  j_write :: "cached_sts \<Rightarrow> 'j option"
  j_read :: "'j \<Rightarrow> cached_sts option"

type_synonym 'j settings = "(string \<times> 'j) list"

definition PREFIX :: string where "PREFIX = ''smtp.transport.sts.''"
definition MAX_ENTRIES :: nat where "MAX_ENTRIES = 1024"

text \<open>
  Which statements of a transaction the database carries out. A statement that fails ends the
  call and the transaction is rolled back; a commit that fails may have taken effect or not.
\<close>

record db_run =
  begin_ok :: bool
  lock_ok :: bool
  select_ok :: bool
  delete_ok :: "string \<Rightarrow> bool"
  insert_ok :: bool
  commit_ok :: bool
  commit_took :: bool

datatype store_error = Corrupt | Database

datatype scan = Scanned nat bool "string list" | KeepOld | ScanFailed store_error

fun scan_rows ::
  "'j json_lib \<Rightarrow> db_run \<Rightarrow> string \<Rightarrow> nat \<Rightarrow> nat \<Rightarrow> 'j settings \<Rightarrow> nat \<Rightarrow> bool \<Rightarrow> string list \<Rightarrow> scan" where
  "scan_rows lib db key fetched now [] n present gone = Scanned n present gone"
| "scan_rows lib db key fetched now ((k, v) # rows) n present gone =
    (case j_times lib v of
       Some (old_fetched, Some old_expiry) \<Rightarrow>
         if k = key \<and> (case old_fetched of Some t \<Rightarrow> fetched \<le> t | None \<Rightarrow> False) then KeepOld
         else if old_expiry \<le> now \<and> k \<noteq> key
         then (if \<not> delete_ok db k then ScanFailed Database
           else scan_rows lib db key fetched now rows n (present \<or> k = key) (k # gone))
         else scan_rows lib db key fetched now rows (n + 1) (present \<or> k = key) gone
     | _ \<Rightarrow> ScanFailed Corrupt)"

definition is_hexdigit :: "char \<Rightarrow> bool" where
  "is_hexdigit b \<longleftrightarrow> is_digit b \<or> b \<in> set ''abcdefABCDEF''"

definition hex_digest :: "string \<Rightarrow> bool" where
  "hex_digest d \<longleftrightarrow> length d = 64 \<and> list_all is_hexdigit d"

definition policy_rows :: "'j settings \<Rightarrow> 'j settings" where
  "policy_rows t = filter (\<lambda>(k, _). prefix PREFIX k) t"

definition policy_key :: "string \<Rightarrow> string" where
  "policy_key d = PREFIX @ to_lower d"

definition cache_smtp_policy ::
  "'j json_lib \<Rightarrow> db_run \<Rightarrow> string \<Rightarrow> 'j \<Rightarrow> nat \<Rightarrow> 'j settings \<Rightarrow> (store_error + unit) \<times> 'j settings" where
  "cache_smtp_policy lib db d v now t =
    (if \<not> hex_digest d \<or> 65536 < j_len lib v then (Inl Corrupt, t)
     else case j_times lib v of
       Some (Some fetched, Some expires) \<Rightarrow>
         if expires < fetched \<or> sat_add now 60 < fetched then (Inl Corrupt, t)
         else if \<not> begin_ok db \<or> \<not> lock_ok db \<or> \<not> select_ok db then (Inl Database, t)
         else (case scan_rows lib db (policy_key d) fetched now (policy_rows t) 0 False [] of
             ScanFailed e \<Rightarrow> (Inl e, t)
           | KeepOld \<Rightarrow> (Inr (), t)
           | Scanned n present gone \<Rightarrow>
               if \<not> present \<and> MAX_ENTRIES \<le> n then (Inl Corrupt, t)
               else if \<not> insert_ok db then (Inl Database, t)
               else let t' = AList.update (policy_key d) v (filter (\<lambda>(k, _). k \<notin> set gone) t) in
                 if commit_ok db then (Inr (), t')
                 else (Inl Database, if commit_took db then t' else t))
     | _ \<Rightarrow> (Inl Corrupt, t))"

section \<open>The cache of the server\<close>

definition durable_load :: "'j json_lib \<Rightarrow> bool \<Rightarrow> string \<Rightarrow> 'j settings \<Rightarrow> policy_error + cached_sts option" where
  "durable_load lib up k t =
    (if \<not> hex_digest k \<or> \<not> up then Inl PCache
     else case map_of t (policy_key k) of
       None \<Rightarrow> Inr None
     | Some v \<Rightarrow> (case j_read lib v of None \<Rightarrow> Inl PCache | Some c \<Rightarrow> Inr (Some c)))"

definition durable_store ::
  "'j json_lib \<Rightarrow> db_run \<Rightarrow> nat option \<Rightarrow> string \<Rightarrow> cached_sts \<Rightarrow> 'j settings
     \<Rightarrow> (policy_error + unit) \<times> 'j settings" where
  "durable_store lib db clock k c t = (case (j_write lib c, clock) of
       (Some v, Some now) \<Rightarrow> (case cache_smtp_policy lib db k v now t of
           (Inr _, t') \<Rightarrow> (Inr (), t') | (Inl _, t') \<Rightarrow> (Inl PCache, t'))
     | _ \<Rightarrow> (Inl PCache, t))"

section \<open>The durable cache keeps its promises\<close>

text \<open>
  What the rows are read as. \<open>json_codec\<close> is the documented behaviour of the JSON library:
  a written policy reads back as it was, its two times included.
\<close>

definition json_codec :: "'j json_lib \<Rightarrow> bool" where
  "json_codec lib \<longleftrightarrow> (\<forall>c v. j_write lib c = Some v \<longrightarrow>
     j_read lib v = Some c \<and> j_times lib v = Some (Some (fetched_at c), Some (expires_at c)))"

definition row_ok :: "'j json_lib \<Rightarrow> 'j \<Rightarrow> bool" where
  "row_ok lib v \<longleftrightarrow> (case j_read lib v of None \<Rightarrow> False
     | Some c \<Rightarrow> j_times lib v = Some (Some (fetched_at c), Some (expires_at c)))"

definition durable_entry :: "'j json_lib \<Rightarrow> 'j settings \<Rightarrow> string \<Rightarrow> cached_sts option" where
  "durable_entry lib t q = Option.bind (map_of t q) (j_read lib)"

definition settings_ok :: "'j json_lib \<Rightarrow> 'j settings \<Rightarrow> bool" where
  "settings_ok lib t \<longleftrightarrow> json_codec lib \<and> distinct (map fst t)
     \<and> list_all (\<lambda>(k, v). row_ok lib v) (policy_rows t)"

definition past :: "'j json_lib \<Rightarrow> string \<Rightarrow> nat \<Rightarrow> string \<times> 'j \<Rightarrow> bool" where
  "past lib key now r \<longleftrightarrow> fst r \<noteq> key \<and> (case j_times lib (snd r) of
     Some (_, Some e) \<Rightarrow> e \<le> now | _ \<Rightarrow> False)"

lemma scan_rows_Scanned:
  assumes "scan_rows lib db key f now rows n p gone = Scanned n' p' gone'"
  shows "set gone' = set gone \<union> fst ` {r \<in> set rows. past lib key now r} \<and>
    n' = n + length (filter (\<lambda>r. \<not> past lib key now r) rows) \<and>
    (p' \<longleftrightarrow> p \<or> key \<in> fst ` set rows) \<and>
    (\<forall>v t e. (key, v) \<in> set rows \<longrightarrow> j_times lib v = Some (Some t, e) \<longrightarrow> t < f)"
  using assms
proof (induction rows arbitrary: n p gone)
  case (Cons r rows)
  obtain k v where r: "r = (k, v)" by (cases r)
  obtain tf e where v: "j_times lib v = Some (tf, Some e)" using Cons.prems r by (auto split: option.splits)
  have keep: "\<not> (k = key \<and> (case tf of Some t \<Rightarrow> f \<le> t | None \<Rightarrow> False))"
    using Cons.prems r v by auto
  show ?case
  proof (cases "e \<le> now \<and> k \<noteq> key")
    case True
    then have past: "past lib key now r" using r v by (simp add: past_def)
    have "scan_rows lib db key f now rows n (p \<or> k = key) (k # gone) = Scanned n' p' gone'"
      using Cons.prems r v keep True by (simp split: if_splits)
    note IH = Cons.IH [OF this]
    have "{x \<in> set (r # rows). past lib key now x} = insert r {x \<in> set rows. past lib key now x}"
      using past by auto
    then show ?thesis using IH past r True by auto
  next
    case False
    then have past: "\<not> past lib key now r" using r v by (auto simp: past_def)
    have "scan_rows lib db key f now rows (n + 1) (p \<or> k = key) gone = Scanned n' p' gone'"
      using Cons.prems r v keep False by (simp split: if_splits)
    note IH = Cons.IH [OF this]
    have "{x \<in> set (r # rows). past lib key now x} = {x \<in> set rows. past lib key now x}"
      using past by auto
    then show ?thesis using IH past r v keep by (auto simp: not_le)
  qed
qed auto

text \<open>The table after a store that went through.\<close>

definition swept :: "'j json_lib \<Rightarrow> string \<Rightarrow> nat \<Rightarrow> 'j settings \<Rightarrow> 'j settings" where
  "swept lib key now t = filter (\<lambda>r. \<not> (prefix PREFIX (fst r) \<and> past lib key now r)) t"

lemma policy_rows_iff [simp]: "r \<in> set (policy_rows t) \<longleftrightarrow> r \<in> set t \<and> prefix PREFIX (fst r)"
  by (auto simp: policy_rows_def)

lemma prefix_policy_key [simp]: "prefix PREFIX (policy_key d)"
  by (simp add: policy_key_def)

lemma filter_gone:
  assumes "distinct (map fst t)" "set gone = fst ` {r \<in> set (policy_rows t). past lib key now r}"
  shows "filter (\<lambda>(k, _). k \<notin> set gone) t = swept lib key now t"
proof -
  have "k \<in> set gone \<longleftrightarrow> prefix PREFIX k \<and> past lib key now (k, v)" if "(k, v) \<in> set t" for k v
    using that assms by (auto simp: image_iff dest: eq_key_imp_eq_value)
  then show ?thesis unfolding swept_def by (intro filter_cong) auto
qed

lemma scan_rows_KeepOld:
  "scan_rows lib db key f now rows n p gone = KeepOld \<Longrightarrow>
    \<exists>w x e. (key, w) \<in> set rows \<and> j_times lib w = Some (Some x, e) \<and> f \<le> x"
  by (induction rows arbitrary: n p gone) (fastforce split: if_splits option.splits prod.splits)+

lemma policy_rows_swept:
  "policy_rows (swept lib key now t) = filter (\<lambda>r. \<not> past lib key now r) (policy_rows t)"
  unfolding policy_rows_def swept_def filter_filter by (intro filter_cong) auto

lemma cache_result:
  assumes "distinct (map fst t)" "cache_smtp_policy lib db d v now t = (r, t')"
  obtains (kept) "t' = t"
      "r = Inr () \<Longrightarrow> \<exists>w x f e e'. (policy_key d, w) \<in> set t \<and> j_times lib w = Some (Some x, e)
         \<and> j_times lib v = Some (Some f, e') \<and> f \<le> x"
    | (put) f e where "t' = AList.update (policy_key d) v (swept lib (policy_key d) now t)"
      "j_times lib v = Some (Some f, e)"
      "\<And>w x e'. (policy_key d, w) \<in> set t \<Longrightarrow> j_times lib w = Some (Some x, e') \<Longrightarrow> x < f"
      "policy_key d \<notin> fst ` set t \<Longrightarrow> length (policy_rows (swept lib (policy_key d) now t)) < MAX_ENTRIES"
proof -
  let ?key = "policy_key d"
  have rows: "fst ` {r \<in> set (policy_rows t). past lib ?key now r} = set gone \<Longrightarrow>
      filter (\<lambda>(k, _). k \<notin> set gone) t = swept lib ?key now t" for gone
    by (rule filter_gone [OF assms(1)]) (rule sym)
  consider (same) "t' = t" "r \<noteq> Inr ()"
    | (old) f e where "j_times lib v = Some (Some f, e)" "t' = t"
        "scan_rows lib db ?key f now (policy_rows t) 0 False [] = KeepOld"
    | (new) f e n p gone where "j_times lib v = Some (Some f, e)"
        "scan_rows lib db ?key f now (policy_rows t) 0 False [] = Scanned n p gone"
        "p \<or> n < MAX_ENTRIES" "t' = t \<and> r \<noteq> Inr () \<or> t' = AList.update ?key v (filter (\<lambda>(k, _). k \<notin> set gone) t)"
    using assms(2)
    by (auto simp: cache_smtp_policy_def Let_def split: if_splits option.splits prod.splits scan.splits)
  then show ?thesis
  proof cases
    case same
    then show ?thesis using that(1) by simp
  next
    case old
    then show ?thesis using scan_rows_KeepOld [OF old(3)] by (intro that(1)) auto
  next
    case new
    note scan = scan_rows_Scanned [OF new(2)]
    show ?thesis
    proof (cases "t' = t \<and> r \<noteq> Inr ()")
      case True
      then show ?thesis using that(1) by simp
    next
      case False
      then have t': "t' = AList.update ?key v (swept lib ?key now t)"
        using new(4) scan rows [of gone] by auto
      have "n = length (policy_rows (swept lib ?key now t))"
        using scan by (simp add: policy_rows_swept)
      then show ?thesis
        using t' new(1,3) scan by (intro that(2)) auto
    qed
  qed
qed

lemma map_of_filter_distinct:
  "distinct (map fst t) \<Longrightarrow> map_of (filter P t) q =
    (case map_of t q of None \<Rightarrow> None | Some v \<Rightarrow> if P (q, v) then Some v else None)"
  by (induction t) (auto simp: map_of_eq_None_iff split: option.split)

lemma row_read:
  assumes "settings_ok lib t" "map_of t q = Some w" "prefix PREFIX q"
  obtains c where "j_read lib w = Some c" "j_times lib w = Some (Some (fetched_at c), Some (expires_at c))"
proof -
  have "row_ok lib w"
    using assms map_of_SomeD [OF assms(2)] by (fastforce simp: settings_ok_def list_all_iff)
  then show ?thesis using that by (auto simp: row_ok_def split: option.splits)
qed

lemma durable_store_cases:
  assumes ok: "settings_ok lib t" and st: "durable_store lib db clock k c t = (r, t')"
  obtains (kept) "t' = t"
      "r = Inr () \<Longrightarrow> \<exists>x. durable_entry lib t (policy_key k) = Some x \<and> fetched_at c \<le> fetched_at x"
    | (put) v now where "clock = Some now" "t' = AList.update (policy_key k) v (swept lib (policy_key k) now t)"
      "j_read lib v = Some c" "j_times lib v = Some (Some (fetched_at c), Some (expires_at c))"
      "\<And>x. durable_entry lib t (policy_key k) = Some x \<Longrightarrow> fetched_at x < fetched_at c"
      "policy_key k \<notin> fst ` set t \<Longrightarrow> length (policy_rows (swept lib (policy_key k) now t)) < MAX_ENTRIES"
proof -
  have d: "distinct (map fst t)" and codec: "json_codec lib" using ok by (simp_all add: settings_ok_def)
  have own: "map_of t (policy_key k) = Some w \<longleftrightarrow> (policy_key k, w) \<in> set t" for w
    using d by (auto dest: map_of_SomeD map_of_is_SomeI)
  consider (no) "t' = t" "r \<noteq> Inr ()"
    | (yes) v now r0 where "j_write lib c = Some v" "clock = Some now"
      "cache_smtp_policy lib db k v now t = (r0, t')" "r = Inr () \<longrightarrow> r0 = Inr ()"
    using st by (auto simp: durable_store_def split: option.splits prod.splits sum.splits)
  then show ?thesis
  proof cases
    case no
    then show ?thesis using that(1) by simp
  next
    case yes
    have v: "j_read lib v = Some c" "j_times lib v = Some (Some (fetched_at c), Some (expires_at c))"
      using codec yes(1) by (auto simp: json_codec_def)
    from d yes(3) show ?thesis
    proof (cases rule: cache_result)
      case kept
      show ?thesis
      proof (rule that(1) [OF kept(1)])
        assume "r = Inr ()"
        then obtain w x e where w: "(policy_key k, w) \<in> set t" "j_times lib w = Some (Some x, e)"
          "fetched_at c \<le> x"
          using kept(2) yes(4) v by auto
        then have m: "map_of t (policy_key k) = Some w" by (simp add: own)
        obtain y where "j_read lib w = Some y" "j_times lib w = Some (Some (fetched_at y), Some (expires_at y))"
          by (rule row_read [OF ok m]) simp_all
        then show "\<exists>x. durable_entry lib t (policy_key k) = Some x \<and> fetched_at c \<le> fetched_at x"
          using w m by (auto simp: durable_entry_def)
      qed
    next
      case (put f e)
      show ?thesis
      proof (rule that(2) [OF yes(2) put(1) v])
        fix x assume "durable_entry lib t (policy_key k) = Some x"
        then obtain w where w: "map_of t (policy_key k) = Some w" "j_read lib w = Some x"
          by (auto simp: durable_entry_def bind_eq_Some_conv)
        obtain y where "j_read lib w = Some y" "j_times lib w = Some (Some (fetched_at y), Some (expires_at y))"
          by (rule row_read [OF ok w(1)]) simp_all
        then show "fetched_at x < fetched_at c" using put(2,3) w v own by auto
      qed (rule put(4))
    qed
  qed
qed

lemma entry_put:
  assumes "distinct (map fst t)"
  shows "durable_entry lib (AList.update key v (swept lib key now t)) q =
    (if q = key then j_read lib v
     else if prefix PREFIX q \<and> (\<exists>w. map_of t q = Some w \<and> past lib key now (q, w)) then None
     else durable_entry lib t q)"
  using assms
  by (auto simp: durable_entry_def update_conv' swept_def map_of_filter_distinct
      split: option.split dest: eq_key_imp_eq_value)

lemma update_members: "r \<in> set (AList.update k v t) \<Longrightarrow> r = (k, v) \<or> r \<in> set t"
  by (induction t) (auto split: if_splits)

lemma settings_ok_put:
  assumes "settings_ok lib t" "row_ok lib v"
  shows "settings_ok lib (AList.update key v (swept lib key now t))"
proof -
  have "distinct (map fst (AList.update key v (swept lib key now t)))"
    using assms(1) by (intro distinct_update) (simp add: swept_def settings_ok_def distinct_map_filter)
  moreover have "row_ok lib w" if "(q, w) \<in> set (AList.update key v (swept lib key now t))" "prefix PREFIX q" for q w
  proof -
    from that(1) have "w = v \<or> (q, w) \<in> set t"
      by (auto simp: swept_def dest!: update_members)
    then show ?thesis using assms that(2) by (fastforce simp: settings_ok_def list_all_iff)
  qed
  ultimately show ?thesis using assms(1) by (auto simp: settings_ok_def list_all_iff)
qed

definition store_clock :: "db_run \<times> nat option \<Rightarrow> nat" where
  "store_clock e = (case snd e of Some now \<Rightarrow> now | None \<Rightarrow> 0)"

lemma past_row:
  assumes "settings_ok lib t" "durable_entry lib t q = Some c" "now < expires_at c"
  shows "\<not> (prefix PREFIX q \<and> (\<exists>w. map_of t q = Some w \<and> past lib key now (q, w)))"
proof
  assume "prefix PREFIX q \<and> (\<exists>w. map_of t q = Some w \<and> past lib key now (q, w))"
  then obtain w where w: "prefix PREFIX q" "map_of t q = Some w" "past lib key now (q, w)" by auto
  obtain y where "j_read lib w = Some y" "j_times lib w = Some (Some (fetched_at y), Some (expires_at y))"
    by (rule row_read [OF assms(1) w(2,1)])
  then show False using w assms(2,3) by (auto simp: durable_entry_def past_def)
qed

interpretation durable: policy_cache "durable_load lib" "\<lambda>e k v t. durable_store lib (fst e) (snd e) k v t"
  "durable_entry lib" policy_key store_clock "settings_ok lib"
  for lib :: "'j json_lib"
proof
  fix t :: "'j settings" and l k x
  assume "settings_ok lib t" "durable_load lib l k t = Inr x"
  then show "x = durable_entry lib t (policy_key k)"
    by (auto simp: durable_load_def durable_entry_def split: if_splits option.splits)
next
  fix t :: "'j settings" and e k v
  assume ok: "settings_ok lib t"
  obtain r t' where st: "durable_store lib (fst e) (snd e) k v t = (r, t')" by fastforce
  from ok st have "settings_ok lib t'"
    by (cases rule: durable_store_cases) (simp_all add: ok settings_ok_put row_ok_def)
  then show "settings_ok lib (snd (durable_store lib (fst e) (snd e) k v t))" by (simp add: st)
  from ok st have "durable_entry lib t' (policy_key k) \<in> {durable_entry lib t (policy_key k), Some v}"
    using ok by (cases rule: durable_store_cases) (simp_all add: entry_put settings_ok_def)
  then show "durable_entry lib (snd (durable_store lib (fst e) (snd e) k v t)) (policy_key k)
      \<in> {durable_entry lib t (policy_key k), Some v}" by (simp add: st)
  assume "fst (durable_store lib (fst e) (snd e) k v t) = Inr ()"
  then have "r = Inr ()" by (simp add: st)
  note stored = this
  from ok st have "\<exists>c. durable_entry lib t' (policy_key k) = Some c \<and> (c = v \<or> fetched_at v \<le> fetched_at c)"
    using stored ok by (cases rule: durable_store_cases) (auto simp: entry_put settings_ok_def)
  then show "\<exists>c. durable_entry lib (snd (durable_store lib (fst e) (snd e) k v t)) (policy_key k) = Some c
      \<and> (c = v \<or> fetched_at v \<le> fetched_at c)" by (simp add: st)
next
  fix t :: "'j settings" and q e k and v c :: cached_sts
  assume ok: "settings_ok lib t" and q: "q \<noteq> policy_key k" "durable_entry lib t q = Some c" "store_clock e < expires_at c"
  obtain r t' where st: "durable_store lib (fst e) (snd e) k v t = (r, t')" by fastforce
  from ok st have "durable_entry lib t' q = Some c"
  proof (cases rule: durable_store_cases)
    case (put w now)
    then have "now < expires_at c" using q(3) by (simp add: store_clock_def)
    from past_row [OF ok q(2) this] show ?thesis
      using ok q by (simp add: put(2) entry_put settings_ok_def del: not_ex)
  qed (simp add: q)
  then show "durable_entry lib (snd (durable_store lib (fst e) (snd e) k v t)) q = Some c"
    by (simp add: st)
next
  fix t :: "'j settings" and e k and v c :: cached_sts
  assume ok: "settings_ok lib t" and c: "durable_entry lib t (policy_key k) = Some c" "fetched_at v \<le> fetched_at c"
  obtain r t' where st: "durable_store lib (fst e) (snd e) k v t = (r, t')" by fastforce
  from ok st have "durable_entry lib t' (policy_key k) = Some c"
    using c by (cases rule: durable_store_cases) auto
  then show "durable_entry lib (snd (durable_store lib (fst e) (snd e) k v t)) (policy_key k) = Some c"
    by (simp add: st)
qed

lemma policy_rows_update:
  "prefix PREFIX k \<Longrightarrow> length (policy_rows (AList.update k v t)) =
    length (policy_rows t) + (if k \<in> fst ` set t then 0 else 1)"
  by (induction t) (auto simp: policy_rows_def)

lemma durable_store_bounded:
  assumes "settings_ok lib t" "length (policy_rows t) \<le> MAX_ENTRIES"
  shows "length (policy_rows (snd (durable_store lib db clock k c t))) \<le> MAX_ENTRIES"
proof -
  obtain r t' where st: "durable_store lib db clock k c t = (r, t')" by fastforce
  from assms(1) st show ?thesis
  proof (cases rule: durable_store_cases)
    case (put w now)
    let ?s = "swept lib (policy_key k) now t"
    have "policy_key k \<in> fst ` set ?s \<longleftrightarrow> policy_key k \<in> fst ` set t"
      by (force simp: swept_def past_def image_iff)
    moreover have "length (policy_rows ?s) \<le> length (policy_rows t)"
      by (simp add: policy_rows_swept)
    ultimately show ?thesis
      using assms(2) put(6) by (auto simp: st put(2) policy_rows_update)
  qed (simp add: st assms)
qed

end
