(* ===== verification/Transport_Thms.thy ===== *)
theory Transport_Thms
  imports Transport_Facts Store_Policy_Cache
begin

text \<open>
  What holds of the policies for the next SMTP hop: which records DANE believes and accepts,
  that a decision is never weaker than the configuration or a live policy asks, and what the
  durable cache keeps.
\<close>

section \<open>Lifetime of a policy\<close>

lemma fetched_ok:
  assumes "sts_parse b = Inr p" "id_ok i" "now + p_max_age p \<le> U64_MAX"
  shows "valid_at \<lparr>c_id = i, c_policy = p, fetched_at = now, expires_at = sat_add now (p_max_age p)\<rparr> t
     \<longleftrightarrow> now \<le> t \<and> t < now + p_max_age p"
  using sts_parse_ok [OF assms(1)] assms(2,3) by (auto simp: valid_at_def sat_add_def)

text \<open>A policy that was parsed, kept under a valid id with the lifetime \<open>sts\<close> gives it,
  is accepted from the cache from its fetch until just before its \<open>max_age\<close> has passed, and
  never afterwards.\<close>

theorem fetched_policy_lifetime:
  assumes "sts_parse b = Inr p" "id_ok i" "now + p_max_age p \<le> U64_MAX"
  shows "valid_at \<lparr>c_id = i, c_policy = p, fetched_at = now, expires_at = sat_add now (p_max_age p)\<rparr> t
     \<longleftrightarrow> now \<le> t \<and> t < now + p_max_age p"
  by (rule fetched_ok [OF assms])

definition sample_policy :: sts_policy where
  "sample_policy = \<lparr>p_mode = Enforce, p_mx = [''*.example.org''], p_max_age = 60\<rparr>"

definition sample_text :: string where
  "sample_text = ''version: STSv1'' @ [CR, LF] @ ''mode: enforce'' @ [LF] @ ''mx: *.Example.org'' @ [LF]
     @ ''max_age: 60'' @ [LF]"

lemma sts_line_field:
  "split_once (CHR '':'') l = Some (k, r) \<Longrightarrow> trim_blank r = v \<Longrightarrow> v \<noteq> []
     \<Longrightarrow> \<not> list_ex is_control (utf8_chars v) \<Longrightarrow> sts_line l a = sts_field k v a"
  by (auto simp: sts_line_def split_once_def)

lemma policy_lines:
  "sts_line ''version: STSv1'' a = sts_field ''version'' ''STSv1'' a"
  "sts_line ''mode: enforce'' a = sts_field ''mode'' ''enforce'' a"
  "sts_line ''mx: *.Example.org'' a = sts_field ''mx'' ''*.Example.org'' a"
  "sts_line ''max_age: 60'' a = sts_field ''max_age'' ''60'' a"
  by (rule sts_line_field, code_simp, code_simp, code_simp, code_simp)+

lemma sample_age: "parse_uint U64_MAX ''60'' = Some 60"
proof -
  have "dec_value ''60'' = 60" by code_simp
  then show ?thesis by (simp add: parse_uint_def parse_digits_def U64_MAX_def is_digit_def)
qed

lemma sample_parse: "sts_parse sample_text = Inr sample_policy"
proof -
  have ls: "str_lines sample_text =
    [''version: STSv1'', ''mode: enforce'', ''mx: *.Example.org'', ''max_age: 60'']"
    by code_simp
  have "valid_utf8 sample_text"
    by code_simp
  moreover have "\<not> MAX_POLICY_BYTES < length sample_text"
    by (simp add: MAX_POLICY_BYTES_def sample_text_def)
  moreover have "mx_of ''*.Example.org'' = Inr ''*.example.org''"
  proof -
    have "normalize_domain ''Example.org'' = Inr (to_lower ''Example.org'')"
      by (rule normalize_name) code_simp+
    moreover have "to_lower ''Example.org'' = ''example.org''" by code_simp
    ultimately show ?thesis by (simp add: mx_of_def strip_prefix_def)
  qed
  ultimately show ?thesis
    by (simp add: sts_parse_def ls policy_lines sts_field_def mode_of_def sample_age is_digit_def MAX_AGE_def
        sample_policy_def)
qed

theorem fetched_policy_lifetime_witness:
  "valid_at \<lparr>c_id = ''one'', c_policy = sample_policy, fetched_at = 5,
      expires_at = sat_add 5 (p_max_age sample_policy)\<rparr> 64"
  using fetched_policy_lifetime [OF sample_parse, of "''one''" 5 64]
  by (simp add: sample_policy_def id_ok_def U64_MAX_def is_lower_def)

section \<open>DANE\<close>

lemma reading_Holds:
  assumes "reading_of rs = Inr (Holds xs)"
  shows "xs = rs" "a \<in> set xs \<Longrightarrow> rr_proof a = Secure"
proof -
  from assms show x: "xs = rs" by (auto simp: reading_of_def split: if_splits option.splits)
  assume "a \<in> set xs"
  then show "rr_proof a = Secure"
    using assms x by (cases "rr_proof a") (auto simp: reading_of_def list_ex_iff split: if_splits)
qed

definition validated :: "'w dns \<Rightarrow> tlsa \<Rightarrow> bool" where
  "validated d t \<longleftrightarrow> (\<exists>name w w' r a. ask d name TypeTLSA w = (Some (Inr r), w') \<and> a \<in> set (answers r)
     \<and> same_name d (rr_name a) name \<and> rr_proof a = Secure \<and> rr_data a = DataTlsa t)"

lemma query_Inr: "query d name t w = (Inr r, w') \<Longrightarrow> ask d name t w = (Some (Inr r), w')"
  by (auto simp: query_def split: if_splits prod.splits option.splits sum.splits)

lemma tlsa_loop_validated:
  "tlsa_loop d n name w = (Inr ts, w') \<Longrightarrow> t \<in> set ts \<Longrightarrow> validated d t"
proof (induction n arbitrary: name w)
  case (Suc n)
  from Suc.prems(1) obtain r w1 q where q: "query d name TypeTLSA w = (Inr r, w1)"
    "reading_of (owned d name (\<lambda>x. tlsa_of x \<noteq> None) r) = Inr q"
    "(case q of Unsigned \<Rightarrow> io_lift (Inr [])
      | Alias a \<Rightarrow> tlsa_loop d n a
      | Holds rs \<Rightarrow> if rs = [] \<and> answers r \<noteq> [] then io_lift (Inl PDnssec)
          else io_lift (Inr (List.map_filter (\<lambda>a. tlsa_of (rr_data a)) rs))) w1 = (Inr ts, w')"
    by (auto simp: io_bind_Inr io_lift_Inr split: if_splits simp del: not_None_eq)
  show ?case
  proof (cases q)
    case (Holds rs)
    then obtain a where a: "a \<in> set rs" "tlsa_of (rr_data a) = Some t"
      using q(3) Suc.prems(2) by (auto simp: io_lift_Inr map_filter_def split: if_splits)
    have "rr_proof a = Secure" "rs = owned d name (\<lambda>x. tlsa_of x \<noteq> None) r"
      using reading_Holds [OF q(2) [unfolded Holds]] a(1) by auto
    moreover from a(2) have "rr_data a = DataTlsa t" by (cases "rr_data a") auto
    ultimately show ?thesis
      using a(1) query_Inr [OF q(1)] unfolding validated_def owned_def by fastforce
  qed (use q(3) Suc in \<open>auto simp: io_lift_Inr\<close>)
qed (simp add: io_lift_Inr)

text \<open>C39: Every TLSA record that \<open>dane\<close> returns was in a validated answer to a TLSA
  question, under the name asked for and proved secure; no unsigned, bogus or unproved record
  gets through, and without a validated address chain there are no records at all.\<close>

theorem tlsa_only_from_validated_answers:
  assumes "find_dane d host port w = (Inr f, w')" "t \<in> set (d_records f)"
  shows "validated d t \<and> d_base f \<noteq> None"
proof -
  have "validated d t" if "tlsa_at d owner u = (Inr ts, u')" "t \<in> set ts" for owner u ts u'
    using tlsa_loop_validated that by (fastforce simp: tlsa_at_def)
  then show ?thesis using assms
    by (auto split: prod.splits sum.splits option.splits if_splits
        simp: find_dane_def io_bind_Inr io_lift_Inr Let_def)
qed

definition sample_record :: tlsa where
  "sample_record = \<lparr>cert_usage = 3, selector = 1, matching = 0, cert_data = ''key''\<rparr>"

text \<open>A zone in which \<open>mx\<close> has a secure address and one secure record for port 25.\<close>

definition sample_zone :: "unit dns" where
  "sample_zone = \<lparr>name_ok = (\<lambda>n. True), same_name = (=), ask = (\<lambda>n t w.
     (Some (Inr \<lparr>rcode = NoError, answers =
        (if n = ''mx'' \<and> t = TypeA then [\<lparr>rr_name = n, rr_proof = Secure, rr_data = DataA\<rparr>]
         else if n = ''_25._tcp.mx'' \<and> t = TypeTLSA
         then [\<lparr>rr_name = n, rr_proof = Secure, rr_data = DataTlsa sample_record\<rparr>] else [])\<rparr>), w))\<rparr>"

theorem tlsa_only_from_validated_answers_witness:
  "validated sample_zone sample_record \<and> Some ''mx'' \<noteq> (None :: string option)"
proof -
  have "address_base sample_zone ''mx'' () = (Inr (Some ''mx''), ())" by code_simp
  moreover have "tlsa_owner 25 ''mx'' = ''_25._tcp.mx''" by code_simp
  moreover have "tlsa_at sample_zone ''_25._tcp.mx'' () = (Inr [sample_record], ())" by code_simp
  ultimately have "find_dane sample_zone ''mx'' 25 () = (Inr \<lparr>d_records = [sample_record], d_base = Some ''mx''\<rparr>, ())"
    by (simp add: find_dane_def io_bind_def io_lift_def)
  from tlsa_only_from_validated_answers [OF this, of sample_record] show ?thesis by simp
qed

lemma verifier_records_subset: "set (verifier_records ts) \<subseteq> {t \<in> set ts. usable t}"
  by (auto simp: verifier_records_def)

lemma verifier_records_keep:
  assumes "t \<in> set ts" "usable t"
  shows "verifier_records ts \<noteq> []"
proof (cases "matching t \<noteq> 1 \<or> \<not> list_ex (\<lambda>x. usable x \<and> cert_usage x = cert_usage t \<and> selector x = selector t
    \<and> matching x = 2) ts")
  case True
  with assms have "t \<in> set (verifier_records ts)" by (auto simp: verifier_records_def)
  then show ?thesis by auto
next
  case False
  then obtain x where "x \<in> set ts" "usable x" "matching x = 2" by (auto simp: list_ex_iff)
  then have "x \<in> set (verifier_records ts)" by (simp add: verifier_records_def)
  then show ?thesis by auto
qed

text \<open>C9: With a usable record in the decision the certificate check never falls back to the
  public roots, although SHA-256 records may be dropped: it accepts only a certificate that a
  usable published record matches itself (DANE-EE), or one that chains, under the DANE name,
  to an anchor a usable record vouches for (DANE-TA).\<close>

theorem dane_never_falls_back:
  assumes "list_ex usable ts" "verify_server_cert k (verifier_records ts) n ee chain server ocsp now"
  shows "list_ex (\<lambda>t. usable t \<and> (cert_usage t = 3 \<and> tlsa_matches k t ee
     \<or> cert_usage t = 2 \<and> list_ex (\<lambda>a. trusted k a \<and> (tlsa_matches k t a \<or> a = cert_data t)
          \<and> chain_ok k a ee chain (case Option.bind n (\<lambda>n. name_of k (trim_end_bytes {CHR ''.''} n)) of
              Some x \<Rightarrow> x | None \<Rightarrow> server) ocsp now)
        (chain @ [cert_data t]))) ts"
proof -
  obtain t where "t \<in> set ts" "usable t" using assms(1) by (auto simp: list_ex_iff)
  then have "verifier_records ts \<noteq> []" by (rule verifier_records_keep)
  then have v: "verify_dane k (verifier_records ts) n ee chain server ocsp now"
    using assms(2) by (simp add: verify_server_cert_def)
  let ?name = "case Option.bind n (\<lambda>n. name_of k (trim_end_bytes {CHR ''.''} n)) of Some x \<Rightarrow> x | None \<Rightarrow> server"
  have name: "(case n of Some n \<Rightarrow> (case name_of k (trim_end_bytes {CHR ''.''} n) of Some x \<Rightarrow> x | None \<Rightarrow> server)
     | None \<Rightarrow> server) = ?name"
    by (cases n) simp_all
  consider (ee) t where "t \<in> set (verifier_records ts)" "cert_usage t = 3" "tlsa_matches k t ee"
    | (ta) t a where "t \<in> set (verifier_records ts)" "cert_usage t = 2" "a \<in> set (anchors k t chain)"
        "trusted k a" "chain_ok k a ee chain ?name ocsp now"
    using v by (auto simp: verify_dane_def Let_def name list_ex_iff split: if_splits)
  then show ?thesis
  proof cases
    case ee
    then show ?thesis using verifier_records_subset by (fastforce simp: list_ex_iff)
  next
    case ta
    have "usable t" "t \<in> set ts" using ta(1) verifier_records_subset by auto
    moreover have "a \<in> set chain \<and> tlsa_matches k t a \<or> a = cert_data t"
      using ta(3) by (auto simp: anchors_def split: if_splits)
    ultimately show ?thesis using ta by (auto simp: list_ex_iff)
  qed
qed

section \<open>Decisions\<close>

lemma await_Inr:
  "await io f s = (Inr x, s') \<longleftrightarrow> (\<exists>w. f (outer s) = (x, w) \<and> \<not> overdue io w \<and> s' = s\<lparr>outer := w\<rparr>)"
  by (auto simp: await_def split: prod.splits)

lemma outside_call_Inr:
  "outside_call io f s = (Inr x, s') \<longleftrightarrow> (\<exists>w. f (outer s) = (Inr x, w) \<and> \<not> overdue io w \<and> s' = s\<lparr>outer := w\<rparr>)"
  by (auto simp: outside_call_def io_bind_Inr io_lift_Inr await_Inr)

lemmas step_Inr = io_bind_Inr io_lift_Inr outside_call_Inr await_Inr

lemma adopt_Inr:
  assumes "adopt io key v now s = (Inr r, s')"
  obtains a w w' where "io_load io key w = (Inr (Some a), w')" "r = Some (c_policy a)" "a = v \<or> valid_at a now"
  using assms by (auto simp: adopt_def step_Inr split: option.splits if_splits)

lemma after_failure_Inr: "after_failure key st cached now s = (Inr r, s') \<Longrightarrow> r = map_option c_policy cached"
  by (auto simp: after_failure_def Let_def step_Inr put_state_def)

lemma sts_refresh_cases:
  assumes "sts_refresh io key domain st cached now i s = (Inr r, s')"
  obtains (kept) "r = map_option c_policy cached"
    | (fetched) p u u' s2 where "io_fetch io domain u = (Inr p, u')"
      "adopt io key \<lparr>c_id = i, c_policy = p, fetched_at = now, expires_at = sat_add now (p_max_age p)\<rparr> now s2
        = (Inr r, s')"
proof (cases "r = map_option c_policy cached")
  case False
  then obtain f u u' s2 where f: "io_fetch io domain u = (f, u')" "(case f of
              Inr policy \<Rightarrow> adopt io key \<lparr>c_id = i, c_policy = policy, fetched_at = now,
                  expires_at = sat_add now (p_max_age policy)\<rparr> now
            | Inl _ \<Rightarrow> after_failure key (st\<lparr>last_attempt := now, last_id := Some i\<rparr>) cached now) s2 = (Inr r, s')"
    using assms by (auto simp: sts_refresh_def Let_def step_Inr split: if_splits)
  show ?thesis
  proof (cases f)
    case (Inl e)
    then show ?thesis using f(2) False by (simp add: after_failure_Inr)
  next
    case (Inr p)
    then show ?thesis using f that(2) by simp
  qed
qed (rule that(1))

lemma sts_loaded_cases:
  assumes "sts_loaded io key domain st loaded now s = (Inr r, s')"
  obtains (kept) "r = map_option c_policy (live loaded now)"
    | (fetched) i p u u' s2 where "io_fetch io domain u = (Inr p, u')"
      "adopt io key \<lparr>c_id = i, c_policy = p, fetched_at = now, expires_at = sat_add now (p_max_age p)\<rparr> now s2
        = (Inr r, s')"
proof -
  consider "r = map_option c_policy (live loaded now)"
    | i s1 where "sts_refresh io key domain st (live loaded now) now i s1 = (Inr r, s')"
    using assms by (auto simp: sts_loaded_def step_Inr split: if_splits option.splits)
  then show ?thesis
  proof cases
    case 2
    then show ?thesis by (cases rule: sts_refresh_cases) (use that in blast)+
  qed (rule that(1))
qed

text \<open>The two ways in which \<open>sts\<close> comes to a policy.\<close>

lemma sts_cases:
  assumes "sts io cfg c now s = (Inr r, s')"
  obtains (kept) d domain loaded w w' where "policy_domain cfg = Some d" "normalize_domain d = Inr domain"
      "io_load io (cache_key io c domain) w = (Inr loaded, w')" "r = map_option c_policy (live loaded now)"
    | (fetched) d domain i p a u u' w w' where "policy_domain cfg = Some d" "normalize_domain d = Inr domain"
      "io_fetch io domain u = (Inr p, u')" "io_load io (cache_key io c domain) w = (Inr (Some a), w')"
      "r = Some (c_policy a)"
      "a = \<lparr>c_id = i, c_policy = p, fetched_at = now, expires_at = sat_add now (p_max_age p)\<rparr> \<or> valid_at a now"
proof -
  obtain d domain st loaded w w' s1 where d: "policy_domain cfg = Some d" "normalize_domain d = Inr domain"
    and l: "io_load io (cache_key io c domain) w = (Inr loaded, w')"
    and r: "sts_loaded io (cache_key io c domain) domain st loaded now s1 = (Inr r, s')"
    using assms by (auto simp: sts_def Let_def step_Inr ok_or_def split: option.splits)
  from r show ?thesis
  proof (cases rule: sts_loaded_cases)
    case kept
    then show ?thesis using that(1) d l by blast
  next
    case (fetched i p u u' s2)
    from fetched(2) show ?thesis by (rule adopt_Inr) (rule that(2) [OF d fetched(1)])
  qed
qed

definition vouched :: "('w, 'm) policy_io_scheme \<Rightarrow> string \<Rightarrow> string \<Rightarrow> nat \<Rightarrow> sts_policy \<Rightarrow> bool" where
  "vouched io key domain now p \<longleftrightarrow> (\<exists>w w' a. io_load io key w = (Inr (Some a), w') \<and> c_policy a = p
     \<and> (valid_at a now \<or> fetched_at a = now \<and> (\<exists>u u'. io_fetch io domain u = (Inr p, u'))))"

lemma live_Some: "live c now = Some a \<longleftrightarrow> c = Some a \<and> valid_at a now"
  by (auto simp: live_def split: option.splits)

lemma sts_vouched:
  assumes "sts io cfg c now s = (Inr (Some p), s')"
  shows "\<exists>d domain. policy_domain cfg = Some d \<and> normalize_domain d = Inr domain
    \<and> vouched io (cache_key io c domain) domain now p"
  using assms
proof (cases rule: sts_cases)
  case (kept d domain loaded w w')
  then obtain a where "loaded = Some a" "valid_at a now" "c_policy a = p"
    using kept(4) [symmetric] by (auto simp: live_Some)
  then show ?thesis using kept(1-3) unfolding vouched_def by blast
next
  case (fetched d domain i q a u u' w w')
  have "valid_at a now \<or> fetched_at a = now \<and> (\<exists>u u'. io_fetch io domain u = (Inr p, u'))"
    using fetched(6)
  proof
    assume a: "a = \<lparr>c_id = i, c_policy = q, fetched_at = now, expires_at = sat_add now (p_max_age q)\<rparr>"
    then have "p = q" "fetched_at a = now" using fetched(5) by simp_all
    then show ?thesis using fetched(3) by blast
  qed simp
  then show ?thesis using fetched(1,2,4,5) unfolding vouched_def by blast
qed

lemma dane_step_Inr:
  assumes "dane_step io cfg host port s = (Inr d, s')"
  shows "dane cfg = DaneRequired \<Longrightarrow> has_dane d" "has_dane d \<Longrightarrow> dane_tls d" "list_all usable (d_tlsa d)"
    "\<not> sts_enforce d"
  using assms
  by (auto simp: dane_step_def step_Inr no_decision_def has_dane_def Let_def list_all_iff split: if_splits)

lemma prepare_inner_Inr:
  assumes "prepare_inner io cfg c host port now s = (Inr d, s')"
  obtains (plain) s1 where "dane_step io cfg host port s = (Inr d, s1)" "mta_sts cfg = StsOff \<or> has_dane d"
    | (enforced) d0 s1 p s2 where "dane_step io cfg host port s = (Inr d0, s1)" "sts io cfg c now s1 = (Inr (Some p), s2)"
        "p_mode p = Enforce" "sts_matches p host" "d = d0\<lparr>sts_enforce := True\<rparr>" "\<not> has_dane d0" "mta_sts cfg \<noteq> StsOff"
    | (unforced) s1 r s2 where "dane_step io cfg host port s = (Inr d, s1)" "sts io cfg c now s1 = (Inr r, s2)"
        "\<not> (case r of Some p \<Rightarrow> p_mode p = Enforce | None \<Rightarrow> False)" "mta_sts cfg = StsAuto" "\<not> has_dane d"
proof -
  obtain d0 s1 where d0: "dane_step io cfg host port s = (Inr d0, s1)"
    and rest: "(if mta_sts cfg = StsOff \<or> has_dane d0 then io_lift (Inr d0)
    else io_bind (sts io cfg c now) (\<lambda>policy.
      if (case policy of Some p \<Rightarrow> p_mode p = Enforce | None \<Rightarrow> False)
      then (if \<not> sts_matches (the policy) host then io_lift (Inl PMxMismatch)
        else io_lift (Inr (d0\<lparr>sts_enforce := True\<rparr>)))
      else if mta_sts cfg = StsRequired then io_lift (Inl PStsRequired)
      else io_lift (Inr d0))) s1 = (Inr d, s')"
    using assms by (auto simp: prepare_inner_def io_bind_Inr)
  show ?thesis
  proof (cases "mta_sts cfg = StsOff \<or> has_dane d0")
    case True
    then have "d = d0" using rest by (simp add: io_lift_Inr)
    then show ?thesis using d0 True by (intro plain) simp_all
  next
    case False
    then obtain r s2 where r: "sts io cfg c now s1 = (Inr r, s2)"
      "(if (case r of Some p \<Rightarrow> p_mode p = Enforce | None \<Rightarrow> False)
      then (if \<not> sts_matches (the r) host then io_lift (Inl PMxMismatch)
        else io_lift (Inr (d0\<lparr>sts_enforce := True\<rparr>)))
      else if mta_sts cfg = StsRequired then io_lift (Inl PStsRequired)
      else io_lift (Inr d0)) s2 = (Inr d, s')"
      using rest by (auto simp: io_bind_Inr)
    show ?thesis
    proof (cases "case r of Some p \<Rightarrow> p_mode p = Enforce | None \<Rightarrow> False")
      case True
      then obtain p where p: "r = Some p" "p_mode p = Enforce" by (auto split: option.splits)
      then have "sts_matches p host" "d = d0\<lparr>sts_enforce := True\<rparr>"
        using r(2) by (auto simp: io_lift_Inr split: if_splits)
      then show ?thesis using False p r(1) d0 enforced [of d0 s1 p s2] by blast
    next
      case no: False
      then have "d = d0" "mta_sts cfg = StsAuto"
        using r(2) False by (cases "mta_sts cfg"; simp add: io_lift_Inr)+
      then show ?thesis using False no d0 r(1) by (intro unforced) simp_all
    qed
  qed
qed

lemma prepare_Inr:
  assumes "prepare io cfg c host port s = (Inr d, s')" "config_enabled cfg"
  obtains h w now s1 where "normalize_domain host = Inr h" "unix_time io w = Some now"
    "prepare_inner io cfg c h port now s1 = (Inr d, s')"
  using assms
  by (auto simp: prepare_def step_Inr split: option.splits)

lemma prepare_demands:
  assumes "prepare io cfg c host port s = (Inr d, s')" "config_enabled cfg"
  shows "(dane cfg = DaneRequired \<longrightarrow> has_dane d) \<and> (mta_sts cfg = StsRequired \<longrightarrow> has_dane d \<or> sts_enforce d)
    \<and> (has_dane d \<longrightarrow> requires_tls d \<and> \<not> sts_enforce d) \<and> list_all usable (d_tlsa d)"
proof -
  obtain h w now s1 where "prepare_inner io cfg c h port now s1 = (Inr d, s')"
    using assms by (rule prepare_Inr)
  then show ?thesis
  proof (cases rule: prepare_inner_Inr)
    case (plain s2)
    note dane_step_Inr [OF plain(1)]
    then show ?thesis using plain(2) by (auto simp: requires_tls_def)
  next
    case (enforced d0 s2 p s3)
    note dd = dane_step_Inr [OF enforced(1)]
    have [simp]: "has_dane d = has_dane d0" "d_tlsa d = d_tlsa d0" "sts_enforce d"
      by (simp_all add: enforced(5) has_dane_def)
    show ?thesis using dd enforced(6) by auto
  next
    case (unforced s2 r s3)
    note dane_step_Inr [OF unforced(1)]
    then show ?thesis using unforced by auto
  qed
qed

text \<open>C5: A connection is never prepared weaker than configured: with DANE required there are
  usable records, with MTA-STS required there are such records or enforcement, usable records
  always require TLS; and enforcement is always by an enforcing policy of the configured domain
  that lists the host and was either fetched by this call or is stored and within its lifetime.\<close>

theorem prepare_never_downgrades:
  assumes "prepare io cfg c host port s = (Inr d, s')" "config_enabled cfg"
  shows "(dane cfg = DaneRequired \<longrightarrow> has_dane d) \<and> (mta_sts cfg = StsRequired \<longrightarrow> has_dane d \<or> sts_enforce d)
    \<and> (has_dane d \<longrightarrow> requires_tls d \<and> \<not> sts_enforce d) \<and> list_all usable (d_tlsa d)
    \<and> (sts_enforce d \<longrightarrow> (\<exists>pd domain now w p. policy_domain cfg = Some pd \<and> normalize_domain pd = Inr domain
        \<and> unix_time io w = Some now \<and> vouched io (cache_key io c domain) domain now p
        \<and> p_mode p = Enforce \<and> (\<exists>h. normalize_domain host = Inr h \<and> sts_matches p h)))"
proof -
  obtain h w now s1 where h: "normalize_domain host = Inr h" "unix_time io w = Some now"
    and i: "prepare_inner io cfg c h port now s1 = (Inr d, s')"
    using assms by (rule prepare_Inr)
  from i have "\<exists>pd domain now w p. policy_domain cfg = Some pd \<and> normalize_domain pd = Inr domain
      \<and> unix_time io w = Some now \<and> vouched io (cache_key io c domain) domain now p
      \<and> p_mode p = Enforce \<and> (\<exists>h. normalize_domain host = Inr h \<and> sts_matches p h)" if "sts_enforce d"
  proof (cases rule: prepare_inner_Inr)
    case (enforced d0 s2 p s3)
    then show ?thesis using h sts_vouched [OF enforced(2)] by auto
  qed (use that in \<open>auto dest: dane_step_Inr(4)\<close>)
  with prepare_demands [OF assms] show ?thesis by blast
qed

text \<open>C7: Whoever controls DNS and can block the policy's HTTPS fetch cannot turn a stored,
  unexpired enforcing policy off: as long as loads return it or fail and no fetch succeeds,
  every connection that is prepared at all has authenticated DANE records or enforces the
  stored policy for its host.\<close>

theorem stored_policy_survives_blocking:
  assumes "policy_domain cfg = Some pd" "normalize_domain pd = Inr domain" "mta_sts cfg \<noteq> StsOff"
    and "\<And>w x w'. io_load io (cache_key io c domain) w = (Inr x, w') \<Longrightarrow> x = Some a"
    and "\<And>w p w'. io_fetch io domain w \<noteq> (Inr p, w')"
    and "\<And>w now. unix_time io w = Some now \<Longrightarrow> valid_at a now" "p_mode (c_policy a) = Enforce"
  shows "case fst (prepare io cfg c host port s) of
     Inr d \<Rightarrow> has_dane d \<or> sts_enforce d \<and> (\<exists>h. normalize_domain host = Inr h \<and> sts_matches (c_policy a) h)
   | Inl e \<Rightarrow> True"
proof (cases "fst (prepare io cfg c host port s)")
  case (Inr d)
  then obtain s' where p: "prepare io cfg c host port s = (Inr d, s')" by (metis prod.collapse)
  have "config_enabled cfg" using assms(3) by (simp add: config_enabled_def)
  with p obtain h w now s1 where h: "normalize_domain host = Inr h" "unix_time io w = Some now"
    and i: "prepare_inner io cfg c h port now s1 = (Inr d, s')"
    by (rule prepare_Inr)
  have v: "valid_at a now" by (rule assms(6) [OF h(2)])
  have sts: "r = Some (c_policy a)" if "sts io cfg c now s2 = (Inr r, s3)" for r s2 s3
    using that
  proof (cases rule: sts_cases)
    case (kept d' domain' loaded w w')
    then have "loaded = Some a" using assms(1,2,4) by auto
    then show ?thesis using kept(4) v by (simp add: live_def)
  next
    case (fetched d' domain' i q a' u u' w w')
    then show ?thesis using assms(1,2,5) by auto
  qed
  from i show ?thesis
  proof (cases rule: prepare_inner_Inr)
    case (enforced d0 s2 q s3)
    then show ?thesis using sts [OF enforced(2)] h(1) Inr by simp
  next
    case (unforced s2 r s3)
    then show ?thesis using sts [OF unforced(2)] assms(7) by simp
  qed (use assms(3) Inr in auto)
qed simp

section \<open>The durable cache\<close>

text \<open>C8: Through any run of stores by any processes, with database failures anywhere, the
  durable cache never holds more than 1024 policies, and a policy that has not expired stays
  until one fetched later is published for its slot: it is never evicted to make room and
  never replaced by an older or same-second fetch.\<close>

theorem durable_cache_never_loses_live_policy:
  assumes "settings_ok lib t" "length (policy_rows t) \<le> MAX_ENTRIES"
    "durable_entry lib t (policy_key k) = Some c" "M \<le> expires_at c"
    "\<forall>(e, j, v) \<in> set ops. store_clock e < M
       \<and> (policy_key j = policy_key k \<longrightarrow> M \<le> expires_at v \<or> fetched_at v \<le> fetched_at c)"
  shows "let t' = foldl (\<lambda>t (e, j, v). snd (durable_store lib (fst e) (snd e) j v t)) t ops in
    length (policy_rows t') \<le> MAX_ENTRIES \<and> (\<exists>c'. durable_entry lib t' (policy_key k) = Some c'
      \<and> (\<not> hex_digest k \<or> durable_load lib True k t' = Inr (Some c'))
      \<and> (c' = c \<or> fetched_at c < fetched_at c'
          \<and> (\<exists>e j. (e, j, c') \<in> set ops \<and> policy_key j = policy_key k)))"
proof -
  have "settings_ok lib t' \<and> length (policy_rows t') \<le> MAX_ENTRIES \<Longrightarrow>
    length (policy_rows (foldl (\<lambda>t (e, j, v). snd (durable_store lib (fst e) (snd e) j v t)) t' ops)) \<le> MAX_ENTRIES" for t'
    by (induction ops arbitrary: t') (auto intro: durable.store_good durable_store_bounded)
  moreover note durable.run_newer [OF assms(1,3,4,5)]
  moreover have "durable_load lib True k u = Inr (Some x)" if "durable_entry lib u (policy_key k) = Some x" "hex_digest k" for u x
    using that by (auto simp: durable_load_def durable_entry_def bind_eq_Some_conv)
  ultimately show ?thesis using assms(1,2) unfolding Let_def by blast
qed

section \<open>A short policy lapses\<close>

text \<open>C40: After a fetch of the policy with id \<open>i\<close>, successful or not, \<open>sts\<close> asks for
  that id again only after 300 seconds, even when the policy has expired in between. A domain
  that enforces with a shorter \<open>max_age\<close> is then contacted without any requirement of TLS,
  although its policy is still announced and could be fetched.\<close>

theorem short_policy_lapses:
  assumes "dane cfg = DaneOff" "mta_sts cfg = StsAuto" "policy_domain cfg = Some pd" "normalize_domain pd = Inr domain"
    and "map_of (refreshes s) (cache_key io c domain) = Some st" "last_id st = Some i" "now - last_attempt st < 300"
    and "io_load io (cache_key io c domain) (outer s) = (Inr (Some a), w)" "expires_at a \<le> now" "\<not> overdue io w"
    and "io_txt io (''_mta-sts.'' @ domain) w = (Inr records, w')" "discovery_id records = Inr (Some i)" "\<not> overdue io w'"
  shows "prepare_inner io cfg c host port now s = (Inr no_decision, s\<lparr>outer := w'\<rparr>)"
proof -
  have "\<not> valid_at a now" using assms(9) by (simp add: valid_at_def)
  then have "sts_loaded io (cache_key io c domain) domain st (Some a) now (s\<lparr>outer := w\<rparr>) = (Inr None, s\<lparr>outer := w'\<rparr>)"
    using assms(6,7,9,11,12,13)
    by (simp add: sts_loaded_def io_bind_def await_def io_lift_def current_id_def live_def sts_refresh_def)
  then have "sts io cfg c now s = (Inr None, s\<lparr>outer := w'\<rparr>)"
    using assms(3,4,5,8,10)
    by (simp add: sts_def io_bind_def io_lift_def ok_or_def refresh_lock_def outside_call_def await_def Let_def)
  then show ?thesis
    using assms(1,2) by (simp add: prepare_inner_def dane_step_def io_bind_def io_lift_def no_decision_def has_dane_def)
qed

section \<open>Runs of the service\<close>

text \<open>
  A memory cache and a domain that always publishes the policy of 60 seconds; the world is the
  clock and the stored entry. In \<open>blocked_io\<close> an entry is stored and no fetch succeeds.
\<close>

definition sample_io :: "(nat \<times> cached_sts option) policy_io" where
  "sample_io = \<lparr>io_txt = (\<lambda>n w. (Inr [''v=STSv1; id=one''], w)), io_fetch = (\<lambda>d w. (Inr sample_policy, w)),
     io_dane = (\<lambda>h p w. (Inl PDns, w)), io_load = (\<lambda>k w. (Inr (snd w), w)),
     io_store = (\<lambda>k v w. (Inr (), (fst w, Some v))), io_permit = (\<lambda>w. (Inr (), w)), in_use = (\<lambda>w k. False),
     unix_time = (\<lambda>w. Some (fst w)), overdue = (\<lambda>w. False), digest = (\<lambda>t. [])\<rparr>"

definition sample_entry :: "nat \<Rightarrow> cached_sts" where
  "sample_entry now = \<lparr>c_id = ''one'', c_policy = sample_policy, fetched_at = now, expires_at = now + 60\<rparr>"

definition blocked_io :: "unit policy_io" where
  "blocked_io = \<lparr>io_txt = (\<lambda>n w. (Inl PDns, w)), io_fetch = (\<lambda>d w. (Inl PSts, w)),
     io_dane = (\<lambda>h p w. (Inl PDns, w)), io_load = (\<lambda>k w. (Inr (Some (sample_entry 5)), w)),
     io_store = (\<lambda>k v w. (Inl PCache, w)), io_permit = (\<lambda>w. (Inr (), w)), in_use = (\<lambda>w k. False),
     unix_time = (\<lambda>w. Some 30), overdue = (\<lambda>w. False), digest = (\<lambda>t. [])\<rparr>"

definition sample_config :: transport_config where
  "sample_config = \<lparr>dane = DaneOff, mta_sts = StsAuto, policy_domain = Some ''example.org''\<rparr>"

definition sample_context :: policy_context where
  "sample_context = \<lparr>doh_url = ''https://dns.example/'', egress_domain = None, cache_namespace = ''x''\<rparr>"

definition fresh_net :: "'w \<Rightarrow> 'w pnet" where
  "fresh_net w = \<lparr>outer = w, refreshes = []\<rparr>"

definition once_fetched :: "(nat \<times> cached_sts option) pnet" where
  "once_fetched = \<lparr>outer = (1000, Some (sample_entry 1000)),
     refreshes = [([], \<lparr>last_attempt = 1000, last_id = Some ''one'', last_warning = None\<rparr>)]\<rparr>"

definition enforced :: transport_decision where
  "enforced = no_decision\<lparr>sts_enforce := True\<rparr>"

lemma sample_domains:
  "normalize_domain ''example.org'' = Inr ''example.org''"
  "normalize_domain ''mail.example.org'' = Inr ''mail.example.org''"
proof -
  have "normalize_domain ''example.org'' = Inr (to_lower ''example.org'')"
    "normalize_domain ''mail.example.org'' = Inr (to_lower ''mail.example.org'')"
    by (rule normalize_name, code_simp, code_simp, code_simp, code_simp, code_simp, code_simp)+
  moreover have "to_lower ''example.org'' = ''example.org''" "to_lower ''mail.example.org'' = ''mail.example.org''"
    by code_simp+
  ultimately show "normalize_domain ''example.org'' = Inr ''example.org''"
    "normalize_domain ''mail.example.org'' = Inr ''mail.example.org''" by simp_all
qed

lemma sample_discovery: "discovery_id [''v=STSv1; id=one''] = Inr (Some ''one'')"
  by code_simp

lemma sample_matches: "sts_matches sample_policy ''mail.example.org''"
  by (simp add: sts_matches_def sample_domains(2) sample_policy_def strip_prefix_def split_once_def)

lemma sample_sat: "n \<le> 1000 \<Longrightarrow> sat_add n (p_max_age sample_policy) = n + 60"
  by (simp add: sat_add_def sample_policy_def U64_MAX_def)

lemma sample_entry_valid:
  assumes "n \<le> 1000" "n \<le> t" "t < n + 60"
  shows "valid_at (sample_entry n) t"
proof -
  have "p_max_age sample_policy = 60" by (simp add: sample_policy_def)
  moreover have "id_ok ''one''" by code_simp
  ultimately show ?thesis
    using fetched_ok [OF sample_parse, of "''one''" n t] sample_sat [OF assms(1)] assms
    by (simp add: sample_entry_def U64_MAX_def)
qed

lemma first_connection:
  "prepare sample_io sample_config sample_context ''mail.example.org'' 25 (fresh_net (1000, None)) = (Inr enforced, once_fetched)"
  using sample_sat [of 1000]
  by (simp add: prepare_def prepare_inner_def dane_step_def sts_def sts_loaded_def sts_refresh_def adopt_def put_state_def
      refresh_lock_def LOCK_LIMIT_def fresh_state_def live_def refresh_id_def current_id_def cache_key_def
      io_bind_def io_lift_def await_def outside_call_def ok_or_def Let_def sample_config_def sample_io_def
      fresh_net_def config_enabled_def sample_domains sample_discovery sample_matches sample_policy_def [THEN arg_cong, of p_mode]
      has_dane_def no_decision_def enforced_def once_fetched_def sample_entry_def)

theorem prepare_never_downgrades_witness:
  "\<exists>pd domain now w p. policy_domain sample_config = Some pd \<and> normalize_domain pd = Inr domain
     \<and> unix_time sample_io w = Some now
     \<and> vouched sample_io (cache_key sample_io sample_context domain) domain now p
     \<and> p_mode p = Enforce \<and> (\<exists>h. normalize_domain ''mail.example.org'' = Inr h \<and> sts_matches p h)"
proof -
  have "config_enabled sample_config" by (simp add: config_enabled_def sample_config_def)
  from prepare_never_downgrades [OF first_connection this] show ?thesis
    by (auto simp: enforced_def)
qed

theorem stored_policy_survives_blocking_witness:
  "case fst (prepare blocked_io sample_config sample_context ''mail.example.org'' 25 (fresh_net ())) of
     Inr d \<Rightarrow> has_dane d \<or> sts_enforce d
       \<and> (\<exists>h. normalize_domain ''mail.example.org'' = Inr h \<and> sts_matches (c_policy (sample_entry 5)) h)
   | Inl e \<Rightarrow> True"
  by (rule stored_policy_survives_blocking [where pd = "''example.org''" and domain = "''example.org''"])
    (auto simp: sample_config_def sample_domains blocked_io_def sample_entry_valid, simp add: sample_entry_def sample_policy_def)

text \<open>Enforced at 1000 seconds, not at 1100, with the same announced and fetchable policy.\<close>

theorem short_policy_lapses_witness:
  "prepare sample_io sample_config sample_context ''mail.example.org'' 25 (fresh_net (1000, None)) = (Inr enforced, once_fetched)
   \<and> prepare_inner sample_io sample_config sample_context ''mail.example.org'' 25 1100 once_fetched = (Inr no_decision, once_fetched)
   \<and> io_fetch sample_io ''example.org'' (outer once_fetched) = (Inr sample_policy, outer once_fetched)"
  using first_connection
    short_policy_lapses [of sample_config "''example.org''" "''example.org''" once_fetched sample_io sample_context
      "\<lparr>last_attempt = 1000, last_id = Some ''one'', last_warning = None\<rparr>" "''one''" 1100 "sample_entry 1000"
      "outer once_fetched" "[''v=STSv1; id=one'']" "outer once_fetched" "''mail.example.org''" 25]
    sample_domains(1) sample_discovery
  by (simp add: sample_config_def sample_io_def once_fetched_def cache_key_def sample_entry_def)

definition sample_pki :: "(string, nat) pki" where
  "sample_pki = \<lparr>spki = (\<lambda>c. Some (take 2 c)), sha256 = (\<lambda>t. t), sha512 = (\<lambda>t. t), name_of = Some,
     trusted = (\<lambda>a. True), anchor_builds = (\<lambda>a. True), chain_ok = (\<lambda>a e c n t now. a = ''root'' \<and> n = ''mx''),
     webpki_ok = (\<lambda>e c n t now. False)\<rparr>"

definition sample_tlsa :: "tlsa list" where
  "sample_tlsa = [\<lparr>cert_usage = 0, selector = 0, matching = 1, cert_data = []\<rparr>,
     \<lparr>cert_usage = 2, selector = 0, matching = 0, cert_data = ''root''\<rparr>]"

theorem dane_never_falls_back_witness:
  "list_ex (\<lambda>t. usable t \<and> (cert_usage t = 3 \<and> tlsa_matches sample_pki t ''leaf''
     \<or> cert_usage t = 2 \<and> list_ex (\<lambda>a. trusted sample_pki a \<and> (tlsa_matches sample_pki t a \<or> a = cert_data t)
          \<and> chain_ok sample_pki a ''leaf'' [''x''] (case Option.bind (Some ''mx.'') (\<lambda>n. name_of sample_pki (trim_end_bytes {CHR ''.''} n)) of
              Some x \<Rightarrow> x | None \<Rightarrow> ''other'') [] 7)
        ([''x''] @ [cert_data t]))) sample_tlsa"
proof (rule dane_never_falls_back)
  show "list_ex usable sample_tlsa" by code_simp
  show "verify_server_cert sample_pki (verifier_records sample_tlsa) (Some ''mx.'') ''leaf'' [''x''] ''other'' [] 7"
    by code_simp
qed

definition sample_json :: "cached_sts json_lib" where
  "sample_json = \<lparr>j_len = (\<lambda>c. 0), j_times = (\<lambda>c. Some (Some (fetched_at c), Some (expires_at c))),
     j_write = Some, j_read = Some\<rparr>"

definition sample_run :: db_run where
  "sample_run = \<lparr>begin_ok = True, lock_ok = True, select_ok = True, delete_ok = (\<lambda>k. True), insert_ok = True,
     commit_ok = True, commit_took = True\<rparr>"

definition slot_a :: string where "slot_a = replicate 64 (CHR ''a'')"
definition slot_b :: string where "slot_b = replicate 64 (CHR ''b'')"

theorem durable_cache_never_loses_live_policy_witness:
  "let t = foldl (\<lambda>t (e, j, v). snd (durable_store sample_json (fst e) (snd e) j v t))
       [(policy_key slot_a, sample_entry 5)]
       [((sample_run, Some 20), slot_b, sample_entry 19), ((sample_run, Some 20), slot_a, sample_entry 5)] in
    durable_entry sample_json t (policy_key slot_a) = Some (sample_entry 5)"
proof -
  have keys: "policy_key slot_b \<noteq> policy_key slot_a" by code_simp
  have "settings_ok sample_json [(policy_key slot_a, sample_entry 5)]"
    by (simp add: settings_ok_def json_codec_def sample_json_def row_ok_def policy_rows_def)
  from durable_cache_never_loses_live_policy [OF this, of slot_a "sample_entry 5" 65
      "[((sample_run, Some 20), slot_b, sample_entry 19), ((sample_run, Some 20), slot_a, sample_entry 5)]"]
  show ?thesis using keys
    by (auto simp: Let_def sample_json_def durable_entry_def policy_rows_def MAX_ENTRIES_def sample_entry_def store_clock_def)
qed

end
