(* ===== verification/Smtp_Addr.thy ===== *)
theory Smtp_Addr
  imports Transport_Sts
begin

text \<open>
  Envelope addresses (\<open>crates/mw-smtp/src/addr.rs\<close>) and the errors of the submission client
  (\<open>crates/mw-smtp/src/lib.rs\<close>). Where the code prints a text with \<open>{:?}\<close>, the error of the
  model holds the text itself.
\<close>

section \<open>Errors\<close>

datatype smtp_error =
    Transport string
  | DeliveryUncertain string
  | Auth string
  | Protocol string
  | InvalidAddress string
  | SmtpUtf8Required string
  | EightBitMimeRequired

fun smtp_error_show :: "smtp_error \<Rightarrow> string" where
  "smtp_error_show (Transport m) = ''smtp transport error: '' @ m"
| "smtp_error_show (DeliveryUncertain m) = ''delivery status unknown; check Sent before sending again: '' @ m"
| "smtp_error_show (Auth m) = ''smtp authentication failed: '' @ m"
| "smtp_error_show (Protocol m) = ''smtp protocol error: '' @ m"
| "smtp_error_show (InvalidAddress m) = ''invalid envelope address '' @ m"
| "smtp_error_show (SmtpUtf8Required m) =
     ''the server does not offer SMTPUTF8, required by '' @ m @ ''; the message was not sent''"
| "smtp_error_show EightBitMimeRequired = ''the server does not offer 8BITMIME; the message was not sent''"

section \<open>Mailboxes\<close>

definition MAX_ADDR_BYTES :: nat where "MAX_ADDR_BYTES = 254"
definition ECHO_CHARS :: nat where "ECHO_CHARS = 48"

definition str_is_ascii :: "string \<Rightarrow> bool" where
  "str_is_ascii s \<longleftrightarrow> list_all is_ascii s"

definition ellipsis :: string where "ellipsis = [CHR 0xE2, CHR 0x80, CHR 0xA6]"

definition refuse :: "string \<Rightarrow> string \<Rightarrow> smtp_error" where
  "refuse addr why = (let head = concat (take ECHO_CHARS (utf8_chars addr)) in
     InvalidAddress (head @ (if length head < length addr then ellipsis else []) @ '': '' @ why))"

text \<open>The scan of a quoted local part, over its characters.\<close>

fun quoted_local :: "string list \<Rightarrow> string + unit" where
  "quoted_local [] = Inr ()"
| "quoted_local (c # cs) =
    (if c = [BSL] then (case cs of
         [] \<Rightarrow> Inl ''incomplete quoted escape''
       | e # r \<Rightarrow> if (case e of [b] \<Rightarrow> 32 \<le> byte b \<and> byte b \<le> 126 | _ \<Rightarrow> False) then quoted_local r
           else Inl ''invalid quoted escape'')
     else if c = [DQ] \<or> is_control c \<or> (is_ws c \<and> c \<noteq> [SP]) then Inl ''invalid quoted local part''
     else quoted_local cs)"

definition ATOM_MARKS :: string where
  "ATOM_MARKS = ''!#$%&'' @ [CHR 0x27] @ ''*+-/=?^_'' @ [CHR 0x60] @ ''{|}~.''"

definition atom_char :: "string \<Rightarrow> bool" where
  "atom_char c \<longleftrightarrow> (case c of
       [b] \<Rightarrow> if is_ascii b then is_alnum b \<or> b \<in> set ATOM_MARKS else \<not> is_control c \<and> \<not> is_ws c
     | _ \<Rightarrow> \<not> is_control c \<and> \<not> is_ws c)"

definition quoted_inner :: "string \<Rightarrow> string option" where
  "quoted_inner l = Option.bind (strip_prefix [DQ] l) (strip_suffix [DQ])"

definition validate_local :: "string \<Rightarrow> string + unit" where
  "validate_local l =
    (if l = [] \<or> 64 < length l then Inl ''local part must be 1..64 octets''
     else case quoted_inner l of
       Some inner \<Rightarrow> quoted_local (utf8_chars inner)
     | None \<Rightarrow>
         if [] \<in> set (split_on (CHR ''.'') l) then Inl ''empty local atom''
         else if \<not> list_all atom_char (utf8_chars l) then Inl ''invalid local atom''
         else Inr ())"

definition domain_char :: "string \<Rightarrow> bool" where
  "domain_char c \<longleftrightarrow> (case c of
     [b] \<Rightarrow> is_ascii b \<longrightarrow> is_alnum b \<or> b = CHR ''-'' \<or> b = CHR ''.'' | _ \<Rightarrow> True)"

definition literal_of :: "string \<Rightarrow> string option" where
  "literal_of d = Option.bind (strip_prefix ''['' d) (strip_suffix '']'')"

text \<open>\<open>idna\<close> is \<open>url::Host::parse\<close> of a domain, printed.\<close>

definition mailbox :: "(string \<Rightarrow> string option) \<Rightarrow> string \<Rightarrow> string + unit" where
  "mailbox idna addr =
    (if MAX_ADDR_BYTES < length addr then Inl ''longer than 254 bytes''
     else if list_ex is_control (utf8_chars addr) then Inl ''contains a control character''
     else case rsplit_once (CHR ''@'') addr of
       None \<Rightarrow> Inl ''no @''
     | Some (l, d) \<Rightarrow> rbind (validate_local l) (\<lambda>_.
         if d = [] \<or> list_ex is_ws (utf8_chars d) then Inl ''invalid domain''
         else case literal_of d of
           Some lit \<Rightarrow>
             if (case strip_prefix ''IPv6:'' lit of
                 Some ip \<Rightarrow> parse_ipv6 ip \<noteq> None | None \<Rightarrow> parse_ipv4 lit \<noteq> None)
             then Inr () else Inl ''invalid address literal''
         | None \<Rightarrow>
             if \<not> list_all domain_char (utf8_chars d) then Inl ''invalid domain character''
             else case idna d of
               None \<Rightarrow> Inl ''invalid IDNA domain''
             | Some ascii \<Rightarrow>
                 if 253 < length ascii \<or> list_ex bad_label (split_on (CHR ''.'') ascii)
                 then Inl ''invalid DNS label''
                 else if [] \<in> set (split_on (CHR ''.'') d) then Inl ''empty DNS label''
                 else Inr ()))"

definition map_err :: "('e \<Rightarrow> 'f) \<Rightarrow> 'e + 'a \<Rightarrow> 'f + 'a" where
  "map_err f r = (case r of Inl e \<Rightarrow> Inl (f e) | Inr x \<Rightarrow> Inr x)"

definition validate_mailbox :: "(string \<Rightarrow> string option) \<Rightarrow> string \<Rightarrow> smtp_error + unit" where
  "validate_mailbox idna addr = map_err (refuse addr) (mailbox idna addr)"

definition validate_reverse_path :: "(string \<Rightarrow> string option) \<Rightarrow> string \<Rightarrow> smtp_error + unit" where
  "validate_reverse_path idna addr =
    (if addr = [] then Inr ()
     else if CHR ''@'' \<in> set addr then validate_mailbox idna addr
     else map_err (refuse addr) (validate_local addr))"

end
