(* ===== verification/Smtp_Conn.thy ===== *)
theory Smtp_Conn
  imports Smtp_Addr Egress_Send
begin

text \<open>
  The SMTP connection (\<open>crates/mw-smtp/src/conn.rs\<close>): framing of replies, the commands of a
  transaction and the transmission of a message. A byte slice off a character boundary is
  \<open>Panicked\<close>.
\<close>

section \<open>The stream\<close>

text \<open>
  What the other end will deliver, in the pieces single reads return (at most 1024 bytes each;
  an empty piece is the end of the stream), the error after them, and how many bytes a write
  takes before it fails. The peer is arbitrary, so a list fixed in advance also stands for one
  that answers what it is sent.
\<close>

record link =
  pieces :: "string list"
  read_error :: "string option"
  written :: string
  write_room :: "nat option"
  write_error :: string

record conn =
  wire :: link
  rbuf :: string
  utf8_offered :: bool
  utf8_requested :: bool

datatype smtp_stop = Failed smtp_error | Panicked

type_synonym 'a sc = "conn \<Rightarrow> (smtp_stop + 'a) \<times> conn"

definition conn_new :: "link \<Rightarrow> conn" where
  "conn_new l = \<lparr>wire = l, rbuf = [], utf8_offered = False, utf8_requested = False\<rparr>"

definition fail :: "smtp_error \<Rightarrow> 's \<Rightarrow> (smtp_stop + 'a) \<times> 's" where
  "fail e = io_lift (Inl (Failed e))"

definition checked :: "smtp_error + 'a \<Rightarrow> 's \<Rightarrow> (smtp_stop + 'a) \<times> 's" where
  "checked r = io_lift (map_err Failed r)"

text \<open>\<open>map_err\<close> on a step; a panic is no error value.\<close>

definition recast :: "(smtp_error \<Rightarrow> smtp_error) \<Rightarrow> ('s \<Rightarrow> (smtp_stop + 'a) \<times> 's) \<Rightarrow> 's \<Rightarrow> (smtp_stop + 'a) \<times> 's" where
  "recast f m s = (case m s of
     (Inl (Failed e), s') \<Rightarrow> (Inl (Failed (f e)), s') | r \<Rightarrow> r)"

definition MAX_LINE :: nat where "MAX_LINE = 65536"

definition read_piece :: "link \<Rightarrow> (string + string) \<times> link" where
  "read_piece l = (case pieces l of
     [] \<Rightarrow> ((case read_error l of Some e \<Rightarrow> Inl e | None \<Rightarrow> Inr []), l)
   | p # ps \<Rightarrow> (Inr (take 1024 p), l\<lparr>pieces := (if length p \<le> 1024 then ps else drop 1024 p # ps)\<rparr>))"

definition pending :: "conn \<Rightarrow> nat" where
  "pending c = length (concat (pieces (wire c)))"

lemma read_piece_pending:
  assumes "(Inr p, l') = read_piece l" "p \<noteq> []"
  shows "length (concat (pieces l)) = length p + length (concat (pieces l'))"
  using assms by (auto simp: read_piece_def split: list.splits option.splits if_splits)

section \<open>Reading\<close>

definition strip_cr :: "string \<Rightarrow> string" where
  "strip_cr l = (if l \<noteq> [] \<and> last l = CR then butlast l else l)"

function read_line :: "conn \<Rightarrow> (smtp_stop + string) \<times> conn" where
  "read_line c =
    (if LF \<in> set (rbuf c) then
       let l = takeWhile (\<lambda>b. b \<noteq> LF) (rbuf c) in
       (Inr (from_utf8_lossy (strip_cr l)), c\<lparr>rbuf := drop (length l + 1) (rbuf c)\<rparr>)
     else if MAX_LINE < length (rbuf c) then (Inl (Failed (Protocol ''reply line exceeded limit'')), c)
     else case read_piece (wire c) of
         (Inl e, l) \<Rightarrow> (Inl (Failed (Transport e)), c\<lparr>wire := l\<rparr>)
       | (Inr p, l) \<Rightarrow>
           if p = [] then (Inl (Failed (Protocol ''connection closed mid-reply'')), c\<lparr>wire := l\<rparr>)
           else read_line (c\<lparr>wire := l, rbuf := rbuf c @ p\<rparr>))"
  by pat_completeness auto
termination
  by (relation "measure pending") (auto simp: pending_def dest!: read_piece_pending simp del: length_concat)

declare read_line.simps [simp del]

record reply =
  code :: nat
  texts :: "string list"

definition is_positive :: "reply \<Rightarrow> bool" where
  "is_positive r \<longleftrightarrow> 200 \<le> code r \<and> code r < 300"

definition reply_text :: "reply \<Rightarrow> string" where
  "reply_text r = join '' '' (texts r)"

text \<open>\<open>{} {}\<close> of the code and the text.\<close>

definition reply_show :: "reply \<Rightarrow> string" where
  "reply_show r = dec_str (code r) @ '' '' @ reply_text r"

text \<open>One line of a reply: its code, whether it is the last one, and its text.\<close>

definition reply_line :: "string \<Rightarrow> smtp_stop + nat \<times> bool \<times> string" where
  "reply_line line =
    (if length line < 3 then Inl (Failed (Protocol (''short reply line '' @ line)))
     else if \<not> boundary (drop 3 line) then Inl Panicked
     else case parse_uint 65535 (take 3 line) of
       None \<Rightarrow> Inl (Failed (Protocol (''bad reply code '' @ line)))
     | Some n \<Rightarrow> Inr (n, \<not> (3 < length line \<and> line ! 3 = CHR ''-''),
         if 4 \<le> length line \<and> boundary (drop 4 line) then drop 4 line else []))"

lemma read_line_shrinks:
  "read_line c = (Inr l, c') \<Longrightarrow> pending c' + length (rbuf c') < pending c + length (rbuf c)"
proof (induction c rule: read_line.induct)
  case (1 c)
  show ?case
  proof (cases "LF \<in> set (rbuf c)")
    case True
    then have "c' = c\<lparr>rbuf := drop (length (takeWhile (\<lambda>b. b \<noteq> LF) (rbuf c)) + 1) (rbuf c)\<rparr>" "rbuf c \<noteq> []"
      using 1(2) by (auto simp: read_line.simps [of c] Let_def)
    then show ?thesis by (simp add: pending_def)
  next
    case False
    then obtain p w where p: "\<not> MAX_LINE < length (rbuf c)" "read_piece (wire c) = (Inr p, w)" "p \<noteq> []"
      "read_line (c\<lparr>wire := w, rbuf := rbuf c @ p\<rparr>) = (Inr l, c')"
      using 1(2) by (auto simp: read_line.simps [of c] split: if_splits prod.splits sum.splits)
    from 1(1) [OF False p(1) p(2) [symmetric] refl p(3) p(4)] read_piece_pending [OF p(2) [symmetric] p(3)]
    show ?thesis by (simp add: pending_def)
  qed
qed

function read_reply_from :: "string list \<Rightarrow> conn \<Rightarrow> (smtp_stop + reply) \<times> conn" where
  "read_reply_from ls c = (case read_line c of
       (Inl e, c') \<Rightarrow> (Inl e, c')
     | (Inr line, c') \<Rightarrow> (case reply_line line of
         Inl e \<Rightarrow> (Inl e, c')
       | Inr (n, final, txt) \<Rightarrow>
           if final then (Inr \<lparr>code = n, texts = ls @ [txt]\<rparr>, c') else read_reply_from (ls @ [txt]) c'))"
  by pat_completeness auto
termination
proof (relation "measure (\<lambda>(ls, c). pending c + length (rbuf c))")
  show "wf (measure (\<lambda>(ls, c). pending c + length (rbuf c)))" by simp
  fix ls c a c' line x d n e final t
  assume "(x, c') = read_line c" "x = Inr line"
  then have "read_line c = (Inr line, c')" by simp
  then show "((ls @ [t], c'), ls, c) \<in> measure (\<lambda>(ls, c). pending c + length (rbuf c))"
    by (simp add: read_line_shrinks)
qed

declare read_reply_from.simps [simp del]

definition read_reply :: "reply sc" where
  "read_reply = read_reply_from []"

section \<open>Writing\<close>

definition write_bytes :: "string \<Rightarrow> unit sc" where
  "write_bytes bs c = (let l = wire c in case write_room l of
       None \<Rightarrow> (Inr (), c\<lparr>wire := l\<lparr>written := written l @ bs\<rparr>\<rparr>)
     | Some n \<Rightarrow> (if length bs \<le> n then Inr () else Inl (Failed (Transport (write_error l))),
         c\<lparr>wire := l\<lparr>written := written l @ take n bs, write_room := Some (n - length bs)\<rparr>\<rparr>))"

abbreviation EOL :: string where "EOL \<equiv> [CR, LF]"

definition smtp_command :: "string \<Rightarrow> reply sc" where
  "smtp_command line = io_bind (write_bytes line) (\<lambda>_. read_reply)"

definition expect :: "nat \<Rightarrow> (reply \<Rightarrow> smtp_error) \<Rightarrow> reply \<Rightarrow> 's \<Rightarrow> (smtp_stop + unit) \<times> 's" where
  "expect n e r = (if code r = n then io_lift (Inr ()) else fail (e r))"

definition read_greeting :: "unit sc" where
  "read_greeting = io_bind read_reply (expect 220 (\<lambda>r. Protocol (''unexpected greeting '' @ reply_show r)))"

section \<open>Capabilities\<close>

record capabilities =
  cap_size :: "nat option"
  cap_8bitmime :: bool
  cap_starttls :: bool
  cap_pipelining :: bool
  cap_smtputf8 :: bool
  cap_requiretls :: bool
  cap_chunking :: bool
  cap_dsn :: bool
  cap_auth :: "string list"

definition no_caps :: capabilities where
  "no_caps = \<lparr>cap_size = None, cap_8bitmime = False, cap_starttls = False, cap_pipelining = False,
     cap_smtputf8 = False, cap_requiretls = False, cap_chunking = False, cap_dsn = False, cap_auth = []\<rparr>"

definition cap_words :: "string \<Rightarrow> string list" where
  "cap_words l = filter (\<lambda>w. w \<noteq> [])
     (split_on SP (map (\<lambda>b. if b = CHR ''='' then SP else b) (map ascii_upper l)))"

definition cap_line :: "capabilities \<Rightarrow> string \<Rightarrow> capabilities" where
  "cap_line caps line = (case cap_words line of
     [] \<Rightarrow> caps
   | w # ws \<Rightarrow>
      if w = ''SIZE'' then caps\<lparr>cap_size := Some (case ws of
          [] \<Rightarrow> 0 | n # _ \<Rightarrow> (case parse_uint U64_MAX n of Some k \<Rightarrow> k | None \<Rightarrow> 0))\<rparr>
      else if w = ''8BITMIME'' then caps\<lparr>cap_8bitmime := True\<rparr>
      else if w = ''STARTTLS'' then caps\<lparr>cap_starttls := True\<rparr>
      else if w = ''PIPELINING'' then caps\<lparr>cap_pipelining := True\<rparr>
      else if w = ''SMTPUTF8'' then caps\<lparr>cap_smtputf8 := True\<rparr>
      else if w = ''REQUIRETLS'' then caps\<lparr>cap_requiretls := True\<rparr>
      else if w = ''CHUNKING'' then caps\<lparr>cap_chunking := True\<rparr>
      else if w = ''DSN'' then caps\<lparr>cap_dsn := True\<rparr>
      else if w = ''AUTH'' then caps\<lparr>cap_auth := ws\<rparr>
      else caps)"

definition caps_parse :: "string list \<Rightarrow> capabilities" where
  "caps_parse ls = foldl cap_line no_caps ls"

definition offers :: "capabilities \<Rightarrow> string \<Rightarrow> bool" where
  "offers caps m \<longleftrightarrow> list_ex (\<lambda>x. eq_nocase x m) (cap_auth caps)"

section \<open>Session commands\<close>

definition check_ehlo_name :: "string \<Rightarrow> smtp_error + unit" where
  "check_ehlo_name n = guard_err (list_ex is_control (utf8_chars n))
     (Protocol ''the configured EHLO name contains a control character'')"

definition ehlo :: "string \<Rightarrow> capabilities sc" where
  "ehlo name = io_bind (checked (check_ehlo_name name)) (\<lambda>_.
     io_bind (smtp_command (''EHLO '' @ name @ EOL)) (\<lambda>r.
     io_bind (expect 250 (\<lambda>r. Protocol (''EHLO rejected: '' @ reply_show r)) r) (\<lambda>_ c.
       let caps = caps_parse (drop 1 (texts r)) in (Inr caps, c\<lparr>utf8_offered := cap_smtputf8 caps\<rparr>))))"

definition starttls :: "unit sc" where
  "starttls = io_bind (smtp_command (''STARTTLS'' @ EOL))
     (expect 220 (\<lambda>r. Protocol (''STARTTLS rejected: '' @ reply_show r)))"

text \<open>\<open>quit\<close> ignores errors.\<close>

definition quit :: "unit sc" where
  "quit c = (case smtp_command (''QUIT'' @ EOL) c of
     (Inl Panicked, c') \<Rightarrow> (Inl Panicked, c') | (_, c') \<Rightarrow> (Inr (), c'))"

definition into_inner :: "link sc" where
  "into_inner c = (if rbuf c = [] then (Inr (wire c), c)
     else (Inl (Failed (Protocol ''unexpected data buffered before STARTTLS handshake'')), c))"

section \<open>The transaction\<close>

datatype dsn_ret = RetFull | RetHdrs
datatype dsn_notify = Never | OnSuccess | OnFailure | OnDelay

fun ret_str :: "dsn_ret \<Rightarrow> string" where
  "ret_str RetFull = ''FULL''"
| "ret_str RetHdrs = ''HDRS''"

fun notify_str :: "dsn_notify \<Rightarrow> string" where
  "notify_str Never = ''NEVER''"
| "notify_str OnSuccess = ''SUCCESS''"
| "notify_str OnFailure = ''FAILURE''"
| "notify_str OnDelay = ''DELAY''"

record mail_params =
  m_size :: "nat option"
  m_8bit :: bool
  m_smtputf8 :: bool
  m_require_tls :: bool
  m_ret :: "dsn_ret option"
  m_envid :: "string option"

definition HEX_UPPER :: string where "HEX_UPPER = ''0123456789ABCDEF''"

definition hex2_upper :: "char \<Rightarrow> string" where
  "hex2_upper b = [HEX_UPPER ! (byte b div 16), HEX_UPPER ! (byte b mod 16)]"

definition xtext_byte :: "char \<Rightarrow> string" where
  "xtext_byte b = (if 33 \<le> byte b \<and> byte b \<le> 126 \<and> b \<noteq> CHR ''+'' \<and> b \<noteq> CHR ''='' then [b]
     else CHR ''+'' # hex2_upper b)"

definition xtext :: "string \<Rightarrow> string" where
  "xtext s = concat (map xtext_byte s)"

definition mail_command :: "string \<Rightarrow> mail_params \<Rightarrow> string" where
  "mail_command from p = ''MAIL FROM:<'' @ from @ ''>''
     @ (case m_size p of Some n \<Rightarrow> '' SIZE='' @ dec_str n | None \<Rightarrow> [])
     @ (if m_8bit p then '' BODY=8BITMIME'' else [])
     @ (if m_smtputf8 p \<or> \<not> str_is_ascii from then '' SMTPUTF8'' else [])
     @ (if m_require_tls p then '' REQUIRETLS'' else [])
     @ (case m_ret p of Some r \<Rightarrow> '' RET='' @ ret_str r | None \<Rightarrow> [])
     @ (case m_envid p of Some e \<Rightarrow> '' ENVID='' @ xtext e | None \<Rightarrow> [])
     @ EOL"

definition mail_from :: "(string \<Rightarrow> string option) \<Rightarrow> string \<Rightarrow> mail_params \<Rightarrow> unit sc" where
  "mail_from idna from p =
    io_bind (checked (validate_reverse_path idna from)) (\<lambda>_ c.
      let utf8 = m_smtputf8 p \<or> \<not> str_is_ascii from in
      if utf8 \<and> \<not> utf8_offered c
      then fail (if str_is_ascii from then Protocol ''server does not advertise SMTPUTF8''
        else SmtpUtf8Required from) c
      else io_bind (smtp_command (mail_command from p)) (\<lambda>r.
          if is_positive r then io_lift (Inr ()) else fail (Protocol (''MAIL FROM rejected: '' @ reply_show r)))
        (c\<lparr>utf8_requested := utf8\<rparr>))"

text \<open>The escaping of a UTF-8 \<open>ORCPT\<close>, one character at a time.\<close>

definition unitext_char :: "string \<Rightarrow> string" where
  "unitext_char c = (case c of
     [b] \<Rightarrow> if byte b < 32 \<or> byte b = 127 \<or> b \<in> {SP, BSL, CHR ''+'', CHR ''=''}
       then BSL # ''x{'' @ hex2_upper b @ ''}'' else c
   | _ \<Rightarrow> c)"

definition rcpt_command :: "string \<Rightarrow> dsn_notify list \<Rightarrow> bool \<Rightarrow> string" where
  "rcpt_command addr notify orcpt = ''RCPT TO:<'' @ addr @ ''>''
     @ (if notify \<noteq> [] then '' NOTIFY='' @ join '','' (map notify_str notify) else [])
     @ (if \<not> orcpt then [] else if str_is_ascii addr then '' ORCPT=rfc822;'' @ xtext addr
        else '' ORCPT=utf-8;'' @ concat (map unitext_char (utf8_chars addr)))
     @ EOL"

datatype rcpt_outcome = Accepted | Rejected string

definition rcpt_to ::
  "(string \<Rightarrow> string option) \<Rightarrow> string \<Rightarrow> dsn_notify list \<Rightarrow> bool \<Rightarrow> rcpt_outcome sc" where
  "rcpt_to idna addr notify orcpt =
    io_bind (checked (validate_mailbox idna addr)) (\<lambda>_ c.
      if \<not> str_is_ascii addr \<and> \<not> utf8_requested c
      then fail (if \<not> utf8_offered c then SmtpUtf8Required addr
        else Protocol (''the address '' @ addr @ '' is not ASCII and SMTPUTF8 was not requested on MAIL FROM'')) c
      else io_bind (smtp_command (rcpt_command addr notify orcpt)) (\<lambda>r. io_lift (Inr
        (if is_positive r then Accepted else Rejected (reply_show r)))) c)"

section \<open>The message\<close>

text \<open>The pieces \<open>lines\<close> hands out; the second argument is \<open>at_line_start\<close>.\<close>

function message_pieces :: "bool \<Rightarrow> bool \<Rightarrow> string \<Rightarrow> string list" where
  "message_pieces dot start [] = (if start then [] else [EOL])"
| "message_pieces dot start (b # s) =
    (if b = CR then EOL # message_pieces dot True (if s \<noteq> [] \<and> hd s = LF then tl s else s)
     else if b = LF then EOL # message_pieces dot True s
     else (if start \<and> b = CHR ''.'' \<and> dot then [''.''] else []) @ [b] # message_pieces dot False s)"
  by pat_completeness auto
termination by (relation "measure (\<lambda>(dot, start, s). length s)") auto

definition data_lines :: "string \<Rightarrow> bool \<Rightarrow> string" where
  "data_lines raw dot = concat (message_pieces dot True raw)"

definition transmitted_len :: "string \<Rightarrow> nat" where
  "transmitted_len raw = sum_list (map length (message_pieces False True raw))"

definition uncertain :: "smtp_error \<Rightarrow> smtp_error" where
  "uncertain e = DeliveryUncertain (smtp_error_show e)"

definition final_reply :: "string \<Rightarrow> reply \<Rightarrow> unit sc" where
  "final_reply what r = (if is_positive r then io_lift (Inr ())
     else if \<not> (400 \<le> code r \<and> code r < 600) then fail (DeliveryUncertain ''unexpected final reply'')
     else fail (Protocol (''message rejected after '' @ what @ '': '' @ reply_show r)))"

definition data_payload :: "string \<Rightarrow> string" where
  "data_payload raw = data_lines raw True @ ''.'' @ EOL"

definition data :: "string \<Rightarrow> unit sc" where
  "data raw = io_bind (smtp_command (''DATA'' @ EOL)) (\<lambda>r.
     io_bind (expect 354 (\<lambda>r. Protocol (''DATA rejected: '' @ reply_show r)) r) (\<lambda>_.
     io_bind (recast uncertain (write_bytes (data_payload raw))) (\<lambda>_.
     io_bind (recast uncertain read_reply) (final_reply ''DATA''))))"

definition bdat_payload :: "string \<Rightarrow> string" where
  "bdat_payload raw = (let body = data_lines raw False in
     ''BDAT '' @ dec_str (length body) @ '' LAST'' @ EOL @ body)"

definition bdat :: "string \<Rightarrow> unit sc" where
  "bdat raw = io_bind (recast uncertain (write_bytes (bdat_payload raw))) (\<lambda>_.
     io_bind (recast uncertain read_reply) (final_reply ''BDAT''))"

end
