(* ===== verification/Net_Auth.thy ===== *)
theory Net_Auth
  imports Rust_Str
begin

text \<open>
  Which password mechanism a mail connection uses (\<open>crates/mw-net/src/auth.rs\<close>): an ordered
  allow-list against what the server advertises.
\<close>

datatype auth_mechanism = PlainMech | LoginMech | ScramMech | ScramPlusMech | ImapLogin | Pop3UserPass
datatype auth_protocol = Imap | Pop3 | Smtp | SieveProtocol

definition ALL_MECHANISMS :: "auth_mechanism list" where
  "ALL_MECHANISMS = [PlainMech, LoginMech, ScramMech, ScramPlusMech, ImapLogin, Pop3UserPass]"

fun mechanism_str :: "auth_mechanism \<Rightarrow> string" where
  "mechanism_str PlainMech = ''plain''"
| "mechanism_str LoginMech = ''login''"
| "mechanism_str ScramMech = ''scram-sha-256''"
| "mechanism_str ScramPlusMech = ''scram-sha-256-plus''"
| "mechanism_str ImapLogin = ''imap-login''"
| "mechanism_str Pop3UserPass = ''pop3-user-pass''"

fun sasl_name :: "auth_mechanism \<Rightarrow> string option" where
  "sasl_name PlainMech = Some ''PLAIN''"
| "sasl_name LoginMech = Some ''LOGIN''"
| "sasl_name ScramMech = Some ''SCRAM-SHA-256''"
| "sasl_name ScramPlusMech = Some ''SCRAM-SHA-256-PLUS''"
| "sasl_name ImapLogin = None"
| "sasl_name Pop3UserPass = None"

definition mechanism_parse :: "string \<Rightarrow> auth_mechanism option" where
  "mechanism_parse v = find (\<lambda>m. mechanism_str m = v) ALL_MECHANISMS"

fun supports :: "auth_protocol \<Rightarrow> auth_mechanism \<Rightarrow> bool" where
  "supports p ImapLogin = (p = Imap)"
| "supports p Pop3UserPass = (p = Pop3)"
| "supports p ScramPlusMech = (p \<noteq> SieveProtocol)"
| "supports p m = True"

text \<open>A policy is its list of mechanisms; \<open>new\<close> refuses empty, long and repetitive ones.\<close>

type_synonym auth_policy = "auth_mechanism list"

definition auth_policy_new :: "auth_mechanism list \<Rightarrow> string + auth_policy" where
  "auth_policy_new ms =
    (if ms = [] \<or> 6 < length ms then Inl ''authentication requires one to six mechanisms''
     else if \<not> distinct ms then Inl ''authentication mechanisms must be unique''
     else Inr ms)"

definition permitted :: "auth_protocol \<Rightarrow> (string \<Rightarrow> bool) \<Rightarrow> bool \<Rightarrow> bool \<Rightarrow> auth_mechanism \<Rightarrow> bool" where
  "permitted p advertised binding command m \<longleftrightarrow> supports p m \<and> (m \<noteq> ScramPlusMech \<or> binding)
     \<and> (case sasl_name m of None \<Rightarrow> command | Some n \<Rightarrow> advertised n)"

definition select :: "auth_policy \<Rightarrow> auth_protocol \<Rightarrow> (string \<Rightarrow> bool) \<Rightarrow> bool \<Rightarrow> bool \<Rightarrow> auth_mechanism option" where
  "select ms p advertised binding command = find (permitted p advertised binding command) ms"

lemma select_SomeD:
  assumes "select ms p advertised binding command = Some m"
  shows "permitted p advertised binding command m" "\<exists>before after. ms = before @ m # after
    \<and> list_all (\<lambda>x. \<not> permitted p advertised binding command x) before"
proof -
  have "permitted p advertised binding command m \<and> (\<exists>before after. ms = before @ m # after
    \<and> list_all (\<lambda>x. \<not> permitted p advertised binding command x) before)"
    using assms
  proof (induction ms)
    case (Cons a ms)
    show ?case
    proof (cases "permitted p advertised binding command a")
      case True
      then show ?thesis using Cons.prems
        by (intro conjI exI [of _ "[]"] exI [of _ ms]) (simp_all add: select_def)
    next
      case False
      then obtain before after where "permitted p advertised binding command m" "ms = before @ m # after"
        "list_all (\<lambda>x. \<not> permitted p advertised binding command x) before"
        using Cons by (auto simp: select_def)
      then show ?thesis using False by (intro conjI exI [of _ "a # before"] exI [of _ after]) auto
    qed
  qed (simp add: select_def)
  then show "permitted p advertised binding command m" "\<exists>before after. ms = before @ m # after
    \<and> list_all (\<lambda>x. \<not> permitted p advertised binding command x) before" by auto
qed

end
