(* ===== verification/Smtp_Auth.thy ===== *)
theory Smtp_Auth
  imports Smtp_Conn Net_Auth
begin

text \<open>
  SASL for the submission client (\<open>crates/mw-smtp/src/sasl.rs\<close>, \<open>authenticate\<close> of
  \<open>conn.rs\<close>). Base64, SHA-256 and HMAC are the record \<open>sasl_lib\<close>.
\<close>

section \<open>Initial responses\<close>

record sasl_lib =
  b64 :: "string \<Rightarrow> string"
  b64_read :: "string \<Rightarrow> string option"
  hmac_sha256 :: "string \<Rightarrow> string \<Rightarrow> string"
  digest256 :: "string \<Rightarrow> string"

abbreviation NUL :: char where "NUL \<equiv> CHR 0x00"
abbreviation SOH :: char where "SOH \<equiv> CHR 0x01"

definition sasl_plain :: "sasl_lib \<Rightarrow> string \<Rightarrow> string \<Rightarrow> string" where
  "sasl_plain k user pass = b64 k (NUL # user @ NUL # pass)"

definition xoauth2 :: "sasl_lib \<Rightarrow> string \<Rightarrow> string \<Rightarrow> string" where
  "xoauth2 k user token = b64 k (''user='' @ user @ SOH # ''auth=Bearer '' @ token @ [SOH, SOH])"

definition oauthbearer :: "sasl_lib \<Rightarrow> string \<Rightarrow> string \<Rightarrow> string" where
  "oauthbearer k user token = b64 k (''n,a='' @ user @ '','' @ SOH # ''auth=Bearer '' @ token @ [SOH, SOH])"

section \<open>SCRAM-SHA-256\<close>

definition xor_bytes :: "string \<Rightarrow> string \<Rightarrow> string" where
  "xor_bytes a b = map (\<lambda>(x, y). char_of (byte x XOR byte y)) (zip a b)"

primrec pbkdf2_rounds :: "sasl_lib \<Rightarrow> string \<Rightarrow> nat \<Rightarrow> string \<times> string \<Rightarrow> string \<times> string" where
  "pbkdf2_rounds k pw 0 s = s"
| "pbkdf2_rounds k pw (Suc n) s = (let u = hmac_sha256 k pw (fst s) in
     pbkdf2_rounds k pw n (u, xor_bytes (snd s) u))"

text \<open>Rounds \<open>1..iterations\<close> after the first block.\<close>

definition pbkdf2_sha256 :: "sasl_lib \<Rightarrow> string \<Rightarrow> string \<Rightarrow> nat \<Rightarrow> string" where
  "pbkdf2_sha256 k pw salt iterations =
    (let u = hmac_sha256 k pw (salt @ [NUL, NUL, NUL, SOH]) in
     snd (pbkdf2_rounds k pw (iterations - 1) (u, u)))"

definition scram_escape :: "string \<Rightarrow> string" where
  "scram_escape s = concat (map (\<lambda>b. if b = CHR '','' then ''=2C'' else [b])
     (concat (map (\<lambda>b. if b = CHR ''='' then ''=3D'' else [b]) s)))"

record scram =
  sc_password :: string
  sc_gs2 :: string
  sc_cbind :: string
  sc_nonce :: string
  sc_first_bare :: string
  sc_server_signature :: string

definition scram_new :: "string \<Rightarrow> string \<Rightarrow> string \<Rightarrow> (string \<times> string) option \<Rightarrow> scram \<times> string" where
  "scram_new user pass nonce binding =
    (let gs2 = (case binding of Some (n, _) \<Rightarrow> ''p='' @ n @ '',,'' | None \<Rightarrow> ''n,,'');
         bare = ''n='' @ scram_escape user @ '',r='' @ nonce in
     (\<lparr>sc_password = pass, sc_gs2 = gs2, sc_cbind = (case binding of Some (_, b) \<Rightarrow> b | None \<Rightarrow> []),
       sc_nonce = nonce, sc_first_bare = bare, sc_server_signature = replicate 32 NUL\<rparr>, gs2 @ bare))"

record server_first =
  sf_nonce :: "string option"
  sf_salt :: "string option"
  sf_iter :: "string option"

definition server_field :: "string \<Rightarrow> server_first \<Rightarrow> string + server_first" where
  "server_field field f = (case split_once (CHR ''='') field of
     None \<Rightarrow> Inl (''malformed server-first field '' @ field)
   | Some (key, v) \<Rightarrow>
       if key = ''r'' then Inr (f\<lparr>sf_nonce := Some v\<rparr>)
       else if key = ''s'' then Inr (f\<lparr>sf_salt := Some v\<rparr>)
       else if key = ''i'' then Inr (f\<lparr>sf_iter := Some v\<rparr>)
       else if key = ''m'' then Inl ''unsupported mandatory SCRAM extension''
       else Inr f)"

definition U32_MAX :: nat where "U32_MAX = 2 ^ 32 - 1"

definition client_final :: "sasl_lib \<Rightarrow> scram \<Rightarrow> string \<Rightarrow> string + scram \<times> string" where
  "client_final k s server =
    rbind (rfold server_field (split_on (CHR '','') server) \<lparr>sf_nonce = None, sf_salt = None, sf_iter = None\<rparr>) (\<lambda>f.
    rbind (ok_or (sf_nonce f) ''server-first missing r='') (\<lambda>nonce.
    rbind (ok_or (sf_salt f) ''server-first missing s='') (\<lambda>salt64.
    rbind (ok_or (sf_iter f) ''server-first missing i='') (\<lambda>it.
    rbind (ok_or (parse_uint U32_MAX it) ''server-first i= is not a number'') (\<lambda>iterations.
    rbind (guard_err (\<not> prefix (sc_nonce s) nonce) ''server nonce does not extend the client nonce'') (\<lambda>_.
    rbind (ok_or (b64_read k salt64) ''bad SCRAM salt'') (\<lambda>salt.
      let salted = pbkdf2_sha256 k (sc_password s) salt iterations;
          client_key = hmac_sha256 k salted ''Client Key'';
          stored = digest256 k client_key;
          no_proof = ''c='' @ b64 k (sc_gs2 s @ sc_cbind s) @ '',r='' @ nonce;
          auth = sc_first_bare s @ '','' @ server @ '','' @ no_proof;
          proof = xor_bytes client_key (hmac_sha256 k stored auth);
          server_key = hmac_sha256 k salted ''Server Key'' in
      Inr (s\<lparr>sc_server_signature := hmac_sha256 k server_key auth\<rparr>, no_proof @ '',p='' @ b64 k proof))))))))"

definition scram_verify :: "sasl_lib \<Rightarrow> scram \<Rightarrow> string \<Rightarrow> string + unit" where
  "scram_verify k s final =
    rbind (ok_or (find (\<lambda>f. prefix ''v='' f) (split_on (CHR '','') final)) ''server-final missing v='') (\<lambda>f.
    rbind (ok_or (b64_read k (drop 2 f)) ''bad server signature'') (\<lambda>sig.
    guard_err (sig \<noteq> sc_server_signature s) ''server signature did not verify''))"

section \<open>Authentication\<close>

datatype smtp_credentials =
    NoCredentials
  | Plain string string
  | Login string string
  | XOAuth2 string string
  | Scram string string
  | ScramExact string string bool
  | PasswordWithPolicy string string auth_policy
  | OAuthBearer string string

definition decode_challenge :: "sasl_lib \<Rightarrow> reply \<Rightarrow> smtp_error + string" where
  "decode_challenge k r = (case b64_read k (case texts r of t # _ \<Rightarrow> trim t | [] \<Rightarrow> []) of
     None \<Rightarrow> Inl (Protocol ''bad base64 SASL challenge'')
   | Some bytes \<Rightarrow> if valid_utf8 bytes then Inr bytes else Inl (Protocol ''non-UTF-8 SASL challenge''))"

definition expect_auth_ok :: "reply \<Rightarrow> unit sc" where
  "expect_auth_ok = expect 235 (\<lambda>r. Auth (''authentication failed: '' @ reply_show r))"

text \<open>The one credential a policy resolves to.\<close>

definition resolve_credentials :: "capabilities \<Rightarrow> (string \<times> string) option \<Rightarrow> smtp_credentials \<Rightarrow> smtp_error + smtp_credentials" where
  "resolve_credentials caps binding creds = (case creds of
     PasswordWithPolicy user pass policy \<Rightarrow>
       (case select policy Smtp (offers caps) (binding \<noteq> None) False of
          None \<Rightarrow> Inl (Auth ''no permitted password authentication mechanism is available'')
        | Some m \<Rightarrow>
            if m = PlainMech then Inr (Plain user pass)
            else if m = LoginMech then Inr (Login user pass)
            else if m = ScramMech \<or> m = ScramPlusMech then Inr (ScramExact user pass (m = ScramPlusMech))
            else Inl (Auth ''unsupported SMTP authentication selection''))
   | _ \<Rightarrow> Inr creds)"

definition require :: "capabilities \<Rightarrow> string \<Rightarrow> 's \<Rightarrow> (smtp_stop + unit) \<times> 's" where
  "require caps mech = (if cap_auth caps = [] \<or> offers caps mech then io_lift (Inr ())
     else fail (Auth (''server does not offer '' @ mech @ '' (offers: '' @ join '', '' (cap_auth caps) @ '')'')))"

text \<open>A bearer token: on a 334 the client sends \<open>ack\<close> and fails with the next reply.\<close>

definition auth_bearer :: "string \<Rightarrow> string \<Rightarrow> string \<Rightarrow> unit sc" where
  "auth_bearer mech response ack =
    io_bind (smtp_command (''AUTH '' @ mech @ '' '' @ response @ EOL)) (\<lambda>r.
      if code r = 235 then io_lift (Inr ())
      else if code r = 334 then io_bind (smtp_command (ack @ EOL)) (\<lambda>r2. fail (Auth (mech @ '' rejected: '' @ reply_show r2)))
      else fail (Auth (mech @ '' rejected: '' @ reply_show r)))"

definition auth_login :: "sasl_lib \<Rightarrow> string \<Rightarrow> string \<Rightarrow> unit sc" where
  "auth_login k user pass =
    io_bind (smtp_command (''AUTH LOGIN'' @ EOL)) (\<lambda>r.
    io_bind (expect 334 (\<lambda>r. Auth (''AUTH LOGIN: '' @ reply_show r)) r) (\<lambda>_.
    io_bind (smtp_command (b64 k user @ EOL)) (\<lambda>r.
    io_bind (expect 334 (\<lambda>r. Auth (''LOGIN username step: '' @ reply_show r)) r) (\<lambda>_.
    io_bind (smtp_command (b64 k pass @ EOL)) expect_auth_ok))))"

definition auth_scram ::
  "sasl_lib \<Rightarrow> string \<Rightarrow> string \<Rightarrow> string \<Rightarrow> string \<Rightarrow> (string \<times> string) option \<Rightarrow> unit sc" where
  "auth_scram k nonce mech user pass binding =
    (case scram_new user pass nonce binding of (s, client_first) \<Rightarrow>
     io_bind (smtp_command (''AUTH '' @ mech @ '' '' @ b64 k client_first @ EOL)) (\<lambda>r.
     io_bind (expect 334 (\<lambda>r. Auth (mech @ '' rejected at client-first: '' @ reply_show r)) r) (\<lambda>_.
     io_bind (checked (decode_challenge k r)) (\<lambda>first.
     io_bind (checked (map_err Auth (client_final k s first))) (\<lambda>(s, final).
     io_bind (smtp_command (b64 k final @ EOL)) (\<lambda>r.
       if code r = 235 then
         io_bind (checked (decode_challenge k r)) (\<lambda>t. checked (map_err Auth (scram_verify k s t)))
       else if code r = 334 then
         io_bind (checked (decode_challenge k r)) (\<lambda>t.
         io_bind (checked (map_err Auth (scram_verify k s t))) (\<lambda>_.
         io_bind (smtp_command EOL) expect_auth_ok))
       else fail (Auth (mech @ '' rejected: '' @ reply_show r))))))))"

definition SCRAM_PLUS :: string where "SCRAM_PLUS = ''SCRAM-SHA-256-PLUS''"

definition auth_scram_either ::
  "sasl_lib \<Rightarrow> string \<Rightarrow> capabilities \<Rightarrow> (string \<times> string) option \<Rightarrow> string \<Rightarrow> string \<Rightarrow> bool \<Rightarrow> unit sc" where
  "auth_scram_either k nonce caps binding user pass exact_plus =
    (if exact_plus then
       (if binding = None \<or> \<not> offers caps SCRAM_PLUS
        then fail (Auth ''SCRAM-SHA-256-PLUS requires advertisement and channel binding'')
        else auth_scram k nonce SCRAM_PLUS user pass binding)
     else io_bind (require caps ''SCRAM-SHA-256'') (\<lambda>_. auth_scram k nonce ''SCRAM-SHA-256'' user pass None))"

text \<open>\<open>nonce\<close> is the client nonce drawn for this exchange.\<close>

definition authenticate ::
  "sasl_lib \<Rightarrow> string \<Rightarrow> smtp_credentials \<Rightarrow> capabilities \<Rightarrow> (string \<times> string) option \<Rightarrow> unit sc" where
  "authenticate k nonce creds caps binding =
    io_bind (checked (resolve_credentials caps binding creds)) (\<lambda>creds. case creds of
       NoCredentials \<Rightarrow> io_lift (Inr ())
     | Plain user pass \<Rightarrow> io_bind (require caps ''PLAIN'') (\<lambda>_.
         io_bind (smtp_command (''AUTH PLAIN '' @ sasl_plain k user pass @ EOL)) expect_auth_ok)
     | Login user pass \<Rightarrow> io_bind (require caps ''LOGIN'') (\<lambda>_. auth_login k user pass)
     | XOAuth2 user token \<Rightarrow> io_bind (require caps ''XOAUTH2'') (\<lambda>_.
         auth_bearer ''XOAUTH2'' (xoauth2 k user token) [])
     | Scram user pass \<Rightarrow> auth_scram_either k nonce caps binding user pass
         (binding \<noteq> None \<and> offers caps SCRAM_PLUS)
     | ScramExact user pass exact_plus \<Rightarrow> auth_scram_either k nonce caps binding user pass exact_plus
     | PasswordWithPolicy _ _ _ \<Rightarrow> fail (Auth ''unresolved password authentication policy'')
     | OAuthBearer user token \<Rightarrow> io_bind (require caps ''OAUTHBEARER'') (\<lambda>_.
         auth_bearer ''OAUTHBEARER'' (oauthbearer k user token) (b64 k [SOH])))"

end
