(* ===== verification/Smtp_Submit.thy ===== *)
theory Smtp_Submit
  imports Smtp_Auth Transport_Service
begin

text \<open>
  Submission (\<open>crates/mw-smtp/src/lib.rs\<close>, \<open>tls.rs\<close>, \<open>dsn_support.rs\<close>): the checks before a
  connection is opened, the connection under the transport policy, the session and the probe
  for DSN. Dialling, TLS and the clock are the record \<open>smtp_env\<close>.
\<close>

section \<open>Messages and options\<close>

record outgoing_mail =
  mail_sender :: string
  mail_rcpts :: "string list"
  mail_raw :: string

definition outgoing_validate :: "(string \<Rightarrow> string option) \<Rightarrow> outgoing_mail \<Rightarrow> smtp_error + unit" where
  "outgoing_validate idna m = rbind (validate_reverse_path idna (mail_sender m)) (\<lambda>_.
     rfold (\<lambda>r _. validate_mailbox idna r) (mail_rcpts m) ())"

record submission_result =
  accepted :: "string list"
  rejected :: "(string \<times> string) list"

text \<open>The headers with the indices \<open>start\<close> and \<open>at\<close> of the scan.\<close>

function headers_from :: "string \<Rightarrow> nat \<Rightarrow> nat \<Rightarrow> string" where
  "headers_from raw start at =
    (if length raw \<le> at then raw
     else if raw ! at = CR \<or> raw ! at = LF then
       (if at = start then take start raw
        else let at' = (if raw ! at = CR \<and> at + 1 < length raw \<and> raw ! (at + 1) = LF then at + 1 else at) in
          headers_from raw (at' + 1) (at' + 1))
     else headers_from raw start (at + 1))"
  by pat_completeness auto
termination
  by (relation "measure (\<lambda>(raw, start, at). length raw - at)") auto

declare headers_from.simps [simp del]

definition message_headers :: "string \<Rightarrow> string" where
  "message_headers raw = headers_from raw 0 0"

datatype security = ImplicitTls | StartTls | Plaintext

record dsn =
  dsn_return :: "dsn_ret option"
  dsn_envid :: "string option"
  dsn_on :: "dsn_notify list"
  dsn_orcpt :: bool

record submit_options =
  opt_dsn :: "dsn option"
  opt_require_tls :: bool
  opt_chunking :: bool

record submit_config =
  s_host :: string
  s_port :: "16 word"
  s_security :: security
  s_credentials :: smtp_credentials
  s_ehlo_name :: string

section \<open>Observed DSN support\<close>

text \<open>The time of an observation and what was observed; times are in seconds.\<close>

type_synonym dsn_support = "(nat \<times> bool) option"

definition support_get :: "nat \<Rightarrow> dsn_support \<Rightarrow> bool option" where
  "support_get now o' = (case o' of
     None \<Rightarrow> None
   | Some (at, b) \<Rightarrow> if now - at < (if b then 300 else 30) then Some b else None)"

definition support_record :: "nat \<Rightarrow> bool \<Rightarrow> dsn_support" where
  "support_record now b = Some (now, b)"

section \<open>The session\<close>

text \<open>A session owns the connection and shares the observation with the submitter.\<close>

type_synonym 'a ss = "conn \<times> dsn_support \<Rightarrow> (smtp_stop + 'a) \<times> conn \<times> dsn_support"

definition on_conn :: "'a sc \<Rightarrow> 'a ss" where
  "on_conn m s = (case s of (c, d) \<Rightarrow> (case m c of (r, c') \<Rightarrow> (r, c', d)))"

definition observe :: "nat \<Rightarrow> bool \<Rightarrow> unit ss" where
  "observe now b s = (Inr (), fst s, support_record now b)"

definition utf8_address :: "outgoing_mail \<Rightarrow> string option" where
  "utf8_address m = find (\<lambda>a. \<not> str_is_ascii a) (mail_sender m # mail_rcpts m)"

definition needs_utf8 :: "outgoing_mail \<Rightarrow> bool" where
  "needs_utf8 m \<longleftrightarrow> utf8_address m \<noteq> None \<or> \<not> str_is_ascii (message_headers (mail_raw m))"

definition needs_8bit :: "outgoing_mail \<Rightarrow> bool" where
  "needs_8bit m \<longleftrightarrow> needs_utf8 m \<or> \<not> str_is_ascii (mail_raw m)"

definition refuse_extensions :: "capabilities \<Rightarrow> outgoing_mail \<Rightarrow> unit ss" where
  "refuse_extensions caps m =
    (if needs_utf8 m \<and> \<not> cap_smtputf8 caps
     then io_bind (on_conn quit) (\<lambda>_. fail (SmtpUtf8Required (case utf8_address m of
         None \<Rightarrow> ''message headers'' | Some a \<Rightarrow> a)))
     else if needs_8bit m \<and> \<not> cap_8bitmime caps
     then io_bind (on_conn quit) (\<lambda>_. fail EightBitMimeRequired)
     else io_lift (Inr ()))"

definition params_of :: "capabilities \<Rightarrow> outgoing_mail \<Rightarrow> submit_options \<Rightarrow> mail_params" where
  "params_of caps m opts =
    \<lparr>m_size = map_option (\<lambda>_. transmitted_len (mail_raw m)) (cap_size caps), m_8bit = needs_8bit m,
     m_smtputf8 = needs_utf8 m, m_require_tls = opt_require_tls opts,
     m_ret = Option.bind (opt_dsn opts) dsn_return, m_envid = Option.bind (opt_dsn opts) dsn_envid\<rparr>"

fun rcpt_loop ::
  "(string \<Rightarrow> string option) \<Rightarrow> dsn_notify list \<Rightarrow> bool \<Rightarrow> string list \<Rightarrow> submission_result \<Rightarrow> submission_result sc" where
  "rcpt_loop idna notify orcpt [] res = io_lift (Inr res)"
| "rcpt_loop idna notify orcpt (r # rs) res =
    io_bind (rcpt_to idna r notify orcpt) (\<lambda>outcome. rcpt_loop idna notify orcpt rs (case outcome of
        Accepted \<Rightarrow> res\<lparr>accepted := accepted res @ [r]\<rparr>
      | Rejected why \<Rightarrow> res\<lparr>rejected := rejected res @ [(r, why)]\<rparr>))"

definition transaction ::
  "(string \<Rightarrow> string option) \<Rightarrow> capabilities \<Rightarrow> outgoing_mail \<Rightarrow> submit_options \<Rightarrow> submission_result sc" where
  "transaction idna caps m opts =
    io_bind (mail_from idna (mail_sender m) (params_of caps m opts)) (\<lambda>_.
    io_bind (rcpt_loop idna (case opt_dsn opts of Some d \<Rightarrow> dsn_on d | None \<Rightarrow> [])
        (case opt_dsn opts of Some d \<Rightarrow> dsn_orcpt d | None \<Rightarrow> False) (mail_rcpts m)
        \<lparr>accepted = [], rejected = []\<rparr>) (\<lambda>res.
    io_bind (if accepted res = [] then io_lift (Inr ())
       else if opt_chunking opts \<and> cap_chunking caps then bdat (mail_raw m) else data (mail_raw m)) (\<lambda>_.
    io_bind quit (\<lambda>_. io_lift (Inr res)))))"

definition session ::
  "sasl_lib \<Rightarrow> (string \<Rightarrow> string option) \<Rightarrow> string \<Rightarrow> nat \<Rightarrow> submit_config \<Rightarrow> outgoing_mail \<Rightarrow> submit_options
     \<Rightarrow> (string \<times> string) option \<Rightarrow> submission_result ss" where
  "session k idna nonce now cfg m opts binding =
    io_bind (on_conn (ehlo (s_ehlo_name cfg))) (\<lambda>caps.
    io_bind (refuse_extensions caps m) (\<lambda>_.
    io_bind (on_conn (authenticate k nonce (s_credentials cfg) caps binding)) (\<lambda>_.
    io_bind (observe now (cap_dsn caps)) (\<lambda>_.
    if opt_require_tls opts \<and> \<not> cap_requiretls caps
    then fail (Protocol ''server does not advertise REQUIRETLS'')
    else if opt_dsn opts \<noteq> None \<and> \<not> cap_dsn caps
    then fail (Protocol ''server does not advertise DSN'')
    else on_conn (transaction idna caps m opts)))))"

section \<open>The connection\<close>

record tls_options =
  server_name_override :: "string option"
  extra_roots :: "string list"

text \<open>
  \<open>handshake\<close> gets the name to verify, the extra trust anchors and the decision, whose DANE
  verifier it installs; it returns the secured stream and its channel binding. \<open>root_ok\<close>
  says whether a custom trust anchor is well formed, \<open>policy\<close> is the transport policy's
  \<open>prepare\<close> where one is set.
\<close>

record 'w smtp_env =
  dial :: "string \<Rightarrow> 16 word \<Rightarrow> 'w \<Rightarrow> (string + link) \<times> 'w"
  root_ok :: "string \<Rightarrow> bool"
  handshake :: "string \<Rightarrow> string list \<Rightarrow> transport_decision \<Rightarrow> link \<Rightarrow> 'w
     \<Rightarrow> (string + link \<times> (string \<times> string) option) \<times> 'w"
  policy :: "(string \<Rightarrow> 16 word \<Rightarrow> 'w \<Rightarrow> (policy_error + transport_decision) \<times> 'w) option"

type_synonym ('w, 'a) ws = "'w \<Rightarrow> (smtp_stop + 'a) \<times> 'w"

fun policy_error_show :: "policy_error \<Rightarrow> string" where
  "policy_error_show PConfiguration = ''invalid SMTP transport policy configuration''"
| "policy_error_show PDns = ''SMTP DNS policy could not be securely resolved''"
| "policy_error_show PDnssec = ''SMTP DNSSEC validation failed''"
| "policy_error_show PDaneRequired = ''required SMTP DANE policy is unavailable''"
| "policy_error_show PTlsa = ''SMTP TLSA policy could not authenticate the certificate''"
| "policy_error_show PSts = ''SMTP MTA-STS policy could not be retrieved or parsed''"
| "policy_error_show PMxMismatch = ''SMTP MTA-STS policy does not authorize the next hop''"
| "policy_error_show PStsRequired = ''required SMTP MTA-STS policy is unavailable''"
| "policy_error_show PTlsRequired = ''SMTP transport policy requires TLS''"
| "policy_error_show PCache = ''SMTP transport policy storage is unavailable''"
| "policy_error_show PTimeout = ''SMTP transport policy deadline exceeded''"

definition outer_step :: "(string \<Rightarrow> string) \<Rightarrow> ('w \<Rightarrow> (string + 'a) \<times> 'w) \<Rightarrow> ('w, 'a) ws" where
  "outer_step f m w = (case m w of
     (Inl e, w') \<Rightarrow> (Inl (Failed (Transport (f e))), w') | (Inr x, w') \<Rightarrow> (Inr x, w'))"

definition connect_with_policy ::
  "'w smtp_env \<Rightarrow> tls_options \<Rightarrow> string \<Rightarrow> transport_decision \<Rightarrow> link \<Rightarrow> ('w, link \<times> (string \<times> string) option) ws" where
  "connect_with_policy env opts host d l =
    (if \<not> list_all (root_ok env) (extra_roots opts) then fail (Transport ''invalid custom trust anchor'')
     else if requires_tls d \<and> (case server_name_override opts of Some n \<Rightarrow> \<not> eq_nocase n host | None \<Rightarrow> False)
     then fail (Transport ''SMTP policy forbids a TLS hostname override'')
     else outer_step (\<lambda>e. e) (handshake env
       (case server_name_override opts of Some n \<Rightarrow> n | None \<Rightarrow> host) (extra_roots opts) d l))"

text \<open>A step of the connection inside a step of the world.\<close>

definition inside :: "'a sc \<Rightarrow> conn \<Rightarrow> ('w, 'a \<times> conn) ws" where
  "inside m c w = (case m c of (Inl e, c') \<Rightarrow> (Inl e, w) | (Inr x, c') \<Rightarrow> (Inr (x, c'), w))"

definition decide :: "'w smtp_env \<Rightarrow> submit_config \<Rightarrow> ('w, transport_decision) ws" where
  "decide env cfg = (case policy env of
     None \<Rightarrow> io_lift (Inr no_decision)
   | Some p \<Rightarrow> (\<lambda>w. case p (s_host cfg) (s_port cfg) w of
       (Inl e, w') \<Rightarrow> (Inl (Failed (Transport (policy_error_show e))), w') | (Inr d, w') \<Rightarrow> (Inr d, w')))"

definition upgrade_starttls :: "submit_config \<Rightarrow> conn \<Rightarrow> ('w, link) ws" where
  "upgrade_starttls cfg c =
    io_bind (inside (io_bind read_greeting (\<lambda>_. io_bind (ehlo (s_ehlo_name cfg)) (\<lambda>caps.
        if \<not> cap_starttls caps then fail (Protocol ''server does not advertise STARTTLS on this port'')
        else io_bind starttls (\<lambda>_. into_inner)))) c) (\<lambda>(l, _). io_lift (Inr l))"

definition connect ::
  "'w smtp_env \<Rightarrow> submit_config \<Rightarrow> tls_options \<Rightarrow> ('w, conn \<times> (string \<times> string) option) ws" where
  "connect env cfg opts =
    io_bind (checked (check_ehlo_name (s_ehlo_name cfg))) (\<lambda>_.
    io_bind (decide env cfg) (\<lambda>d.
    if requires_tls d \<and> s_security cfg = Plaintext
    then fail (Transport ''SMTP transport policy requires TLS'')
    else io_bind (outer_step (\<lambda>e. e) (dial env (s_host cfg) (s_port cfg))) (\<lambda>l.
      case s_security cfg of
        ImplicitTls \<Rightarrow> io_bind (connect_with_policy env opts (s_host cfg) d l) (\<lambda>(l, b).
          io_bind (inside read_greeting (conn_new l)) (\<lambda>(_, c). io_lift (Inr (c, b))))
      | StartTls \<Rightarrow> io_bind (upgrade_starttls cfg (conn_new l)) (\<lambda>l.
          io_bind (connect_with_policy env opts (s_host cfg) d l) (\<lambda>(l, b).
          io_lift (Inr (conn_new l, b))))
      | Plaintext \<Rightarrow> io_bind (inside read_greeting (conn_new l)) (\<lambda>(_, c). io_lift (Inr (c, None))))))"

section \<open>Submission\<close>

record 'w submitter_world =
  outside :: 'w
  support :: dsn_support

text \<open>\<open>now\<close> is the time at which the session records its observation.\<close>

definition submit_with ::
  "sasl_lib \<Rightarrow> (string \<Rightarrow> string option) \<Rightarrow> 'w smtp_env \<Rightarrow> string \<Rightarrow> nat \<Rightarrow> submit_config \<Rightarrow> tls_options
     \<Rightarrow> outgoing_mail \<Rightarrow> submit_options \<Rightarrow> 'w submitter_world \<Rightarrow> (smtp_stop + submission_result) \<times> 'w submitter_world" where
  "submit_with k idna env nonce now cfg topts m opts s =
    (case outgoing_validate idna m of
       Inl e \<Rightarrow> (Inl (Failed e), s)
     | Inr _ \<Rightarrow> (case connect env cfg topts (outside s) of
         (Inl e, w) \<Rightarrow> (Inl e, s\<lparr>outside := w\<rparr>)
       | (Inr (c, b), w) \<Rightarrow> (case session k idna nonce now cfg m opts b (c, support s) of
           (r, _, d) \<Rightarrow> (r, s\<lparr>outside := w, support := d\<rparr>))))"

definition submit where
  "submit k idna env nonce now cfg topts m = submit_with k idna env nonce now cfg topts m
     \<lparr>opt_dsn = None, opt_require_tls = False, opt_chunking = False\<rparr>"

text \<open>
  The probe. \<open>busy\<close>: the wait for the other probe took more than two seconds; afterwards the
  time is \<open>t2\<close> and the observation \<open>seen\<close>; \<open>late\<close>: the budget passed before the probe's
  connection was done; \<open>t3\<close> is the time of its record.
\<close>

definition probe_session ::
  "sasl_lib \<Rightarrow> 'w smtp_env \<Rightarrow> string \<Rightarrow> submit_config \<Rightarrow> tls_options \<Rightarrow> ('w, bool) ws" where
  "probe_session k env nonce cfg topts =
    io_bind (connect env cfg topts) (\<lambda>(c, b).
    io_bind (inside (io_bind (ehlo (s_ehlo_name cfg)) (\<lambda>caps.
      io_bind (authenticate k nonce (s_credentials cfg) caps b) (\<lambda>_.
      io_bind quit (\<lambda>_. io_lift (Inr (cap_dsn caps)))))) c) (\<lambda>(x, _). io_lift (Inr x)))"

definition probe_dsn ::
  "sasl_lib \<Rightarrow> 'w smtp_env \<Rightarrow> string \<Rightarrow> submit_config \<Rightarrow> tls_options \<Rightarrow> nat \<Rightarrow> bool \<Rightarrow> nat \<Rightarrow> dsn_support \<Rightarrow> bool \<Rightarrow> nat
     \<Rightarrow> 'w submitter_world \<Rightarrow> (smtp_stop + bool) \<times> 'w submitter_world" where
  "probe_dsn k env nonce cfg topts t1 busy t2 seen late t3 s =
    (case support_get t1 (support s) of
       Some b \<Rightarrow> (Inr b, s)
     | None \<Rightarrow>
        if busy then (Inl (Failed (Transport ''SMTP capability probe busy'')), s)
        else let s = s\<lparr>support := seen\<rparr> in (case support_get t2 seen of
           Some b \<Rightarrow> (Inr b, s)
         | None \<Rightarrow> (case probe_session k env nonce cfg topts (outside s) of
             (r, w) \<Rightarrow> let s = s\<lparr>outside := w\<rparr> in
               if late then (Inl (Failed (Transport ''SMTP capability probe timed out'')), s)
               else (r, case r of
                   Inr b \<Rightarrow> s\<lparr>support := support_record t3 b\<rparr>
                 | Inl (Failed (Auth _)) \<Rightarrow> s\<lparr>support := support_record t3 False\<rparr>
                 | _ \<Rightarrow> s))))"

definition cached_dsn_support :: "nat \<Rightarrow> dsn_support \<Rightarrow> bool" where
  "cached_dsn_support now d \<longleftrightarrow> support_get now d = Some True"

end
