(* ===== verification/Smtp_Message.thy ===== *)
theory Smtp_Message
  imports Smtp_Conn
begin

text \<open>
  What a server makes of the bytes of a message (\<open>lines\<close>, \<open>data_lines\<close> and \<open>transmitted_len\<close> of
  \<open>crates/mw-smtp/src/conn.rs\<close>). The reference is a receiver of RFC 5321, sections 2.3.8 and
  4.5.2, that may also take a bare CR or a bare LF for the end of a line.
\<close>

section \<open>The lines of a message\<close>

function message_lines :: "string \<Rightarrow> string \<Rightarrow> string list" where
  "message_lines cur [] = (if cur = [] then [] else [cur])"
| "message_lines cur (b # s) =
    (if b = CR then cur # message_lines [] (if s \<noteq> [] \<and> hd s = LF then tl s else s)
     else if b = LF then cur # message_lines [] s
     else message_lines (cur @ [b]) s)"
  by pat_completeness auto
termination by (relation "measure (\<lambda>(cur, s). length s)") auto

definition no_break :: "string \<Rightarrow> bool" where
  "no_break s \<longleftrightarrow> CR \<notin> set s \<and> LF \<notin> set s"

lemma no_break_simps [simp]:
  "no_break []" "no_break (b # s) \<longleftrightarrow> b \<noteq> CR \<and> b \<noteq> LF \<and> no_break s"
  "no_break (s @ t) \<longleftrightarrow> no_break s \<and> no_break t"
  by (auto simp: no_break_def)

lemma message_lines_no_break: "no_break cur \<Longrightarrow> list_all no_break (message_lines cur s)"
  by (induction cur s rule: message_lines.induct) auto

definition stuffed :: "bool \<Rightarrow> string \<Rightarrow> string" where
  "stuffed dot l = (if dot \<and> l \<noteq> [] \<and> hd l = CHR ''.'' then CHR ''.'' # l else l)"

lemma stuffed_simps [simp]:
  "stuffed dot [] = []" "stuffed False l = l"
  "cur \<noteq> [] \<Longrightarrow> stuffed dot (cur @ s) = stuffed dot cur @ s"
  by (auto simp: stuffed_def)

lemma message_pieces_lines:
  "stuffed dot cur @ concat (message_pieces dot (cur = []) s)
     = concat (map (\<lambda>l. stuffed dot l @ EOL) (message_lines cur s))"
proof (induction cur s rule: message_lines.induct)
  case (2 cur b s)
  show ?case
  proof (cases "b = CR \<or> b = LF")
    case True
    then show ?thesis using 2 by auto
  next
    case False
    then have "stuffed dot (cur @ [b]) @ concat (message_pieces dot False s)
        = concat (map (\<lambda>l. stuffed dot l @ EOL) (message_lines (cur @ [b]) s))"
      using 2(3) by simp
    then show ?thesis using False by (cases "cur = []") (auto simp: stuffed_def)
  qed
qed simp

lemma data_lines_lines:
  "data_lines raw dot = concat (map (\<lambda>l. stuffed dot l @ EOL) (message_lines [] raw))"
  using message_pieces_lines [of dot "[]" raw] by (simp add: data_lines_def)

section \<open>The receiver\<close>

text \<open>\<open>cr\<close> and \<open>lf\<close>: whether a bare CR and a bare LF end a line.\<close>

fun next_line :: "bool \<Rightarrow> bool \<Rightarrow> string \<Rightarrow> string \<Rightarrow> (string \<times> string) option" where
  "next_line cr lf cur [] = None"
| "next_line cr lf cur (b # s) =
    (if b = CR \<and> s \<noteq> [] \<and> hd s = LF then Some (cur, tl s)
     else if b = CR \<and> cr \<or> b = LF \<and> lf then Some (cur, s)
     else next_line cr lf (cur @ [b]) s)"

lemma next_line_shorter: "next_line cr lf cur s = Some (l, r) \<Longrightarrow> length r < length s"
  by (induction cr lf cur s rule: next_line.induct) (fastforce split: if_splits)+

lemma next_line_CRLF: "no_break l \<Longrightarrow> next_line cr lf cur (l @ CR # LF # r) = Some (cur @ l, r)"
  by (induction l arbitrary: cur) auto

text \<open>The lines up to the one that is a single dot, unstuffed, and what follows it.\<close>

function receive :: "bool \<Rightarrow> bool \<Rightarrow> string \<Rightarrow> (string list \<times> string) option" where
  "receive cr lf s = (case next_line cr lf [] s of
     None \<Rightarrow> None
   | Some (l, r) \<Rightarrow>
       if l = ''.'' then Some ([], r)
       else (case receive cr lf r of
           None \<Rightarrow> None
         | Some (ls, rest) \<Rightarrow> Some ((if l \<noteq> [] \<and> hd l = CHR ''.'' then tl l else l) # ls, rest)))"
  by pat_completeness auto
termination
  by (relation "measure (\<lambda>(cr, lf, s). length s)") (auto dest: next_line_shorter)

declare receive.simps [simp del]

lemma receive_end: "receive cr lf (CHR ''.'' # CR # LF # rest) = Some ([], rest)"
  using next_line_CRLF [of "''.''" cr lf "[]" rest] by (simp add: receive.simps)

lemma receive_line:
  assumes "no_break l"
  shows "receive cr lf (stuffed True l @ CR # LF # s)
    = map_option (\<lambda>(ls, rest). (l # ls, rest)) (receive cr lf s)"
proof -
  have "no_break (stuffed True l)" using assms by (simp add: stuffed_def)
  from next_line_CRLF [OF this, of cr lf "[]" s]
  have "next_line cr lf [] (stuffed True l @ CR # LF # s) = Some (stuffed True l, s)" by simp
  moreover have "stuffed True l \<noteq> ''.''" by (cases l) (auto simp: stuffed_def)
  moreover have "(if stuffed True l \<noteq> [] \<and> hd (stuffed True l) = CHR ''.'' then tl (stuffed True l)
      else stuffed True l) = l"
    by (simp add: stuffed_def)
  ultimately show ?thesis
    by (subst receive.simps) (auto split: option.splits prod.splits)
qed

lemma receive_lines:
  assumes "list_all no_break ls"
  shows "receive cr lf (concat (map (\<lambda>l. stuffed True l @ EOL) ls) @ CHR ''.'' # CR # LF # rest) = Some (ls, rest)"
  using assms by (induction ls) (simp_all add: receive_end receive_line)

text \<open>C4: Whatever the bytes of the message, every server sees the same lines in what \<open>data\<close>
  sends, whether or not it takes a bare CR or a bare LF for a line end: the message's own
  lines, up to the end of the transmission and not a byte further. \<open>bdat\<close> sends the same
  lines, and \<open>SIZE=\<close> announces their length.\<close>

theorem message_received_exactly:
  "receive cr lf (data_payload raw @ rest) = Some (message_lines [] raw, rest)
   \<and> data_lines raw False = concat (map (\<lambda>l. l @ EOL) (message_lines [] raw))
   \<and> list_all no_break (message_lines [] raw)
   \<and> transmitted_len raw = length (data_lines raw False)"
proof -
  have lines: "list_all no_break (message_lines [] raw)" by (simp add: message_lines_no_break)
  from receive_lines [OF this, of cr lf rest]
  have "receive cr lf (data_payload raw @ rest) = Some (message_lines [] raw, rest)"
    by (simp add: data_payload_def data_lines_lines)
  moreover have "transmitted_len raw = length (data_lines raw False)"
    by (simp add: transmitted_len_def data_lines_def length_concat)
  ultimately show ?thesis using lines by (simp add: data_lines_lines)
qed

end
