(* ===== verification/Smtp_Transcript.thy ===== *)
theory Smtp_Transcript
  imports Smtp_Submit Smtp_Message
begin

text \<open>
  What a transaction writes: one command line per operation, in order, whatever the addresses
  and parameters hold, and what an error after the content says of the delivery.
\<close>

section \<open>Reading writes nothing\<close>

definition keeps :: "conn \<Rightarrow> conn \<Rightarrow> bool" where
  "keeps c c' \<longleftrightarrow> written (wire c') = written (wire c) \<and> utf8_offered c' = utf8_offered c
     \<and> utf8_requested c' = utf8_requested c"

lemma keeps_refl [simp]: "keeps c c" by (simp add: keeps_def)
lemma keeps_trans: "keeps a b \<Longrightarrow> keeps b c \<Longrightarrow> keeps a c" by (simp add: keeps_def)

lemma read_piece_written: "read_piece l = (r, l') \<Longrightarrow> written l' = written l"
  by (auto simp: read_piece_def split: list.splits option.splits)

lemma read_line_keeps: "read_line c = (r, c') \<Longrightarrow> keeps c c'"
proof (induction c rule: read_line.induct)
  case (1 c)
  show ?case
  proof (cases "LF \<in> set (rbuf c) \<or> MAX_LINE < length (rbuf c)")
    case True
    then show ?thesis using 1(2) by (auto simp: read_line.simps [of c] Let_def keeps_def split: if_splits)
  next
    case False
    obtain p w where p: "read_piece (wire c) = (p, w)" by force
    note w = read_piece_written [OF p]
    consider (stop) "keeps c c'" | (more) s where "p = Inr s" "s \<noteq> []" "read_line (c\<lparr>wire := w, rbuf := rbuf c @ s\<rparr>) = (r, c')"
      using 1(2) False p w by (auto simp: read_line.simps [of c] keeps_def split: if_splits sum.splits)
    then show ?thesis
    proof cases
      case more
      from 1(1) [OF _ _ p [symmetric] more(1,2,3)] False have "keeps (c\<lparr>wire := w, rbuf := rbuf c @ s\<rparr>) c'" by blast
      then show ?thesis using w by (simp add: keeps_def)
    qed
  qed
qed

lemma read_reply_from_keeps: "read_reply_from ls c = (r, c') \<Longrightarrow> keeps c c'"
proof (induction ls c rule: read_reply_from.induct)
  case (1 ls c)
  obtain l c1 where l: "read_line c = (l, c1)" by force
  note k = read_line_keeps [OF l]
  show ?case
  proof (cases l)
    case (Inl e)
    then show ?thesis using 1(2) l k by (simp add: read_reply_from.simps [of ls c])
  next
    case (Inr line)
    consider "c' = c1" | n t where "reply_line line = Inr (n, False, t)" "read_reply_from (ls @ [t]) c1 = (r, c')"
      using 1(2) l Inr by (auto simp: read_reply_from.simps [of ls c] split: sum.splits if_splits)
    then show ?thesis
    proof cases
      case 2
      from 1(1) [OF l [symmetric] Inr 2(1) refl refl _ 2(2)] k show ?thesis by (blast intro: keeps_trans)
    qed (use k in simp)
  qed
qed

lemma read_reply_keeps: "read_reply c = (r, c') \<Longrightarrow> keeps c c'"
  by (auto simp: read_reply_def dest: read_reply_from_keeps)

section \<open>Commands\<close>

text \<open>\<open>wrote s c c'\<close>: exactly \<open>s\<close> was written; \<open>wrote_part\<close>: a prefix of it.\<close>

definition wrote :: "string \<Rightarrow> conn \<Rightarrow> conn \<Rightarrow> bool" where
  "wrote s c c' \<longleftrightarrow> written (wire c') = written (wire c) @ s"

definition wrote_part :: "string \<Rightarrow> conn \<Rightarrow> conn \<Rightarrow> bool" where
  "wrote_part s c c' \<longleftrightarrow> (\<exists>p. prefix p s \<and> wrote p c c')"

lemma wrote_trans: "wrote s a b \<Longrightarrow> wrote t b c \<Longrightarrow> wrote (s @ t) a c"
  by (simp add: wrote_def)

lemma wrote_keeps: "keeps a b \<Longrightarrow> wrote s b c \<Longrightarrow> wrote s a c" "wrote s a b \<Longrightarrow> keeps b c \<Longrightarrow> wrote s a c"
  by (simp_all add: wrote_def keeps_def)

lemma wrote_part_refl [simp]: "wrote_part s c c"
  by (auto simp: wrote_part_def wrote_def)

lemma write_bytes_Inr:
  assumes "write_bytes s c = (Inr (), c')"
  shows "wrote s c c'" "utf8_offered c' = utf8_offered c" "utf8_requested c' = utf8_requested c"
  using assms by (auto simp: write_bytes_def wrote_def Let_def split: option.splits if_splits)

lemma write_bytes_part: "write_bytes s c = (r, c') \<Longrightarrow> wrote_part s c c'"
  by (auto simp: write_bytes_def wrote_part_def wrote_def Let_def take_is_prefix split: option.splits if_splits)

lemma command_Inr:
  assumes "smtp_command s c = (Inr r, c')"
  shows "wrote s c c'" "utf8_offered c' = utf8_offered c" "utf8_requested c' = utf8_requested c"
proof -
  from assms obtain c1 where c1: "write_bytes s c = (Inr (), c1)" "read_reply c1 = (Inr r, c')"
    by (auto simp: smtp_command_def io_bind_Inr)
  from write_bytes_Inr [OF c1(1)] read_reply_keeps [OF c1(2)]
  show "wrote s c c'" "utf8_offered c' = utf8_offered c" "utf8_requested c' = utf8_requested c"
    by (auto simp: wrote_def keeps_def)
qed

lemma wrote_part_keeps: "wrote_part s a b \<Longrightarrow> keeps b c \<Longrightarrow> wrote_part s a c"
  unfolding wrote_part_def by (blast intro: wrote_keeps(2))

lemma command_part: "smtp_command s c = (r, c') \<Longrightarrow> wrote_part s c c'"
  by (auto simp: smtp_command_def io_bind_def split: prod.splits sum.splits
      dest!: write_bytes_part read_reply_keeps intro: wrote_part_keeps)

lemma expect_Inr: "expect n e r c = (Inr x, c') \<longleftrightarrow> code r = n \<and> c' = c"
  by (auto simp: expect_def fail_def io_lift_def)

lemma checked_Inr: "checked r c = (Inr x, c') \<longleftrightarrow> r = Inr x \<and> c' = c"
  by (auto simp: checked_def io_lift_def map_err_def split: sum.splits)

lemma fail_Inr [simp]: "fail e c \<noteq> (Inr x, c')"
  by (simp add: fail_def io_lift_def)

lemmas step_results = io_bind_Inr io_lift_Inr expect_Inr checked_Inr Let_def

lemma recast_Inr: "recast f m c = (Inr x, c') \<longleftrightarrow> m c = (Inr x, c')"
  by (auto simp: recast_def split: prod.splits sum.splits smtp_stop.splits)

section \<open>Command lines\<close>

definition command_line :: "string \<Rightarrow> bool" where
  "command_line s \<longleftrightarrow> (\<exists>l. s = l @ EOL \<and> no_break l)"

lemma line_breaks: "byte CR = 13" "byte LF = 10" "is_ascii CR" "is_ascii LF" "is_control [CR]" "is_control [LF]"
  by (simp_all add: is_ascii_def is_control_def)

text \<open>No byte of a valid text is a control character unless one of its characters is.\<close>

lemma control_byte:
  assumes "b \<in> set s" "valid_utf8 s" "is_ascii b"
  shows "[b] \<in> set (utf8_chars s)"
proof -
  from assms(1) obtain ch where ch: "ch \<in> set (utf8_chars s)" "b \<in> set ch"
    using concat_utf8_chars [of s] by (metis UN_E set_concat)
  have "char_ok ch" using ch(1) assms(2) by (auto simp: valid_utf8_def list_all_iff)
  moreover have "\<not> is_cont b" using assms(3) by (rule ascii_not_cont)
  ultimately have "ch = [b]"
    using ch(2) assms(3) by (cases ch) (auto simp: list_all_iff lead_ok_def is_ascii_def char_width_def
        dest: second_ok_cont split: list.splits if_splits)
  with ch(1) show ?thesis by simp
qed

lemma valid_mailbox_bytes:
  assumes "validate_mailbox idna a = Inr ()" "valid_utf8 a"
  shows "no_break a"
proof -
  have "\<not> list_ex is_control (utf8_chars a)"
    using assms(1) by (auto simp: validate_mailbox_def mailbox_def map_err_def split: if_splits)
  then have "b \<notin> set a" if "is_ascii b" "is_control [b]" for b
    using control_byte [OF _ assms(2) that(1)] that(2) by (auto simp: list_ex_iff)
  then show ?thesis by (simp add: no_break_def is_ascii_def is_control_def)
qed

text \<open>What a local part without \<open>@\<close> holds: as \<open>MAIL FROM\<close> also takes a bare login name.\<close>

lemma quoted_local_ok:
  "quoted_local cs = Inr () \<Longrightarrow> list_all char_ok cs \<Longrightarrow> c \<in> set cs \<Longrightarrow> c \<noteq> [CR] \<and> c \<noteq> [LF]"
proof (induction cs rule: quoted_local.induct)
  case (2 c' cs)
  show ?case
  proof (cases "c' = [BSL]")
    case True
    with 2(3) obtain e r where e: "cs = e # r"
      and q: "case e of [b] \<Rightarrow> 32 \<le> byte b \<and> byte b \<le> 126 | _ \<Rightarrow> False" "quoted_local r = Inr ()"
      by (auto split: list.splits if_splits)
    from q(1) have "e \<noteq> [CR]" "e \<noteq> [LF]" using line_breaks by auto
    moreover from 2(1) [OF True e q] 2(4,5) e have "c \<in> set r \<Longrightarrow> c \<noteq> [CR] \<and> c \<noteq> [LF]" by simp
    ultimately show ?thesis using 2(5) True e by auto
  next
    case False
    then show ?thesis using 2 by (auto simp: is_control_def split: if_splits)
  qed
qed simp

lemma valid_local_bytes:
  assumes "validate_local l = Inr ()" "valid_utf8 l"
  shows "no_break l"
proof (cases "quoted_inner l")
  case None
  then have "list_all atom_char (utf8_chars l)"
    using assms(1) by (auto simp: validate_local_def split: if_splits)
  then have "[b] \<notin> set (utf8_chars l)" if "\<not> atom_char [b]" for b using that by (auto simp: list_all_iff)
  moreover have "\<not> atom_char [CR]" "\<not> atom_char [LF]" by code_simp+
  ultimately show ?thesis unfolding no_break_def using control_byte [OF _ assms(2)] line_breaks(3,4) by blast
next
  case (Some i)
  then have l: "l = DQ # i @ [DQ]"
    by (auto simp: quoted_inner_def strip_prefix_def strip_suffix_def split: bind_splits if_splits
        elim!: suffixE prefixE)
  have i: "quoted_local (utf8_chars i) = Inr ()"
    using assms(1) Some by (auto simp: validate_local_def split: if_splits)
  have v: "valid_utf8 i" using assms(2) valid_utf8_Cons [of DQ "i @ [DQ]"] valid_utf8_snoc [of DQ i] l
    by (simp add: is_ascii_def)
  then have "list_all char_ok (utf8_chars i)" by (simp add: valid_utf8_def)
  from quoted_local_ok [OF i this] have "[CR] \<notin> set (utf8_chars i)" "[LF] \<notin> set (utf8_chars i)" by blast+
  then show ?thesis using control_byte [OF _ v] l by (auto simp: no_break_def is_ascii_def)
qed

lemma valid_reverse_path_bytes:
  assumes "validate_reverse_path idna a = Inr ()" "valid_utf8 a"
  shows "no_break a"
  using assms valid_mailbox_bytes valid_local_bytes
  by (auto simp: validate_reverse_path_def map_err_def split: if_splits sum.splits)

lemma no_break_concat: "no_break (concat ss) \<longleftrightarrow> list_all no_break ss"
  by (induction ss) auto

lemma no_break_join: "list_all no_break ss \<Longrightarrow> no_break sep \<Longrightarrow> no_break (join sep ss)"
  by (induction ss rule: induct_list012) auto

lemma no_break_hex: "no_break (hex2_upper b)"
proof -
  have "no_break HEX_UPPER" by code_simp
  moreover have "HEX_UPPER ! n \<in> set HEX_UPPER" if "n < 16" for n
    using that by (intro nth_mem) (simp add: HEX_UPPER_def)
  moreover have "byte b div 16 < 16" "byte b mod 16 < 16" by (auto simp: less_mult_imp_div_less)
  ultimately show ?thesis unfolding hex2_upper_def no_break_def by fastforce
qed

lemma no_break_xtext: "no_break (xtext s)"
  by (auto simp: xtext_def no_break_concat list_all_iff xtext_byte_def no_break_hex)

lemma no_break_unitext: "no_break (concat cs) \<Longrightarrow> no_break (concat (map unitext_char cs))"
  by (induction cs) (auto simp: unitext_char_def no_break_hex split: list.splits)

lemma no_break_dec: "no_break (dec_str n)"
  using dec_str_digits [of n] by (auto simp: no_break_def is_digit_def list_all_iff)

lemma command_line_append: "no_break s \<Longrightarrow> command_line (s @ EOL)"
  by (auto simp: command_line_def)

lemma mail_command_line:
  assumes "no_break from"
  shows "command_line (mail_command from p)"
proof -
  have "no_break (ret_str r)" for r by (cases r) simp_all
  then show ?thesis using assms
    unfolding mail_command_def append_assoc [symmetric]
    by (intro command_line_append) (auto simp: no_break_dec no_break_xtext split: option.split)
qed

lemma rcpt_command_line:
  assumes "no_break a"
  shows "command_line (rcpt_command a notify orcpt)"
proof -
  have "no_break (notify_str n)" for n by (cases n) simp_all
  then have "no_break (join '','' (map notify_str notify))" by (intro no_break_join) (auto simp: list_all_iff)
  then show ?thesis using assms no_break_unitext [of "utf8_chars a"]
    unfolding rcpt_command_def append_assoc [symmetric]
    by (intro command_line_append) (auto simp: no_break_xtext)
qed

section \<open>The operations of a transaction\<close>

lemma mail_from_Inr:
  assumes "mail_from idna from p c = (Inr (), c')"
  shows "validate_reverse_path idna from = Inr ()" "wrote (mail_command from p) c c'"
  using assms by (auto simp: mail_from_def step_results wrote_def split: if_splits dest!: command_Inr(1))

lemma rcpt_to_Inr:
  assumes "rcpt_to idna a notify orcpt c = (Inr out, c')"
  shows "validate_mailbox idna a = Inr ()" "wrote (rcpt_command a notify orcpt) c c'"
  using assms by (auto simp: rcpt_to_def step_results split: if_splits dest!: command_Inr(1))

lemma rcpt_loop_Inr:
  assumes "rcpt_loop idna notify orcpt rs res c = (Inr res', c')"
  shows "wrote (concat (map (\<lambda>r. rcpt_command r notify orcpt) rs)) c c'
    \<and> list_all (\<lambda>r. validate_mailbox idna r = Inr ()) rs
    \<and> (\<exists>a j. accepted res' = accepted res @ a \<and> rejected res' = rejected res @ j \<and> rs \<in> shuffles a (map fst j))"
  using assms
proof (induction rs arbitrary: res c)
  case (Cons r rs)
  obtain out c1 where r: "rcpt_to idna r notify orcpt c = (Inr out, c1)"
    and l: "rcpt_loop idna notify orcpt rs (case out of
        Accepted \<Rightarrow> res\<lparr>accepted := accepted res @ [r]\<rparr>
      | Rejected why \<Rightarrow> res\<lparr>rejected := rejected res @ [(r, why)]\<rparr>) c1 = (Inr res', c')"
    using Cons(2) by (auto simp: step_results)
  note ih = Cons(1) [OF l] and rcpt_to_Inr [OF r]
  moreover have "\<exists>a j. accepted res' = accepted res @ a \<and> rejected res' = rejected res @ j
      \<and> r # rs \<in> shuffles a (map fst j)"
  proof (cases out)
    case Accepted
    with ih obtain a j where "accepted res' = accepted res @ r # a" "rejected res' = rejected res @ j"
      "rs \<in> shuffles a (map fst j)" by auto
    then show ?thesis by (intro exI [of _ "r # a"] exI [of _ j]) (auto intro: Cons_in_shuffles_leftI)
  next
    case (Rejected why)
    with ih obtain a j where "accepted res' = accepted res @ a" "rejected res' = rejected res @ (r, why) # j"
      "rs \<in> shuffles a (map fst j)" by auto
    then show ?thesis by (intro exI [of _ a] exI [of _ "(r, why) # j"]) (auto intro: Cons_in_shuffles_rightI)
  qed
  ultimately show ?case by (auto dest: wrote_trans)
qed (simp add: io_lift_Inr wrote_def)

lemma final_reply_Inr: "final_reply what r c = (Inr x, c') \<longleftrightarrow> is_positive r \<and> c' = c"
  by (auto simp: final_reply_def io_lift_Inr)

lemma data_Inr:
  assumes "data raw c = (Inr (), c')"
  shows "wrote (''DATA'' @ EOL @ data_payload raw) c c'"
proof -
  obtain r c1 c2 r' where c: "smtp_command (''DATA'' @ EOL) c = (Inr r, c1)"
    "write_bytes (data_payload raw) c1 = (Inr (), c2)" "read_reply c2 = (Inr r', c')"
    using assms by (auto simp: data_def step_results recast_Inr final_reply_Inr)
  from wrote_trans [OF command_Inr(1) [OF c(1)] wrote_keeps(2) [OF write_bytes_Inr(1) [OF c(2)] read_reply_keeps [OF c(3)]]]
  show ?thesis by simp
qed

lemma bdat_Inr:
  assumes "bdat raw c = (Inr (), c')"
  shows "wrote (bdat_payload raw) c c'"
proof -
  obtain c2 r' where c: "write_bytes (bdat_payload raw) c = (Inr (), c2)" "read_reply c2 = (Inr r', c')"
    using assms by (auto simp: bdat_def step_results recast_Inr final_reply_Inr)
  show ?thesis by (rule wrote_keeps(2) [OF write_bytes_Inr(1) [OF c(1)] read_reply_keeps [OF c(2)]])
qed

lemma quit_part: "quit c = (r, c') \<Longrightarrow> wrote_part (''QUIT'' @ EOL) c c'"
  by (auto simp: quit_def split: prod.splits sum.splits smtp_stop.splits dest!: command_part)

lemma quit_Inl: "quit c \<noteq> (Inl (Failed e), c')"
  by (auto simp: quit_def split: prod.splits sum.splits smtp_stop.splits)

definition content :: "capabilities \<Rightarrow> outgoing_mail \<Rightarrow> submit_options \<Rightarrow> string" where
  "content caps m opts = (if opt_chunking opts \<and> cap_chunking caps then bdat_payload (mail_raw m)
     else ''DATA'' @ EOL @ data_payload (mail_raw m))"

text \<open>The command lines of the envelope.\<close>

definition envelope :: "capabilities \<Rightarrow> outgoing_mail \<Rightarrow> submit_options \<Rightarrow> string list" where
  "envelope caps m opts = mail_command (mail_sender m) (params_of caps m opts)
     # map (\<lambda>r. rcpt_command r (case opt_dsn opts of Some d \<Rightarrow> dsn_on d | None \<Rightarrow> [])
         (case opt_dsn opts of Some d \<Rightarrow> dsn_orcpt d | None \<Rightarrow> False)) (mail_rcpts m)"

text \<open>C11: A transaction that ends well wrote one \<open>MAIL FROM\<close> line, one \<open>RCPT TO\<close> line for each
  recipient, the content if any recipient was accepted, and at most \<open>QUIT\<close>. Each command is
  one line, whatever the addresses hold: none of them can add a command or end one early. The
  result lists every recipient once, in order, as accepted or as rejected.\<close>

theorem transaction_transcript:
  assumes "transaction idna caps m opts c = (Inr res, c')"
    and "valid_utf8 (mail_sender m)" "list_all valid_utf8 (mail_rcpts m)"
  shows "\<exists>q. prefix q (''QUIT'' @ EOL) \<and> wrote (concat (envelope caps m opts)
        @ (if accepted res = [] then [] else content caps m opts) @ q) c c'
    \<and> list_all command_line (envelope caps m opts)
    \<and> mail_rcpts m \<in> shuffles (accepted res) (map fst (rejected res))"
proof -
  let ?n = "case opt_dsn opts of Some d \<Rightarrow> dsn_on d | None \<Rightarrow> []"
  let ?o = "case opt_dsn opts of Some d \<Rightarrow> dsn_orcpt d | None \<Rightarrow> False"
  obtain c1 c2 c3 q where c: "mail_from idna (mail_sender m) (params_of caps m opts) c = (Inr (), c1)"
    "rcpt_loop idna ?n ?o (mail_rcpts m) \<lparr>accepted = [], rejected = []\<rparr> c1 = (Inr res, c2)"
    "(if accepted res = [] then io_lift (Inr ())
       else if opt_chunking opts \<and> cap_chunking caps then bdat (mail_raw m) else data (mail_raw m)) c2 = (Inr (), c3)"
    "quit c3 = (Inr q, c')"
    using assms(1) by (auto simp: transaction_def step_results simp del: split_paired_Ex)
  note mf = mail_from_Inr [OF c(1)] and rl = rcpt_loop_Inr [OF c(2)]
  have "wrote (if accepted res = [] then [] else content caps m opts) c2 c3"
    using c(3) by (auto simp: content_def io_lift_Inr wrote_def split: if_splits dest!: data_Inr bdat_Inr)
  moreover obtain q where q: "prefix q (''QUIT'' @ EOL)" "wrote q c3 c'"
    using quit_part [OF c(4)] unfolding wrote_part_def by blast
  moreover have "wrote (concat (envelope caps m opts)) c c2"
    using wrote_trans [OF mf(2) conjunct1 [OF rl]] by (simp add: envelope_def)
  ultimately have "wrote (concat (envelope caps m opts)
      @ (if accepted res = [] then [] else content caps m opts) @ q) c c'"
    by (blast intro: wrote_trans)
  with q(1) have "\<exists>q. prefix q (''QUIT'' @ EOL) \<and> wrote (concat (envelope caps m opts)
      @ (if accepted res = [] then [] else content caps m opts) @ q) c c'"
    by blast
  moreover have "list_all command_line (envelope caps m opts)"
    using mail_command_line [OF valid_reverse_path_bytes [OF mf(1) assms(2)]] rl assms(3)
    by (auto simp: envelope_def list_all_iff intro!: rcpt_command_line valid_mailbox_bytes [of idna])
  ultimately show ?thesis using rl by auto
qed

section \<open>Errors\<close>

lemma io_bind_Inl: "io_bind f g s = (Inl e, s2)
    \<longleftrightarrow> f s = (Inl e, s2) \<or> (\<exists>x s1. f s = (Inr x, s1) \<and> g x s1 = (Inl e, s2))"
  by (auto simp: io_bind_def split: prod.splits sum.splits)

lemma io_lift_Inl: "io_lift r s = (Inl e, s1) \<longleftrightarrow> r = Inl e \<and> s1 = s"
  by (auto simp: io_lift_def)

lemma expect_Inl: "expect n e r c = (Inl x, c') \<longleftrightarrow> code r \<noteq> n \<and> x = Failed (e r) \<and> c' = c"
  by (auto simp: expect_def fail_def io_lift_def)

lemma fail_Inl: "fail e c = (Inl x, c') \<longleftrightarrow> x = Failed e \<and> c' = c"
  by (auto simp: fail_def io_lift_def)

lemma checked_state: "checked r c = (x, c') \<Longrightarrow> c' = c"
  by (simp add: checked_def io_lift_def)

lemma recast_Inl: "recast f m c = (Inl (Failed e), c') \<longleftrightarrow> (\<exists>e'. m c = (Inl (Failed e'), c') \<and> e = f e')"
  by (auto simp: recast_def split: prod.splits sum.splits smtp_stop.splits)

lemma wrote_part_trans: "wrote s a b \<Longrightarrow> wrote_part t b c \<Longrightarrow> wrote_part (s @ t) a c"
  unfolding wrote_part_def by (metis wrote_trans same_prefix_prefix)

lemma wrote_part_append: "wrote_part s a b \<Longrightarrow> wrote_part (s @ t) a b"
  unfolding wrote_part_def by (metis prefix_prefix)

lemma wrote_part_wrote: "wrote s a b \<Longrightarrow> wrote_part s a b"
  unfolding wrote_part_def by blast

lemma mail_from_part: "mail_from idna from p c = (Inl e, c') \<Longrightarrow> wrote_part (mail_command from p) c c'"
  by (auto simp: mail_from_def io_bind_Inl io_lift_Inl fail_Inl checked_Inr Let_def split: if_splits
      dest: checked_state dest!: command_part wrote_part_wrote [OF command_Inr(1)])
    (simp_all add: wrote_part_def wrote_def)

lemma rcpt_to_part: "rcpt_to idna a notify orcpt c = (Inl e, c') \<Longrightarrow> wrote_part (rcpt_command a notify orcpt) c c'"
  by (auto simp: rcpt_to_def io_bind_Inl io_lift_Inl fail_Inl checked_Inr split: if_splits
      dest: checked_state dest!: command_part)

lemma rcpt_loop_part:
  "rcpt_loop idna notify orcpt rs res c = (Inl e, c') \<Longrightarrow>
     wrote_part (concat (map (\<lambda>r. rcpt_command r notify orcpt) rs)) c c'"
proof (induction rs arbitrary: res c)
  case (Cons r rs)
  from Cons(2) consider "rcpt_to idna r notify orcpt c = (Inl e, c')"
    | out c1 res' where "rcpt_to idna r notify orcpt c = (Inr out, c1)"
      "rcpt_loop idna notify orcpt rs res' c1 = (Inl e, c')"
    by (auto simp: io_bind_Inl)
  then show ?case
  proof cases
    case 1
    then show ?thesis by (auto dest: rcpt_to_part intro: wrote_part_append)
  next
    case 2
    then show ?thesis using wrote_part_trans [OF rcpt_to_Inr(2) Cons(1)] by simp
  qed
qed (simp add: io_lift_Inl)

text \<open>What an error after the content says: nothing certain, or the server's final refusal.\<close>

definition settled :: "string \<Rightarrow> smtp_error \<Rightarrow> bool" where
  "settled what e \<longleftrightarrow> (\<exists>m. e = DeliveryUncertain m)
     \<or> (\<exists>r. 400 \<le> code r \<and> code r < 600 \<and> e = Protocol (''message rejected after '' @ what @ '': '' @ reply_show r))"

lemma settled_uncertain [simp]: "settled what (uncertain e)" "settled what (DeliveryUncertain m)"
  by (simp_all add: settled_def uncertain_def)

lemma final_reply_Inl: "final_reply what r c = (Inl (Failed e), c') \<Longrightarrow> settled what e"
  by (auto simp: final_reply_def io_lift_Inl fail_Inl settled_def split: if_splits)

lemma bdat_Inl: "bdat raw c = (Inl (Failed e), c') \<Longrightarrow> settled ''BDAT'' e"
  by (auto simp: bdat_def io_bind_Inl recast_Inl dest: final_reply_Inl simp del: smtp_stop.inject)

lemma data_Inl:
  assumes "data raw c = (Inl (Failed e), c')"
  shows "settled ''DATA'' e \<or> wrote_part (''DATA'' @ EOL) c c'"
  using assms by (auto simp: data_def io_bind_Inl recast_Inl expect_Inl expect_Inr
      dest: final_reply_Inl command_part wrote_part_wrote [OF command_Inr(1)])

definition chunked :: "capabilities \<Rightarrow> submit_options \<Rightarrow> bool" where
  "chunked caps opts \<longleftrightarrow> opt_chunking opts \<and> cap_chunking caps"

text \<open>C10: When a transaction fails and the error is neither \<open>DeliveryUncertain\<close> nor a refusal
  with a 4xx or 5xx reply to the content, not a byte of the content has been written: only
  command lines of the envelope and, without chunking, \<open>DATA\<close>. Sending again cannot deliver
  such a message twice.\<close>

theorem failed_transactions_are_settled:
  assumes "transaction idna caps m opts c = (Inl (Failed e), c')"
  shows "settled (if chunked caps opts then ''BDAT'' else ''DATA'') e
    \<or> wrote_part (concat (envelope caps m opts) @ (if chunked caps opts then [] else ''DATA'' @ EOL)) c c'"
proof -
  let ?n = "case opt_dsn opts of Some d \<Rightarrow> dsn_on d | None \<Rightarrow> []"
  let ?o = "case opt_dsn opts of Some d \<Rightarrow> dsn_orcpt d | None \<Rightarrow> False"
  let ?rs = "\<lambda>c. rcpt_loop idna ?n ?o (mail_rcpts m) \<lparr>accepted = [], rejected = []\<rparr> c"
  consider "mail_from idna (mail_sender m) (params_of caps m opts) c = (Inl (Failed e), c')"
    | c1 where "mail_from idna (mail_sender m) (params_of caps m opts) c = (Inr (), c1)" "?rs c1 = (Inl (Failed e), c')"
    | c1 c2 res where "mail_from idna (mail_sender m) (params_of caps m opts) c = (Inr (), c1)" "?rs c1 = (Inr res, c2)"
      "(if accepted res = [] then io_lift (Inr ()) else if opt_chunking opts \<and> cap_chunking caps
         then bdat (mail_raw m) else data (mail_raw m)) c2 = (Inl (Failed e), c')"
    using assms by (auto simp: transaction_def io_bind_Inl io_lift_Inl quit_Inl)
  then show ?thesis
  proof cases
    case 1
    from wrote_part_append [OF mail_from_part [OF 1]] show ?thesis by (simp add: envelope_def)
  next
    case 2
    from wrote_part_append [OF wrote_part_trans [OF mail_from_Inr(2) [OF 2(1)] rcpt_loop_part [OF 2(2)]]]
    show ?thesis by (simp add: envelope_def)
  next
    case 3
    have w: "wrote (concat (envelope caps m opts)) c c2"
      using wrote_trans [OF mail_from_Inr(2) [OF 3(1)] conjunct1 [OF rcpt_loop_Inr [OF 3(2)]]]
      by (simp add: envelope_def)
    show ?thesis
      using 3(3) wrote_part_trans [OF w] bdat_Inl data_Inl
      by (fastforce simp: chunked_def io_lift_Inl split: if_splits)
  qed
qed

section \<open>A transaction\<close>

text \<open>A connection without a write limit, \<open>ps\<close> still to come and \<open>w\<close> written.\<close>

definition chat :: "string list \<Rightarrow> string \<Rightarrow> conn" where
  "chat ps w = conn_new \<lparr>pieces = ps, read_error = None, written = w, write_room = None, write_error = []\<rparr>"

lemma read_reply_piece:
  assumes "no_break l" "length l < 1000" "list_all is_ascii l" "reply_line l = Inr (n, True, t)"
  shows "read_reply (chat ((l @ EOL) # ps) w) = (Inr \<lparr>code = n, texts = [t]\<rparr>, chat ps w)"
proof -
  have tw: "takeWhile (\<lambda>b. b \<noteq> LF) (l @ [CR, LF]) = l @ [CR]"
    using assms(1) by (subst takeWhile_append2) (auto simp: no_break_def)
  have "read_line ((chat ps w)\<lparr>rbuf := l @ [CR, LF]\<rparr>) = (Inr l, chat ps w)"
    using assms(1,3) tw
    by (simp add: read_line.simps no_break_def strip_cr_def chat_def conn_new_def from_utf8_lossy_valid valid_utf8_ascii)
  moreover have "read_piece (wire (chat ((l @ EOL) # ps) w)) = (Inr (l @ EOL), wire (chat ps w))"
    using assms(2) by (simp add: read_piece_def chat_def conn_new_def)
  ultimately have "read_line (chat ((l @ EOL) # ps) w) = (Inr l, chat ps w)"
    by (subst read_line.simps) (simp add: chat_def conn_new_def MAX_LINE_def)
  then show ?thesis by (simp add: read_reply_def read_reply_from.simps assms(4))
qed

lemma chat_command:
  assumes "no_break l" "length l < 1000" "list_all is_ascii l" "reply_line l = Inr (n, True, t)"
  shows "smtp_command s (chat ((l @ EOL) # ps) w) = (Inr \<lparr>code = n, texts = [t]\<rparr>, chat ps (w @ s))"
proof -
  have "write_bytes s (chat ((l @ EOL) # ps) w) = (Inr (), chat ((l @ EOL) # ps) (w @ s))"
    by (simp add: write_bytes_def chat_def conn_new_def)
  then show ?thesis by (simp add: smtp_command_def io_bind_def read_reply_piece [OF assms])
qed

lemma reply_line_code:
  assumes "list_all is_digit d" "length d = 3" "list_all is_ascii t"
  shows "reply_line (d @ SP # t) = Inr (dec_value d, True, t)"
proof -
  have "dec_value d < 10 ^ 3" using dec_value_less [OF assms(1)] assms(2) by simp
  then have "parse_uint 65535 d = Some (dec_value d)"
    using assms(1,2) by (cases d) (auto simp: parse_uint_def parse_digits_def is_digit_def)
  moreover have "boundary t" using assms(3) by (cases t) (auto simp: ascii_not_cont)
  ultimately show ?thesis using assms(2) by (simp add: reply_line_def is_cont_def nth_append)
qed

lemma sample_replies:
  "reply_line ''250 ok'' = Inr (250, True, ''ok'')" "reply_line ''354 go'' = Inr (354, True, ''go'')"
  "reply_line ''550 no'' = Inr (550, True, ''no'')" "reply_line ''221 by'' = Inr (221, True, ''by'')"
  using reply_line_code [of "''250''" "''ok''"] reply_line_code [of "''354''" "''go''"]
    reply_line_code [of "''550''" "''no''"] reply_line_code [of "''221''" "''by''"]
  by (simp_all add: is_ascii_def is_digit_def dec_value_simps)

lemma sample_commands:
  "smtp_command s (chat ((''250 ok'' @ EOL) # ps) w) = (Inr \<lparr>code = 250, texts = [''ok'']\<rparr>, chat ps (w @ s))"
  "smtp_command s (chat ((''354 go'' @ EOL) # ps) w) = (Inr \<lparr>code = 354, texts = [''go'']\<rparr>, chat ps (w @ s))"
  "smtp_command s (chat ((''550 no'' @ EOL) # ps) w) = (Inr \<lparr>code = 550, texts = [''no'']\<rparr>, chat ps (w @ s))"
  "smtp_command s (chat ((''221 by'' @ EOL) # ps) w) = (Inr \<lparr>code = 221, texts = [''by'']\<rparr>, chat ps (w @ s))"
  "read_reply (chat ((''250 ok'' @ EOL) # ps) w) = (Inr \<lparr>code = 250, texts = [''ok'']\<rparr>, chat ps w)"
  using sample_replies by (intro chat_command read_reply_piece; simp add: is_ascii_def)+

lemma chat_simps [simp]:
  "(chat ps w)\<lparr>utf8_requested := False\<rparr> = chat ps w" "utf8_offered (chat ps w) = False"
  "write_bytes s (chat ps w) = (Inr (), chat ps (w @ s))"
  by (simp_all add: chat_def conn_new_def write_bytes_def)

definition sample_mail :: outgoing_mail where
  "sample_mail = \<lparr>mail_sender = ''a@b.org'', mail_rcpts = [''c@d.org'', ''e@f.org''], mail_raw = [CHR ''.'', LF]\<rparr>"

lemma sample_mail_simps [simp]:
  "mail_sender sample_mail = ''a@b.org''" "mail_rcpts sample_mail = [''c@d.org'', ''e@f.org'']"
  "mail_raw sample_mail = [CHR ''.'', LF]"
  by (simp_all add: sample_mail_def)

definition no_options :: submit_options where
  "no_options = \<lparr>opt_dsn = None, opt_require_tls = False, opt_chunking = False\<rparr>"

lemmas address_simps = validate_reverse_path_def validate_mailbox_def mailbox_def MAX_ADDR_BYTES_def map_err_def
  is_control_def rsplit_once_def split_once_def validate_local_def quoted_inner_def strip_prefix_def
  strip_suffix_def suffix_def atom_char_def domain_char_def literal_of_def bad_label_def is_upper_def is_lower_def
  is_digit_def is_ascii_def char_width_def is_ws_def ws_chars_def rbind_def ATOM_MARKS_def

lemma sample_addresses:
  "validate_reverse_path Some ''a@b.org'' = Inr ()" "validate_mailbox Some ''c@d.org'' = Inr ()"
  "validate_mailbox Some ''e@f.org'' = Inr ()"
  by (simp_all add: address_simps)

lemma sample_utf8:
  "\<not> needs_utf8 sample_mail" "\<not> needs_8bit sample_mail" "str_is_ascii ''a@b.org''" "str_is_ascii ''c@d.org''"
  "str_is_ascii ''e@f.org''"
  by code_simp+

text \<open>The second recipient is refused.\<close>

lemma sample_transaction:
  "transaction Some no_caps sample_mail no_options
     (chat (map (\<lambda>l. l @ EOL) [''250 ok'', ''250 ok'', ''550 no'', ''354 go'', ''250 ok'', ''221 by'']) [])
   = (Inr \<lparr>accepted = [''c@d.org''], rejected = [(''e@f.org'', reply_show \<lparr>code = 550, texts = [''no'']\<rparr>)]\<rparr>,
      chat [] (concat (envelope no_caps sample_mail no_options) @ content no_caps sample_mail no_options @ ''QUIT'' @ EOL))"
  using sample_commands [simplified]
  by (simp add: transaction_def mail_from_def rcpt_to_def data_def quit_def checked_def expect_def final_reply_def
      recast_def fail_def is_positive_def io_bind_def io_lift_def sample_addresses map_err_def params_of_def Let_def
      no_options_def no_caps_def sample_utf8 envelope_def content_def)

theorem transaction_transcript_witness:
  "\<exists>q. prefix q (''QUIT'' @ EOL) \<and> wrote (concat (envelope no_caps sample_mail no_options)
        @ content no_caps sample_mail no_options @ q)
       (chat (map (\<lambda>l. l @ EOL) [''250 ok'', ''250 ok'', ''550 no'', ''354 go'', ''250 ok'', ''221 by'']) [])
       (chat [] (concat (envelope no_caps sample_mail no_options) @ content no_caps sample_mail no_options @ ''QUIT'' @ EOL))
    \<and> list_all command_line (envelope no_caps sample_mail no_options)
    \<and> [''c@d.org'', ''e@f.org''] \<in> shuffles [''c@d.org''] [''e@f.org'']"
proof -
  have "valid_utf8 (mail_sender sample_mail)" "list_all valid_utf8 (mail_rcpts sample_mail)"
    using sample_utf8(3-5) by (simp_all add: valid_utf8_ascii str_is_ascii_def)
  from transaction_transcript [OF sample_transaction this] show ?thesis by simp
qed

text \<open>The server refuses the sender.\<close>

lemma sample_refusal:
  "transaction Some no_caps sample_mail no_options (chat [''550 no'' @ EOL] [])
   = (Inl (Failed (Protocol (''MAIL FROM rejected: '' @ reply_show \<lparr>code = 550, texts = [''no'']\<rparr>))),
      chat [] (mail_command ''a@b.org'' (params_of no_caps sample_mail no_options)))"
  using sample_commands(3) [simplified]
  by (simp add: transaction_def mail_from_def checked_def fail_def is_positive_def io_bind_def io_lift_def
      sample_addresses map_err_def params_of_def Let_def no_options_def no_caps_def sample_utf8)

theorem failed_transactions_are_settled_witness:
  "wrote_part (concat (envelope no_caps sample_mail no_options) @ ''DATA'' @ EOL) (chat [''550 no'' @ EOL] [])
     (chat [] (mail_command ''a@b.org'' (params_of no_caps sample_mail no_options)))"
  using failed_transactions_are_settled [OF sample_refusal]
  by (simp add: settled_def chunked_def no_options_def)

end
