(* ===== verification/Smtp_Panic.thy ===== *)
theory Smtp_Panic
  imports Smtp_Transcript
begin

text \<open>
  When the submission client panics: \<open>read_reply\<close> slices the first three bytes of a line of the
  server as text (\<open>crates/mw-smtp/src/conn.rs\<close>). A server that sends only ASCII never makes it
  panic, wherever the line is read.
\<close>

section \<open>A line that panics\<close>

lemma read_line_whole:
  assumes "LF \<notin> set l" "length l < 1024"
  shows "read_line (chat [l @ [LF]] w) = (Inr (from_utf8_lossy (strip_cr l)), chat [] w)"
proof -
  have "read_piece (wire (chat [l @ [LF]] w)) = (Inr (l @ [LF]), wire (chat [] w))"
    using assms(2) by (simp add: read_piece_def chat_def conn_new_def)
  moreover have "takeWhile (\<lambda>b. b \<noteq> LF) (l @ [LF]) = l"
    using assms(1) by (subst takeWhile_append2) auto
  then have "read_line ((chat [] w)\<lparr>rbuf := l @ [LF]\<rparr>) = (Inr (from_utf8_lossy (strip_cr l)), chat [] w)"
    by (simp add: read_line.simps chat_def conn_new_def)
  ultimately show ?thesis
    by (subst read_line.simps) (simp add: chat_def conn_new_def MAX_LINE_def)
qed

lemma read_line_closed: "read_line (chat [] w) = (Inl (Failed (Protocol ''connection closed mid-reply'')), chat [] w)"
  by (subst read_line.simps) (simp add: chat_def conn_new_def read_piece_def MAX_LINE_def)

lemma reply_line_Panicked: "reply_line t = Inl Panicked \<longleftrightarrow> 3 \<le> length t \<and> \<not> boundary (drop 3 t)"
  by (auto simp: reply_line_def split: option.splits)

text \<open>C22: A server's line makes the client panic exactly when, decoded, it has a character that
  begins in its first three bytes and ends after them. Such a line is no reply; the module
  documents that parsing the peer's input never panics.\<close>

theorem reply_panics_iff:
  assumes "LF \<notin> set l" "length l < 1024"
  shows "fst (read_greeting (chat [l @ [LF]] w)) = Inl Panicked
    \<longleftrightarrow> (let t = from_utf8_lossy (strip_cr l) in 3 \<le> length t \<and> \<not> boundary (drop 3 t))"
proof -
  have "fst (read_reply (chat [l @ [LF]] w)) = Inl Panicked
      \<longleftrightarrow> reply_line (from_utf8_lossy (strip_cr l)) = Inl Panicked"
    by (auto simp: read_reply_def read_reply_from.simps read_line_whole [OF assms] read_line_closed
        split: sum.splits if_splits)
  then show ?thesis
    by (auto simp: read_greeting_def io_bind_def expect_def fail_def io_lift_def Let_def reply_line_Panicked
        split: prod.splits sum.splits)
qed

theorem reply_panics_iff_witness:
  "fst (read_greeting (chat [[CHR ''2'', CHR 0xFF, LF]] [])) = Inl Panicked"
proof -
  have "from_utf8_lossy (strip_cr [CHR ''2'', CHR 0xFF]) = [CHR ''2'', CHR 0xEF, CHR 0xBF, CHR 0xBD]"
    by code_simp
  with reply_panics_iff [of "[CHR ''2'', CHR 0xFF]" "[]"] show ?thesis
    by (simp add: numeral_3_eq_3 is_cont_def Let_def)
qed

section \<open>Servers that send ASCII\<close>

text \<open>\<open>calm P m\<close>: from a state in \<open>P\<close>, \<open>m\<close> does not panic and ends in \<open>P\<close>.\<close>

definition calm :: "('s \<Rightarrow> bool) \<Rightarrow> ('s \<Rightarrow> (smtp_stop + 'a) \<times> 's) \<Rightarrow> bool" where
  "calm P m \<longleftrightarrow> (\<forall>s. P s \<longrightarrow> fst (m s) \<noteq> Inl Panicked \<and> P (snd (m s)))"

named_theorems calm_intros

lemma calmD: "calm P m \<Longrightarrow> P s \<Longrightarrow> m s = (r, s') \<Longrightarrow> r \<noteq> Inl Panicked \<and> P s'"
  by (fastforce simp: calm_def)

lemma calm_bind [calm_intros]: "calm P f \<Longrightarrow> (\<And>x. calm P (g x)) \<Longrightarrow> calm P (io_bind f g)"
  unfolding calm_def io_bind_def by (fastforce split: prod.splits sum.splits)

lemma calm_lift [calm_intros]: "calm P (io_lift (Inr x))" "calm P (io_lift (Inl (Failed e)))" "calm P (fail e)"
  "calm P (checked r)"
  by (auto simp: calm_def io_lift_def fail_def checked_def map_err_def split: sum.splits)

lemma calm_if [calm_intros]: "(b \<Longrightarrow> calm P f) \<Longrightarrow> (\<not> b \<Longrightarrow> calm P g) \<Longrightarrow> calm P (if b then f else g)"
  by simp

lemma calm_recast [calm_intros]: "calm P m \<Longrightarrow> calm P (recast f m)"
  unfolding calm_def recast_def by (fastforce split: prod.splits sum.splits smtp_stop.splits)

lemma calm_expect [calm_intros]: "calm P (expect n e r)"
  by (simp add: expect_def calm_intros)

definition ascii_link :: "link \<Rightarrow> bool" where
  "ascii_link l \<longleftrightarrow> list_all (list_all is_ascii) (pieces l)"

definition ascii_conn :: "conn \<Rightarrow> bool" where
  "ascii_conn c \<longleftrightarrow> ascii_link (wire c) \<and> list_all is_ascii (rbuf c)"

lemma ascii_conn_new [simp]: "ascii_conn (conn_new l) = ascii_link l"
  by (simp add: ascii_conn_def conn_new_def)

lemma list_all_part: "list_all P xs \<Longrightarrow> set ys \<subseteq> set xs \<Longrightarrow> list_all P ys"
  by (auto simp: list_all_iff)

lemma list_all_drop: "list_all P xs \<Longrightarrow> list_all P (drop n xs)" "list_all P xs \<Longrightarrow> list_all P (take n xs)"
  by (rule list_all_part, assumption, auto dest: in_set_dropD in_set_takeD)+

lemma read_piece_ascii:
  assumes "read_piece l = (r, l')" "ascii_link l"
  shows "ascii_link l'" "r = Inr p \<Longrightarrow> list_all is_ascii p"
proof -
  have "ascii_link l' \<and> (\<forall>p. r = Inr p \<longrightarrow> list_all is_ascii p)"
    using assms by (auto simp: read_piece_def ascii_link_def list_all_drop
        split: list.splits option.splits if_splits)
  then show "ascii_link l'" "r = Inr p \<Longrightarrow> list_all is_ascii p" by auto
qed

lemma read_line_ascii:
  "read_line c = (r, c') \<Longrightarrow> ascii_conn c \<Longrightarrow> r \<noteq> Inl Panicked \<and> ascii_conn c' \<and> (\<forall>l. r = Inr l \<longrightarrow> list_all is_ascii l)"
proof (induction c rule: read_line.induct)
  case (1 c)
  show ?case
  proof (cases "LF \<in> set (rbuf c)")
    case True
    let ?l = "strip_cr (takeWhile (\<lambda>b. b \<noteq> LF) (rbuf c))"
    have "list_all is_ascii (rbuf c)" using 1(3) by (simp add: ascii_conn_def)
    moreover have "set ?l \<subseteq> set (rbuf c)"
      by (auto simp: strip_cr_def dest!: in_set_butlastD set_takeWhileD)
    ultimately have l: "list_all is_ascii ?l" by (rule list_all_part)
    then have "from_utf8_lossy ?l = ?l" by (intro from_utf8_lossy_valid valid_utf8_ascii)
    moreover have "list_all is_ascii (drop n (rbuf c))" for n
      using 1(3) by (auto simp: ascii_conn_def list_all_drop)
    ultimately show ?thesis using 1(2,3) True l
      by (auto simp: read_line.simps [of c] Let_def ascii_conn_def)
  next
    case False
    obtain p w where p: "read_piece (wire c) = (p, w)" by force
    note w = read_piece_ascii [OF p] and a = 1(3) [unfolded ascii_conn_def]
    consider (stop) "r \<noteq> Inl Panicked" "\<forall>l. r \<noteq> Inr l" "c' = c \<or> c' = c\<lparr>wire := w\<rparr>"
      | (more) s where "\<not> MAX_LINE < length (rbuf c)" "p = Inr s" "s \<noteq> []"
        "read_line (c\<lparr>wire := w, rbuf := rbuf c @ s\<rparr>) = (r, c')"
      using 1(2) False p by (auto simp: read_line.simps [of c] split: if_splits sum.splits)
    then show ?thesis
    proof cases
      case stop
      then show ?thesis using w a by (auto simp: ascii_conn_def)
    next
      case more
      then have "ascii_conn (c\<lparr>wire := w, rbuf := rbuf c @ s\<rparr>)" using w a by (auto simp: ascii_conn_def)
      with 1(1) [OF False more(1) p [symmetric] more(2,3,4)] show ?thesis by blast
    qed
  qed
qed

lemma reply_line_ascii: "list_all is_ascii l \<Longrightarrow> reply_line l \<noteq> Inl Panicked"
proof -
  assume "list_all is_ascii l"
  then have "list_all is_ascii (drop 3 l)" by (rule list_all_drop)
  then have "boundary (drop 3 l)" by (cases "drop 3 l") (auto simp: ascii_not_cont)
  then show ?thesis by (simp add: reply_line_Panicked)
qed

lemma calm_read_reply_from:
  "read_reply_from ls c = (r, c') \<Longrightarrow> ascii_conn c \<Longrightarrow> r \<noteq> Inl Panicked \<and> ascii_conn c'"
proof (induction ls c rule: read_reply_from.induct)
  case (1 ls c)
  obtain l c1 where l: "read_line c = (l, c1)" by force
  note k = read_line_ascii [OF l 1(3)]
  show ?case
  proof (cases l)
    case (Inl e)
    then show ?thesis using 1(2) l k by (auto simp: read_reply_from.simps [of ls c])
  next
    case (Inr line)
    note a = reply_line_ascii [of line]
    consider "c' = c1" "r \<noteq> Inl Panicked" | n t where "reply_line line = Inr (n, False, t)" "read_reply_from (ls @ [t]) c1 = (r, c')"
      using 1(2) l Inr k a by (auto simp: read_reply_from.simps [of ls c] split: sum.splits if_splits)
    then show ?thesis
    proof cases
      case 2
      from 1(1) [OF l [symmetric] Inr 2(1) refl refl _ 2(2)] k show ?thesis by blast
    qed (use k in simp)
  qed
qed

lemma calm_read_reply [calm_intros]: "calm ascii_conn read_reply"
  unfolding calm_def read_reply_def using calm_read_reply_from by (metis prod.collapse)

lemma calm_write_bytes [calm_intros]: "calm ascii_conn (write_bytes s)"
  by (auto simp: calm_def write_bytes_def Let_def ascii_conn_def ascii_link_def split: option.splits)

lemma calm_command [calm_intros]: "calm ascii_conn (smtp_command s)"
  by (simp add: smtp_command_def calm_intros)

lemma ascii_conn_flags [simp]:
  "ascii_conn (c\<lparr>utf8_offered := b\<rparr>) = ascii_conn c" "ascii_conn (c\<lparr>utf8_requested := b\<rparr>) = ascii_conn c"
  by (simp_all add: ascii_conn_def)

lemma calm_read_greeting [calm_intros]: "calm ascii_conn read_greeting"
  by (simp add: read_greeting_def calm_intros)

lemma calm_ehlo [calm_intros]: "calm ascii_conn (ehlo name)"
proof -
  have "calm ascii_conn (\<lambda>c. let caps = caps_parse ls in (Inr caps, c\<lparr>utf8_offered := cap_smtputf8 caps\<rparr>))" for ls
    by (simp add: calm_def Let_def)
  then show ?thesis unfolding ehlo_def by (intro calm_intros)
qed

lemma calm_starttls [calm_intros]: "calm ascii_conn starttls"
  by (simp add: starttls_def calm_intros)

lemma calm_quit [calm_intros]: "calm ascii_conn quit"
  using calm_command [of "''QUIT'' @ EOL"]
  by (fastforce simp: calm_def quit_def split: prod.splits sum.splits smtp_stop.splits)

lemma calm_into_inner [calm_intros]: "calm ascii_conn into_inner"
  by (simp add: calm_def into_inner_def)

lemma calm_mail_from [calm_intros]: "calm ascii_conn (mail_from idna from p)"
proof -
  have guarded: "calm ascii_conn (\<lambda>c. let u = b in if u \<and> \<not> utf8_offered c then fail e c else m (c\<lparr>utf8_requested := u\<rparr>))"
    if "calm ascii_conn m" for b e and m :: "unit sc"
    using that by (auto simp: calm_def fail_def io_lift_def)
  show ?thesis unfolding mail_from_def
    by (rule calm_bind [OF calm_lift(4)], rule guarded, intro calm_intros)
qed

lemma calm_rcpt_to [calm_intros]: "calm ascii_conn (rcpt_to idna a notify orcpt)"
proof -
  have guarded: "calm ascii_conn (\<lambda>c. if b \<and> \<not> utf8_requested c then fail (if \<not> utf8_offered c then e else e') c else m c)"
    if "calm ascii_conn m" for b e e' and m :: "rcpt_outcome sc"
    using that by (auto simp: calm_def fail_def io_lift_def)
  show ?thesis unfolding rcpt_to_def
    by (rule calm_bind [OF calm_lift(4)], rule guarded, intro calm_intros)
qed

lemma calm_rcpt_loop [calm_intros]: "calm ascii_conn (rcpt_loop idna notify orcpt rs res)"
  by (induction rs arbitrary: res) (simp_all add: calm_intros)

lemma calm_final_reply [calm_intros]: "calm P (final_reply what r)"
  by (simp add: final_reply_def calm_intros)

lemma calm_data [calm_intros]: "calm ascii_conn (data raw)" "calm ascii_conn (bdat raw)"
  by (simp_all add: data_def bdat_def calm_intros)

lemma calm_transaction [calm_intros]: "calm ascii_conn (transaction idna caps m opts)"
  by (simp add: transaction_def calm_intros)

lemma calm_authenticate [calm_intros]: "calm ascii_conn (authenticate k nonce creds caps binding)"
  by (simp add: authenticate_def require_def auth_bearer_def auth_login_def auth_scram_either_def auth_scram_def
      expect_auth_ok_def Let_def calm_intros split: smtp_credentials.split prod.split)

lemma calm_on_conn [calm_intros]:
  assumes "calm P m"
  shows "calm (P \<circ> fst) (on_conn m)"
  using calmD [OF assms] by (auto simp: calm_def on_conn_def split: prod.splits)

lemma calm_session: "calm (ascii_conn \<circ> fst) (session k idna nonce now cfg m opts binding)"
proof -
  have "calm (ascii_conn \<circ> fst) (observe now b)" for b
    by (simp add: calm_def observe_def)
  then show ?thesis unfolding session_def refuse_extensions_def by (intro calm_intros)
qed

section \<open>Submission\<close>

text \<open>Every connection the environment opens, and every one it secures, sends only ASCII.\<close>

definition ascii_env :: "'w smtp_env \<Rightarrow> bool" where
  "ascii_env env \<longleftrightarrow> (\<forall>h p w l w'. dial env h p w = (Inr l, w') \<longrightarrow> ascii_link l)
     \<and> (\<forall>n rs d l w l' b w'. handshake env n rs d l w = (Inr (l', b), w') \<longrightarrow> ascii_link l')"

lemma ascii_envD:
  "ascii_env env \<Longrightarrow> dial env h p w = (Inr l, w') \<Longrightarrow> ascii_link l"
  "ascii_env env \<Longrightarrow> handshake env n rs d l w = (Inr (l', b), w') \<Longrightarrow> ascii_link l'"
  unfolding ascii_env_def by blast+

text \<open>\<open>yields Q m\<close>: \<open>m\<close> does not panic, and what it returns satisfies \<open>Q\<close>.\<close>

definition yields :: "('a \<Rightarrow> bool) \<Rightarrow> ('w, 'a) ws \<Rightarrow> bool" where
  "yields Q m \<longleftrightarrow> (\<forall>w. case fst (m w) of Inl e \<Rightarrow> e \<noteq> Panicked | Inr x \<Rightarrow> Q x)"

lemma yields_result: "yields Q m \<Longrightarrow> m w = (r, w') \<Longrightarrow> (case r of Inl e \<Rightarrow> e \<noteq> Panicked | Inr x \<Rightarrow> Q x)"
  unfolding yields_def by (metis fst_conv)

lemma yields_bind: "yields Q f \<Longrightarrow> (\<And>x. Q x \<Longrightarrow> yields R (g x)) \<Longrightarrow> yields R (io_bind f g)"
  unfolding yields_def io_bind_def by (auto split: prod.splits sum.splits) (metis fst_conv sum.case)+

lemma yields_conj:
  "yields Q m \<Longrightarrow> (\<And>w x w'. m w = (Inr x, w') \<Longrightarrow> R x) \<Longrightarrow> yields (\<lambda>x. Q x \<and> R x) m"
  unfolding yields_def by (auto split: sum.splits) (metis prod.collapse)

lemma yields_simple:
  "Q x \<Longrightarrow> yields Q (io_lift (Inr x))" "yields Q (fail e)" "yields (\<lambda>_. True) (checked r)"
  "yields (\<lambda>_. True) (decide env cfg)"
  "(\<And>w x w'. m w = (Inr x, w') \<Longrightarrow> Q x) \<Longrightarrow> yields Q (outer_step f m)"
  by (auto simp: yields_def io_lift_def fail_def checked_def decide_def outer_step_def map_err_def
      split: sum.splits option.splits prod.splits)

lemma yields_inside:
  assumes "calm ascii_conn m" "ascii_conn c"
  shows "yields (\<lambda>(x, c'). ascii_conn c') (inside m c)"
  using calmD [OF assms] by (auto simp: yields_def inside_def split: prod.splits sum.splits)

lemma yields_handshake:
  assumes "ascii_env env"
  shows "yields (\<lambda>(l, b). ascii_link l) (connect_with_policy env opts host d l0)"
proof -
  have "yields (\<lambda>(l, b). ascii_link l) (outer_step f (handshake env n rs d l0))" for f n rs
    by (rule yields_simple) (use ascii_envD [OF assms] in auto)
  then show ?thesis unfolding connect_with_policy_def by (auto intro!: yields_simple)
qed

lemma yields_upgrade:
  assumes "ascii_link l"
  shows "yields ascii_link (upgrade_starttls cfg (conn_new l))"
proof -
  let ?m = "io_bind read_greeting (\<lambda>_. io_bind (ehlo (s_ehlo_name cfg)) (\<lambda>caps.
    if \<not> cap_starttls caps then fail (Protocol ''server does not advertise STARTTLS on this port'')
    else io_bind starttls (\<lambda>_. into_inner)))"
  have "calm ascii_conn ?m" by (intro calm_intros)
  from yields_inside [OF this, of "conn_new l"] assms
  have "yields (\<lambda>(x, c'). ascii_conn c') (inside ?m (conn_new l))" by simp
  then have "yields (\<lambda>x. (case x of (x, c') \<Rightarrow> ascii_conn c') \<and> fst x = wire (snd x)) (inside ?m (conn_new l))"
    by (rule yields_conj)
      (auto simp: inside_def io_bind_Inr into_inner_def split: prod.splits sum.splits if_splits)
  then show ?thesis unfolding upgrade_starttls_def
    by (rule yields_bind) (auto simp: ascii_conn_def intro: yields_simple)
qed

lemma yields_connect:
  assumes "ascii_env env"
  shows "yields (\<lambda>(c, b). ascii_conn c) (connect env cfg opts)"
proof -
  have greeted: "yields (\<lambda>(c, b). ascii_conn c) (io_bind (inside read_greeting (conn_new l)) (\<lambda>(_, c). io_lift (Inr (c, b))))"
    if "ascii_link l" for l b
    by (rule yields_bind [OF yields_inside]) (use that in \<open>auto intro: calm_intros yields_simple\<close>)
  have "yields ascii_link (outer_step (\<lambda>e. e) (dial env (s_host cfg) (s_port cfg)))"
    by (rule yields_simple) (use ascii_envD [OF assms] in auto)
  then show ?thesis unfolding connect_def
    by (intro yields_bind [OF yields_simple(3)] yields_bind [OF yields_simple(4)])
      (auto split: security.split intro!: yields_simple greeted
        yields_bind [where Q = ascii_link] yields_upgrade
        yields_bind [OF yields_handshake [OF assms]])
qed

text \<open>C13: A submission to servers that send only ASCII never panics, whatever they send: over
  the direct, the upgraded and the encrypted connection, with every authentication mechanism
  and for every message: the only panic of the client needs a byte outside ASCII.\<close>

theorem ascii_servers_never_panic:
  assumes "ascii_env env"
  shows "fst (submit_with k idna env nonce now cfg topts m opts s) \<noteq> Inl Panicked"
proof -
  obtain r w where c: "connect env cfg topts (outside s) = (r, w)" by force
  note y = yields_result [OF yields_connect [OF assms] c]
  show ?thesis
  proof (cases r)
    case (Inl e)
    then show ?thesis using y c by (auto simp: submit_with_def split: sum.split)
  next
    case (Inr x)
    then obtain conn b where x: "r = Inr (conn, b)" "ascii_conn conn" using y by (cases x) auto
    obtain r' c' d where t: "session k idna nonce now cfg m opts b (conn, support s) = (r', c', d)"
      by (metis prod_cases3)
    have "r' \<noteq> Inl Panicked" using calmD [OF calm_session _ t] x(2) by simp
    then show ?thesis using c x(1) t by (auto simp: submit_with_def split: sum.split)
  qed
qed

definition toy_sasl :: sasl_lib where
  "toy_sasl = \<lparr>b64 = (\<lambda>s. s), b64_read = Some, hmac_sha256 = (\<lambda>k m. ''s''), digest256 = (\<lambda>s. s)\<rparr>"

text \<open>A server that greets and closes.\<close>

definition greeting_env :: "unit smtp_env" where
  "greeting_env = \<lparr>dial = (\<lambda>h p w. (Inr (wire (chat [''220 hi'' @ EOL] [])), w)), root_ok = (\<lambda>r. True),
     handshake = (\<lambda>n rs d l w. (Inl ''no TLS'', w)), policy = None\<rparr>"

theorem ascii_servers_never_panic_witness:
  "fst (submit_with toy_sasl Some greeting_env ''n'' 0 \<lparr>s_host = ''mx'', s_port = 25, s_security = Plaintext,
      s_credentials = NoCredentials, s_ehlo_name = ''me''\<rparr> \<lparr>server_name_override = None, extra_roots = []\<rparr>
      sample_mail no_options \<lparr>outside = (), support = None\<rparr>) \<noteq> Inl Panicked"
proof -
  have "ascii_env greeting_env"
    by (simp add: ascii_env_def greeting_env_def ascii_link_def chat_def conn_new_def is_ascii_def)
  then show ?thesis by (rule ascii_servers_never_panic)
qed

end
