(* ===== verification/Smtp_Secure.thy ===== *)
theory Smtp_Secure
  imports Smtp_Panic Transport_Thms
begin

text \<open>
  How a submission is secured: the transport policy (\<open>crates/mw-mail-transport\<close>) decides before
  the socket is opened, STARTTLS leaves nothing of the cleartext behind, and SCRAM ends only with
  the server's proof.
\<close>

section \<open>The connection\<close>

lemma outer_step_Inr: "outer_step f m w = (Inr x, w') \<longleftrightarrow> m w = (Inr x, w')"
  by (auto simp: outer_step_def split: prod.splits sum.splits)

lemma inside_Inr: "inside m c w = (Inr (x, c'), w') \<longleftrightarrow> m c = (Inr x, c') \<and> w' = w"
  by (auto simp: inside_def split: prod.splits sum.splits)

lemma read_greeting_keeps: "read_greeting c = (Inr (), c') \<Longrightarrow> keeps c c'"
  by (auto simp: read_greeting_def step_results dest: read_reply_keeps)

lemma ehlo_Inr: "ehlo name c = (Inr caps, c') \<Longrightarrow> wrote (''EHLO '' @ name @ EOL) c c'"
  by (auto simp: ehlo_def step_results wrote_def dest!: command_Inr(1))

lemma starttls_Inr: "starttls c = (Inr (), c') \<Longrightarrow> wrote (''STARTTLS'' @ EOL) c c'"
  by (auto simp: starttls_def step_results dest!: command_Inr(1))

text \<open>What is written before the handshake.\<close>

definition cleartext :: "submit_config \<Rightarrow> string" where
  "cleartext cfg = (if s_security cfg = StartTls then ''EHLO '' @ s_ehlo_name cfg @ EOL @ ''STARTTLS'' @ EOL else [])"

lemma upgrade_Inr:
  assumes "upgrade_starttls cfg (conn_new l) w = (Inr l', w')"
  shows "w' = w" "written l' = written l @ ''EHLO '' @ s_ehlo_name cfg @ EOL @ ''STARTTLS'' @ EOL"
proof -
  obtain c1 caps c2 c3 where c: "read_greeting (conn_new l) = (Inr (), c1)"
    "ehlo (s_ehlo_name cfg) c1 = (Inr caps, c2)" "starttls c2 = (Inr (), c3)" "l' = wire c3" "w' = w"
    using assms by (auto simp: upgrade_starttls_def io_bind_Inr io_lift_Inr inside_Inr into_inner_def
        split: if_splits)
  from wrote_trans [OF wrote_keeps(1) [OF read_greeting_keeps [OF c(1)] ehlo_Inr [OF c(2)]] starttls_Inr [OF c(3)]]
  show "w' = w" "written l' = written l @ ''EHLO '' @ s_ehlo_name cfg @ EOL @ ''STARTTLS'' @ EOL"
    using c(4,5) by (auto simp: wrote_def conn_new_def)
qed

definition tls_name :: "tls_options \<Rightarrow> string \<Rightarrow> string" where
  "tls_name opts host = (case server_name_override opts of Some n \<Rightarrow> n | None \<Rightarrow> host)"

lemma connect_with_policy_Inr:
  assumes "connect_with_policy env opts host d l w = (Inr (l', b), w')"
  shows "handshake env (tls_name opts host) (extra_roots opts) d l w = (Inr (l', b), w')"
    "requires_tls d \<Longrightarrow> tls_name opts host = host \<or> eq_nocase (tls_name opts host) host"
  using assms by (auto simp: connect_with_policy_def outer_step_Inr tls_name_def split: if_splits option.splits)

text \<open>\<open>secured env cfg opts d l w c b w'\<close>: over the dialled \<open>l\<close> the handshake under the decision
  \<open>d\<close> gave the connection \<open>c\<close>, on which nothing has been written yet, and before it only the
  commands of the upgrade were.\<close>

definition secured ::
  "'w smtp_env \<Rightarrow> submit_config \<Rightarrow> tls_options \<Rightarrow> transport_decision \<Rightarrow> link \<Rightarrow> 'w \<Rightarrow> conn
     \<Rightarrow> (string \<times> string) option \<Rightarrow> 'w \<Rightarrow> bool" where
  "secured env cfg opts d l w c b w' \<longleftrightarrow> (\<exists>l1 l2.
     written l1 = written l @ cleartext cfg
     \<and> handshake env (tls_name opts (s_host cfg)) (extra_roots opts) d l1 w = (Inr (l2, b), w')
     \<and> (requires_tls d \<longrightarrow> tls_name opts (s_host cfg) = s_host cfg \<or> eq_nocase (tls_name opts (s_host cfg)) (s_host cfg))
     \<and> keeps (conn_new l2) c \<and> (s_security cfg = StartTls \<longrightarrow> c = conn_new l2))"

lemma connect_Inr:
  assumes "connect env cfg opts w = (Inr (c, b), w')"
  shows "\<exists>d w1 l w2. decide env cfg w = (Inr d, w1) \<and> dial env (s_host cfg) (s_port cfg) w1 = (Inr l, w2)
    \<and> (if s_security cfg = Plaintext then \<not> requires_tls d else secured env cfg opts d l w2 c b w')"
proof -
  obtain d w1 l w2 where d: "decide env cfg w = (Inr d, w1)" "dial env (s_host cfg) (s_port cfg) w1 = (Inr l, w2)"
    and plain: "s_security cfg = Plaintext \<Longrightarrow> \<not> requires_tls d"
    and rest: "(case s_security cfg of
        ImplicitTls \<Rightarrow> io_bind (connect_with_policy env opts (s_host cfg) d l) (\<lambda>(l, b).
          io_bind (inside read_greeting (conn_new l)) (\<lambda>(_, c). io_lift (Inr (c, b))))
      | StartTls \<Rightarrow> io_bind (upgrade_starttls cfg (conn_new l)) (\<lambda>l.
          io_bind (connect_with_policy env opts (s_host cfg) d l) (\<lambda>(l, b).
          io_lift (Inr (conn_new l, b))))
      | Plaintext \<Rightarrow> io_bind (inside read_greeting (conn_new l)) (\<lambda>(_, c). io_lift (Inr (c, None)))) w2
      = (Inr (c, b), w')"
    using assms by (auto simp: connect_def io_bind_Inr checked_Inr outer_step_Inr split: if_splits)
  have "secured env cfg opts d l w2 c b w'" if "s_security cfg \<noteq> Plaintext"
  proof (cases "s_security cfg")
    case ImplicitTls
    with rest obtain l2 where h: "connect_with_policy env opts (s_host cfg) d l w2 = (Inr (l2, b), w')"
      "read_greeting (conn_new l2) = (Inr (), c)"
      by (auto simp: io_bind_Inr io_lift_Inr inside_Inr)
    then show ?thesis using connect_with_policy_Inr [OF h(1)] read_greeting_keeps [OF h(2)] ImplicitTls
      unfolding secured_def by (intro exI [of _ l] exI [of _ l2]) (auto simp: cleartext_def)
  next
    case StartTls
    with rest obtain l1 l2 w3 where h: "upgrade_starttls cfg (conn_new l) w2 = (Inr l1, w3)"
      "connect_with_policy env opts (s_host cfg) d l1 w3 = (Inr (l2, b), w')" "c = conn_new l2"
      by (auto simp: io_bind_Inr io_lift_Inr)
    then show ?thesis using upgrade_Inr [OF h(1)] connect_with_policy_Inr [OF h(2)] StartTls
      unfolding secured_def by (intro exI [of _ l1] exI [of _ l2]) (auto simp: cleartext_def)
  qed (use that in simp)
  with d plain show ?thesis by (intro exI [of _ d] exI [of _ w1] exI [of _ l] exI [of _ w2]) auto
qed

text \<open>C6: A submission connection opened under the transport policy is as strong as the policy
  demands. Nothing is dialled before the decision; under a decision that requires TLS it is
  encrypted, to the name of the configured host; the decision itself, with its TLSA records, is
  what the handshake gets; and after STARTTLS nothing read or written in the clear is left:
  only \<open>EHLO\<close> and \<open>STARTTLS\<close> went out before the handshake.\<close>

theorem connection_honours_policy:
  assumes "connect env cfg opts w = (Inr (c, b), w')"
    and "policy env = Some (prepare io tcfg ctx)" "config_enabled tcfg"
  shows "\<exists>d w1 l w2. prepare io tcfg ctx (s_host cfg) (s_port cfg) w = (Inr d, w1)
    \<and> dial env (s_host cfg) (s_port cfg) w1 = (Inr l, w2)
    \<and> (if s_security cfg = Plaintext then \<not> requires_tls d else secured env cfg opts d l w2 c b w')
    \<and> (dane tcfg = DaneRequired \<longrightarrow> has_dane d \<and> s_security cfg \<noteq> Plaintext)
    \<and> (mta_sts tcfg = StsRequired \<longrightarrow> (has_dane d \<or> sts_enforce d) \<and> s_security cfg \<noteq> Plaintext)"
proof -
  obtain d w1 l w2 where d: "decide env cfg w = (Inr d, w1)" "dial env (s_host cfg) (s_port cfg) w1 = (Inr l, w2)"
    "if s_security cfg = Plaintext then \<not> requires_tls d else secured env cfg opts d l w2 c b w'"
    using connect_Inr [OF assms(1)] by blast
  from d(1) assms(2) have p: "prepare io tcfg ctx (s_host cfg) (s_port cfg) w = (Inr d, w1)"
    by (auto simp: decide_def split: prod.splits sum.splits)
  note q = prepare_demands [OF p assms(3)]
  have "requires_tls d" if "has_dane d \<or> sts_enforce d" using that q by (auto simp: requires_tls_def)
  then show ?thesis using p d(2,3) q by (intro exI [of _ d] exI [of _ w1] exI [of _ l] exI [of _ w2]) auto
qed

text \<open>Implicit TLS to a host with an enforced policy; the server greets inside TLS.\<close>

definition tls_env :: "(nat \<times> cached_sts option) pnet smtp_env" where
  "tls_env = \<lparr>dial = (\<lambda>h p w. (Inr (wire (chat [] [])), w)), root_ok = (\<lambda>r. True),
     handshake = (\<lambda>n rs d l w. (Inr (wire (chat [''220 hi'' @ EOL] []), None), w)),
     policy = Some (prepare sample_io sample_config sample_context)\<rparr>"

definition tls_config :: submit_config where
  "tls_config = \<lparr>s_host = ''mail.example.org'', s_port = 25, s_security = ImplicitTls,
     s_credentials = NoCredentials, s_ehlo_name = ''me''\<rparr>"

definition no_override :: tls_options where
  "no_override = \<lparr>server_name_override = None, extra_roots = []\<rparr>"

lemma sample_greeting: "read_greeting (chat [''220 hi'' @ EOL] []) = (Inr (), chat [] [])"
proof -
  have "reply_line ''220 hi'' = Inr (220, True, ''hi'')"
    using reply_line_code [of "''220''" "''hi''"] by (simp add: is_ascii_def is_digit_def dec_value_simps)
  then have "read_reply (chat [''220 hi'' @ EOL] []) = (Inr \<lparr>code = 220, texts = [''hi'']\<rparr>, chat [] [])"
    by (intro read_reply_piece) (simp_all add: is_ascii_def)
  then show ?thesis by (simp add: read_greeting_def io_bind_def expect_def io_lift_def)
qed

lemma sample_connect:
  "connect tls_env tls_config no_override (fresh_net (1000, None)) = (Inr (chat [] [], None), once_fetched)"
proof -
  have "check_ehlo_name ''me'' = Inr ()" by code_simp
  moreover have "decide tls_env tls_config (fresh_net (1000, None)) = (Inr enforced, once_fetched)"
    using first_connection by (simp add: decide_def tls_env_def tls_config_def)
  moreover have "conn_new (wire (chat ps w)) = chat ps w" for ps w by (simp add: chat_def conn_new_def)
  ultimately show ?thesis using sample_greeting
    by (simp add: connect_def connect_with_policy_def io_bind_def checked_def io_lift_def map_err_def outer_step_def inside_def
        tls_env_def tls_config_def no_override_def)
qed

theorem connection_honours_policy_witness:
  "\<exists>d w1 l w2. prepare sample_io sample_config sample_context ''mail.example.org'' 25 (fresh_net (1000, None)) = (Inr d, w1)
    \<and> dial tls_env ''mail.example.org'' 25 w1 = (Inr l, w2)
    \<and> secured tls_env tls_config no_override d l w2 (chat [] []) None once_fetched"
proof -
  have "policy tls_env = Some (prepare sample_io sample_config sample_context)" "config_enabled sample_config"
    by (simp_all add: tls_env_def config_enabled_def sample_config_def)
  from connection_honours_policy [OF sample_connect this] show ?thesis
    by (auto simp: tls_config_def)
qed

section \<open>SCRAM\<close>

text \<open>
  The authentication message of RFC 5802 for the client's nonce, the server's first message and
  nonce, and the channel binding; and the proof only a server that knows the salted password can
  give for it.
\<close>

definition auth_message ::
  "sasl_lib \<Rightarrow> string \<Rightarrow> string \<Rightarrow> (string \<times> string) option \<Rightarrow> string \<Rightarrow> string \<Rightarrow> string" where
  "auth_message k user nonce binding first nonce' =
    ''n='' @ scram_escape user @ '',r='' @ nonce @ '','' @ first @ '',c=''
    @ b64 k (case binding of Some (n, b) \<Rightarrow> ''p='' @ n @ '',,'' @ b | None \<Rightarrow> ''n,,'') @ '',r='' @ nonce'"

definition server_proof :: "sasl_lib \<Rightarrow> string \<Rightarrow> string \<Rightarrow> nat \<Rightarrow> string \<Rightarrow> string" where
  "server_proof k pass salt iterations msg =
    hmac_sha256 k (hmac_sha256 k (pbkdf2_sha256 k pass salt iterations) ''Server Key'') msg"

definition proven :: "sasl_lib \<Rightarrow> string \<Rightarrow> string \<Rightarrow> string \<Rightarrow> (string \<times> string) option \<Rightarrow> string \<Rightarrow> string \<Rightarrow> bool" where
  "proven k user pass nonce binding first final \<longleftrightarrow> (\<exists>nonce' salt iterations sig.
     prefix nonce nonce' \<and> ''v='' @ sig \<in> set (split_on (CHR '','') final)
     \<and> b64_read k sig = Some (server_proof k pass salt iterations (auth_message k user nonce binding first nonce')))"

lemma scram_results:
  "rbind r f = Inr y \<longleftrightarrow> (\<exists>x. r = Inr x \<and> f x = Inr y)" "ok_or x e = Inr z \<longleftrightarrow> x = Some z"
  "guard_err b e = Inr u \<longleftrightarrow> \<not> b"
  by (auto simp: rbind_def ok_or_def guard_err_def split: sum.splits option.splits)

lemma map_err_Inr: "map_err f r = Inr x \<longleftrightarrow> r = Inr x"
  by (auto simp: map_err_def split: sum.splits)

lemma client_final_Inr:
  assumes "client_final k (fst (scram_new user pass nonce binding)) first = Inr (s, final)"
  shows "\<exists>nonce' salt iterations. prefix nonce nonce'
    \<and> sc_server_signature s = server_proof k pass salt iterations (auth_message k user nonce binding first nonce')"
  using assms
  by (auto simp: client_final_def scram_results Let_def scram_new_def server_proof_def
      auth_message_def split: option.splits prod.splits)
    (intro exI conjI, assumption, rule refl)+

lemma scram_verify_Inr:
  assumes "scram_verify k s final = Inr ()"
  shows "\<exists>sig. ''v='' @ sig \<in> set (split_on (CHR '','') final) \<and> b64_read k sig = Some (sc_server_signature s)"
  using assms
  by (auto simp: scram_verify_def scram_results find_Some_iff prefix_def in_set_conv_nth)

text \<open>The two replies that carry the server's messages, as they were read.\<close>

definition exchanged :: "sasl_lib \<Rightarrow> string \<Rightarrow> string \<Rightarrow> string \<Rightarrow> string \<Rightarrow> (string \<times> string) option \<Rightarrow> conn \<Rightarrow> bool" where
  "exchanged k nonce mech user pass binding c \<longleftrightarrow> (\<exists>r1 c1 answer r2 c2 first final.
     smtp_command (''AUTH '' @ mech @ '' '' @ b64 k (snd (scram_new user pass nonce binding)) @ EOL) c = (Inr r1, c1)
     \<and> decode_challenge k r1 = Inr first \<and> smtp_command (b64 k answer @ EOL) c1 = (Inr r2, c2)
     \<and> decode_challenge k r2 = Inr final \<and> proven k user pass nonce binding first final)"

lemma auth_scram_Inr:
  assumes "auth_scram k nonce mech user pass binding c = (Inr (), c')"
  shows "exchanged k nonce mech user pass binding c"
proof -
  obtain s0 cf where n: "scram_new user pass nonce binding = (s0, cf)" by force
  obtain r1 c1 first s final r2 c2 t where x:
    "smtp_command (''AUTH '' @ mech @ '' '' @ b64 k cf @ EOL) c = (Inr r1, c1)" "decode_challenge k r1 = Inr first"
    "client_final k s0 first = Inr (s, final)" "smtp_command (b64 k final @ EOL) c1 = (Inr r2, c2)"
    "decode_challenge k r2 = Inr t" "scram_verify k s t = Inr ()"
    using assms by (auto simp: auth_scram_def n step_results map_err_Inr split: if_splits)
  have "proven k user pass nonce binding first t"
    using client_final_Inr [of k user pass nonce binding first s final] scram_verify_Inr [OF x(6)] x(3) n
    unfolding proven_def by (metis fst_conv)
  then show ?thesis using x n unfolding exchanged_def by fastforce
qed

text \<open>C12: Authentication with SCRAM succeeds only when the server has proved that it knows the
  password, over the client's own nonce and, with \<open>-PLUS\<close>, over the channel binding of this TLS
  connection: an impostor's positive reply is not enough. \<open>-PLUS\<close> is used whenever the
  connection has a binding and the server offers it, and \<open>ScramExact\<close> never falls back.\<close>

theorem scram_proves_the_server:
  assumes "authenticate k nonce creds caps binding c = (Inr (), c')"
    and "creds = Scram user pass \<or> (\<exists>plus. creds = ScramExact user pass plus)"
  shows "\<exists>plus. exchanged k nonce (if plus then SCRAM_PLUS else ''SCRAM-SHA-256'') user pass
      (if plus then binding else None) c
    \<and> (plus \<longrightarrow> binding \<noteq> None \<and> offers caps SCRAM_PLUS)
    \<and> (case creds of ScramExact _ _ exact_plus \<Rightarrow> plus = exact_plus
       | _ \<Rightarrow> plus = (binding \<noteq> None \<and> offers caps SCRAM_PLUS))"
proof -
  obtain plus where p: "auth_scram_either k nonce caps binding user pass plus c = (Inr (), c')"
    "case creds of ScramExact _ _ exact_plus \<Rightarrow> plus = exact_plus
       | _ \<Rightarrow> plus = (binding \<noteq> None \<and> offers caps SCRAM_PLUS)"
    using assms by (auto simp: authenticate_def step_results resolve_credentials_def)
  then have "exchanged k nonce (if plus then SCRAM_PLUS else ''SCRAM-SHA-256'') user pass
      (if plus then binding else None) c" "plus \<longrightarrow> binding \<noteq> None \<and> offers caps SCRAM_PLUS"
    by (auto simp: auth_scram_either_def step_results require_def split: if_splits dest: auth_scram_Inr)
  with p(2) show ?thesis by blast
qed

text \<open>A server that proves itself with the toy hash; the success reply carries the proof.\<close>

lemma sample_scram:
  "authenticate toy_sasl ''n'' (Scram ''u'' ''p'') no_caps None
     (chat [''334 r=nx,s=s,i=1'' @ EOL, ''235 v=s'' @ EOL] [])
   = (Inr (), chat [] (''AUTH SCRAM-SHA-256 n,,n=u,r=n'' @ EOL @ ''c=n,,,r=nx,p='' @ xor_bytes ''s'' ''s'' @ EOL))"
proof -
  have r: "reply_line ''334 r=nx,s=s,i=1'' = Inr (334, True, ''r=nx,s=s,i=1'')" "reply_line ''235 v=s'' = Inr (235, True, ''v=s'')"
    using reply_line_code [of "''334''" "''r=nx,s=s,i=1''"] reply_line_code [of "''235''" "''v=s''"]
    by (simp_all add: is_ascii_def is_digit_def dec_value_simps)
  have c: "smtp_command t (chat [''334 r=nx,s=s,i=1'' @ EOL, ''235 v=s'' @ EOL] w)
      = (Inr \<lparr>code = 334, texts = [''r=nx,s=s,i=1'']\<rparr>, chat [''235 v=s'' @ EOL] (w @ t))"
    "smtp_command t (chat [''235 v=s'' @ EOL] w) = (Inr \<lparr>code = 235, texts = [''v=s'']\<rparr>, chat [] (w @ t))" for t w
    by (intro chat_command r; simp add: is_ascii_def)+
  have d: "decode_challenge toy_sasl \<lparr>code = n, texts = [''r=nx,s=s,i=1'']\<rparr> = Inr ''r=nx,s=s,i=1''"
    "decode_challenge toy_sasl \<lparr>code = n, texts = [''v=s'']\<rparr> = Inr ''v=s''" for n
    by (simp_all add: decode_challenge_def toy_sasl_def) code_simp+
  have u: "parse_uint U32_MAX ''1'' = Some 1"
    by (simp add: parse_uint_def parse_digits_def is_digit_def dec_value_simps U32_MAX_def)
  have f: "rfold server_field (split_on (CHR '','') ''r=nx,s=s,i=1'') \<lparr>sf_nonce = None, sf_salt = None, sf_iter = None\<rparr>
      = Inr \<lparr>sf_nonce = Some ''nx'', sf_salt = Some ''s'', sf_iter = Some ''1''\<rparr>"
    by code_simp
  let ?s = "\<lparr>sc_password = ''p'', sc_gs2 = ''n,,'', sc_cbind = [], sc_nonce = ''n'', sc_first_bare = ''n=u,r=n'',
    sc_server_signature = replicate 32 NUL\<rparr>"
  have n: "scram_new ''u'' ''p'' ''n'' None = (?s, ''n,,n=u,r=n'')"
    by (simp add: scram_new_def scram_escape_def Let_def)
  have cf: "client_final toy_sasl ?s ''r=nx,s=s,i=1''
      = Inr (?s\<lparr>sc_server_signature := ''s''\<rparr>, ''c=n,,,r=nx,p='' @ xor_bytes ''s'' ''s'')"
    unfolding client_final_def f by (simp add: rbind_def ok_or_def guard_err_def u toy_sasl_def Let_def)
  have v: "scram_verify toy_sasl (?s\<lparr>sc_server_signature := ''s''\<rparr>) ''v=s'' = Inr ()"
    by (simp add: scram_verify_def rbind_def ok_or_def guard_err_def toy_sasl_def)
  have e: "b64 toy_sasl t = t" for t by (simp add: toy_sasl_def)
  show ?thesis using c [simplified] n cf v
    by (simp add: authenticate_def resolve_credentials_def auth_scram_either_def require_def auth_scram_def d checked_def
        map_err_def expect_def io_bind_def io_lift_def no_caps_def e)
qed

theorem scram_proves_the_server_witness:
  "exchanged toy_sasl ''n'' ''SCRAM-SHA-256'' ''u'' ''p'' None (chat [''334 r=nx,s=s,i=1'' @ EOL, ''235 v=s'' @ EOL] [])"
  using scram_proves_the_server [OF sample_scram, of "''u''" "''p''"] by auto

end
