(* ===== verification/Spec2Isabelle.thy ===== *)
theory Spec2Isabelle
  imports Builder_Rules Sieve_Unparse Sieve_Policy Sieve_Merge Sieve_Local_Thms Egress_Thms Transport_Thms
    Smtp_Secure
begin

text \<open>
  Mailwoman is a webmail and mail engine written as a workspace of Rust crates. This
  development models four of them: \<open>mw-sieve\<close> (\<open>src/crates/mw-sieve/src\<close>), the mail-filter
  language, \<open>mw-egress\<close> (\<open>src/crates/mw-egress/src\<close>), the one way out to the network,
  \<open>mw-mail-transport\<close> (\<open>src/crates/mw-mail-transport/src\<close>), the policies for the next SMTP hop,
  with the part of the store and of the server that caches them, and \<open>mw-smtp\<close>
  (\<open>src/crates/mw-smtp/src\<close>), the submission client.

  Conventions. A \<open>String\<close> or \<open>&str\<close> is the list of its bytes; what Rust's \<open>core\<close> does with it is
  in \<open>Rust_Str\<close>, addresses of \<open>std::net\<close> are in \<open>Rust_Net\<close>. \<open>Result<T, E>\<close> is \<open>'e + 'a\<close> and the \<open>?\<close>
  operator is \<open>rbind\<close>; a panic (a slice off a character boundary, an index out of range, a
  missing block) is \<open>None\<close>. Machine integers are words where their width shows and naturals
  with the bound written out otherwise. A struct is a record, an enum a datatype, a mutable
  state a record that is passed and returned.

  The rule builder of \<open>mw-sieve\<close>. \<open>lib.rs\<close> is \<open>Sieve_Model\<close>: rules, conditions, actions.
  \<open>codegen.rs\<close> (\<open>Sieve_Codegen\<close>) writes rules as Sieve source, \<open>parse.rs\<close> (\<open>Sieve_Parse\<close>) reads that
  subset back over the tokenizer of \<open>lint.rs\<close>, which also lints (\<open>Sieve_Lint\<close>), and \<open>eval.rs\<close>
  (\<open>Sieve_Eval\<close>) runs rules in the engine. \<open>Sieve_Lexemes\<close> is the interface between writer and
  readers: generated text is a list of lexemes, and the locales there say what a scanner does
  at a lexeme; \<open>Sieve_Generated\<close> gives the writer's lexemes, \<open>Sieve_Roundtrip\<close> and
  \<open>Sieve_Lint_Clean\<close> interpret the locales for the readers. \<open>Builder_Rules\<close> states what follows:
  the round trips and their exact losses, lint-clean output, what the evaluator fires, what
  the iterative glob matcher decides and where it errs.

  Full scripts. \<open>grammar.rs\<close> is \<open>Sieve_Script\<close> (syntax), \<open>Sieve_Lexer\<close> (the lexer with line and
  column) and \<open>Sieve_Grammar\<close> (recursive descent); \<open>Sieve_Tree\<close> gives the reference grammar as an
  inductive relation and \<open>Sieve_Tokens\<close> with \<open>Sieve_Unparse\<close> the completeness of the parser on
  printed scripts. \<open>extensions.rs\<close> (\<open>Sieve_Extensions\<close>) validates a script and lists what it uses,
  \<open>policy.rs\<close> (\<open>Sieve_Policy\<close>) decides on that list, \<open>managed.rs\<close> (\<open>Sieve_Managed\<close>, \<open>Sieve_Merge\<close>)
  edits the marked blocks inside a hand-written script, and \<open>local.rs\<close> with \<open>local_date.rs\<close>
  (\<open>Sieve_Local\<close>, \<open>Sieve_Local_Safe\<close>, \<open>Sieve_Local_Thms\<close>) executes a validated script. The theorems:
  parser soundness and completeness, spans, the policy computed exactly and binding on the
  execution, merges that keep the hand-written text and read back the merged rules, absence
  of panics and of errors for validated scripts, the numeric comparator.

  Egress. A request is made for a traffic class (\<open>class.rs\<close>, \<open>Egress_Class\<close>). The plan (\<open>plan.rs\<close>,
  \<open>Egress_Plan\<close>) holds the operator's proxy routes by scope and class and the allowlist of
  internal destinations (\<open>allow.rs\<close>, \<open>Egress_Allow\<close>). \<open>send_with\<close> (\<open>Egress_Proxy\<close>) takes the
  selected route, or else the direct path. The direct path (\<open>lib.rs\<close>, \<open>Egress_Send\<close>) validates
  the URL, resolves its host once under an address gate, pins the admitted address, sends one
  hop, caps the body, and resolves every redirect anew. The proxied path (\<open>proxy/mod.rs\<close>,
  \<open>proxy/http.rs\<close>, parts of \<open>proxy/stream.rs\<close>; \<open>Egress_Proxy\<close>) dials the proxy, negotiates a tunnel
  by the byte-level handshakes of \<open>Egress_Wire\<close> (\<open>proxy/socks5.rs\<close>, \<open>proxy/connect.rs\<close>,
  \<open>proxy/remote_dns.rs\<close>), adds TLS to the origin and exchanges one request. \<open>Egress_Request\<close> has
  the options of a request with their checks (\<open>lib.rs\<close>, \<open>api.rs\<close>, \<open>plugin_http.rs\<close>, \<open>timeouts.rs\<close>)
  and the builders; \<open>response_metadata.rs\<close> and the counters are fields of the state \<open>net\<close>.
  \<open>Egress_Policy\<close> has the address predicates, \<open>Egress_Networks\<close> their reference as tables of
  networks with the proof that the bit tests compute it. \<open>Rust_Net_Text\<close> shows that printed
  addresses read back, \<open>Egress_Allow_Text\<close> the same of allowlist destinations. In \<open>Egress_Safe\<close>
  and \<open>Egress_Safe_Proxy\<close> the locale \<open>gated\<close> says what an address gate promises and proves, once,
  what either path then does to the outside; \<open>Egress_Thms\<close> interprets it for the strict policy
  and for the gate of a plan and states the properties of a whole send.

  SMTP transport policies. \<open>Transport_Sts\<close> has the configuration and MTA-STS policies (\<open>lib.rs\<close>,
  \<open>sts.rs\<close>): text, match, lifetime, discovery. \<open>Transport_Dane\<close> has DANE (\<open>dns.rs\<close>, \<open>tlsa.rs\<close>): which
  TLSA records apply to a host and which certificates they accept. \<open>Transport_Service\<close>
  (\<open>service.rs\<close>) decides before each connection: DANE, else MTA-STS from the cache and its
  refresh, through the egress send. The locale \<open>policy_cache\<close> there is the contract of the
  cache; \<open>Store_Policy_Cache\<close> models the rows of the settings table
  (\<open>mw-store/src/smtp_policy_cache.rs\<close>) and the server's adapter
  (\<open>mw-server/src/smtp_transport_policy.rs\<close>) and interprets the locale for them.
  \<open>Transport_Facts\<close> shows that normalized names are fixed and that a parsed policy is well
  formed; \<open>Transport_Thms\<close> states the properties: no decision weaker than the configuration or
  a live policy, TLSA records only from validated answers, no fallback from DANE, a cache that
  never loses a live policy, and the lapse of policies shorter than the retry limit.

  Submission. \<open>Smtp_Addr\<close> (\<open>addr.rs\<close>) checks envelope addresses. \<open>Smtp_Conn\<close> (\<open>conn.rs\<close>) is the
  connection: a record with the peer's bytes still to come and the bytes written, replies read
  line by line, the commands, and the transmission by \<open>DATA\<close> or \<open>BDAT\<close>. \<open>Smtp_Auth\<close> has the SASL
  mechanisms (\<open>sasl.rs\<close>, \<open>authenticate\<close>) and \<open>Net_Auth\<close> the allow-list of mechanisms
  (\<open>mw-net/src/auth.rs\<close>); \<open>Smtp_Submit\<close> (\<open>lib.rs\<close>, \<open>dsn_support.rs\<close>, the checks of \<open>tls.rs\<close>) opens the
  connection as the transport policy decides, runs the session and keeps the observed DSN
  support. \<open>Smtp_Message\<close> gives the reference receiver and shows that it sees the lines of the
  message and no other end; \<open>Smtp_Transcript\<close> what a transaction writes and what its errors say of
  the delivery; \<open>Smtp_Panic\<close> the one way a server makes the client panic and that ASCII never
  does; \<open>Smtp_Secure\<close> that a connection is as strong as the policy demands, composed with
  \<open>prepare\<close>, and that SCRAM ends with the server's proof.

  Bounds and fuel. The script parser counts \<open>room\<close> down from \<open>MAX_DEPTH + 1\<close> where the code counts
  \<open>depth\<close> up, and its loops are bounded by the tokens left: every turn that succeeds consumes
  one, so the bound is never met. Other loops recurse on the text or list that is left, or
  carry a termination proof. Local execution stops at \<open>ACTION_LIMIT\<close> actions because the code
  does. A fetch makes \<open>hop_count\<close> hops, one more than the redirects the code allows, and ends
  with the error the code has after its loop; a proxy's answer is read up to
  \<open>MAX_RESPONSE_HEAD\<close> bytes, as in the code. The DNS loops follow 8 names and a handle asks 96
  questions, as the code's do.

  Parameters. Code outside the repository is an argument: the calendar of the crate \<open>chrono\<close>
  (in \<open>Sieve_Local\<close>); URLs, header values and certificates (\<open>web_lib\<close>); the resolver, the HTTP
  clients, sockets, TLS and the clocks (\<open>outside\<close>), which read and change an arbitrary world. No
  law is assumed of \<open>web_lib\<close> or \<open>outside\<close>. For SMTP policies they are the DNSSEC resolver (\<open>dns\<close>), X.509
  and hashes (\<open>pki\<close>), the codec of DNS messages, and JSON (\<open>json_lib\<close>), of which only
  \<open>json_codec\<close> is assumed: a written policy reads back. A failing database statement rolls its
  transaction back (\<open>db_run\<close>); rows are scanned in the order of the table. A resolver answers with addresses, to which the port
  asked for is added. Cancellation of tasks is not modelled: what a clock cut off is an operation that
  failed in a world whose clock is late, and the direct path stops at the first suspension
  past its total time. A connection to a proxy is a \<open>pipe\<close>: the bytes the peer will send, how
  its side ends, and how many bytes a write takes; a \<open>link\<close> of the submission client is the same
  for a stream, in the pieces single reads return. Base64 and the hashes of SCRAM are \<open>sasl_lib\<close>,
  IDNA is a function, dialling and TLS are \<open>smtp_env\<close>; no law is assumed of them. A panic of the
  submission client is the value \<open>Panicked\<close>.

  Not modelled. The TLS setup of \<open>mw-smtp\<close> (version floor, handshake errors, the channel binding
  from the certificate) is calls into rustls and x509-cert. The ManageSieve client of \<open>mw-sieve\<close> and the TLS configuration and byte
  forwarding of \<open>proxy/stream.rs\<close> are network code around libraries. The \<open>Debug\<close> impls carry no
  behaviour. Of the TLS verifier the signature checks are rustls's own. \<open>for_endpoint\<close> of the
  server reads settings and the environment. The calls of one process to the policy service run
  one after another on its refresh table; other processes may change everything between two
  steps. The other crates of the workspace (the mail engine, the HTTP server, the store,
  the protocol clients) are not reached: most of their code is SQL, HTTP routes and
  calls into libraries, and what is logic there is left for later work.
\<close>

end
